(* ===== verification/Prelude.thy ===== *)
theory Prelude
  imports Main "HOL-Library.Monad_Syntax"
begin

text \<open>
  Shared material of the development: the fact collections the component theories extend, the
  pieces of the C++ library the code generator relies on (whitespace trimming, word extraction
  from a string stream, splitting at a separator, decimal printing and reading of integers), and
  generic lemmas about them.

  A C++ function that can leave by an exception (a failed \<open>solAssert\<close>,
  \<open>solUnimplemented\<close>, a failed \<open>boost::lexical_cast\<close>, an out-of-range \<open>at\<close>) is a function
  into \<open>option\<close>: \<open>None\<close> is the exception. A C++ function that in addition returns a
  \<open>std::optional\<close> has a result of type \<open>'a option option\<close>: \<open>None\<close> is the exception,
  \<open>Some None\<close> the empty optional, \<open>Some (Some x)\<close> a value.
\<close>

section \<open>Fact collections\<close>

named_theorems ast_simps \<open>recognisers and constructors of the instruction tree\<close>
named_theorems stack_simps \<open>pointwise effect of the stack primitives\<close>
named_theorems rule_defs \<open>definitions of the rewrite rules of the peephole optimiser\<close>
named_theorems gen_simps \<open>the instruction built by gen for each command text\<close>

section \<open>Exceptions\<close>

type_synonym 'a exc = "'a option"

definition solAssert :: "bool \<Rightarrow> unit exc" where
  "solAssert b = (if b then Some () else None)"

lemma solAssert_bind [simp]: "solAssert b \<bind> f = (if b then f () else None)"
  by (simp add: solAssert_def)

lemma solAssert_Some [simp]: "solAssert b = Some u \<longleftrightarrow> b"
  by (simp add: solAssert_def)

text \<open>
  The shape of every rule chain of the optimiser: \<open>if (auto r = f(..)) return r;\<close> followed by the
  next rule.
\<close>

definition orelse :: "'a option exc \<Rightarrow> 'a option exc \<Rightarrow> 'a option exc" where
  "orelse a b = (case a of None \<Rightarrow> None | Some None \<Rightarrow> b | Some (Some r) \<Rightarrow> Some (Some r))"

fun first_of :: "'a option exc list \<Rightarrow> 'a option exc" where
  "first_of [] = Some None"
| "first_of (r # rs) = orelse r (first_of rs)"

lemma orelse_Some [simp]:
  "orelse a b = Some (Some r) \<longleftrightarrow> a = Some (Some r) \<or> (a = Some None \<and> b = Some (Some r))"
  by (auto simp: orelse_def split: option.splits)

lemma first_of_SomeD: "first_of rs = Some (Some r) \<Longrightarrow> \<exists>x \<in> set rs. x = Some (Some r)"
  by (induction rs) auto

section \<open>Characters and words\<close>

definition is_space :: "char \<Rightarrow> bool" where
  "is_space c = (c \<in> set [CHR '' '', CHR 0x09, CHR 0x0A, CHR 0x0B, CHR 0x0C, CHR 0x0D])"

definition isdigit :: "char \<Rightarrow> bool" where
  "isdigit c = (c \<in> set ''0123456789'')"

text \<open>\<open>boost::algorithm::trim_copy\<close>.\<close>

definition trim :: "string \<Rightarrow> string" where
  "trim s = rev (dropWhile is_space (rev (dropWhile is_space s)))"

text \<open>\<open>iss >> op >> param\<close> on a fresh \<open>std::istringstream\<close>.\<close>

definition word1 :: "string \<Rightarrow> string" where
  "word1 s = takeWhile (\<lambda>c. \<not> is_space c) (dropWhile is_space s)"

definition after_word1 :: "string \<Rightarrow> string" where
  "after_word1 s = dropWhile (\<lambda>c. \<not> is_space c) (dropWhile is_space s)"

definition word2 :: "string \<Rightarrow> string" where
  "word2 s = word1 (after_word1 s)"

definition starts_with :: "string \<Rightarrow> string \<Rightarrow> bool" where
  "starts_with s p = (take (length p) s = p)"

definition ends_with :: "string \<Rightarrow> string \<Rightarrow> bool" where
  "ends_with s p = starts_with (rev s) (rev p)"

text \<open>
  A text none of whose characters is whitespace or a semicolon: the opcode and argument texts the
  code generator composes are of this form.
\<close>

definition plain :: "string \<Rightarrow> bool" where
  "plain s = list_all (\<lambda>c. \<not> is_space c \<and> c \<noteq> CHR '';'') s"

lemma plain_Nil [simp]: "plain []"
  by (simp add: plain_def)

lemma plain_Cons: "plain (c # s) \<longleftrightarrow> \<not> is_space c \<and> c \<noteq> CHR '';'' \<and> plain s"
  by (simp add: plain_def)

lemma plain_append [simp]: "plain (s @ t) \<longleftrightarrow> plain s \<and> plain t"
  by (simp add: plain_def)

lemma is_space_space [simp]: "is_space (CHR '' '')"
  by (simp add: is_space_def)

lemma plain_dropWhile [simp]: "plain s \<Longrightarrow> dropWhile is_space s = s"
  by (cases s) (auto simp: plain_Cons)

lemma plain_rev [simp]: "plain (rev s) = plain s"
  by (simp add: plain_def list_all_iff)

lemma trim_plain [simp]: "plain s \<Longrightarrow> trim s = s"
  by (simp add: trim_def)

lemma takeWhile_plain [simp]: "plain s \<Longrightarrow> takeWhile (\<lambda>c. \<not> is_space c) s = s"
  by (induction s) (auto simp: plain_Cons)

lemma dropWhile_plain_word [simp]: "plain s \<Longrightarrow> dropWhile (\<lambda>c. \<not> is_space c) s = []"
  by (induction s) (auto simp: plain_Cons)

lemma word1_plain: "plain s \<Longrightarrow> word1 s = s"
  by (simp add: word1_def)

lemma word2_plain: "plain s \<Longrightarrow> word2 s = []"
  by (simp add: word2_def after_word1_def word1_def)

lemma takeWhile_word_sep:
  "plain s \<Longrightarrow> takeWhile (\<lambda>c. \<not> is_space c) (s @ CHR '' '' # t) = s"
  by (induction s) (auto simp: plain_Cons)

lemma dropWhile_word_sep:
  "plain s \<Longrightarrow> dropWhile (\<lambda>c. \<not> is_space c) (s @ CHR '' '' # t) = CHR '' '' # t"
  by (induction s) (auto simp: plain_Cons)

lemma dropWhile_space_word:
  "plain s \<Longrightarrow> s \<noteq> [] \<Longrightarrow> dropWhile is_space (s @ t) = s @ t"
  by (cases s) (auto simp: plain_Cons)

lemma word1_sep: "plain s \<Longrightarrow> s \<noteq> [] \<Longrightarrow> word1 (s @ CHR '' '' # t) = s"
  by (simp add: word1_def dropWhile_space_word takeWhile_word_sep)

lemma word2_sep: "plain s \<Longrightarrow> s \<noteq> [] \<Longrightarrow> plain t \<Longrightarrow> word2 (s @ CHR '' '' # t) = t"
  by (simp add: word2_def after_word1_def dropWhile_space_word dropWhile_word_sep word1_def)

section \<open>Decimal integers\<close>

definition digit_char :: "nat \<Rightarrow> char" where
  "digit_char d = ''0123456789'' ! d"

definition digit_val :: "char \<Rightarrow> nat option" where
  "digit_val c = (if isdigit c then Some (of_char c - 48) else None)"

fun string_of_nat :: "nat \<Rightarrow> string" where
  "string_of_nat n =
     (if n < 10 then [digit_char n] else string_of_nat (n div 10) @ [digit_char (n mod 10)])"

declare string_of_nat.simps [simp del]

text \<open>
  \<open>solidity::util::toString\<close> and \<open>std::to_string\<close> on integers: the decimal text written by an
  output stream.
\<close>

definition toString :: "int \<Rightarrow> string" where
  "toString v = (if v < 0 then CHR ''-'' # string_of_nat (nat (- v)) else string_of_nat (nat v))"

fun read_digits :: "nat \<Rightarrow> nat \<Rightarrow> string \<Rightarrow> nat option" where
  "read_digits radix acc [] = Some acc"
| "read_digits radix acc (c # s) =
     (case digit_val c of
        None \<Rightarrow> None
      | Some d \<Rightarrow> if d < radix then read_digits radix (radix * acc + d) s else None)"

definition read_nat :: "nat \<Rightarrow> string \<Rightarrow> nat option" where
  "read_nat radix s = (if s = [] then None else read_digits radix 0 s)"

text \<open>
  \<open>boost::lexical_cast<int>\<close>: an optional sign and decimal digits, nothing else, and the value in
  the range of a 32 bit \<open>int\<close>; anything else raises \<open>bad_lexical_cast\<close>.
\<close>

definition int_fits :: "int \<Rightarrow> bool" where
  "int_fits v = (- (2 ^ 31) \<le> v \<and> v < 2 ^ 31)"

definition lexical_cast_int :: "string \<Rightarrow> int exc" where
  "lexical_cast_int s = do {
     v \<leftarrow> (case s of
            [] \<Rightarrow> None
          | c # t \<Rightarrow>
              if c = CHR ''-'' then map_option (\<lambda>n. - int n) (read_nat 10 t)
              else if c = CHR ''+'' then map_option int (read_nat 10 t)
              else map_option int (read_nat 10 s));
     _ \<leftarrow> solAssert (int_fits v);
     Some v }"

text \<open>
  \<open>bigint{text}\<close>: an optional minus sign and digits; a leading zero in front of further digits
  selects radix 8.
\<close>

definition bigint_of_nat_text :: "string \<Rightarrow> nat exc" where
  "bigint_of_nat_text s =
     (case s of
        c # d # t \<Rightarrow> if c = CHR ''0'' then read_nat 8 (d # t) else read_nat 10 s
      | _ \<Rightarrow> read_nat 10 s)"

definition bigint_of :: "string \<Rightarrow> int exc" where
  "bigint_of s =
     (case s of
        [] \<Rightarrow> None
      | c # t \<Rightarrow> if c = CHR ''-'' then map_option (\<lambda>n. - int n) (bigint_of_nat_text t)
                 else map_option int (bigint_of_nat_text s))"

lemma less10_cases:
  assumes "(d::nat) < 10"
  obtains "d = 0" | "d = 1" | "d = 2" | "d = 3" | "d = 4" | "d = 5" | "d = 6" | "d = 7" | "d = 8"
    | "d = 9"
proof -
  have "d = 0 \<or> d = 1 \<or> d = 2 \<or> d = 3 \<or> d = 4 \<or> d = 5 \<or> d = 6 \<or> d = 7 \<or> d = 8 \<or> d = 9"
    using assms by arith
  then show ?thesis using that by blast
qed

lemma digit_val_char [simp]: "d < 10 \<Longrightarrow> digit_val (digit_char d) = Some d"
  by (erule less10_cases) (simp_all add: digit_val_def digit_char_def isdigit_def)

lemma digit_char_plain:
  "d < 10 \<Longrightarrow> \<not> is_space (digit_char d) \<and> digit_char d \<noteq> CHR '';'' \<and> digit_char d \<noteq> CHR ''-''
     \<and> digit_char d \<noteq> CHR ''+'' \<and> isdigit (digit_char d)"
  by (erule less10_cases) (simp_all add: is_space_def digit_char_def isdigit_def)

lemma digit_char_zero [simp]: "d < 10 \<Longrightarrow> digit_char d = CHR ''0'' \<longleftrightarrow> d = 0"
  by (erule less10_cases) (simp_all add: digit_char_def)

lemma string_of_nat_nonempty [simp]: "string_of_nat n \<noteq> []"
  by (subst string_of_nat.simps) simp

lemma plain_string_of_nat [simp]: "plain (string_of_nat n)"
proof (induction n rule: string_of_nat.induct)
  case (1 n)
  then show ?case
    by (subst string_of_nat.simps) (simp add: plain_Cons digit_char_plain)
qed

lemma digits_string_of_nat: "list_all isdigit (string_of_nat n)"
proof (induction n rule: string_of_nat.induct)
  case (1 n)
  then show ?case
    by (subst string_of_nat.simps) (simp add: digit_char_plain)
qed

lemma read_digits_append:
  "read_digits r acc (s @ t) = (read_digits r acc s \<bind> (\<lambda>a. read_digits r a t))"
  by (induction r acc s rule: read_digits.induct) (auto split: option.splits)

lemma read_digits_string_of_nat: "read_digits 10 0 (string_of_nat n) = Some n"
proof (induction n rule: string_of_nat.induct)
  case (1 n)
  then show ?case
    by (subst string_of_nat.simps) (simp add: read_digits_append)
qed

lemma read_nat_string_of_nat [simp]: "read_nat 10 (string_of_nat n) = Some n"
  by (simp add: read_nat_def read_digits_string_of_nat)

lemma hd_string_of_nat: "hd (string_of_nat n) = CHR ''0'' \<longleftrightarrow> n = 0"
proof (induction n rule: string_of_nat.induct)
  case (1 n)
  then show ?case
    by (subst string_of_nat.simps) (simp add: div_eq_0_iff)
qed

lemma hd_string_of_nat_digit: "isdigit (hd (string_of_nat n))"
  using digits_string_of_nat [of n] string_of_nat_nonempty [of n]
  by (cases "string_of_nat n") auto

lemma string_of_nat_ConsD:
  "string_of_nat n = c # t \<Longrightarrow> isdigit c \<and> c \<noteq> CHR ''-'' \<and> c \<noteq> CHR ''+''"
  using hd_string_of_nat_digit [of n] by (auto simp: isdigit_def)

lemma string_of_nat_leading_zero: "string_of_nat n = CHR ''0'' # t \<Longrightarrow> t = []"
  using hd_string_of_nat [of n] by (simp add: string_of_nat.simps [of 0])

lemma bigint_of_nat_text_string_of_nat: "bigint_of_nat_text (string_of_nat n) = Some n"
proof (cases "string_of_nat n")
  case (Cons c t)
  then show ?thesis
    using string_of_nat_leading_zero [of n t] read_nat_string_of_nat [of n]
    by (cases t) (auto simp: bigint_of_nat_text_def simp del: read_nat_string_of_nat)
qed simp

text \<open>Reading back a printed integer gives the integer: for \<open>bigint\<close> always, for \<open>int\<close> in range.\<close>

lemma bigint_of_toString [simp]: "bigint_of (toString v) = Some v"
proof (cases "v < 0")
  case True
  then show ?thesis
    by (simp add: toString_def bigint_of_def bigint_of_nat_text_string_of_nat)
next
  case False
  obtain c t where ct: "string_of_nat (nat v) = c # t"
    by (cases "string_of_nat (nat v)") auto
  then have "c \<noteq> CHR ''-''" using string_of_nat_ConsD by blast
  then show ?thesis
    using False ct bigint_of_nat_text_string_of_nat [of "nat v"]
    by (simp add: toString_def bigint_of_def)
qed

lemma lexical_cast_int_toString [simp]: "int_fits v \<Longrightarrow> lexical_cast_int (toString v) = Some v"
proof (cases "v < 0")
  case True
  assume "int_fits v"
  with True show ?thesis
    by (simp add: toString_def lexical_cast_int_def)
next
  case False
  assume fits: "int_fits v"
  obtain c t where ct: "string_of_nat (nat v) = c # t"
    by (cases "string_of_nat (nat v)") auto
  then have "c \<noteq> CHR ''-''" "c \<noteq> CHR ''+''" using string_of_nat_ConsD by blast+
  then show ?thesis
    using False ct fits read_nat_string_of_nat [of "nat v"]
    by (simp add: toString_def lexical_cast_int_def del: read_nat_string_of_nat)
qed

lemma plain_toString [simp]: "plain (toString v)"
  by (simp add: toString_def plain_Cons is_space_def)

lemma toString_nonempty [simp]: "toString v \<noteq> []"
  by (simp add: toString_def)

end
