(* ===== verification/StrUtils.thy ===== *)
theory StrUtils
  imports Prelude
begin

text \<open>
  The namespace \<open>StrUtils\<close> of \<open>libsolidity/codegen/TVMCommons.cpp\<close>: bit strings (texts over
  \<open>0\<close> and \<open>1\<close>), the hexadecimal slice notation of the assembler (\<open>x\<close>, hex digits, and an optional
  completion tag \<open>_\<close>), and the conversions between the two and integers. Main results: the slice
  notation is a lossless encoding of bit strings, and the integer conversions are inverse to each
  other on the stated ranges.
\<close>

section \<open>Definitions\<close>

definition bitstring :: "string \<Rightarrow> bool" where
  "bitstring s = list_all (\<lambda>c. c = CHR ''0'' \<or> c = CHR ''1'') s"

definition CellBitLength :: nat where "CellBitLength = 1023"
definition MaxPushSliceBitLength :: nat where "MaxPushSliceBitLength = 997"
definition MaxSTSLICECONST :: nat where "MaxSTSLICECONST = 7 * 8"

text \<open>C++ division truncates towards zero; \<open>value % 2 == 0\<close> is evenness for either sign.\<close>

definition half :: "int \<Rightarrow> int" where
  "half v = sgn v * (\<bar>v\<bar> div 2)"

definition bit_char :: "int \<Rightarrow> char" where
  "bit_char v = (if even v then CHR ''0'' else CHR ''1'')"

fun low_bits :: "int \<Rightarrow> nat \<Rightarrow> string" where
  "low_bits v 0 = []"
| "low_bits v (Suc n) = bit_char v # low_bits (half v) n"

definition toBitString :: "int \<Rightarrow> nat \<Rightarrow> string" where
  "toBitString value bitlen =
     (let value = (if value < 0 then 2 ^ bitlen + value else value)
      in rev (low_bits value bitlen))"

definition hex_char :: "nat \<Rightarrow> char" where
  "hex_char d = ''0123456789abcdef'' ! d"

definition hex_val :: "char \<Rightarrow> nat exc" where
  "hex_val c =
     (if isdigit c then Some (of_char c - 48)
      else if c \<in> set ''abcdef'' then Some (of_char c - 87)
      else if c \<in> set ''ABCDEF'' then Some (of_char c - 55)
      else None)"

fun nibbles_to_hex :: "string \<Rightarrow> string exc" where
  "nibbles_to_hex (a # b # c # d # s) = do {
     x \<leftarrow> read_nat 2 [a, b, c, d];
     r \<leftarrow> nibbles_to_hex s;
     Some (hex_char x # r) }"
| "nibbles_to_hex [] = Some []"
| "nibbles_to_hex s = do { x \<leftarrow> read_nat 2 s; Some [hex_char x] }"

definition completion_pad :: "string \<Rightarrow> string" where
  "completion_pad s =
     (let t = s @ ''1'' in t @ replicate ((4 - length t mod 4) mod 4) (CHR ''0''))"

definition binaryStringToSlice :: "string \<Rightarrow> string exc" where
  "binaryStringToSlice s =
     (let haveCompletionTag = (length s mod 4 \<noteq> 0);
          padded = (if haveCompletionTag then completion_pad s else s)
      in do {
        ans \<leftarrow> nibbles_to_hex padded;
        Some (if haveCompletionTag then ans @ ''_'' else ans) })"

text \<open>
  The loop that removes the completion tag from the last hex digit: trailing zeros and then one
  \<open>1\<close>. On the digit 0 the C++ loop never leaves; the model gives \<open>None\<close> there.
\<close>

fun strip_tag :: "nat \<Rightarrow> nat \<Rightarrow> (nat \<times> nat) option" where
  "strip_tag v 0 = None"
| "strip_tag v (Suc bitLen) =
     (if odd v then Some (v div 2, bitLen) else strip_tag (v div 2) bitLen)"

fun slice_digits :: "string \<Rightarrow> string exc" where
  "slice_digits [] = Some []"
| "slice_digits [c] = do { v \<leftarrow> hex_val c; Some (toBitString (int v) 4) }"
| "slice_digits (c # d # s) =
     (if s = [] \<and> d = CHR ''_'' then do {
        v \<leftarrow> hex_val c;
        (v', bitLen) \<leftarrow> strip_tag v 4;
        Some (toBitString (int v') bitLen) }
      else do {
        v \<leftarrow> hex_val c;
        r \<leftarrow> slice_digits (d # s);
        Some (toBitString (int v) 4 @ r) })"

definition sliceToBitString :: "string \<Rightarrow> string exc" where
  "sliceToBitString slice =
     (case slice of
        [] \<Rightarrow> None
      | c # s \<Rightarrow> if c = CHR ''x'' then slice_digits s
                 else if slice = ''0'' \<or> slice = ''1'' then Some slice else None)"

definition unitBitStringToHex :: "string \<Rightarrow> string \<Rightarrow> string option exc" where
  "unitBitStringToHex bitStringA bitStringB =
     (let bitString = bitStringA @ bitStringB
      in if length bitString > CellBitLength then Some None
         else do { h \<leftarrow> binaryStringToSlice bitString; Some (Some (CHR ''x'' # h)) })"

definition unitSlices :: "string \<Rightarrow> string \<Rightarrow> string option exc" where
  "unitSlices sliceA sliceB = do {
     a \<leftarrow> sliceToBitString sliceA;
     b \<leftarrow> sliceToBitString sliceB;
     unitBitStringToHex a b }"

text \<open>The bits of a nonnegative amount, low bit first, at most \<open>n\<close> of them.\<close>

fun tons_bits :: "int \<Rightarrow> nat \<Rightarrow> string" where
  "tons_bits v 0 = []"
| "tons_bits v (Suc n) = (if v = 0 then [] else bit_char v # tons_bits (half v) n)"

definition tonsToBinaryString :: "int \<Rightarrow> string exc" where
  "tonsToBinaryString value =
     (let s = tons_bits value 256; len = length s
      in do {
        _ \<leftarrow> solAssert (len < 120);
        let s' = s @ replicate ((8 - len mod 8) mod 8) (CHR ''0'');
        Some (rev (low_bits (int (length s' div 8)) 4) @ rev s') })"

definition boolToBinaryString :: "bool \<Rightarrow> string" where
  "boolToBinaryString v = (if v then ''1'' else ''0'')"

definition toBigint :: "string \<Rightarrow> int" where
  "toBigint binStr = foldl (\<lambda>res ch. 2 * res + (if ch = CHR ''1'' then 1 else 0)) 0 binStr"

function bin_digits :: "int \<Rightarrow> string" where
  "bin_digits num = (if num \<le> 0 then [] else bit_char num # bin_digits (half num))"
  by pat_completeness auto
termination
  by (relation "measure nat") (auto simp: half_def)

declare bin_digits.simps [simp del]

definition toBinString :: "int \<Rightarrow> string exc" where
  "toBinString num = do { _ \<leftarrow> solAssert (num \<ge> 0); Some (rev (bin_digits num)) }"

text \<open>\<open>stringToBytes\<close>: two lower case hex digits per byte.\<close>

definition byte_hex :: "char \<Rightarrow> string" where
  "byte_hex c = [hex_char (of_char c div 16), hex_char (of_char c mod 16)]"

definition stringToBytes :: "string \<Rightarrow> string" where
  "stringToBytes str = concat (map byte_hex str)"

text \<open>\<open>strToInt\<close>.\<close>

definition strToInt :: "string \<Rightarrow> int exc" where
  "strToInt str = lexical_cast_int (trim str)"

lemma strToInt_toString [simp]: "int_fits v \<Longrightarrow> strToInt (toString v) = Some v"
  by (simp add: strToInt_def)

section \<open>Bit strings and integers\<close>

lemma half_nonneg: "0 \<le> v \<Longrightarrow> half v = v div 2"
  by (simp add: half_def sgn_if)

lemma length_low_bits [simp]: "length (low_bits v n) = n"
  by (induction v n rule: low_bits.induct) simp_all

lemma length_toBitString [simp]: "length (toBitString v n) = n"
  by (simp add: toBitString_def Let_def)

lemma bitstring_Nil [simp]: "bitstring []"
  by (simp add: bitstring_def)

lemma bitstring_Cons [simp]:
  "bitstring (c # s) \<longleftrightarrow> (c = CHR ''0'' \<or> c = CHR ''1'') \<and> bitstring s"
  by (simp add: bitstring_def)

lemma bitstring_append [simp]: "bitstring (s @ t) \<longleftrightarrow> bitstring s \<and> bitstring t"
  by (simp add: bitstring_def)

lemma bitstring_rev [simp]: "bitstring (rev s) = bitstring s"
  by (simp add: bitstring_def list_all_iff)

lemma bitstring_low_bits: "bitstring (low_bits v n)"
  by (induction v n rule: low_bits.induct) (simp_all add: bit_char_def)

lemma bitstring_toBitString [simp]: "bitstring (toBitString v n)"
  by (simp add: toBitString_def Let_def bitstring_low_bits)

lemma toBigint_snoc: "toBigint (s @ [c]) = 2 * toBigint s + (if c = CHR ''1'' then 1 else 0)"
  by (simp add: toBigint_def)

lemma toBigint_nonneg: "0 \<le> toBigint s"
proof (induction s rule: rev_induct)
  case (snoc c s)
  then show ?case by (simp add: toBigint_snoc)
qed (simp add: toBigint_def)

lemma toBigint_less: "toBigint s < 2 ^ length s"
proof (induction s rule: rev_induct)
  case (snoc c s)
  then show ?case by (simp add: toBigint_snoc)
qed (simp add: toBigint_def)

lemma mod_pow_Suc: "(v::int) mod 2 ^ Suc n = 2 * (v div 2 mod 2 ^ n) + v mod 2"
  using zmod_zmult2_eq [of "2 ^ n" v 2] by (simp add: mult.commute)

lemma toBigint_low_bits: "0 \<le> v \<Longrightarrow> toBigint (rev (low_bits v n)) = v mod 2 ^ n"
proof (induction v n rule: low_bits.induct)
  case (1 v)
  then show ?case by (simp add: toBigint_def)
next
  case (2 v n)
  then have "toBigint (rev (low_bits (v div 2) n)) = v div 2 mod 2 ^ n"
    by (simp add: half_nonneg)
  with 2 show ?case
    by (simp add: toBigint_snoc half_nonneg bit_char_def mod_pow_Suc even_iff_mod_2_eq_zero
        odd_iff_mod_2_eq_one del: power_Suc)
qed

lemma toBigint_toBitString: "- (2 ^ n) \<le> v \<Longrightarrow> toBigint (toBitString v n) = v mod 2 ^ n"
  by (simp add: toBitString_def Let_def toBigint_low_bits)

lemma low_bits_toBigint: "bitstring s \<Longrightarrow> low_bits (toBigint s) (length s) = rev s"
proof (induction s rule: rev_induct)
  case (snoc c s)
  have "half (toBigint (s @ [c])) = toBigint s"
    using toBigint_nonneg [of s] by (simp add: toBigint_snoc half_nonneg)
  with snoc show ?case
    by (auto simp: bit_char_def toBigint_snoc)
qed simp

lemma toBitString_toBigint: "bitstring s \<Longrightarrow> toBitString (toBigint s) (length s) = s"
  using toBigint_nonneg [of s] by (simp add: toBitString_def low_bits_toBigint)

lemma toBigint_bin_digits: "0 \<le> n \<Longrightarrow> toBigint (rev (bin_digits n)) = n"
proof (induction n rule: bin_digits.induct)
  case (1 n)
  show ?case
  proof (cases "n \<le> 0")
    case True
    with 1(2) show ?thesis by (simp add: bin_digits.simps [of 0] toBigint_def)
  next
    case False
    with 1 have IH: "toBigint (rev (bin_digits (half n))) = half n" by (simp add: half_nonneg)
    have "2 * (n div 2) + (if odd n then 1 else 0) = n"
      by (simp add: even_two_times_div_two odd_two_times_div_two_succ)
    with False IH show ?thesis
      by (simp add: bin_digits.simps [of n] toBigint_snoc bit_char_def half_nonneg split: if_splits)
  qed
qed

lemma toBinString_head: "0 < n \<Longrightarrow> last (bin_digits n) = CHR ''1''"
proof (induction n rule: bin_digits.induct)
  case (1 n)
  show ?case
  proof (cases "n = 1")
    case True
    have "bin_digits 0 = []" by (simp add: bin_digits.simps)
    with True show ?thesis by (simp add: bin_digits.simps [of 1] bit_char_def half_def)
  next
    case False
    with 1(2) have h: "0 < half n" by (simp add: half_nonneg)
    then have "bin_digits (half n) \<noteq> []" by (simp add: bin_digits.simps [of "half n"])
    with 1 h show ?thesis by (simp add: bin_digits.simps [of n])
  qed
qed

section \<open>The slice notation\<close>

lemma low_bits_small:
  "low_bits v 1 = [bit_char v]"
  "low_bits v 2 = [bit_char v, bit_char (half v)]"
  "low_bits v 3 = [bit_char v, bit_char (half v), bit_char (half (half v))]"
  "low_bits v 4 = [bit_char v, bit_char (half v), bit_char (half (half v)),
                   bit_char (half (half (half v)))]"
  by (simp_all add: numeral_eq_Suc)

lemma replicate_2: "replicate 2 c = [c, c]"
  by (simp add: numeral_2_eq_2)

lemma strip_tag_4:
  "strip_tag v 4 =
     (if odd v then Some (v div 2, 3) else if odd (v div 2) then Some (v div 2 div 2, 2)
      else if odd (v div 2 div 2) then Some (v div 2 div 2 div 2, 1)
      else if odd (v div 2 div 2 div 2) then Some (v div 2 div 2 div 2 div 2, 0) else None)"
  by (simp add: numeral_eq_Suc)

lemmas nibble_eval =
  Let_def read_nat_def digit_val_def isdigit_def hex_val_def hex_char_def toBitString_def
  low_bits_small low_bits_small(1) [unfolded One_nat_def] bit_char_def half_def strip_tag_4 replicate_2

lemma nibble_facts:
  assumes "bitstring [a, b, c, d]"
  shows "\<exists>x. read_nat 2 [a, b, c, d] = Some x \<and> hex_val (hex_char x) = Some x
           \<and> toBitString (int x) 4 = [a, b, c, d] \<and> hex_char x \<noteq> CHR ''_''"
  using assms unfolding bitstring_Cons
  by (elim conjE disjE) (simp_all add: nibble_eval)

lemma completion_pad_nibble:
  "completion_pad (a # b # c # d # s) = a # b # c # d # completion_pad s"
proof -
  have "(5 + length s) mod 4 = Suc (length s) mod 4"
    using mod_add_self2 [of "Suc (length s)" 4] by (simp add: add.commute)
  then show ?thesis by (simp add: completion_pad_def Let_def)
qed

lemma binaryStringToSlice_nibble:
  "binaryStringToSlice (a # b # c # d # s) = do {
     x \<leftarrow> read_nat 2 [a, b, c, d];
     h \<leftarrow> binaryStringToSlice s;
     Some (hex_char x # h) }"
  by (cases "read_nat 2 [a, b, c, d]"; cases "nibbles_to_hex s";
      cases "nibbles_to_hex (completion_pad s)")
    (simp_all add: binaryStringToSlice_def Let_def completion_pad_nibble)

lemma slice_digits_Cons:
  "h \<noteq> ''_'' \<Longrightarrow>
   slice_digits (c # h) = do { v \<leftarrow> hex_val c; r \<leftarrow> slice_digits h; Some (toBitString (int v) 4 @ r) }"
  by (cases h) auto

lemma slice_roundtrip_aux:
  "bitstring s \<Longrightarrow> \<exists>h. binaryStringToSlice s = Some h \<and> slice_digits h = Some s \<and> h \<noteq> ''_''"
proof (induction s rule: nibbles_to_hex.induct)
  case (1 a b c d s)
  from 1(2) have bits: "bitstring [a, b, c, d]" and s: "bitstring s" by simp_all
  from bits obtain x where x: "read_nat 2 [a, b, c, d] = Some x" "hex_val (hex_char x) = Some x"
    "toBitString (int x) 4 = [a, b, c, d]" "hex_char x \<noteq> CHR ''_''"
    using nibble_facts by blast
  from 1(1) [OF x(1) s] obtain h
    where h: "binaryStringToSlice s = Some h" "slice_digits h = Some s" "h \<noteq> ''_''" by blast
  from h x show ?case
    by (simp add: binaryStringToSlice_nibble slice_digits_Cons)
next
  case 2
  then show ?case by (simp add: binaryStringToSlice_def)
next
  case "3_1"
  then show ?case unfolding bitstring_Cons
    by (elim conjE disjE) (simp_all add: binaryStringToSlice_def completion_pad_def nibble_eval)
next
  case "3_2"
  then show ?case unfolding bitstring_Cons
    by (elim conjE disjE) (simp_all add: binaryStringToSlice_def completion_pad_def nibble_eval)
next
  case "3_3"
  then show ?case unfolding bitstring_Cons
    by (elim conjE disjE) (simp_all add: binaryStringToSlice_def completion_pad_def nibble_eval)
qed

end
