(* ===== verification/TvmAst.thy ===== *)
theory TvmAst
  imports StrUtils
begin

text \<open>
  The instruction tree of the code generator, \<open>libsolidity/codegen/TvmAst.hpp\<close> and
  \<open>TvmAst.cpp\<close>: the node classes as one datatype, \<open>operator==\<close>, the static facts an instruction
  carries (\<open>take\<close>, \<open>ret\<close>, \<open>isPure\<close>), the \<open>make*\<close> constructors with their assertions, the
  \<open>is*\<close> recognisers, and \<open>gen\<close>, which builds an instruction from its text through the table of
  opcodes. Shared pointers are values here: a node is never changed after it has been built except
  by the passes, which the other theories model as functions on trees.
\<close>

section \<open>Nodes\<close>

datatype stack_opcode =
    DROP | BLKDROP2 | POP_S | BLKPUSH | PUSH2_S | PUSH3_S | PUSH_S
  | BLKSWAP | REVERSE | XCHG | TUCK | PUXC

datatype glob_opcode =
    GetOrGetVar | SetOrSetVar | PUSHROOT | POPROOT | PUSH_C3 | POP_C3 | PUSH_C7 | POP_C7

datatype cell_type =
    PUSHREF_COMPUTE | PUSHREFSLICE_COMPUTE | PUSHREF | PUSHREFSLICE | CELL | PUSHSLICE

datatype block_type = BlockNone | PUSHCONT | PUSHREFCONT

datatype log_type = LogAND | LogOR

datatype push_cell =
  PushCell (pc_type: cell_type) (pc_blob: string) (pc_child: "push_cell option")

datatype node =
    Loc string int
  | Stack stack_opcode int int int
  | Glob glob_opcode int
  | DeclRetFlag
  | Opaque code_block int int bool \<comment> \<open>block, take, ret, isPure\<close>
  | AsymGen string
  | HardCode "string list" int int bool \<comment> \<open>code, take, ret, isPure\<close>
  | GenOpcode string string string int int bool \<comment> \<open>opcode, arg, comment, take, ret, isPure\<close>
  | TvmReturn bool bool bool \<comment> \<open>withIf, withNot, withAlt\<close>
  | ReturnOrBreakOrCont int code_block
  | TvmException bool bool bool bool string \<comment> \<open>arg, any, if, not, param\<close>
  | PushCellOrSlice push_cell
  | BlockNode code_block
  | SubProgram int int bool code_block bool \<comment> \<open>take, ret, isJmp, block, isPure\<close>
  | LogCircuit log_type code_block
  | TvmIfElse bool bool code_block "code_block option" int \<comment> \<open>withNot, withJmp, true, false, ret\<close>
  | TvmRepeat bool code_block
  | TvmUntil bool code_block
  | While bool bool code_block code_block \<comment> \<open>infinite, withBreakOrReturn, condition, body\<close>
and code_block = CodeBlock (btype: block_type) (instructions: "node list")

datatype function_type =
    PrivateFunction | Macro | MacroGetter | MainInternal | MainExternal | OnCodeUpgrade | OnTickTock

record tvm_function =
  f_take :: int
  f_ret :: int
  f_name :: string
  f_type :: function_type
  f_block :: code_block

record contract =
  pragmas :: "string list"
  contract_functions :: "tvm_function list"

section \<open>Equality of nodes\<close>

definition joinArg :: "string \<Rightarrow> string \<Rightarrow> string \<Rightarrow> string" where
  "joinArg opc arg comment =
     opc @ (if arg \<noteq> [] then CHR '' '' # arg else []) @
     (if comment \<noteq> [] then CHR '' '' # comment else [])"

fun fullOpcode :: "node \<Rightarrow> string" where
  "fullOpcode (GenOpcode opc arg comment _ _ _) = joinArg opc arg comment"
| "fullOpcode _ = []"

definition true_texts :: "string list" where "true_texts = [''TRUE'', ''PUSHINT -1'']"
definition false_texts :: "string list" where "false_texts = [''FALSE'', ''PUSHINT 0'']"

definition genOpcode_eq :: "string \<Rightarrow> string \<Rightarrow> string \<Rightarrow> string \<Rightarrow> string \<Rightarrow> string \<Rightarrow> bool" where
  "genOpcode_eq o1 a1 c1 o2 a2 c2 =
     (let f1 = joinArg o1 a1 c1; f2 = joinArg o2 a2 c2
      in (f1 \<in> set true_texts \<and> f2 \<in> set true_texts) \<or> (f1 \<in> set false_texts \<and> f2 \<in> set false_texts)
         \<or> (o1 = o2 \<and> a1 = a2))"

fun push_cell_eq :: "push_cell \<Rightarrow> push_cell \<Rightarrow> bool" where
  "push_cell_eq (PushCell t b None) (PushCell t' b' None) = (t = t' \<and> b = b')"
| "push_cell_eq (PushCell t b (Some c)) (PushCell t' b' (Some c')) =
     (t = t' \<and> b = b' \<and> push_cell_eq c c')"
| "push_cell_eq _ _ = False"

fun node_eq :: "node \<Rightarrow> node \<Rightarrow> bool"
and block_eq :: "code_block \<Rightarrow> code_block \<Rightarrow> bool"
and nodes_eq :: "node list \<Rightarrow> node list \<Rightarrow> bool" where
  "node_eq (Loc f l) n = (case n of Loc f' l' \<Rightarrow> f = f' \<and> l = l' | _ \<Rightarrow> False)"
| "node_eq (Stack p i j k) n =
     (case n of Stack p' i' j' k' \<Rightarrow> p = p' \<and> i = i' \<and> j = j' \<and> k = k' | _ \<Rightarrow> False)"
| "node_eq (Glob p i) n = (case n of Glob p' i' \<Rightarrow> p = p' \<and> i = i' | _ \<Rightarrow> False)"
| "node_eq DeclRetFlag n = (case n of DeclRetFlag \<Rightarrow> True | _ \<Rightarrow> False)"
| "node_eq (Opaque b t r p) n =
     (case n of Opaque b' t' r' p' \<Rightarrow> block_eq b b' \<and> t = t' \<and> r = r' | _ \<Rightarrow> False)"
| "node_eq (AsymGen s) n = (case n of AsymGen s' \<Rightarrow> s = s' | _ \<Rightarrow> False)"
| "node_eq (HardCode c t r p) n =
     (case n of HardCode c' t' r' p' \<Rightarrow> c = c' \<and> t = t' \<and> r = r' | _ \<Rightarrow> False)"
| "node_eq (GenOpcode opc a c t r p) n =
     (case n of GenOpcode opc' a' c' t' r' p' \<Rightarrow> genOpcode_eq opc a c opc' a' c' | _ \<Rightarrow> False)"
| "node_eq (TvmReturn i m a) n =
     (case n of TvmReturn i' m' a' \<Rightarrow> i = i' \<and> m = m' \<and> a = a' | _ \<Rightarrow> False)"
| "node_eq (ReturnOrBreakOrCont t b) n =
     (case n of ReturnOrBreakOrCont t' b' \<Rightarrow> t = t' \<and> block_eq b b' | _ \<Rightarrow> False)"
| "node_eq (TvmException a y i m p) n =
     (case n of TvmException a' y' i' m' p' \<Rightarrow> a = a' \<and> y = y' \<and> i = i' \<and> m = m' \<and> p = p'
      | _ \<Rightarrow> False)"
| "node_eq (PushCellOrSlice c) n = (case n of PushCellOrSlice c' \<Rightarrow> push_cell_eq c c' | _ \<Rightarrow> False)"
| "node_eq (BlockNode b) n = (case n of BlockNode b' \<Rightarrow> block_eq b b' | _ \<Rightarrow> False)"
| "node_eq (SubProgram t r jm b p) n =
     (case n of SubProgram t' r' jm' b' p' \<Rightarrow> t = t' \<and> r = r' \<and> jm = jm' \<and> block_eq b b'
      | _ \<Rightarrow> False)"
| "node_eq (LogCircuit t b) n = (case n of LogCircuit t' b' \<Rightarrow> t = t' \<and> block_eq b b' | _ \<Rightarrow> False)"
| "node_eq (TvmIfElse _ _ _ _ _) n = False"
| "node_eq (TvmRepeat _ _) n = False"
| "node_eq (TvmUntil _ _) n = False"
| "node_eq (While _ _ _ _) n = False"
| "block_eq (CodeBlock t xs) b = (t = btype b \<and> nodes_eq xs (instructions b))"
| "nodes_eq [] ys = (ys = [])"
| "nodes_eq (x # xs) ys = (case ys of [] \<Rightarrow> False | y # ys' \<Rightarrow> node_eq x y \<and> nodes_eq xs ys')"

text \<open>\<open>PushCellOrSlice::equal\<close>, the loop down both chains of children.\<close>

fun push_cell_equal :: "push_cell \<Rightarrow> push_cell \<Rightarrow> bool" where
  "push_cell_equal (PushCell t b ch) (PushCell t' b' ch') =
     (if b \<noteq> b' \<or> t \<noteq> t' then False
      else case ch of
        None \<Rightarrow> (case ch' of None \<Rightarrow> True | Some _ \<Rightarrow> False)
      | Some c \<Rightarrow> (case ch' of None \<Rightarrow> False | Some c' \<Rightarrow> push_cell_equal c c'))"

section \<open>What an instruction takes and returns\<close>

definition glob_is_push :: "glob_opcode \<Rightarrow> bool" where
  "glob_is_push p = (p \<in> {GetOrGetVar, PUSHROOT, PUSH_C3, PUSH_C7})"

definition glob_take :: "glob_opcode \<Rightarrow> int" where
  "glob_take p = (if glob_is_push p then 0 else 1)"

definition glob_ret :: "glob_opcode \<Rightarrow> int" where
  "glob_ret p = (if glob_is_push p then 1 else 0)"

definition glob_pure :: "glob_opcode \<Rightarrow> bool" where
  "glob_pure p = (p \<in> {GetOrGetVar, PUSHROOT, PUSH_C3})"

text \<open>\<open>to<Gen>\<close> with \<open>take()\<close>, \<open>ret()\<close> and \<open>isPure()\<close>; \<open>None\<close> for a node that is no \<open>Gen\<close>.\<close>

fun gen_info :: "node \<Rightarrow> (int \<times> int \<times> bool) option" where
  "gen_info (Glob p i) = Some (glob_take p, glob_ret p, glob_pure p)"
| "gen_info (Opaque _ t r p) = Some (t, r, p)"
| "gen_info (HardCode _ t r p) = Some (t, r, p)"
| "gen_info (GenOpcode _ _ _ t r p) = Some (t, r, p)"
| "gen_info (PushCellOrSlice _) = Some (0, 1, True)"
| "gen_info (SubProgram t r _ _ p) = Some (t, r, p)"
| "gen_info (TvmIfElse _ _ _ _ r) = Some (1, r, False)"
| "gen_info _ = None"

definition isPureGen01 :: "node \<Rightarrow> bool" where
  "isPureGen01 n = (gen_info n = Some (0, 1, True))"

definition exc_opcode :: "bool \<Rightarrow> bool \<Rightarrow> bool \<Rightarrow> bool \<Rightarrow> string" where
  "exc_opcode a y i m =
     ''THROW'' @ (if a then ''ARG'' else []) @ (if y then ''ANY'' else []) @
     (if i then ''IF'' else []) @ (if m then ''NOT'' else [])"

definition exc_take :: "bool \<Rightarrow> bool \<Rightarrow> bool \<Rightarrow> int" where
  "exc_take a y i = of_bool a + of_bool y + of_bool i"

definition isLoc :: "node \<Rightarrow> bool" where
  "isLoc n = (case n of Loc _ _ \<Rightarrow> True | _ \<Rightarrow> False)"

definition qtyWithoutLoc :: "node list \<Rightarrow> nat" where
  "qtyWithoutLoc arr = length (filter (\<lambda>n. \<not> isLoc n) arr)"

end
