(* ===== verification/TvmMake.thy ===== *)
theory TvmMake
  imports TvmAst
begin

text \<open>
  The constructors and recognisers of \<open>libsolidity/codegen/TvmAst.cpp\<close>: the constructor of
  \<open>GenOpcode\<close>, which splits a command text into opcode, argument and comment; \<open>gen\<close> with its table
  of opcodes; the \<open>make*\<close> functions with their assertions; and the \<open>is*\<close> functions, which look
  through the different spellings of one stack operation.
\<close>

section \<open>Building an instruction from its text\<close>

text \<open>\<open>split\<close>: the lines read by \<open>getline\<close> with a separator; no empty line after the last separator.\<close>

function split_at :: "char \<Rightarrow> string \<Rightarrow> string list" where
  "split_at sep [] = []"
| "split_at sep (c # s) =
     takeWhile (\<lambda>x. x \<noteq> sep) (c # s) #
     split_at sep (tl (dropWhile (\<lambda>x. x \<noteq> sep) (c # s)))"
  by pat_completeness auto
termination
proof (relation "measure (length \<circ> snd)")
  fix sep :: char and c s
  have "length (dropWhile (\<lambda>x. x \<noteq> sep) (c # s)) \<le> length (c # s)"
    by (rule length_dropWhile_le)
  then show "((sep, tl (dropWhile (\<lambda>x. x \<noteq> sep) (c # s))), sep, c # s) \<in> measure (length \<circ> snd)"
    by (simp add: le_imp_less_Suc less_Suc_eq_le)
qed simp

definition mkGenOpcode :: "string \<Rightarrow> int \<Rightarrow> int \<Rightarrow> bool \<Rightarrow> node exc" where
  "mkGenOpcode cmd tk rt pure =
     (let lines = split_at (CHR '';'') cmd
      in if length lines > 2 then None
         else case lines of
           [] \<Rightarrow> None
         | line # rest \<Rightarrow>
             let opc = trim (takeWhile (\<lambda>c. c \<noteq> CHR '' '') line);
                 arg = trim (tl (dropWhile (\<lambda>c. c \<noteq> CHR '' '') line));
                 comment = (case rest of [] \<Rightarrow> [] | l # _ \<Rightarrow> CHR '';'' # l)
             in Some (GenOpcode opc arg comment tk rt pure))"

text \<open>
  The table \<open>opcodes\<close>: name, values taken, values returned, purity. First the instructions that take
  at most one value, then the others.
\<close>

definition opcodes_01 :: "(string \<times> int \<times> int \<times> bool) list" where
  "opcodes_01 = [
    (''ACCEPT'', 0, 0, False), (''COMMIT'', 0, 0, False), (''PRINTSTR'', 0, 0, False),
    (''BLOCKLT'', 0, 1, True), (''FALSE'', 0, 1, True), (''GETPARAM'', 0, 1, True),
    (''INITCODEHASH'', 0, 1, True), (''LTIME'', 0, 1, True), (''MYADDR'', 0, 1, True),
    (''MYCODE'', 0, 1, True), (''NEWC'', 0, 1, True), (''NEWDICT'', 0, 1, True),
    (''NIL'', 0, 1, True), (''NOW'', 0, 1, True), (''NULL'', 0, 1, True),
    (''PUSHINT'', 0, 1, True), (''PUSHPOW2DEC'', 0, 1, True), (''RANDSEED'', 0, 1, True),
    (''RANDU256'', 0, 1, False), (''STORAGEFEE'', 0, 1, True), (''TRUE'', 0, 1, True),
    (''ADDRAND'', 1, 0, False), (''ENDS'', 1, 0, False), (''SETCODE'', 1, 0, False),
    (''SETGASLIMIT'', 1, 0, False), (''SETRAND'', 1, 0, False), (''ABS'', 1, 1, False),
    (''ADDCONST'', 1, 1, False), (''BBITS'', 1, 1, True), (''BDEPTH'', 1, 1, False),
    (''BINDUMP'', 1, 1, False), (''BITNOT'', 1, 1, False), (''BITSIZE'', 1, 1, True),
    (''BLESS'', 1, 1, False), (''BREFS'', 1, 1, True), (''BREMBITS'', 1, 1, True),
    (''BREMREFS'', 1, 1, True), (''CDEPTH'', 1, 1, False), (''CTOS'', 1, 1, False),
    (''DEC'', 1, 1, False), (''DICTEMPTY'', 1, 1, True), (''ENDC'', 1, 1, False),
    (''EQINT'', 1, 1, True), (''FITS'', 1, 1, False), (''GTINT'', 1, 1, True),
    (''HASHCU'', 1, 1, True), (''HASHSU'', 1, 1, True), (''HEXDUMP'', 1, 1, False),
    (''INC'', 1, 1, False), (''INDEX2'', 1, 1, False), (''INDEX3'', 1, 1, False),
    (''INDEX_EXCEP'', 1, 1, False), (''INDEX_NOEXCEP'', 1, 1, True), (''ISNEG'', 1, 1, True),
    (''ISNNEG'', 1, 1, True), (''ISNPOS'', 1, 1, True), (''ISNULL'', 1, 1, True),
    (''ISPOS'', 1, 1, True), (''ISZERO'', 1, 1, True), (''LAST'', 1, 1, False),
    (''LESSINT'', 1, 1, True), (''MODPOW2'', 1, 1, False), (''MULCONST'', 1, 1, False),
    (''NEGATE'', 1, 1, False), (''NEQINT'', 1, 1, True), (''NOT'', 1, 1, True),
    (''PARSEMSGADDR'', 1, 1, False), (''PLDDICT'', 1, 1, False), (''PLDI'', 1, 1, False),
    (''PLDREF'', 1, 1, False), (''PLDREFIDX'', 1, 1, False), (''PLDU'', 1, 1, False),
    (''RAND'', 1, 1, False), (''SBITS'', 1, 1, True), (''SDEMPTY'', 1, 1, True),
    (''SDEPTH'', 1, 1, False), (''SEMPTY'', 1, 1, True), (''SGN'', 1, 1, True),
    (''SHA256U'', 1, 1, True), (''SREFS'', 1, 1, True), (''STONE'', 1, 1, False),
    (''STRDUMP'', 1, 1, False), (''STSLICECONST'', 1, 1, False), (''STZERO'', 1, 1, False),
    (''TLEN'', 1, 1, False), (''UBITSIZE'', 1, 1, False), (''UFITS'', 1, 1, False),
    (''UNZIP'', 1, 1, False), (''ZIP'', 1, 1, False), (''BBITREFS'', 1, 2, True),
    (''BREMBITREFS'', 1, 2, True), (''LDDICT'', 1, 2, False), (''LDGRAMS'', 1, 2, False),
    (''LDI'', 1, 2, False), (''LDMSGADDR'', 1, 2, False), (''LDOPTREF'', 1, 2, False),
    (''LDREF'', 1, 2, False), (''LDREFRTOS'', 1, 2, False), (''LDSLICE'', 1, 2, False),
    (''LDU'', 1, 2, False), (''LDVARINT16'', 1, 2, False), (''LDVARINT32'', 1, 2, False),
    (''LDVARUINT16'', 1, 2, False), (''LDVARUINT32'', 1, 2, False),
    (''REWRITESTDADDR'', 1, 2, False), (''SBITREFS'', 1, 2, True), (''TPOP'', 1, 2, False)]"

definition opcodes_23 :: "(string \<times> int \<times> int \<times> bool) list" where
  "opcodes_23 = [
    (''COPYLEFT'', 2, 0, False), (''RAWRESERVE'', 2, 0, False), (''SENDRAWMSG'', 2, 0, False),
    (''ADD'', 2, 1, False), (''AND'', 2, 1, True), (''CMP'', 2, 1, True),
    (''DIFF'', 2, 1, False), (''DIFF_PATCH'', 2, 1, False), (''DIFF_PATCH_ZIP'', 2, 1, False),
    (''DIFF_PATCH_ZIPQ'', 2, 1, False), (''DIFF_PATCHQ'', 2, 1, False),
    (''DIFF_ZIP'', 2, 1, False), (''DIV'', 2, 1, False), (''DIVC'', 2, 1, False),
    (''DIVR'', 2, 1, False), (''EQUAL'', 2, 1, True), (''GEQ'', 2, 1, True),
    (''GREATER'', 2, 1, True), (''INDEXVAR'', 2, 1, False), (''LEQ'', 2, 1, True),
    (''LESS'', 2, 1, True), (''MAX'', 2, 1, True), (''MIN'', 2, 1, True), (''MOD'', 2, 1, False),
    (''MUL'', 2, 1, False), (''NEQ'', 2, 1, True), (''OR'', 2, 1, True),
    (''PLDIX'', 2, 1, False), (''PLDUX'', 2, 1, False), (''SCHKBITSQ'', 2, 1, True),
    (''SCHKREFSQ'', 2, 1, True), (''SDEQ'', 2, 1, True), (''SDLEXCMP'', 2, 1, False),
    (''SDSKIPFIRST'', 2, 1, False), (''SETINDEX'', 2, 1, False), (''SETINDEXQ'', 2, 1, False),
    (''STB'', 2, 1, False), (''STBR'', 2, 1, False), (''STBREF'', 2, 1, False),
    (''STBREFR'', 2, 1, False), (''STDICT'', 2, 1, False), (''STGRAMS'', 2, 1, False),
    (''STI'', 2, 1, False), (''STIR'', 2, 1, False), (''STONES'', 2, 1, False),
    (''STOPTREF'', 2, 1, False), (''STREF'', 2, 1, False), (''STREFR'', 2, 1, False),
    (''STSLICE'', 2, 1, False), (''STSLICER'', 2, 1, False), (''STU'', 2, 1, False),
    (''STUR'', 2, 1, False), (''STVARINT16'', 2, 1, False), (''STVARINT32'', 2, 1, False),
    (''STVARUINT16'', 2, 1, False), (''STVARUINT32'', 2, 1, False), (''STZEROES'', 2, 1, False),
    (''SUB'', 2, 1, False), (''SUBR'', 2, 1, False), (''TPUSH'', 2, 1, False),
    (''XOR'', 2, 1, True), (''DIVMOD'', 2, 2, False), (''LDIX'', 2, 2, False),
    (''LDSLICEX'', 2, 2, False), (''LDUX'', 2, 2, False), (''MINMAX'', 2, 2, True),
    (''CDATASIZE'', 2, 3, False), (''SDATASIZE'', 2, 3, False), (''RAWRESERVEX'', 3, 0, False),
    (''CHKSIGNS'', 3, 1, False), (''CHKSIGNU'', 3, 1, False), (''CONDSEL'', 3, 1, False),
    (''MULDIV'', 3, 1, False), (''MULDIVC'', 3, 1, False), (''MULDIVR'', 3, 1, False),
    (''SCHKBITREFSQ'', 3, 1, False), (''SETINDEXVAR'', 3, 1, False),
    (''SETINDEXVARQ'', 3, 1, False), (''SSKIPFIRST'', 3, 1, False), (''STIXR'', 3, 1, False),
    (''STUX'', 3, 1, False), (''STUXR'', 3, 1, False), (''DICTDEL'', 3, 2, False),
    (''DICTIDEL'', 3, 2, False), (''DICTUDEL'', 3, 2, False), (''MULDIVMOD'', 3, 2, False),
    (''SPLIT'', 3, 2, False)]"

definition opcodes :: "(string \<times> int \<times> int \<times> bool) list" where
  "opcodes = opcodes_01 @ opcodes_23"

definition dict_keys :: "string list" where "dict_keys = [[], ''I'', ''U'']"
definition dict_sufs :: "string list" where "dict_sufs = [[], ''REF'', ''B'']"

definition dictSet :: "string \<Rightarrow> bool" where
  "dictSet cmd =
     (cmd \<in> set [''DICT'' @ key @ ''SET'' @ suf. key \<leftarrow> dict_keys, suf \<leftarrow> dict_sufs])"

definition dictReplaceOrAdd :: "string \<Rightarrow> bool" where
  "dictReplaceOrAdd cmd =
     (cmd \<in> set [''DICT'' @ key @ opc @ suf.
        key \<leftarrow> dict_keys, opc \<leftarrow> [''REPLACE'', ''ADD''], suf \<leftarrow> dict_sufs])"

definition gen :: "string \<Rightarrow> node exc" where
  "gen cmd =
     (let opc = word1 cmd; param = word2 cmd
      in case map_of opcodes opc of
           Some (t, r, p) \<Rightarrow> mkGenOpcode cmd t r p
         | None \<Rightarrow>
             if dictSet cmd then mkGenOpcode cmd 4 1 False
             else if dictReplaceOrAdd cmd then mkGenOpcode cmd 4 2 False
             else if opc = ''TUPLE'' then
               do { n \<leftarrow> lexical_cast_int param; mkGenOpcode cmd n 1 False }
             else if opc = ''UNTUPLE'' then
               do { n \<leftarrow> lexical_cast_int param; mkGenOpcode cmd 1 n False }
             else if opc = ''LSHIFT'' \<or> opc = ''RSHIFT'' then
               (if param = [] then mkGenOpcode cmd 2 1 False else mkGenOpcode cmd 1 1 False)
             else if opc = ''MULRSHIFT'' then
               (if param = [] then mkGenOpcode cmd 3 1 False else mkGenOpcode cmd 2 1 False)
             else None)"

section \<open>Constructors\<close>

definition makeDROP :: "int \<Rightarrow> node exc" where
  "makeDROP cnt = (if cnt \<ge> 1 then Some (Stack DROP cnt (-1) (-1)) else None)"

definition makePOP :: "int \<Rightarrow> node exc" where
  "makePOP i = (if i \<ge> 1 \<and> i \<le> 255 then Some (Stack POP_S i (-1) (-1)) else None)"

definition makePUSH :: "int \<Rightarrow> node exc" where
  "makePUSH i = (if 0 \<le> i \<and> i \<le> 255 then Some (Stack PUSH_S i (-1) (-1)) else None)"

definition makeBLKPUSH :: "int \<Rightarrow> int \<Rightarrow> node exc" where
  "makeBLKPUSH qty index =
     (if \<not> qty \<ge> 1 then None
      else if \<not> (index \<ge> 0 \<and> index \<le> 15) then None
      else if qty = 1 then makePUSH index
      else Some (Stack BLKPUSH qty index (-1)))"

definition makePUSH2 :: "int \<Rightarrow> int \<Rightarrow> node exc" where
  "makePUSH2 i j =
     (if 0 \<le> i \<and> i \<le> 15 \<and> 0 \<le> j \<and> j \<le> 15 then Some (Stack PUSH2_S i j (-1)) else None)"

definition makePUSH3 :: "int \<Rightarrow> int \<Rightarrow> int \<Rightarrow> node exc" where
  "makePUSH3 i j k =
     (if 0 \<le> i \<and> i \<le> 15 \<and> 0 \<le> j \<and> j \<le> 15 \<and> 0 \<le> k \<and> k \<le> 15
      then Some (Stack PUSH3_S i j k) else None)"

definition makeRET :: node where "makeRET = TvmReturn False False False"
definition makeRETALT :: node where "makeRETALT = TvmReturn False False True"
definition makeIFRETALT :: node where "makeIFRETALT = TvmReturn True False True"
definition makeIFRET :: node where "makeIFRET = TvmReturn True False False"
definition makeIFNOTRET :: node where "makeIFNOTRET = TvmReturn True True False"
definition makeIFNOTRETALT :: node where "makeIFNOTRETALT = TvmReturn True True True"

definition skip :: "string \<Rightarrow> string \<Rightarrow> bool \<times> string" where
  "skip str pattern =
     (if starts_with str pattern then (True, drop (length pattern) str) else (False, str))"

definition makeTHROW :: "string \<Rightarrow> node exc" where
  "makeTHROW cmd =
     (let opc = word1 cmd; param = word2 cmd;
          (th, opc) = skip opc ''THROW'';
          (a, opc) = skip opc ''ARG'';
          (y, opc) = skip opc ''ANY'';
          (i, opc) = skip opc ''IF'';
          (m, opc) = skip opc ''NOT''
      in if th \<and> opc = [] then Some (TvmException a y i m param) else None)"

definition makeXCH_S_S :: "int \<Rightarrow> int \<Rightarrow> node exc" where
  "makeXCH_S_S i j = (if i \<le> j then Some (Stack XCHG i j (-1)) else None)"

definition makeXCH_S :: "int \<Rightarrow> node exc" where
  "makeXCH_S i = makeXCH_S_S 0 i"

definition makeGetGlob :: "int \<Rightarrow> node" where "makeGetGlob i = Glob GetOrGetVar i"
definition makeSetGlob :: "int \<Rightarrow> node" where "makeSetGlob i = Glob SetOrSetVar i"

definition makeBLKDROP2 :: "int \<Rightarrow> int \<Rightarrow> node exc" where
  "makeBLKDROP2 droppedCount leftCount =
     (if \<not> 1 \<le> droppedCount then None
      else if \<not> 0 \<le> leftCount then None
      else if leftCount = 1 \<and> droppedCount = 1 then Some (Stack POP_S 1 (-1) (-1))
      else if leftCount = 0 then makeDROP droppedCount
      else Some (Stack BLKDROP2 droppedCount leftCount (-1)))"

definition makePUSHREF :: "string \<Rightarrow> node" where
  "makePUSHREF data = PushCellOrSlice (PushCell PUSHREF data None)"

definition makeREVERSE :: "int \<Rightarrow> int \<Rightarrow> node exc" where
  "makeREVERSE i j = (if i \<ge> 2 \<and> j \<ge> 0 then Some (Stack REVERSE i j (-1)) else None)"

definition makeROT :: node where "makeROT = Stack BLKSWAP 1 2 (-1)"
definition makeROTREV :: node where "makeROTREV = Stack BLKSWAP 2 1 (-1)"

definition makeBLKSWAP :: "int \<Rightarrow> int \<Rightarrow> node exc" where
  "makeBLKSWAP down up = (if down \<ge> 1 \<and> up \<ge> 1 then Some (Stack BLKSWAP down up (-1)) else None)"

definition makeTUCK :: node where "makeTUCK = Stack TUCK (-1) (-1) (-1)"

definition makePUXC :: "int \<Rightarrow> int \<Rightarrow> node exc" where
  "makePUXC i j =
     (if 0 \<le> i \<and> i \<le> 15 \<and> -1 \<le> j \<and> j \<le> 14 then Some (Stack PUXC i j (-1)) else None)"

definition genPushSlice :: "string \<Rightarrow> node exc" where
  "genPushSlice data = do {
     bits \<leftarrow> sliceToBitString data;
     Some (PushCellOrSlice
       (PushCell (if length bits \<le> MaxPushSliceBitLength then PUSHSLICE else PUSHREFSLICE)
         data None)) }"

text \<open>
  The constructor of \<open>TvmIfElse\<close> asserts that an instruction with two bodies carries no negation.
\<close>

definition mkIfElse ::
    "bool \<Rightarrow> bool \<Rightarrow> code_block \<Rightarrow> code_block option \<Rightarrow> int \<Rightarrow> node exc" where
  "mkIfElse withNot withJmp trueBody falseBody ret =
     (if (withNot \<and> falseBody = None) \<or> \<not> withNot
      then Some (TvmIfElse withNot withJmp trueBody falseBody ret) else None)"

definition flipIfElse ::
    "bool \<Rightarrow> bool \<Rightarrow> code_block \<Rightarrow> code_block option \<Rightarrow> int \<Rightarrow> node exc" where
  "flipIfElse withNot withJmp trueBody falseBody ret =
     (case falseBody of
        None \<Rightarrow> mkIfElse (\<not> withNot) withJmp trueBody None ret
      | Some f \<Rightarrow> mkIfElse withNot withJmp f (Some trueBody) ret)"

definition getZeroOrNullAlignment :: "bool \<Rightarrow> bool \<Rightarrow> bool \<Rightarrow> node" where
  "getZeroOrNullAlignment isZero isSwap isNot =
     AsymGen ((if isZero then ''ZERO'' else ''NULL'') @ (if isSwap then ''SWAP'' else ''ROTR'') @
       ''IF'' @ (if isNot then ''NOT'' else []))"

section \<open>Recognisers\<close>

fun isBLKSWAP :: "node \<Rightarrow> (int \<times> int) option" where
  "isBLKSWAP (Stack p i j k) =
     (case p of
        BLKSWAP \<Rightarrow> Some (i, j)
      | XCHG \<Rightarrow> if i = 0 \<and> j = 1 then Some (1, 1) else None
      | REVERSE \<Rightarrow> if i = 2 \<and> j = 0 then Some (1, 1) else None
      | _ \<Rightarrow> None)"
| "isBLKSWAP _ = None"

definition isSWAP :: "node \<Rightarrow> bool" where
  "isSWAP n = (isBLKSWAP n = Some (1, 1))"

fun isDrop :: "node \<Rightarrow> int option" where
  "isDrop (Stack p i j k) = (if p = DROP then Some i else None)"
| "isDrop _ = None"

fun isPOP :: "node \<Rightarrow> int option" where
  "isPOP (Stack p i j k) =
     (case p of
        POP_S \<Rightarrow> Some i
      | BLKDROP2 \<Rightarrow> if i = 1 \<and> j = 1 then Some 1 else None
      | _ \<Rightarrow> None)"
| "isPOP _ = None"

fun isBLKPUSH :: "node \<Rightarrow> (int \<times> int) option" where
  "isBLKPUSH (Stack p i j k) =
     (case p of
        BLKPUSH \<Rightarrow> Some (i, j)
      | PUSH_S \<Rightarrow> if i = 0 then Some (1, 0) else None
      | _ \<Rightarrow> None)"
| "isBLKPUSH _ = None"

definition isXCHG :: "node \<Rightarrow> int \<Rightarrow> int \<Rightarrow> bool" where
  "isXCHG n i j = (case n of Stack p i' j' _ \<Rightarrow> p = XCHG \<and> i' = i \<and> j' = j | _ \<Rightarrow> False)"

fun isXCHG_S0 :: "node \<Rightarrow> int option" where
  "isXCHG_S0 (Stack p i j k) =
     (case p of
        XCHG \<Rightarrow> if i = 0 then Some j else None
      | BLKSWAP \<Rightarrow> if i = 1 \<and> j = 1 then Some 1 else None
      | REVERSE \<Rightarrow> if i = 2 \<and> j = 0 then Some 1 else if i = 3 \<and> j = 0 then Some 2 else None
      | _ \<Rightarrow> None)"
| "isXCHG_S0 _ = None"

fun isREVERSE :: "node \<Rightarrow> (int \<times> int) option" where
  "isREVERSE (Stack p i j k) =
     (case p of
        REVERSE \<Rightarrow> Some (i, j)
      | BLKSWAP \<Rightarrow> if i = 1 \<and> j = 1 then Some (2, 0) else None
      | XCHG \<Rightarrow> if i = 0 \<and> j = 1 then Some (2, 0) else if i = 0 \<and> j = 2 then Some (3, 0) else None
      | _ \<Rightarrow> None)"
| "isREVERSE _ = None"

text \<open>\<open>isPlainPushSlice\<close> returns the node itself; its blob is all the callers use.\<close>

fun isPlainPushSlice :: "node \<Rightarrow> string option" where
  "isPlainPushSlice (PushCellOrSlice c) = (if pc_child c = None then Some (pc_blob c) else None)"
| "isPlainPushSlice _ = None"

definition getRootBitSize :: "push_cell \<Rightarrow> nat exc" where
  "getRootBitSize c = map_option length (sliceToBitString (pc_blob c))"

section \<open>The instructions that gen builds\<close>

lemma plain_no_sep: "plain s \<Longrightarrow> CHR '';'' \<notin> set s \<and> CHR '' '' \<notin> set s"
  by (induction s) (auto simp: plain_Cons)

lemma takeWhile_other: "c \<notin> set s \<Longrightarrow> takeWhile (\<lambda>x. x \<noteq> c) s = s"
  by (induction s) auto

lemma dropWhile_other: "c \<notin> set s \<Longrightarrow> dropWhile (\<lambda>x. x \<noteq> c) s = []"
  by (induction s) auto

lemma split_at_no_sep: "sep \<notin> set s \<Longrightarrow> s \<noteq> [] \<Longrightarrow> split_at sep s = [s]"
  by (cases s) (auto simp: takeWhile_other dropWhile_other)

lemma mkGenOpcode_plain:
  "plain opc \<Longrightarrow> opc \<noteq> [] \<Longrightarrow> mkGenOpcode opc t r p = Some (GenOpcode opc [] [] t r p)"
  using plain_no_sep [of opc]
  by (simp add: mkGenOpcode_def split_at_no_sep takeWhile_other dropWhile_other Let_def)

lemma mkGenOpcode_arg:
  assumes "plain opc" "plain a"
  shows "mkGenOpcode (opc @ CHR '' '' # a) t r p = Some (GenOpcode opc a [] t r p)"
proof -
  have no: "CHR '';'' \<notin> set (opc @ CHR '' '' # a)"
    using assms plain_no_sep by auto
  have tw: "takeWhile (\<lambda>c. c \<noteq> CHR '' '') (opc @ CHR '' '' # a) = opc"
    using assms(1) plain_no_sep [of opc] by (subst takeWhile_append2) auto
  have dw: "dropWhile (\<lambda>c. c \<noteq> CHR '' '') (opc @ CHR '' '' # a) = CHR '' '' # a"
    using assms(1) plain_no_sep [of opc] by (subst dropWhile_append2) auto
  show ?thesis
    using assms by (simp add: mkGenOpcode_def split_at_no_sep [OF no] tw dw)
qed

text \<open>An instruction without argument, and one with an argument free of blanks.\<close>

lemma gen_plain:
  "plain opc \<Longrightarrow> opc \<noteq> [] \<Longrightarrow> map_of opcodes opc = Some (t, r, p) \<Longrightarrow>
   gen opc = Some (GenOpcode opc [] [] t r p)"
  by (simp add: gen_def word1_plain mkGenOpcode_plain)

lemma gen_arg:
  "plain opc \<Longrightarrow> opc \<noteq> [] \<Longrightarrow> plain a \<Longrightarrow> map_of opcodes opc = Some (t, r, p) \<Longrightarrow>
   gen (opc @ CHR '' '' # a) = Some (GenOpcode opc a [] t r p)"
  by (simp add: gen_def word1_sep mkGenOpcode_arg)

lemma map_of_Cons_if: "map_of ((k, v) # ps) x = (if x = k then Some v else map_of ps x)"
  by simp

lemmas map_of_look =
  map_of_Cons_if map_of.simps(1) list.inject char.inject list.distinct simp_thms if_False if_True

lemma opcode_lookup:
  "map_of opcodes ''INC'' = Some (1, 1, False)"
  "map_of opcodes ''DEC'' = Some (1, 1, False)"
  "map_of opcodes ''NEGATE'' = Some (1, 1, False)"
  "map_of opcodes ''CONDSEL'' = Some (3, 1, False)"
  "map_of opcodes ''NEWC'' = Some (0, 1, True)"
  "map_of opcodes ''STZEROES'' = Some (2, 1, False)"
  "map_of opcodes ''STSLICER'' = Some (2, 1, False)"
  "map_of opcodes ''SUBR'' = Some (2, 1, False)"
  "map_of opcodes ''SUB'' = Some (2, 1, False)"
  "map_of opcodes ''ADD'' = Some (2, 1, False)"
  "map_of opcodes ''STZERO'' = Some (1, 1, False)"
  "map_of opcodes ''STONE'' = Some (1, 1, False)"
  "map_of opcodes ''ABS'' = Some (1, 1, False)"
  "map_of opcodes ''STBREFR'' = Some (2, 1, False)"
  "map_of opcodes ''TRUE'' = Some (0, 1, True)"
  "map_of opcodes ''FALSE'' = Some (0, 1, True)"
  "map_of opcodes ''NULL'' = Some (0, 1, True)"
  "map_of opcodes ''STSLICE'' = Some (2, 1, False)"
  "map_of opcodes ''STREF'' = Some (2, 1, False)"
  "map_of opcodes ''STB'' = Some (2, 1, False)"
  "map_of opcodes ''STBREF'' = Some (2, 1, False)"
  "map_of opcodes ''STREFR'' = Some (2, 1, False)"
  "map_of opcodes ''ENDC'' = Some (1, 1, False)"
  "map_of opcodes ''AND'' = Some (2, 1, True)"
  "map_of opcodes ''OR'' = Some (2, 1, True)"
  "map_of opcodes ''PLDREF'' = Some (1, 1, False)"
  "map_of opcodes ''PLDDICT'' = Some (1, 1, False)"
  "map_of opcodes ''PLDUX'' = Some (2, 1, False)"
  "map_of opcodes ''PLDIX'' = Some (2, 1, False)"
  "map_of opcodes ''STBR'' = Some (2, 1, False)"
  "map_of opcodes ''PUSHINT'' = Some (0, 1, True)"
  "map_of opcodes ''STUR'' = Some (2, 1, False)"
  "map_of opcodes ''STU'' = Some (2, 1, False)"
  "map_of opcodes ''STI'' = Some (2, 1, False)"
  "map_of opcodes ''STIR'' = Some (2, 1, False)"
  "map_of opcodes ''ADDCONST'' = Some (1, 1, False)"
  "map_of opcodes ''MULCONST'' = Some (1, 1, False)"
  "map_of opcodes ''INDEX2'' = Some (1, 1, False)"
  "map_of opcodes ''INDEX3'' = Some (1, 1, False)"
  "map_of opcodes ''MODPOW2'' = Some (1, 1, False)"
  "map_of opcodes ''NEQINT'' = Some (1, 1, True)"
  "map_of opcodes ''EQINT'' = Some (1, 1, True)"
  "map_of opcodes ''GTINT'' = Some (1, 1, True)"
  "map_of opcodes ''LESSINT'' = Some (1, 1, True)"
  "map_of opcodes ''UFITS'' = Some (1, 1, False)"
  "map_of opcodes ''FITS'' = Some (1, 1, False)"
  "map_of opcodes ''PLDU'' = Some (1, 1, False)"
  "map_of opcodes ''PLDI'' = Some (1, 1, False)"
  "map_of opcodes ''STSLICECONST'' = Some (1, 1, False)"
  unfolding opcodes_def opcodes_01_def opcodes_23_def append_Cons append_Nil
  by (simp_all only: map_of_look)

lemma opcode_lookup_shift:
  "map_of opcodes ''LSHIFT'' = None"
  "map_of opcodes ''RSHIFT'' = None"
  "map_of opcodes ''MULRSHIFT'' = None"
  "map_of opcodes ''TUPLE'' = None"
  "map_of opcodes ''UNTUPLE'' = None"
  unfolding opcodes_def opcodes_01_def opcodes_23_def append_Cons append_Nil
  by (simp_all only: map_of_look)

end
