(* ===== verification/TvmSem.thy ===== *)
theory TvmSem
  imports TvmMake
begin

text \<open>
  What a list of instructions does when the virtual machine runs it. The machine itself is not part
  of the repository: it is a parameter (record \<open>machine\<close>), and the later theories assume of it only
  what the virtual machine's documentation says of the instructions the optimisers rewrite
  (\<open>doc_gen\<close>, \<open>doc_asym\<close>, \<open>doc_cell\<close>, collected in the locale \<open>tvm\<close>).

  The stack is an infinite sequence, top first: code produced by the compiler never reaches below
  the frame of its caller, so underflow is not an observable of the model. A primitive that faults
  (type error, range check, cell overflow, integer overflow) has no outcome; an explicit
  \<open>THROW\<close> has one. \<open>run M c s r\<close> says that the instruction list \<open>c\<close>, started in state \<open>s\<close>,
  finishes with outcome \<open>r\<close>: falling off the end, \<open>RET\<close>, \<open>RETALT\<close>, or an exception.
\<close>

section \<open>Values, states, outcomes\<close>

datatype val =
    VInt int
  | VNull
  | VTuple "val list"
  | VCell string "val list"
  | VSlice string "val list"
  | VBuilder string "val list"
  | VCont code_block

type_synonym stack = "nat \<Rightarrow> val"

record 'w st =
  stk :: stack
  glb :: "int \<Rightarrow> val"
  wld :: 'w

datatype exc_code = Code string | CodeVal val

datatype 'w outcome =
    Norm "'w st"
  | Ret "'w st"
  | RetAlt "'w st"
  | Exc exc_code "val option" 'w

type_synonym 'w prim = "'w st \<Rightarrow> 'w st option"

definition set_stk :: "'w st \<Rightarrow> stack \<Rightarrow> 'w st" where
  "set_stk s t = s\<lparr>stk := t\<rparr>"

lemma set_stk_simps [simp]:
  "stk (set_stk s t) = t" "glb (set_stk s t) = glb s" "wld (set_stk s t) = wld s"
  "set_stk (set_stk s t) u = set_stk s u" "set_stk s (stk s) = s"
  "set_stk s t = set_stk s u \<longleftrightarrow> t = u"
  by (auto simp: set_stk_def dest: arg_cong [where f = stk])

section \<open>Stack primitives\<close>

definition spush :: "val \<Rightarrow> stack \<Rightarrow> stack" where
  "spush v s = (\<lambda>k. if k = 0 then v else s (k - 1))"

definition sdrop :: "nat \<Rightarrow> stack \<Rightarrow> stack" where
  "sdrop n s = (\<lambda>k. s (k + n))"

definition spushs :: "nat \<Rightarrow> stack \<Rightarrow> stack" where
  "spushs i s = spush (s i) s"

definition spop :: "nat \<Rightarrow> stack \<Rightarrow> stack" where
  "spop i s = sdrop 1 (s(i := s 0))"

fun sblkpush :: "nat \<Rightarrow> nat \<Rightarrow> stack \<Rightarrow> stack" where
  "sblkpush 0 j s = s"
| "sblkpush (Suc n) j s = sblkpush n j (spushs j s)"

definition sblkdrop2 :: "nat \<Rightarrow> nat \<Rightarrow> stack \<Rightarrow> stack" where
  "sblkdrop2 d r s = (\<lambda>k. if k < r then s k else s (k + d))"

definition sblkswap :: "nat \<Rightarrow> nat \<Rightarrow> stack \<Rightarrow> stack" where
  "sblkswap i j s = (\<lambda>k. if k < i then s (k + j) else if k < i + j then s (k - i) else s k)"

definition sreverse :: "nat \<Rightarrow> nat \<Rightarrow> stack \<Rightarrow> stack" where
  "sreverse n j s = (\<lambda>k. if j \<le> k \<and> k < j + n then s (2 * j + n - 1 - k) else s k)"

definition sxchg :: "nat \<Rightarrow> nat \<Rightarrow> stack \<Rightarrow> stack" where
  "sxchg i j s = s(i := s j, j := s i)"

definition stack_ok :: "stack_opcode \<Rightarrow> int \<Rightarrow> int \<Rightarrow> int \<Rightarrow> bool" where
  "stack_ok p i j k =
     (case p of
        DROP \<Rightarrow> 0 \<le> i | POP_S \<Rightarrow> 1 \<le> i | PUSH_S \<Rightarrow> 0 \<le> i
      | BLKDROP2 \<Rightarrow> 0 \<le> i \<and> 0 \<le> j | BLKPUSH \<Rightarrow> 0 \<le> i \<and> 0 \<le> j | PUSH2_S \<Rightarrow> 0 \<le> i \<and> 0 \<le> j
      | PUSH3_S \<Rightarrow> 0 \<le> i \<and> 0 \<le> j \<and> 0 \<le> k
      | BLKSWAP \<Rightarrow> 0 \<le> i \<and> 0 \<le> j | REVERSE \<Rightarrow> 0 \<le> i \<and> 0 \<le> j | XCHG \<Rightarrow> 0 \<le> i \<and> 0 \<le> j
      | TUCK \<Rightarrow> True | PUXC \<Rightarrow> 0 \<le> i \<and> -1 \<le> j)"

definition stack_fun :: "stack_opcode \<Rightarrow> nat \<Rightarrow> nat \<Rightarrow> nat \<Rightarrow> nat \<Rightarrow> stack \<Rightarrow> stack" where
  "stack_fun p i j k j1 s =
     (case p of
        DROP \<Rightarrow> sdrop i s
      | BLKDROP2 \<Rightarrow> sblkdrop2 i j s
      | POP_S \<Rightarrow> spop i s
      | BLKPUSH \<Rightarrow> sblkpush i j s
      | PUSH2_S \<Rightarrow> spush (s j) (spush (s i) s)
      | PUSH3_S \<Rightarrow> spush (s k) (spush (s j) (spush (s i) s))
      | PUSH_S \<Rightarrow> spushs i s
      | BLKSWAP \<Rightarrow> sblkswap i j s
      | REVERSE \<Rightarrow> sreverse i j s
      | XCHG \<Rightarrow> sxchg i j s
      | TUCK \<Rightarrow> spushs 1 (sxchg 0 1 s)
      | PUXC \<Rightarrow> sxchg 0 j1 (sxchg 0 1 (spushs i s)))"

definition stack_exec :: "stack_opcode \<Rightarrow> int \<Rightarrow> int \<Rightarrow> int \<Rightarrow> stack \<Rightarrow> stack option" where
  "stack_exec p i j k s =
     (if stack_ok p i j k then Some (stack_fun p (nat i) (nat j) (nat k) (nat (j + 1)) s) else None)"

section \<open>Documented instructions\<close>

definition int257 :: "int \<Rightarrow> bool" where
  "int257 r = (- (2 ^ 256) \<le> r \<and> r < 2 ^ 256)"

definition ri :: "int \<Rightarrow> val option" where
  "ri r = (if int257 r then Some (VInt r) else None)"

definition rb :: "bool \<Rightarrow> val option" where
  "rb b = Some (VInt (if b then -1 else 0))"

definition i1 :: "(int \<Rightarrow> val option) \<Rightarrow> val \<Rightarrow> val option" where
  "i1 f v = (case v of VInt x \<Rightarrow> f x | _ \<Rightarrow> None)"

definition i2 :: "(int \<Rightarrow> int \<Rightarrow> val option) \<Rightarrow> val \<Rightarrow> val \<Rightarrow> val option" where
  "i2 f u v = i1 (\<lambda>x. i1 (f x) v) u"

definition app0 :: "val \<Rightarrow> 'w prim" where
  "app0 v s = Some (set_stk s (spush v (stk s)))"

definition app1 :: "(val \<Rightarrow> val option) \<Rightarrow> 'w prim" where
  "app1 f s = map_option (\<lambda>v. set_stk s (spush v (sdrop 1 (stk s)))) (f (stk s 0))"

text \<open>The deeper operand comes first.\<close>

definition app2 :: "(val \<Rightarrow> val \<Rightarrow> val option) \<Rightarrow> 'w prim" where
  "app2 f s =
     map_option (\<lambda>v. set_stk s (spush v (sdrop 2 (stk s)))) (f (stk s 1) (stk s 0))"

definition app3 :: "(val \<Rightarrow> val \<Rightarrow> val \<Rightarrow> val option) \<Rightarrow> 'w prim" where
  "app3 f s =
     map_option (\<lambda>v. set_stk s (spush v (sdrop 3 (stk s)))) (f (stk s 2) (stk s 1) (stk s 0))"

text \<open>Two results, the second one on top.\<close>

definition app12 :: "(val \<Rightarrow> (val \<times> val) option) \<Rightarrow> 'w prim" where
  "app12 f s =
     map_option (\<lambda>(u, v). set_stk s (spush v (spush u (sdrop 1 (stk s))))) (f (stk s 0))"

definition app22 :: "(val \<Rightarrow> val \<Rightarrow> (val \<times> val) option) \<Rightarrow> 'w prim" where
  "app22 f s =
     map_option (\<lambda>(u, v). set_stk s (spush v (spush u (sdrop 2 (stk s)))))
       (f (stk s 1) (stk s 0))"

definition nonneg_arg :: "string \<Rightarrow> nat option" where
  "nonneg_arg a = (case strToInt a of Some v \<Rightarrow> if 0 \<le> v then Some (nat v) else None | None \<Rightarrow> None)"

text \<open>Appending to a builder: at most 1023 bits and 4 references.\<close>

definition mk_builder :: "string \<Rightarrow> val list \<Rightarrow> val option" where
  "mk_builder b r = (if length b \<le> 1023 \<and> length r \<le> 4 then Some (VBuilder b r) else None)"

definition st_bits :: "string \<Rightarrow> val list \<Rightarrow> val \<Rightarrow> val option" where
  "st_bits bits refs b = (case b of VBuilder bb br \<Rightarrow> mk_builder (bb @ bits) (br @ refs) | _ \<Rightarrow> None)"

definition st_u :: "nat \<Rightarrow> val \<Rightarrow> val \<Rightarrow> val option" where
  "st_u n b x =
     i1 (\<lambda>v. if 0 \<le> v \<and> v < 2 ^ n \<and> n \<le> 256 then st_bits (toBitString v n) [] b else None) x"

definition st_i :: "nat \<Rightarrow> val \<Rightarrow> val \<Rightarrow> val option" where
  "st_i n b x =
     i1 (\<lambda>v. if 1 \<le> n \<and> - (2 ^ (n - 1)) \<le> v \<and> v < 2 ^ (n - 1) \<and> n \<le> 257
             then st_bits (toBitString v n) [] b else None) x"

definition st_slice :: "val \<Rightarrow> val \<Rightarrow> val option" where
  "st_slice b x = (case x of VSlice sb sr \<Rightarrow> st_bits sb sr b | _ \<Rightarrow> None)"

definition st_ref :: "val \<Rightarrow> val \<Rightarrow> val option" where
  "st_ref b x = (case x of VCell _ _ \<Rightarrow> st_bits [] [x] b | _ \<Rightarrow> None)"

definition st_b :: "val \<Rightarrow> val \<Rightarrow> val option" where
  "st_b b x = (case x of VBuilder bb br \<Rightarrow> st_bits bb br b | _ \<Rightarrow> None)"

definition endc :: "val \<Rightarrow> val option" where
  "endc x = (case x of VBuilder bb br \<Rightarrow> Some (VCell bb br) | _ \<Rightarrow> None)"

definition st_bref :: "val \<Rightarrow> val \<Rightarrow> val option" where
  "st_bref b x = (case endc x of Some c \<Rightarrow> st_bits [] [c] b | None \<Rightarrow> None)"

definition ld_bits :: "bool \<Rightarrow> nat \<Rightarrow> val \<Rightarrow> (val \<times> val) option" where
  "ld_bits sgnd n x =
     (case x of
        VSlice sb sr \<Rightarrow>
          if n \<le> length sb then
            let u = toBigint (take n sb);
                v = (if sgnd \<and> 1 \<le> n \<and> 2 ^ (n - 1) \<le> u then u - 2 ^ n else u)
            in Some (VInt v, VSlice (drop n sb) sr)
          else None
      | _ \<Rightarrow> None)"

definition ld_ref :: "val \<Rightarrow> (val \<times> val) option" where
  "ld_ref x = (case x of VSlice sb (r # rs) \<Rightarrow> Some (r, VSlice sb rs) | _ \<Rightarrow> None)"

definition ld_dict :: "val \<Rightarrow> (val \<times> val) option" where
  "ld_dict x =
     (case x of
        VSlice (c # sb) sr \<Rightarrow>
          if c = CHR ''0'' then Some (VNull, VSlice sb sr)
          else (case sr of r # rs \<Rightarrow> Some (r, VSlice sb rs) | [] \<Rightarrow> None)
      | _ \<Rightarrow> None)"

definition st_zeroes :: "val \<Rightarrow> val \<Rightarrow> val option" where
  "st_zeroes b n =
     i1 (\<lambda>v. if 0 \<le> v \<and> v \<le> 1023 then st_bits (replicate (nat v) (CHR ''0'')) [] b else None) n"

definition index_of :: "nat \<Rightarrow> val \<Rightarrow> val option" where
  "index_of i t = (case t of VTuple xs \<Rightarrow> if i < length xs then Some (xs ! i) else None | _ \<Rightarrow> None)"

definition tuple_prim :: "nat \<Rightarrow> 'w prim" where
  "tuple_prim n s =
     Some (set_stk s (spush (VTuple (map (stk s) (rev [0..<n]))) (sdrop n (stk s))))"

definition untuple_prim :: "nat \<Rightarrow> 'w prim" where
  "untuple_prim n s =
     (case stk s 0 of
        VTuple xs \<Rightarrow> if length xs = n then Some (set_stk s (fold spush xs (sdrop 1 (stk s))))
                     else None
      | _ \<Rightarrow> None)"

definition shift_arg :: "int \<Rightarrow> nat option" where
  "shift_arg c = (if 0 \<le> c \<and> c \<le> 1023 then Some (nat c) else None)"

definition lshift :: "int \<Rightarrow> int \<Rightarrow> val option" where
  "lshift x c = (case shift_arg c of Some n \<Rightarrow> ri (x * 2 ^ n) | None \<Rightarrow> None)"

definition rshift :: "int \<Rightarrow> int \<Rightarrow> val option" where
  "rshift x c = (case shift_arg c of Some n \<Rightarrow> ri (x div 2 ^ n) | None \<Rightarrow> None)"

text \<open>An instruction whose meaning does not depend on the argument text, and one with a number.\<close>

definition no_arg :: "'w prim \<Rightarrow> string \<Rightarrow> 'w prim option" where
  "no_arg f a = Some f"

definition int_arg :: "(int \<Rightarrow> 'w prim) \<Rightarrow> string \<Rightarrow> 'w prim option" where
  "int_arg f a = map_option f (strToInt a)"

definition nat_arg :: "(nat \<Rightarrow> 'w prim) \<Rightarrow> string \<Rightarrow> 'w prim option" where
  "nat_arg f a = map_option f (nonneg_arg a)"

definition big_arg :: "(int \<Rightarrow> 'w prim) \<Rightarrow> string \<Rightarrow> 'w prim option" where
  "big_arg f a = map_option f (bigint_of a)"

definition opt_arg :: "'w prim \<Rightarrow> (int \<Rightarrow> 'w prim) \<Rightarrow> string \<Rightarrow> 'w prim option" where
  "opt_arg f g a = (if a = [] then Some f else int_arg g a)"

definition after_comma :: "string \<Rightarrow> string option" where
  "after_comma a =
     (let rest = dropWhile (\<lambda>c. c \<noteq> CHR '','') a
      in if starts_with rest '', '' then Some (drop 2 rest) else None)"

definition two_args :: "string \<Rightarrow> (nat \<times> nat) option" where
  "two_args a = do {
     i \<leftarrow> nonneg_arg (takeWhile (\<lambda>c. c \<noteq> CHR '','') a);
     rest \<leftarrow> after_comma a;
     j \<leftarrow> nonneg_arg rest;
     Some (i, j) }"

definition three_args :: "string \<Rightarrow> (nat \<times> nat \<times> nat) option" where
  "three_args a = do {
     i \<leftarrow> nonneg_arg (takeWhile (\<lambda>c. c \<noteq> CHR '','') a);
     rest \<leftarrow> after_comma a;
     (j, k) \<leftarrow> two_args rest;
     Some (i, j, k) }"

definition cmp_int :: "(int \<Rightarrow> int \<Rightarrow> bool) \<Rightarrow> string \<Rightarrow> 'w prim option" where
  "cmp_int R = int_arg (\<lambda>c. app1 (i1 (\<lambda>x. rb (R x c))))"

definition ari1 :: "(int \<Rightarrow> int) \<Rightarrow> 'w prim" where
  "ari1 f = app1 (i1 (\<lambda>x. ri (f x)))"

definition ari2 :: "(int \<Rightarrow> int \<Rightarrow> int) \<Rightarrow> 'w prim" where
  "ari2 f = app2 (i2 (\<lambda>x y. ri (f x y)))"

definition cmp2 :: "(int \<Rightarrow> int \<Rightarrow> bool) \<Rightarrow> 'w prim" where
  "cmp2 R = app2 (i2 (\<lambda>x y. rb (R x y)))"

definition doc_table :: "(string \<times> (string \<Rightarrow> 'w prim option)) list" where
  "doc_table = [
    (''ADD'', no_arg (ari2 (+))), (''SUB'', no_arg (ari2 (-))), (''SUBR'', no_arg (ari2 (\<lambda>x y. y - x))),
    (''MUL'', no_arg (ari2 (*))),
    (''DIV'', no_arg (app2 (i2 (\<lambda>x y. if y = 0 then None else ri (x div y))))),
    (''MOD'', no_arg (app2 (i2 (\<lambda>x y. if y = 0 then None else ri (x mod y))))),
    (''INC'', no_arg (ari1 (\<lambda>x. x + 1))), (''DEC'', no_arg (ari1 (\<lambda>x. x - 1))),
    (''NEGATE'', no_arg (ari1 uminus)), (''ABS'', no_arg (ari1 abs)),
    (''ADDCONST'', int_arg (\<lambda>c. ari1 (\<lambda>x. x + c))), (''MULCONST'', int_arg (\<lambda>c. ari1 (\<lambda>x. x * c))),
    (''LSHIFT'', opt_arg (app2 (i2 lshift)) (\<lambda>c. app1 (i1 (\<lambda>x. lshift x c)))),
    (''RSHIFT'', opt_arg (app2 (i2 rshift)) (\<lambda>c. app1 (i1 (\<lambda>x. rshift x c)))),
    (''MULRSHIFT'',
       opt_arg (app3 (\<lambda>a b c. i1 (\<lambda>x. i1 (\<lambda>y. i1 (\<lambda>z. rshift (x * y) z) c) b) a))
         (\<lambda>c. app2 (i2 (\<lambda>x y. rshift (x * y) c)))),
    (''MODPOW2'', nat_arg (\<lambda>n. ari1 (\<lambda>x. x mod 2 ^ n))),
    (''MAX'', no_arg (ari2 max)), (''MIN'', no_arg (ari2 min)),
    (''AND'', no_arg (ari2 Bit_Operations.and)), (''OR'', no_arg (ari2 Bit_Operations.or)),
    (''XOR'', no_arg (ari2 Bit_Operations.xor)),
    (''NOT'', no_arg (ari1 (\<lambda>x. - 1 - x))),
    (''EQUAL'', no_arg (cmp2 (=))), (''NEQ'', no_arg (cmp2 (\<noteq>))), (''LESS'', no_arg (cmp2 (<))),
    (''LEQ'', no_arg (cmp2 (\<le>))), (''GREATER'', no_arg (cmp2 (>))), (''GEQ'', no_arg (cmp2 (\<ge>))),
    (''EQINT'', cmp_int (=)), (''NEQINT'', cmp_int (\<noteq>)), (''LESSINT'', cmp_int (<)),
    (''GTINT'', cmp_int (>)),
    (''UFITS'', nat_arg (\<lambda>n. app1 (i1 (\<lambda>x. if 0 \<le> x \<and> x < 2 ^ n then ri x else None)))),
    (''FITS'', nat_arg (\<lambda>n. app1 (i1 (\<lambda>x. if - (2 ^ (n - 1)) \<le> x \<and> x < 2 ^ (n - 1) \<and> 1 \<le> n
                                             then ri x else None)))),
    (''PUSHINT'', big_arg (\<lambda>v. app0 (VInt v))),
    (''TRUE'', no_arg (app0 (VInt (-1)))), (''FALSE'', no_arg (app0 (VInt 0))),
    (''NULL'', no_arg (app0 VNull)), (''ISNULL'', no_arg (app1 (\<lambda>v. rb (v = VNull)))),
    (''CONDSEL'', no_arg (app3 (\<lambda>f x y. i1 (\<lambda>c. Some (if c \<noteq> 0 then x else y)) f))),
    (''SDEQ'', no_arg (app2 (\<lambda>a b. case a of VSlice x _ \<Rightarrow>
                 (case b of VSlice y _ \<Rightarrow> rb (x = y) | _ \<Rightarrow> None) | _ \<Rightarrow> None))),
    (''TUPLE'', nat_arg tuple_prim), (''UNTUPLE'', nat_arg untuple_prim),
    (''INDEX_EXCEP'', nat_arg (\<lambda>i. app1 (index_of i))),
    (''INDEX_NOEXCEP'', nat_arg (\<lambda>i. app1 (index_of i))),
    (''INDEX2'', (\<lambda>a. map_option (\<lambda>(i, j). app1 (\<lambda>t. index_of i t \<bind> index_of j)) (two_args a))),
    (''INDEX3'', (\<lambda>a. map_option (\<lambda>(i, j, k). app1 (\<lambda>t. index_of i t \<bind> index_of j \<bind> index_of k))
                    (three_args a))),
    (''NEWC'', no_arg (app0 (VBuilder [] []))), (''ENDC'', no_arg (app1 endc)),
    (''STU'', nat_arg (\<lambda>n. app2 (\<lambda>x b. st_u n b x))), (''STUR'', nat_arg (\<lambda>n. app2 (st_u n))),
    (''STI'', nat_arg (\<lambda>n. app2 (\<lambda>x b. st_i n b x))), (''STIR'', nat_arg (\<lambda>n. app2 (st_i n))),
    (''STSLICE'', no_arg (app2 (\<lambda>x b. st_slice b x))), (''STSLICER'', no_arg (app2 st_slice)),
    (''STREF'', no_arg (app2 (\<lambda>x b. st_ref b x))), (''STREFR'', no_arg (app2 st_ref)),
    (''STB'', no_arg (app2 (\<lambda>x b. st_b b x))), (''STBR'', no_arg (app2 st_b)),
    (''STBREF'', no_arg (app2 (\<lambda>x b. st_bref b x))), (''STBREFR'', no_arg (app2 st_bref)),
    (''STUX'', no_arg (app3 (\<lambda>x b l. i1 (\<lambda>n. if 0 \<le> n then st_u (nat n) b x else None) l))),
    (''STUXR'', no_arg (app3 (\<lambda>b x l. i1 (\<lambda>n. if 0 \<le> n then st_u (nat n) b x else None) l))),
    (''STZERO'', no_arg (app1 (st_bits ''0'' []))), (''STONE'', no_arg (app1 (st_bits ''1'' []))),
    (''STZEROES'', no_arg (app2 st_zeroes)),
    (''STSLICECONST'', (\<lambda>a. map_option (\<lambda>bits. app1 (st_bits bits [])) (sliceToBitString a))),
    (''LDU'', nat_arg (\<lambda>n. app12 (ld_bits False n))), (''LDI'', nat_arg (\<lambda>n. app12 (ld_bits True n))),
    (''PLDU'', nat_arg (\<lambda>n. app1 (\<lambda>x. map_option fst (ld_bits False n x)))),
    (''PLDI'', nat_arg (\<lambda>n. app1 (\<lambda>x. map_option fst (ld_bits True n x)))),
    (''LDREF'', no_arg (app12 ld_ref)), (''PLDREF'', no_arg (app1 (\<lambda>x. map_option fst (ld_ref x)))),
    (''LDDICT'', no_arg (app12 ld_dict)), (''PLDDICT'', no_arg (app1 (\<lambda>x. map_option fst (ld_dict x)))),
    (''LDUX'', no_arg (app22 (\<lambda>x l. case l of VInt n \<Rightarrow>
                 if 0 \<le> n then ld_bits False (nat n) x else None | _ \<Rightarrow> None))),
    (''PLDUX'', no_arg (app2 (\<lambda>x l. case l of VInt n \<Rightarrow>
                 if 0 \<le> n then map_option fst (ld_bits False (nat n) x) else None | _ \<Rightarrow> None))),
    (''LDIX'', no_arg (app22 (\<lambda>x l. case l of VInt n \<Rightarrow>
                 if 0 \<le> n then ld_bits True (nat n) x else None | _ \<Rightarrow> None))),
    (''PLDIX'', no_arg (app2 (\<lambda>x l. case l of VInt n \<Rightarrow>
                 if 0 \<le> n then map_option fst (ld_bits True (nat n) x) else None | _ \<Rightarrow> None)))
  ]"

definition doc_names :: "string list" where
  "doc_names = [
    ''ADD'', ''SUB'', ''SUBR'', ''MUL'', ''DIV'', ''MOD'', ''INC'', ''DEC'', ''NEGATE'',
    ''ABS'', ''ADDCONST'', ''MULCONST'', ''LSHIFT'', ''RSHIFT'', ''MULRSHIFT'', ''MODPOW2'',
    ''MAX'', ''MIN'', ''AND'', ''OR'', ''XOR'', ''NOT'', ''EQUAL'', ''NEQ'', ''LESS'', ''LEQ'',
    ''GREATER'', ''GEQ'', ''EQINT'', ''NEQINT'', ''LESSINT'', ''GTINT'', ''UFITS'', ''FITS'',
    ''PUSHINT'', ''TRUE'', ''FALSE'', ''NULL'', ''ISNULL'', ''CONDSEL'', ''SDEQ'', ''TUPLE'',
    ''UNTUPLE'', ''INDEX_EXCEP'', ''INDEX_NOEXCEP'', ''INDEX2'', ''INDEX3'', ''NEWC'',
    ''ENDC'', ''STU'', ''STUR'', ''STI'', ''STIR'', ''STSLICE'', ''STSLICER'', ''STREF'',
    ''STREFR'', ''STB'', ''STBR'', ''STBREF'', ''STBREFR'', ''STUX'', ''STUXR'', ''STZERO'',
    ''STONE'', ''STZEROES'', ''STSLICECONST'', ''LDU'', ''LDI'', ''PLDU'', ''PLDI'', ''LDREF'',
    ''PLDREF'', ''LDDICT'', ''PLDDICT'', ''LDUX'', ''PLDUX'', ''LDIX'', ''PLDIX'']"

definition doc_gen :: "string \<Rightarrow> string \<Rightarrow> 'w prim option" where
  "doc_gen opc arg = (case map_of doc_table opc of Some f \<Rightarrow> f arg | None \<Rightarrow> None)"

text \<open>
  \<open>NULLSWAPIF\<close> and its seven relatives insert a constant under the condition (\<open>SWAP\<close>) or under
  the condition and the value below it (\<open>ROTR\<close>), and keep the condition.
\<close>

definition align_prim :: "bool \<Rightarrow> bool \<Rightarrow> bool \<Rightarrow> 'w prim" where
  "align_prim isZero isSwap isNot s =
     (case stk s 0 of
        VInt c \<Rightarrow>
          let v = (if isZero then VInt 0 else VNull)
          in if (c \<noteq> 0) \<noteq> isNot then
               Some (set_stk s
                 (if isSwap then spush (stk s 0) (spush v (sdrop 1 (stk s)))
                  else spush (stk s 0) (spush (stk s 1) (spush v (sdrop 2 (stk s))))))
             else Some s
      | _ \<Rightarrow> None)"

definition doc_asym :: "string \<Rightarrow> 'w prim option" where
  "doc_asym t =
     map_of [(case getZeroOrNullAlignment z w n of AsymGen x \<Rightarrow> x | _ \<Rightarrow> [], align_prim z w n).
       z \<leftarrow> [True, False], w \<leftarrow> [True, False], n \<leftarrow> [True, False]] t"

text \<open>The value of a constant slice or cell without children.\<close>

definition blob_bits :: "string \<Rightarrow> string option" where
  "blob_bits b = (if b = [] then Some [] else sliceToBitString b)"

definition doc_cell :: "push_cell \<Rightarrow> val option" where
  "doc_cell c =
     (if pc_child c \<noteq> None then None
      else case pc_type c of
        PUSHSLICE \<Rightarrow> map_option (\<lambda>b. VSlice b []) (blob_bits (pc_blob c))
      | PUSHREFSLICE \<Rightarrow> map_option (\<lambda>b. VSlice b []) (blob_bits (pc_blob c))
      | PUSHREF \<Rightarrow> map_option (\<lambda>b. VCell b []) (blob_bits (pc_blob c))
      | _ \<Rightarrow> None)"

text \<open>Each entry of the documentation, by name.\<close>

lemma doc_lookup:
  "doc_gen ''ADD'' a = (no_arg (ari2 (+))) a"
  "doc_gen ''SUB'' a = (no_arg (ari2 (-))) a"
  "doc_gen ''SUBR'' a = (no_arg (ari2 (\<lambda>x y. y - x))) a"
  "doc_gen ''MUL'' a = (no_arg (ari2 (*))) a"
  "doc_gen ''DIV'' a = (no_arg (app2 (i2 (\<lambda>x y. if y = 0 then None else ri (x div y))))) a"
  "doc_gen ''MOD'' a = (no_arg (app2 (i2 (\<lambda>x y. if y = 0 then None else ri (x mod y))))) a"
  "doc_gen ''INC'' a = (no_arg (ari1 (\<lambda>x. x + 1))) a"
  "doc_gen ''DEC'' a = (no_arg (ari1 (\<lambda>x. x - 1))) a"
  "doc_gen ''NEGATE'' a = (no_arg (ari1 uminus)) a"
  "doc_gen ''ABS'' a = (no_arg (ari1 abs)) a"
  "doc_gen ''ADDCONST'' a = (int_arg (\<lambda>c. ari1 (\<lambda>x. x + c))) a"
  "doc_gen ''MULCONST'' a = (int_arg (\<lambda>c. ari1 (\<lambda>x. x * c))) a"
  "doc_gen ''LSHIFT'' a = (opt_arg (app2 (i2 lshift)) (\<lambda>c. app1 (i1 (\<lambda>x. lshift x c)))) a"
  "doc_gen ''RSHIFT'' a = (opt_arg (app2 (i2 rshift)) (\<lambda>c. app1 (i1 (\<lambda>x. rshift x c)))) a"
  "doc_gen ''MULRSHIFT'' a = (opt_arg (app3 (\<lambda>a b c. i1 (\<lambda>x. i1 (\<lambda>y. i1 (\<lambda>z. rshift (x * y) z) c) b) a)) (\<lambda>c. app2 (i2 (\<lambda>x y. rshift (x * y) c)))) a"
  "doc_gen ''MODPOW2'' a = (nat_arg (\<lambda>n. ari1 (\<lambda>x. x mod 2 ^ n))) a"
  "doc_gen ''MAX'' a = (no_arg (ari2 max)) a"
  "doc_gen ''MIN'' a = (no_arg (ari2 min)) a"
  "doc_gen ''AND'' a = (no_arg (ari2 Bit_Operations.and)) a"
  "doc_gen ''OR'' a = (no_arg (ari2 Bit_Operations.or)) a"
  "doc_gen ''XOR'' a = (no_arg (ari2 Bit_Operations.xor)) a"
  "doc_gen ''NOT'' a = (no_arg (ari1 (\<lambda>x. - 1 - x))) a"
  "doc_gen ''EQUAL'' a = (no_arg (cmp2 (=))) a"
  "doc_gen ''NEQ'' a = (no_arg (cmp2 (\<noteq>))) a"
  "doc_gen ''LESS'' a = (no_arg (cmp2 (<))) a"
  "doc_gen ''LEQ'' a = (no_arg (cmp2 (\<le>))) a"
  "doc_gen ''GREATER'' a = (no_arg (cmp2 (>))) a"
  "doc_gen ''GEQ'' a = (no_arg (cmp2 (\<ge>))) a"
  "doc_gen ''EQINT'' a = (cmp_int (=)) a"
  "doc_gen ''NEQINT'' a = (cmp_int (\<noteq>)) a"
  "doc_gen ''LESSINT'' a = (cmp_int (<)) a"
  "doc_gen ''GTINT'' a = (cmp_int (>)) a"
  "doc_gen ''UFITS'' a = (nat_arg (\<lambda>n. app1 (i1 (\<lambda>x. if 0 \<le> x \<and> x < 2 ^ n then ri x else None)))) a"
  "doc_gen ''FITS'' a = (nat_arg (\<lambda>n. app1 (i1 (\<lambda>x. if - (2 ^ (n - 1)) \<le> x \<and> x < 2 ^ (n - 1) \<and> 1 \<le> n then ri x else None)))) a"
  "doc_gen ''PUSHINT'' a = (big_arg (\<lambda>v. app0 (VInt v))) a"
  "doc_gen ''TRUE'' a = (no_arg (app0 (VInt (-1)))) a"
  "doc_gen ''FALSE'' a = (no_arg (app0 (VInt 0))) a"
  "doc_gen ''NULL'' a = (no_arg (app0 VNull)) a"
  "doc_gen ''ISNULL'' a = (no_arg (app1 (\<lambda>v. rb (v = VNull)))) a"
  "doc_gen ''CONDSEL'' a = (no_arg (app3 (\<lambda>f x y. i1 (\<lambda>c. Some (if c \<noteq> 0 then x else y)) f))) a"
  "doc_gen ''SDEQ'' a = (no_arg (app2 (\<lambda>a b. case a of VSlice x _ \<Rightarrow> (case b of VSlice y _ \<Rightarrow> rb (x = y) | _ \<Rightarrow> None) | _ \<Rightarrow> None))) a"
  "doc_gen ''TUPLE'' a = (nat_arg tuple_prim) a"
  "doc_gen ''UNTUPLE'' a = (nat_arg untuple_prim) a"
  "doc_gen ''INDEX_EXCEP'' a = (nat_arg (\<lambda>i. app1 (index_of i))) a"
  "doc_gen ''INDEX_NOEXCEP'' a = (nat_arg (\<lambda>i. app1 (index_of i))) a"
  "doc_gen ''INDEX2'' a = ((\<lambda>a. map_option (\<lambda>(i, j). app1 (\<lambda>t. index_of i t \<bind> index_of j)) (two_args a))) a"
  "doc_gen ''INDEX3'' a = ((\<lambda>a. map_option (\<lambda>(i, j, k). app1 (\<lambda>t. index_of i t \<bind> index_of j \<bind> index_of k)) (three_args a))) a"
  "doc_gen ''NEWC'' a = (no_arg (app0 (VBuilder [] []))) a"
  "doc_gen ''ENDC'' a = (no_arg (app1 endc)) a"
  "doc_gen ''STU'' a = (nat_arg (\<lambda>n. app2 (\<lambda>x b. st_u n b x))) a"
  "doc_gen ''STUR'' a = (nat_arg (\<lambda>n. app2 (st_u n))) a"
  "doc_gen ''STI'' a = (nat_arg (\<lambda>n. app2 (\<lambda>x b. st_i n b x))) a"
  "doc_gen ''STIR'' a = (nat_arg (\<lambda>n. app2 (st_i n))) a"
  "doc_gen ''STSLICE'' a = (no_arg (app2 (\<lambda>x b. st_slice b x))) a"
  "doc_gen ''STSLICER'' a = (no_arg (app2 st_slice)) a"
  "doc_gen ''STREF'' a = (no_arg (app2 (\<lambda>x b. st_ref b x))) a"
  "doc_gen ''STREFR'' a = (no_arg (app2 st_ref)) a"
  "doc_gen ''STB'' a = (no_arg (app2 (\<lambda>x b. st_b b x))) a"
  "doc_gen ''STBR'' a = (no_arg (app2 st_b)) a"
  "doc_gen ''STBREF'' a = (no_arg (app2 (\<lambda>x b. st_bref b x))) a"
  "doc_gen ''STBREFR'' a = (no_arg (app2 st_bref)) a"
  "doc_gen ''STUX'' a = (no_arg (app3 (\<lambda>x b l. i1 (\<lambda>n. if 0 \<le> n then st_u (nat n) b x else None) l))) a"
  "doc_gen ''STUXR'' a = (no_arg (app3 (\<lambda>b x l. i1 (\<lambda>n. if 0 \<le> n then st_u (nat n) b x else None) l))) a"
  "doc_gen ''STZERO'' a = (no_arg (app1 (st_bits ''0'' []))) a"
  "doc_gen ''STONE'' a = (no_arg (app1 (st_bits ''1'' []))) a"
  "doc_gen ''STZEROES'' a = (no_arg (app2 st_zeroes)) a"
  "doc_gen ''STSLICECONST'' a = ((\<lambda>a. map_option (\<lambda>bits. app1 (st_bits bits [])) (sliceToBitString a))) a"
  "doc_gen ''LDU'' a = (nat_arg (\<lambda>n. app12 (ld_bits False n))) a"
  "doc_gen ''LDI'' a = (nat_arg (\<lambda>n. app12 (ld_bits True n))) a"
  "doc_gen ''PLDU'' a = (nat_arg (\<lambda>n. app1 (\<lambda>x. map_option fst (ld_bits False n x)))) a"
  "doc_gen ''PLDI'' a = (nat_arg (\<lambda>n. app1 (\<lambda>x. map_option fst (ld_bits True n x)))) a"
  "doc_gen ''LDREF'' a = (no_arg (app12 ld_ref)) a"
  "doc_gen ''PLDREF'' a = (no_arg (app1 (\<lambda>x. map_option fst (ld_ref x)))) a"
  "doc_gen ''LDDICT'' a = (no_arg (app12 ld_dict)) a"
  "doc_gen ''PLDDICT'' a = (no_arg (app1 (\<lambda>x. map_option fst (ld_dict x)))) a"
  "doc_gen ''LDUX'' a = (no_arg (app22 (\<lambda>x l. case l of VInt n \<Rightarrow> if 0 \<le> n then ld_bits False (nat n) x else None | _ \<Rightarrow> None))) a"
  "doc_gen ''PLDUX'' a = (no_arg (app2 (\<lambda>x l. case l of VInt n \<Rightarrow> if 0 \<le> n then map_option fst (ld_bits False (nat n) x) else None | _ \<Rightarrow> None))) a"
  "doc_gen ''LDIX'' a = (no_arg (app22 (\<lambda>x l. case l of VInt n \<Rightarrow> if 0 \<le> n then ld_bits True (nat n) x else None | _ \<Rightarrow> None))) a"
  "doc_gen ''PLDIX'' a = (no_arg (app2 (\<lambda>x l. case l of VInt n \<Rightarrow> if 0 \<le> n then map_option fst (ld_bits True (nat n) x) else None | _ \<Rightarrow> None))) a"
  unfolding doc_gen_def doc_table_def by (simp_all only: map_of_look option.case)

end
