(* ===== verification/TvmRun.thy ===== *)
theory TvmRun
  imports TvmSem
begin

text \<open>
  Running instruction trees on a machine. The machine, a parameter, says what the single
  instructions do; the structured nodes (continuations, conditionals, loops) are run here, the way
  the printer lays them out: \<open>CALLX\<close>, \<open>JMPX\<close>, \<open>IF\<close>, \<open>IFJMP\<close>, \<open>IFELSE\<close>, \<open>REPEAT\<close>, \<open>UNTIL\<close>,
  \<open>WHILE\<close>, \<open>AGAIN\<close> and their \<open>BRK\<close> variants.

  Two restrictions hold by construction of Solidity code, whose type checker guarantees them: the
  operand of \<open>NOT\<close> and the left operand of a short-circuit operator are booleans, \<open>0\<close> or \<open>-1\<close>. A run
  in which they are not has no outcome here.
\<close>

section \<open>Single instructions\<close>

record 'w machine =
  m_gen :: "string \<Rightarrow> string \<Rightarrow> 'w prim"
  m_asym :: "string \<Rightarrow> 'w prim"
  m_hard :: "string list \<Rightarrow> 'w st \<Rightarrow> 'w outcome option"
  m_cell :: "push_cell \<Rightarrow> val option"
  m_glob :: "glob_opcode \<Rightarrow> 'w prim"

definition norm :: "'w st option \<Rightarrow> 'w outcome option" where
  "norm x = map_option Norm x"

definition pop1 :: "'w st \<Rightarrow> 'w st" where
  "pop1 s = set_stk s (sdrop 1 (stk s))"

definition popn :: "nat \<Rightarrow> 'w st \<Rightarrow> 'w st" where
  "popn n s = set_stk s (sdrop n (stk s))"

definition cond :: "bool \<Rightarrow> val \<Rightarrow> bool option" where
  "cond withNot v = (case v of VInt x \<Rightarrow> Some ((x \<noteq> 0) \<noteq> withNot) | _ \<Rightarrow> None)"

definition is_bool :: "val \<Rightarrow> bool" where
  "is_bool v = (v = VInt 0 \<or> v = VInt (-1))"

definition gen_typed :: "string \<Rightarrow> 'w st \<Rightarrow> bool" where
  "gen_typed opc s = (opc = ''NOT'' \<longrightarrow> is_bool (stk s 0))"

definition ret_out :: "bool \<Rightarrow> 'w st \<Rightarrow> 'w outcome" where
  "ret_out alt s = (if alt then RetAlt s else Ret s)"

definition ret_prim :: "bool \<Rightarrow> bool \<Rightarrow> bool \<Rightarrow> 'w st \<Rightarrow> 'w outcome option" where
  "ret_prim withIf withNot withAlt s =
     (if withIf then
        map_option (\<lambda>b. if b then ret_out withAlt (pop1 s) else Norm (pop1 s)) (cond withNot (stk s 0))
      else Some (ret_out withAlt s))"

text \<open>\<open>THROW[ARG][ANY][IF|IFNOT]\<close>: the condition is on top, below it the code, below it the argument.\<close>

definition exc_prim ::
    "bool \<Rightarrow> bool \<Rightarrow> bool \<Rightarrow> bool \<Rightarrow> string \<Rightarrow> 'w st \<Rightarrow> 'w outcome option" where
  "exc_prim a y i m param s =
     (let c = (if i then cond m (stk s 0) else Some True);
          p = (if i then 1 else 0);
          q = p + (if y then 1 else 0);
          n = q + (if a then 1 else 0)
      in map_option (\<lambda>b.
           if b then Exc (if y then CodeVal (stk s p) else Code param)
                         (if a then Some (stk s q) else None) (wld s)
           else Norm (popn n s)) c)"

fun prim :: "'w machine \<Rightarrow> node \<Rightarrow> 'w st \<Rightarrow> 'w outcome option" where
  "prim M (Loc _ _) s = Some (Norm s)"
| "prim M (Stack p i j k) s = norm (map_option (set_stk s) (stack_exec p i j k (stk s)))"
| "prim M (Glob p i) s =
     norm (case p of
        GetOrGetVar \<Rightarrow> app0 (glb s i) s
      | SetOrSetVar \<Rightarrow> Some (pop1 (s\<lparr>glb := (glb s)(i := stk s 0)\<rparr>))
      | _ \<Rightarrow> m_glob M p s)"
| "prim M DeclRetFlag s = norm (app0 (VInt 0) s)"
| "prim M (AsymGen t) s = norm (m_asym M t s)"
| "prim M (HardCode c _ _ _) s = m_hard M c s"
| "prim M (GenOpcode opc a _ _ _ _) s = (if gen_typed opc s then norm (m_gen M opc a s) else None)"
| "prim M (TvmReturn i m a) s = ret_prim i m a s"
| "prim M (TvmException a y i m p) s = exc_prim a y i m p s"
| "prim M (PushCellOrSlice c) s = norm (m_cell M c \<bind> (\<lambda>v. app0 v s))"
| "prim M (BlockNode b) s = norm (app0 (VCont b) s)"
| "prim M _ s = None"

section \<open>Instruction lists\<close>

fun call_out :: "'w outcome \<Rightarrow> 'w outcome" where
  "call_out (Ret s) = Norm s"
| "call_out r = r"

fun jump_out :: "'w outcome \<Rightarrow> 'w outcome" where
  "jump_out (Norm s) = Ret s"
| "jump_out r = r"

text \<open>A loop ends at \<open>RETALT\<close>; its \<open>BRK\<close> form then goes on after the loop.\<close>

fun brk_out :: "bool \<Rightarrow> 'w outcome \<Rightarrow> 'w outcome" where
  "brk_out True (RetAlt s) = Norm s"
| "brk_out _ r = r"

definition is_norm :: "'w outcome \<Rightarrow> bool" where
  "is_norm r = (\<exists>s. r = Norm s)"

inductive run1 :: "'w machine \<Rightarrow> node \<Rightarrow> 'w st \<Rightarrow> 'w outcome \<Rightarrow> bool"
  and run :: "'w machine \<Rightarrow> node list \<Rightarrow> 'w st \<Rightarrow> 'w outcome \<Rightarrow> bool"
  and rep :: "'w machine \<Rightarrow> bool \<Rightarrow> node list \<Rightarrow> nat \<Rightarrow> 'w st \<Rightarrow> 'w outcome \<Rightarrow> bool"
  and unt :: "'w machine \<Rightarrow> bool \<Rightarrow> node list \<Rightarrow> 'w st \<Rightarrow> 'w outcome \<Rightarrow> bool"
  and whl :: "'w machine \<Rightarrow> bool \<Rightarrow> bool \<Rightarrow> node list \<Rightarrow> node list \<Rightarrow> 'w st \<Rightarrow> 'w outcome \<Rightarrow> bool"
  for M :: "'w machine" where
  r1_prim: "prim M n s = Some r \<Longrightarrow> run1 M n s r"
| r1_opaque: "run M (instructions b) s r \<Longrightarrow> run1 M (Opaque b tk rt p) s r"
| r1_robc: "run M (instructions b) s r \<Longrightarrow> run1 M (ReturnOrBreakOrCont tk b) s r"
| r1_sub:
    "run M (instructions b) s r \<Longrightarrow>
     run1 M (SubProgram tk rt jm b p) s (if jm then jump_out r else call_out r)"
| r1_log_skip:
    "is_bool (stk s 0) \<Longrightarrow> cond (t = LogOR) (stk s 0) = Some False \<Longrightarrow>
     run1 M (LogCircuit t b) s (Norm (pop1 s))"
| r1_log:
    "is_bool (stk s 0) \<Longrightarrow> cond (t = LogOR) (stk s 0) = Some True \<Longrightarrow>
     run M (instructions b) (pop1 s) r \<Longrightarrow> run1 M (LogCircuit t b) s (call_out r)"
| r1_if_skip:
    "cond w (stk s 0) = Some False \<Longrightarrow> run1 M (TvmIfElse w jm t None rt) s (Norm (pop1 s))"
| r1_if:
    "cond w (stk s 0) = Some True \<Longrightarrow> run M (instructions t) (pop1 s) r \<Longrightarrow>
     run1 M (TvmIfElse w jm t None rt) s (if jm then jump_out r else call_out r)"
| r1_ifelse:
    "cond w (stk s 0) = Some b \<Longrightarrow> run M (instructions (if b then t else f)) (pop1 s) r \<Longrightarrow>
     run1 M (TvmIfElse w jm t (Some f) rt) s (call_out r)"
| r1_repeat:
    "stk s 0 = VInt n \<Longrightarrow> rep M bk (instructions b) (nat n) (pop1 s) r \<Longrightarrow>
     run1 M (TvmRepeat bk b) s r"
| r1_until: "unt M bk (instructions b) s r \<Longrightarrow> run1 M (TvmUntil bk b) s r"
| r1_while:
    "whl M ag bk (instructions c) (instructions b) s r \<Longrightarrow> run1 M (While ag bk c b) s r"
| run_Nil: "run M [] s (Norm s)"
| run_Cons: "run1 M n s (Norm t) \<Longrightarrow> run M c t r \<Longrightarrow> run M (n # c) s r"
| run_stop: "run1 M n s r \<Longrightarrow> \<not> is_norm r \<Longrightarrow> run M (n # c) s r"
| rep_0: "rep M bk c 0 s (Norm s)"
| rep_Suc:
    "run M c s r0 \<Longrightarrow> call_out r0 = Norm t \<Longrightarrow> rep M bk c n t r \<Longrightarrow> rep M bk c (Suc n) s r"
| rep_stop: "run M c s r \<Longrightarrow> \<not> is_norm (call_out r) \<Longrightarrow> rep M bk c (Suc n) s (brk_out bk r)"
| unt_end:
    "run M c s r0 \<Longrightarrow> call_out r0 = Norm t \<Longrightarrow> cond False (stk t 0) = Some True \<Longrightarrow>
     unt M bk c s (Norm (pop1 t))"
| unt_next:
    "run M c s r0 \<Longrightarrow> call_out r0 = Norm t \<Longrightarrow> cond False (stk t 0) = Some False \<Longrightarrow>
     unt M bk c (pop1 t) r \<Longrightarrow> unt M bk c s r"
| unt_stop: "run M c s r \<Longrightarrow> \<not> is_norm (call_out r) \<Longrightarrow> unt M bk c s (brk_out bk r)"
| whl_cond_stop:
    "\<not> ag \<Longrightarrow> run M c s r \<Longrightarrow> \<not> is_norm (call_out r) \<Longrightarrow> whl M ag bk c b s (brk_out bk r)"
| whl_end:
    "\<not> ag \<Longrightarrow> run M c s r0 \<Longrightarrow> call_out r0 = Norm t \<Longrightarrow> cond False (stk t 0) = Some False \<Longrightarrow>
     whl M ag bk c b s (Norm (pop1 t))"
| whl_next:
    "\<not> ag \<Longrightarrow> run M c s r0 \<Longrightarrow> call_out r0 = Norm t \<Longrightarrow> cond False (stk t 0) = Some True \<Longrightarrow>
     run M b (pop1 t) r1 \<Longrightarrow> call_out r1 = Norm u \<Longrightarrow> whl M ag bk c b u r \<Longrightarrow> whl M ag bk c b s r"
| whl_stop:
    "\<not> ag \<Longrightarrow> run M c s r0 \<Longrightarrow> call_out r0 = Norm t \<Longrightarrow> cond False (stk t 0) = Some True \<Longrightarrow>
     run M b (pop1 t) r \<Longrightarrow> \<not> is_norm (call_out r) \<Longrightarrow> whl M ag bk c b s (brk_out bk r)"
| again_next:
    "ag \<Longrightarrow> run M b s r0 \<Longrightarrow> call_out r0 = Norm t \<Longrightarrow> whl M ag bk c b t r \<Longrightarrow>
     whl M ag bk c b s r"
| again_stop:
    "ag \<Longrightarrow> run M b s r \<Longrightarrow> \<not> is_norm (call_out r) \<Longrightarrow> whl M ag bk c b s (brk_out bk r)"

inductive_cases run_NilE [elim!]: "run M [] s r"
inductive_cases run_ConsE: "run M (n # c) s r"

inductive_simps run1_Loc: "run1 M (Loc f l) s r"
inductive_simps run1_Stack: "run1 M (Stack p i j k) s r"
inductive_simps run1_Glob: "run1 M (Glob p i) s r"
inductive_simps run1_DeclRetFlag: "run1 M DeclRetFlag s r"
inductive_simps run1_AsymGen: "run1 M (AsymGen t) s r"
inductive_simps run1_HardCode: "run1 M (HardCode c t rt p) s r"
inductive_simps run1_GenOpcode: "run1 M (GenOpcode opc a c t rt p) s r"
inductive_simps run1_TvmReturn: "run1 M (TvmReturn i m a) s r"
inductive_simps run1_TvmException: "run1 M (TvmException a y i m p) s r"
inductive_simps run1_PushCell: "run1 M (PushCellOrSlice c) s r"
inductive_simps run1_BlockNode: "run1 M (BlockNode b) s r"
inductive_simps run1_Opaque: "run1 M (Opaque b tk rt p) s r"
inductive_simps run1_ROBC: "run1 M (ReturnOrBreakOrCont tk b) s r"
inductive_simps run1_Sub: "run1 M (SubProgram tk rt jm b p) s r"
inductive_simps run1_Log: "run1 M (LogCircuit t b) s r"
inductive_simps run1_If: "run1 M (TvmIfElse w jm t None rt) s r"
inductive_simps run1_IfElse: "run1 M (TvmIfElse w jm t (Some f) rt) s r"
inductive_simps run1_Repeat: "run1 M (TvmRepeat bk b) s r"
inductive_simps run1_Until: "run1 M (TvmUntil bk b) s r"
inductive_simps run1_While: "run1 M (While ag bk c b) s r"

lemmas run1_prims =
  run1_Loc run1_Stack run1_Glob run1_DeclRetFlag run1_AsymGen run1_HardCode run1_GenOpcode
  run1_TvmReturn run1_TvmException run1_PushCell run1_BlockNode

lemma run_Nil_iff [simp]: "run M [] s r \<longleftrightarrow> r = Norm s"
  by (auto intro: run_Nil)

lemma run_Cons_iff:
  "run M (n # c) s r \<longleftrightarrow>
     (\<exists>t. run1 M n s (Norm t) \<and> run M c t r) \<or> (run1 M n s r \<and> \<not> is_norm r)"
  by (auto elim: run_ConsE intro: run_Cons run_stop)

lemma is_norm_Norm [simp]: "is_norm (Norm s)"
  by (simp add: is_norm_def)

lemma run_append:
  "run M (c @ d) s r \<longleftrightarrow>
     (\<exists>t. run M c s (Norm t) \<and> run M d t r) \<or> (run M c s r \<and> \<not> is_norm r)"
  by (induction c arbitrary: s) (auto simp: run_Cons_iff)

end
