(* ===== verification/Refine.thy ===== *)
theory Refine
  imports TvmRun
begin

text \<open>
  When one instruction list may replace another, and for which trees and machines the optimisers
  promise it. \<open>refines M c c'\<close> keeps every visible outcome; \<open>refines_tail\<close> is the same for code at the
  end of a continuation, where falling off the end and \<open>RET\<close> are the same. The locale \<open>tvm\<close> collects
  what is assumed of the machine; \<open>wf\<close> is the form of the trees the code generator builds.
\<close>

section \<open>Refinement of instruction lists\<close>

text \<open>
  The optimiser replaces the exception 63 of \<open>optional.get()\<close> by the machine's own type check, so
  this one outcome is not kept.
\<close>

definition GetOptionalException :: int where "GetOptionalException = 63"

definition visible :: "'w outcome \<Rightarrow> bool" where
  "visible r = (\<forall>x w. r \<noteq> Exc (Code (toString GetOptionalException)) x w)"

definition refines :: "'w machine \<Rightarrow> node list \<Rightarrow> node list \<Rightarrow> bool" where
  "refines M c c' = (\<forall>s r. visible r \<longrightarrow> run M c s r \<longrightarrow> run M c' s r)"

definition refines_tail :: "'w machine \<Rightarrow> node list \<Rightarrow> node list \<Rightarrow> bool" where
  "refines_tail M c c' =
     (\<forall>s r. visible r \<longrightarrow> run M c s r \<longrightarrow> (\<exists>r'. run M c' s r' \<and> (r' = r \<or> r' = call_out r)))"

lemma visible_simps [simp]: "visible (Norm s)" "visible (Ret s)" "visible (RetAlt s)"
  by (simp_all add: visible_def)

lemma visible_out [simp]:
  "visible (call_out r) = visible r" "visible (jump_out r) = visible r"
  "visible (brk_out b r) = visible r"
  by (cases r; cases b; simp)+

lemma refinesI: "(\<And>s r. visible r \<Longrightarrow> run M c s r \<Longrightarrow> run M c' s r) \<Longrightarrow> refines M c c'"
  by (simp add: refines_def)

lemma refinesD: "refines M c c' \<Longrightarrow> visible r \<Longrightarrow> run M c s r \<Longrightarrow> run M c' s r"
  by (simp add: refines_def)

lemma refines_refl [simp]: "refines M c c"
  by (simp add: refines_def)

lemma refines_trans: "refines M a b \<Longrightarrow> refines M b c \<Longrightarrow> refines M a c"
  by (simp add: refines_def)

lemma refines_append: "refines M a a' \<Longrightarrow> refines M b b' \<Longrightarrow> refines M (a @ b) (a' @ b')"
  by (fastforce simp: refines_def run_append)

lemma refines_tail_refl [simp]: "refines_tail M c c"
  by (auto simp: refines_tail_def)

lemma refines_imp_tail: "refines M c c' \<Longrightarrow> refines_tail M c c'"
  by (auto simp: refines_def refines_tail_def)

lemma call_out_idem [simp]: "call_out (call_out r) = call_out r"
  by (cases r) simp_all

lemma refines_tail_trans: "refines_tail M a b \<Longrightarrow> refines_tail M b c \<Longrightarrow> refines_tail M a c"
  unfolding refines_tail_def by (metis call_out_idem visible_out(1))

lemma refines_tail_append: "refines_tail M b b' \<Longrightarrow> refines_tail M (a @ b) (a @ b')"
  unfolding refines_tail_def run_append by metis

text \<open>Code that never ends with \<open>RET\<close> keeps its outcomes as they are.\<close>

lemma refines_tail_no_ret:
  assumes "refines_tail M c c'" "\<And>s u. \<not> run M c s (Ret u)"
  shows "refines M c c'"
proof (rule refinesI)
  fix s r
  assume r: "visible r" "run M c s r"
  then have "call_out r = r" using assms(2) by (cases r) auto
  then show "run M c' s r" using assms(1) r unfolding refines_tail_def by metis
qed

lemma refines_tail_append_mid:
  "refines M a a' \<Longrightarrow> refines_tail M (p @ a @ q) (p @ a' @ q)"
  by (intro refines_imp_tail refines_append) auto

section \<open>Line marks do not matter\<close>

definition unloc :: "node list \<Rightarrow> node list" where
  "unloc c = filter (\<lambda>n. \<not> isLoc n) c"

lemma unloc_simps [simp]:
  "unloc [] = []" "unloc (a @ b) = unloc a @ unloc b"
  "unloc (n # c) = (if isLoc n then unloc c else n # unloc c)"
  by (simp_all add: unloc_def)

lemma run1_isLoc: "isLoc n \<Longrightarrow> run1 M n s r \<longleftrightarrow> r = Norm s"
  by (cases n) (auto simp: isLoc_def run1_Loc)

lemma run_unloc: "run M (unloc c) s r \<longleftrightarrow> run M c s r"
proof (induction c arbitrary: s)
  case (Cons n c)
  then show ?case by (cases "isLoc n") (simp_all add: run_Cons_iff run1_isLoc cong: conj_cong)
qed simp

lemma refines_unloc: "refines M (unloc a) (unloc b) \<longleftrightarrow> refines M a b"
  by (simp add: refines_def run_unloc)

lemma refines_tail_unloc: "refines_tail M (unloc a) (unloc b) \<longleftrightarrow> refines_tail M a b"
  by (simp add: refines_tail_def run_unloc)

section \<open>Well-formed trees\<close>

text \<open>What the declared \<open>take\<close>, \<open>ret\<close> and \<open>isPure\<close> of an instruction promise.\<close>

definition pushes :: "'w machine \<Rightarrow> node \<Rightarrow> bool" where
  "pushes M n =
     (\<exists>f. \<forall>s r. run1 M n s r \<longleftrightarrow> r = Norm (set_stk s (spush (f (glb s) (wld s)) (stk s))))"

definition frame01 :: "'w machine \<Rightarrow> node \<Rightarrow> bool" where
  "frame01 M n =
     (\<forall>s r. run1 M n s r \<longrightarrow>
        (\<exists>e x w. r = Exc e x w \<and> (\<forall>t. run1 M n (set_stk s t) r)) \<or>
        (\<exists>v g w. r = Norm \<lparr>stk = spush v (stk s), glb = g, wld = w\<rparr> \<and>
           (\<forall>t. run1 M n (set_stk s t) (Norm \<lparr>stk = spush v t, glb = g, wld = w\<rparr>))))"

definition maps1 :: "'w machine \<Rightarrow> node \<Rightarrow> bool" where
  "maps1 M n =
     (\<forall>s r. run1 M n s r \<longrightarrow> (\<exists>v. r = Norm (set_stk s (spush v (sdrop 1 (stk s))))))"

fun isSubProgram :: "node \<Rightarrow> bool" where
  "isSubProgram (SubProgram _ _ _ _ _) = True"
| "isSubProgram _ = False"

definition declared :: "'w machine \<Rightarrow> node \<Rightarrow> bool" where
  "declared M n =
     (case gen_info n of
        None \<Rightarrow> True
      | Some (t, r, p) \<Rightarrow>
          (t = 0 \<and> r = 1 \<and> p \<longrightarrow> pushes M n)
          \<and> (t = 0 \<and> r = 1 \<and> \<not> isSubProgram n \<longrightarrow> frame01 M n)
          \<and> (t = 1 \<and> r = 1 \<and> p \<longrightarrow> maps1 M n))"

text \<open>The operands that the \<open>make*\<close> functions admit.\<close>

definition stack_wf :: "stack_opcode \<Rightarrow> int \<Rightarrow> int \<Rightarrow> int \<Rightarrow> bool" where
  "stack_wf p i j k =
     (case p of
        DROP \<Rightarrow> 1 \<le> i | POP_S \<Rightarrow> 1 \<le> i | PUSH_S \<Rightarrow> 0 \<le> i
      | BLKDROP2 \<Rightarrow> 1 \<le> i \<and> 1 \<le> j | BLKPUSH \<Rightarrow> 1 \<le> i \<and> 0 \<le> j | PUSH2_S \<Rightarrow> 0 \<le> i \<and> 0 \<le> j
      | PUSH3_S \<Rightarrow> 0 \<le> i \<and> 0 \<le> j \<and> 0 \<le> k
      | BLKSWAP \<Rightarrow> 1 \<le> i \<and> 1 \<le> j | REVERSE \<Rightarrow> 2 \<le> i \<and> 0 \<le> j | XCHG \<Rightarrow> 0 \<le> i \<and> i \<le> j
      | TUCK \<Rightarrow> True | PUXC \<Rightarrow> 0 \<le> i \<and> -1 \<le> j)"

definition arg_ok :: "string \<Rightarrow> bool" where
  "arg_ok a =
     (CHR '';'' \<notin> set a \<and> trim a = a \<and> (\<forall>v. strToInt a = Some v \<longrightarrow> a = toString v)
      \<and> (\<forall>v. bigint_of a = Some v \<longrightarrow> a = toString v))"

definition comment_ok :: "string \<Rightarrow> bool" where
  "comment_ok c = (c = [] \<or> (\<exists>l. c = CHR '';'' # l \<and> CHR '';'' \<notin> set l))"

definition gen_sig_ok :: "string \<Rightarrow> int \<Rightarrow> int \<Rightarrow> bool \<Rightarrow> bool" where
  "gen_sig_ok opc t r p =
     (case map_of opcodes opc of Some x \<Rightarrow> x = (t, r, p) | None \<Rightarrow> \<not> starts_with opc ''ST'')"

text \<open>
  The fusion of \<open>MUL\<close> with a following \<open>RSHIFT\<close> is not sound when the shift amount is on the stack,
  so a tree contains no \<open>MUL\<close>, or no \<open>RSHIFT\<close> without argument.
\<close>

definition mul_ok :: "bool \<Rightarrow> string \<Rightarrow> string \<Rightarrow> bool" where
  "mul_ok mul opc a = (if mul then \<not> (opc = ''RSHIFT'' \<and> a = []) else opc \<noteq> ''MUL'')"

text \<open>A documented instruction has an argument the documentation gives a meaning to.\<close>

definition documented :: "'w machine \<Rightarrow> string \<Rightarrow> string \<Rightarrow> bool" where
  "documented M opc a =
     (opc \<noteq> ''PUSHINT'' \<and> opc \<in> set doc_names \<longrightarrow>
      (doc_gen opc a :: 'w prim option) \<noteq> None)"

definition gen_wf :: "bool \<Rightarrow> string \<Rightarrow> string \<Rightarrow> string \<Rightarrow> int \<Rightarrow> int \<Rightarrow> bool \<Rightarrow> bool" where
  "gen_wf mul opc a c t r p =
     (plain opc \<and> opc \<noteq> [] \<and> arg_ok a \<and> comment_ok c \<and> gen_sig_ok opc t r p \<and> mul_ok mul opc a)"

fun wfn :: "'w machine \<Rightarrow> bool \<Rightarrow> node \<Rightarrow> bool"
and wf_block :: "'w machine \<Rightarrow> bool \<Rightarrow> code_block \<Rightarrow> bool"
and wf_list :: "'w machine \<Rightarrow> bool \<Rightarrow> node list \<Rightarrow> bool" where
  "wfn M mul (Loc f l) = True"
| "wfn M mul (Stack p i j k) = stack_wf p i j k"
| "wfn M mul (Glob p i) = declared M (Glob p i)"
| "wfn M mul DeclRetFlag = True"
| "wfn M mul (Opaque b t r p) = (declared M (Opaque b t r p) \<and> wf_block M mul b)"
| "wfn M mul (AsymGen s) = True"
| "wfn M mul (HardCode c t r p) =
     (declared M (HardCode c t r p) \<and> (\<forall>s u. m_hard M c s \<noteq> Some (Ret u)))"
| "wfn M mul (GenOpcode opc a c t r p) =
     (declared M (GenOpcode opc a c t r p) \<and> gen_wf mul opc a c t r p \<and> documented M opc a)"
| "wfn M mul (TvmReturn i m a) = True"
| "wfn M mul (ReturnOrBreakOrCont t b) = wf_block M mul b"
| "wfn M mul (TvmException a y i m p) = plain p"
| "wfn M mul (PushCellOrSlice c) =
     (declared M (PushCellOrSlice c) \<and> (pc_child c = None \<longrightarrow> doc_cell c \<noteq> None))"
| "wfn M mul (BlockNode b) = False"
| "wfn M mul (SubProgram t r jm b p) = (declared M (SubProgram t r jm b p) \<and> wf_block M mul b)"
| "wfn M mul (LogCircuit t b) = wf_block M mul b"
| "wfn M mul (TvmIfElse w jm t None r) = wf_block M mul t"
| "wfn M mul (TvmIfElse w jm t (Some f) r) = (wf_block M mul t \<and> wf_block M mul f \<and> \<not> w \<and> \<not> jm)"
| "wfn M mul (TvmRepeat bk b) = wf_block M mul b"
| "wfn M mul (TvmUntil bk b) = wf_block M mul b"
| "wfn M mul (While ag bk c b) = (wf_block M mul c \<and> wf_block M mul b)"
| "wf_block M mul (CodeBlock t c) = wf_list M mul c"
| "wf_list M mul [] = True"
| "wf_list M mul (n # c) = (wfn M mul n \<and> wf_list M mul c)"

lemma wfn_GenOpcode:
  "wfn M mul (GenOpcode opc a c t r p) \<longleftrightarrow>
     declared M (GenOpcode opc a c t r p) \<and> gen_wf mul opc a c t r p \<and> documented M opc a"
  by simp

declare wfn.simps(8) [simp del]

lemma wf_block_iff: "wf_block M mul b = wf_list M mul (instructions b)"
  by (cases b) simp

lemma wf_list_append [simp]: "wf_list M mul (a @ b) = (wf_list M mul a \<and> wf_list M mul b)"
  by (induction a) auto

lemma wf_list_iff: "wf_list M mul c = (\<forall>n \<in> set c. wfn M mul n)"
  by (induction c) auto

lemma wf_list_take_drop:
  "wf_list M mul c \<Longrightarrow> wf_list M mul (take n c) \<and> wf_list M mul (drop n c)"
  by (meson wf_list_iff in_set_takeD in_set_dropD)

lemma wfn_isLoc: "isLoc n \<Longrightarrow> wfn M mul n"
  by (cases n) (simp_all add: isLoc_def)

lemma wf_unloc: "wf_list M mul (unloc c) = wf_list M mul c"
  by (induction c) (auto simp: wfn_isLoc)

section \<open>The machine\<close>

locale tvm =
  fixes M :: "'w machine"
  assumes gen_doc: "doc_gen opc a = Some f \<Longrightarrow> m_gen M opc a = f"
    and asym_doc: "doc_asym t = Some f \<Longrightarrow> m_asym M t = f"
    and cell_doc: "doc_cell c = Some v \<Longrightarrow> m_cell M c = Some v"
    and pushint_doc: "m_gen M ''PUSHINT'' a s = Some s' \<Longrightarrow> \<exists>v. s' = set_stk s (spush (VInt v) (stk s))"

text \<open>A machine that does what the documentation says and nothing else.\<close>

definition ref_machine :: "unit machine" where
  "ref_machine = \<lparr>
     m_gen = (\<lambda>opc a s. case doc_gen opc a of Some f \<Rightarrow> f s | None \<Rightarrow> None),
     m_asym = (\<lambda>t s. case doc_asym t of Some f \<Rightarrow> f s | None \<Rightarrow> None),
     m_hard = (\<lambda>c s. None),
     m_cell = doc_cell,
     m_glob = (\<lambda>p s. None) \<rparr>"

interpretation ref: tvm ref_machine
proof
  fix a and s s' :: "unit st"
  assume "m_gen ref_machine ''PUSHINT'' a s = Some s'"
  then show "\<exists>v. s' = set_stk s (spush (VInt v) (stk s))"
    by (auto simp: ref_machine_def doc_lookup big_arg_def app0_def split: option.splits)
qed (auto simp: ref_machine_def fun_eq_iff)

end
