(* ===== verification/RuleLib.thy ===== *)
theory RuleLib
  imports Refine
begin

text \<open>
  The lemmas the rewrite rules of the optimisers are proved with: one step of a run for each kind of
  node, the documented meaning of each instruction under the assumptions of \<open>tvm\<close>, the instruction
  \<open>gen\<close> builds from a text, and the well-formedness of the instructions the rules build.
\<close>

section \<open>One step of a run\<close>

lemma norm_eq_Some: "norm x = Some r \<longleftrightarrow> (\<exists>t. x = Some t \<and> r = Norm t)"
  by (auto simp: norm_def)

lemma run_Stack [simp]:
  "run M (Stack p i j k # c) s r \<longleftrightarrow>
     stack_ok p i j k \<and>
     run M c (set_stk s (stack_fun p (nat i) (nat j) (nat k) (nat (j + 1)) (stk s))) r"
  by (auto simp: run_Cons_iff run1_Stack norm_eq_Some stack_exec_def)

lemma run_Gen [simp]:
  "run M (GenOpcode opc a cm tk rt p # c) s r \<longleftrightarrow>
     gen_typed opc s \<and> (\<exists>t. m_gen M opc a s = Some t \<and> run M c t r)"
  by (auto simp: run_Cons_iff run1_GenOpcode norm_eq_Some)

lemma run_Asym [simp]:
  "run M (AsymGen t # c) s r \<longleftrightarrow> (\<exists>u. m_asym M t s = Some u \<and> run M c u r)"
  by (auto simp: run_Cons_iff run1_AsymGen norm_eq_Some)

lemma run_Cell [simp]:
  "run M (PushCellOrSlice x # c) s r \<longleftrightarrow>
     (\<exists>v. m_cell M x = Some v \<and> run M c (set_stk s (spush v (stk s))) r)"
  by (auto simp: run_Cons_iff run1_PushCell norm_eq_Some app0_def bind_eq_Some_conv)

lemma run_GetGlob [simp]:
  "run M (Glob GetOrGetVar i # c) s r \<longleftrightarrow> run M c (set_stk s (spush (glb s i) (stk s))) r"
  by (auto simp: run_Cons_iff run1_Glob norm_eq_Some app0_def)

lemma run_SetGlob [simp]:
  "run M (Glob SetOrSetVar i # c) s r \<longleftrightarrow> run M c (pop1 (s\<lparr>glb := (glb s)(i := stk s 0)\<rparr>)) r"
  by (auto simp: run_Cons_iff run1_Glob norm_eq_Some)

lemma run_Return [simp]: "run M (TvmReturn False m a # c) s r \<longleftrightarrow> r = ret_out a s"
  by (auto simp: run_Cons_iff run1_TvmReturn ret_prim_def ret_out_def is_norm_def split: if_splits)

lemma run_IfReturn [simp]:
  "run M (TvmReturn True m a # c) s r \<longleftrightarrow>
     (\<exists>b. cond m (stk s 0) = Some b \<and> (if b then r = ret_out a (pop1 s) else run M c (pop1 s) r))"
  by (auto simp: run_Cons_iff run1_TvmReturn ret_prim_def ret_out_def is_norm_def split: if_splits)

lemma run_Exc [simp]:
  "run M (TvmException a y i m p # c) s r \<longleftrightarrow>
     (case exc_prim a y i m p s of
        None \<Rightarrow> False
      | Some o1 \<Rightarrow> (case o1 of Norm t \<Rightarrow> run M c t r | _ \<Rightarrow> r = o1))"
proof (cases "exc_prim a y i m p s")
  case (Some o1)
  then show ?thesis
    by (cases o1) (auto simp: run_Cons_iff run1_TvmException is_norm_def)
qed (simp add: run_Cons_iff run1_TvmException)

lemma run_Loc [simp]: "run M (Loc f l # c) s r \<longleftrightarrow> run M c s r"
  by (auto simp: run_Cons_iff run1_Loc)

lemma outcome_split_simps [simp]:
  "is_norm (Ret s) = False" "is_norm (RetAlt s) = False" "is_norm (Exc e x w) = False"
  "is_norm (ret_out a s) = False"
  by (auto simp: is_norm_def ret_out_def)

definition cont :: "'w machine \<Rightarrow> node list \<Rightarrow> 'w outcome \<Rightarrow> 'w outcome \<Rightarrow> bool" where
  "cont M c q r = (case q of Norm u \<Rightarrow> run M c u r | _ \<Rightarrow> r = q)"

lemma run_cont: "run M (n # c) s r \<longleftrightarrow> (\<exists>q. run1 M n s q \<and> cont M c q r)"
proof
  assume "run M (n # c) s r"
  then consider t where "run1 M n s (Norm t)" "run M c t r" | "run1 M n s r" "\<not> is_norm r"
    by (auto simp only: run_Cons_iff)
  then show "\<exists>q. run1 M n s q \<and> cont M c q r"
  proof cases
    case (1 t)
    then show ?thesis by (intro exI [of _ "Norm t"]) (simp add: cont_def)
  next
    case 2
    then show ?thesis by (intro exI [of _ r]) (cases r; simp add: cont_def)
  qed
next
  assume "\<exists>q. run1 M n s q \<and> cont M c q r"
  then obtain q where q: "run1 M n s q" "cont M c q r" by blast
  then show "run M (n # c) s r"
    by (cases q) (auto simp: cont_def intro: run_Cons run_stop)
qed

lemma pushes_run:
  assumes "pushes M n"
  obtains f where "\<And>s r c. run M (n # c) s r \<longleftrightarrow>
    run M c (set_stk s (spush (f (glb s) (wld s)) (stk s))) r"
proof -
  obtain f where f: "\<And>s r. run1 M n s r \<longleftrightarrow> r = Norm (set_stk s (spush (f (glb s) (wld s)) (stk s)))"
    using assms by (auto simp: pushes_def)
  show ?thesis
    by (rule that [of f]) (auto simp: run_Cons_iff f)
qed

section \<open>Stack instructions only\<close>

fun stk_run :: "node list \<Rightarrow> stack \<Rightarrow> stack option" where
  "stk_run [] t = Some t"
| "stk_run (Stack p i j k # c) t = (stack_exec p i j k t \<bind> stk_run c)"
| "stk_run _ t = None"

definition is_stack :: "node \<Rightarrow> bool" where
  "is_stack n = (\<exists>p i j k. n = Stack p i j k)"

lemma is_stack_Stack [simp]: "is_stack (Stack p i j k)"
  by (simp add: is_stack_def)

lemma run_stk:
  "list_all is_stack c \<Longrightarrow>
   run M (c @ d) s r \<longleftrightarrow> (\<exists>t. stk_run c (stk s) = Some t \<and> run M d (set_stk s t) r)"
proof (induction c arbitrary: s)
  case (Cons n c)
  then obtain p i j k where n: "n = Stack p i j k" by (auto simp: is_stack_def)
  show ?case
    using Cons by (simp add: n stack_exec_def)
qed simp

lemma refines_stk:
  assumes "list_all is_stack c" "list_all is_stack c'"
    and "\<And>t u. stk_run c t = Some u \<Longrightarrow> stk_run c' t = Some u"
  shows "refines M c c'"
  using run_stk [OF assms(1), of M "[]"] run_stk [OF assms(2), of M "[]"] assms(3)
  by (auto simp: refines_def)

lemma stk_run_append: "list_all is_stack c \<Longrightarrow> stk_run (c @ d) t = (stk_run c t \<bind> stk_run d)"
proof (induction c arbitrary: t)
  case (Cons n c)
  then obtain p i j k where n: "n = Stack p i j k" by (auto simp: is_stack_def)
  show ?case
    using Cons by (cases "stack_exec p i j k t") (simp_all add: n)
qed simp

lemmas stack_defs =
  spush_def sdrop_def spushs_def spop_def sblkdrop2_def sblkswap_def sreverse_def sxchg_def

lemmas stack_op_defs = stack_exec_def stack_ok_def stack_fun_def stack_wf_def

section \<open>Documented instructions\<close>

lemma nonneg_arg_toString [simp]: "int_fits (int n) \<Longrightarrow> nonneg_arg (toString (int n)) = Some n"
  by (simp add: nonneg_arg_def)

lemma documented_no_arg [simp]:
  "documented M ''ADD'' a"
  "documented M ''SUB'' a"
  "documented M ''SUBR'' a"
  "documented M ''MUL'' a"
  "documented M ''DIV'' a"
  "documented M ''MOD'' a"
  "documented M ''INC'' a"
  "documented M ''DEC'' a"
  "documented M ''NEGATE'' a"
  "documented M ''ABS'' a"
  "documented M ''MAX'' a"
  "documented M ''MIN'' a"
  "documented M ''AND'' a"
  "documented M ''OR'' a"
  "documented M ''XOR'' a"
  "documented M ''NOT'' a"
  "documented M ''EQUAL'' a"
  "documented M ''NEQ'' a"
  "documented M ''LESS'' a"
  "documented M ''LEQ'' a"
  "documented M ''GREATER'' a"
  "documented M ''GEQ'' a"
  "documented M ''TRUE'' a"
  "documented M ''FALSE'' a"
  "documented M ''NULL'' a"
  "documented M ''ISNULL'' a"
  "documented M ''CONDSEL'' a"
  "documented M ''SDEQ'' a"
  "documented M ''NEWC'' a"
  "documented M ''ENDC'' a"
  "documented M ''STSLICE'' a"
  "documented M ''STSLICER'' a"
  "documented M ''STREF'' a"
  "documented M ''STREFR'' a"
  "documented M ''STB'' a"
  "documented M ''STBR'' a"
  "documented M ''STBREF'' a"
  "documented M ''STBREFR'' a"
  "documented M ''STUX'' a"
  "documented M ''STUXR'' a"
  "documented M ''STZERO'' a"
  "documented M ''STONE'' a"
  "documented M ''STZEROES'' a"
  "documented M ''LDREF'' a"
  "documented M ''PLDREF'' a"
  "documented M ''LDDICT'' a"
  "documented M ''PLDDICT'' a"
  "documented M ''LDUX'' a"
  "documented M ''PLDUX'' a"
  "documented M ''LDIX'' a"
  "documented M ''PLDIX'' a"
  by (simp_all add: documented_def doc_lookup no_arg_def)

lemma documented_nat_arg:
  "documented M ''MODPOW2'' a \<longleftrightarrow> nonneg_arg a \<noteq> None"
  "documented M ''UFITS'' a \<longleftrightarrow> nonneg_arg a \<noteq> None"
  "documented M ''FITS'' a \<longleftrightarrow> nonneg_arg a \<noteq> None"
  "documented M ''TUPLE'' a \<longleftrightarrow> nonneg_arg a \<noteq> None"
  "documented M ''UNTUPLE'' a \<longleftrightarrow> nonneg_arg a \<noteq> None"
  "documented M ''INDEX_EXCEP'' a \<longleftrightarrow> nonneg_arg a \<noteq> None"
  "documented M ''INDEX_NOEXCEP'' a \<longleftrightarrow> nonneg_arg a \<noteq> None"
  "documented M ''STU'' a \<longleftrightarrow> nonneg_arg a \<noteq> None"
  "documented M ''STUR'' a \<longleftrightarrow> nonneg_arg a \<noteq> None"
  "documented M ''STI'' a \<longleftrightarrow> nonneg_arg a \<noteq> None"
  "documented M ''STIR'' a \<longleftrightarrow> nonneg_arg a \<noteq> None"
  "documented M ''LDU'' a \<longleftrightarrow> nonneg_arg a \<noteq> None"
  "documented M ''LDI'' a \<longleftrightarrow> nonneg_arg a \<noteq> None"
  "documented M ''PLDU'' a \<longleftrightarrow> nonneg_arg a \<noteq> None"
  "documented M ''PLDI'' a \<longleftrightarrow> nonneg_arg a \<noteq> None"
  by (simp_all add: documented_def doc_lookup nat_arg_def doc_names_def)

lemma documented_int_arg:
  "documented M ''ADDCONST'' a \<longleftrightarrow> strToInt a \<noteq> None"
  "documented M ''MULCONST'' a \<longleftrightarrow> strToInt a \<noteq> None"
  "documented M ''EQINT'' a \<longleftrightarrow> strToInt a \<noteq> None"
  "documented M ''NEQINT'' a \<longleftrightarrow> strToInt a \<noteq> None"
  "documented M ''LESSINT'' a \<longleftrightarrow> strToInt a \<noteq> None"
  "documented M ''GTINT'' a \<longleftrightarrow> strToInt a \<noteq> None"
  by (simp_all add: documented_def doc_lookup int_arg_def cmp_int_def doc_names_def)

context tvm
begin

lemma gen_no_arg:
  "m_gen M ''ADD'' a = (ari2 (+))"
  "m_gen M ''SUB'' a = (ari2 (-))"
  "m_gen M ''SUBR'' a = (ari2 (\<lambda>x y. y - x))"
  "m_gen M ''MUL'' a = (ari2 (*))"
  "m_gen M ''DIV'' a = (app2 (i2 (\<lambda>x y. if y = 0 then None else ri (x div y))))"
  "m_gen M ''MOD'' a = (app2 (i2 (\<lambda>x y. if y = 0 then None else ri (x mod y))))"
  "m_gen M ''INC'' a = (ari1 (\<lambda>x. x + 1))"
  "m_gen M ''DEC'' a = (ari1 (\<lambda>x. x - 1))"
  "m_gen M ''NEGATE'' a = (ari1 uminus)"
  "m_gen M ''ABS'' a = (ari1 abs)"
  "m_gen M ''MAX'' a = (ari2 max)"
  "m_gen M ''MIN'' a = (ari2 min)"
  "m_gen M ''AND'' a = (ari2 Bit_Operations.and)"
  "m_gen M ''OR'' a = (ari2 Bit_Operations.or)"
  "m_gen M ''XOR'' a = (ari2 Bit_Operations.xor)"
  "m_gen M ''NOT'' a = (ari1 (\<lambda>x. - 1 - x))"
  "m_gen M ''EQUAL'' a = (cmp2 (=))"
  "m_gen M ''NEQ'' a = (cmp2 (\<noteq>))"
  "m_gen M ''LESS'' a = (cmp2 (<))"
  "m_gen M ''LEQ'' a = (cmp2 (\<le>))"
  "m_gen M ''GREATER'' a = (cmp2 (>))"
  "m_gen M ''GEQ'' a = (cmp2 (\<ge>))"
  "m_gen M ''TRUE'' a = (app0 (VInt (-1)))"
  "m_gen M ''FALSE'' a = (app0 (VInt 0))"
  "m_gen M ''NULL'' a = (app0 VNull)"
  "m_gen M ''ISNULL'' a = (app1 (\<lambda>v. rb (v = VNull)))"
  "m_gen M ''CONDSEL'' a = (app3 (\<lambda>f x y. i1 (\<lambda>c. Some (if c \<noteq> 0 then x else y)) f))"
  "m_gen M ''SDEQ'' a = (app2 (\<lambda>a b. case a of VSlice x _ \<Rightarrow> (case b of VSlice y _ \<Rightarrow> rb (x = y) | _ \<Rightarrow> None) | _ \<Rightarrow> None))"
  "m_gen M ''NEWC'' a = (app0 (VBuilder [] []))"
  "m_gen M ''ENDC'' a = (app1 endc)"
  "m_gen M ''STSLICE'' a = (app2 (\<lambda>x b. st_slice b x))"
  "m_gen M ''STSLICER'' a = (app2 st_slice)"
  "m_gen M ''STREF'' a = (app2 (\<lambda>x b. st_ref b x))"
  "m_gen M ''STREFR'' a = (app2 st_ref)"
  "m_gen M ''STB'' a = (app2 (\<lambda>x b. st_b b x))"
  "m_gen M ''STBR'' a = (app2 st_b)"
  "m_gen M ''STBREF'' a = (app2 (\<lambda>x b. st_bref b x))"
  "m_gen M ''STBREFR'' a = (app2 st_bref)"
  "m_gen M ''STUX'' a = (app3 (\<lambda>x b l. i1 (\<lambda>n. if 0 \<le> n then st_u (nat n) b x else None) l))"
  "m_gen M ''STUXR'' a = (app3 (\<lambda>b x l. i1 (\<lambda>n. if 0 \<le> n then st_u (nat n) b x else None) l))"
  "m_gen M ''STZERO'' a = (app1 (st_bits ''0'' []))"
  "m_gen M ''STONE'' a = (app1 (st_bits ''1'' []))"
  "m_gen M ''STZEROES'' a = (app2 st_zeroes)"
  "m_gen M ''LDREF'' a = (app12 ld_ref)"
  "m_gen M ''PLDREF'' a = (app1 (\<lambda>x. map_option fst (ld_ref x)))"
  "m_gen M ''LDDICT'' a = (app12 ld_dict)"
  "m_gen M ''PLDDICT'' a = (app1 (\<lambda>x. map_option fst (ld_dict x)))"
  "m_gen M ''LDUX'' a = (app22 (\<lambda>x l. case l of VInt n \<Rightarrow> if 0 \<le> n then ld_bits False (nat n) x else None | _ \<Rightarrow> None))"
  "m_gen M ''PLDUX'' a = (app2 (\<lambda>x l. case l of VInt n \<Rightarrow> if 0 \<le> n then map_option fst (ld_bits False (nat n) x) else None | _ \<Rightarrow> None))"
  "m_gen M ''LDIX'' a = (app22 (\<lambda>x l. case l of VInt n \<Rightarrow> if 0 \<le> n then ld_bits True (nat n) x else None | _ \<Rightarrow> None))"
  "m_gen M ''PLDIX'' a = (app2 (\<lambda>x l. case l of VInt n \<Rightarrow> if 0 \<le> n then map_option fst (ld_bits True (nat n) x) else None | _ \<Rightarrow> None))"
  by (rule gen_doc, simp add: doc_lookup no_arg_def)+

lemma gen_nat_arg:
  "int_fits (int n) \<Longrightarrow> m_gen M ''MODPOW2'' (toString (int n)) = (\<lambda>n. ari1 (\<lambda>x. x mod 2 ^ n)) n"
  "int_fits (int n) \<Longrightarrow> m_gen M ''UFITS'' (toString (int n)) = (\<lambda>n. app1 (i1 (\<lambda>x. if 0 \<le> x \<and> x < 2 ^ n then ri x else None))) n"
  "int_fits (int n) \<Longrightarrow> m_gen M ''FITS'' (toString (int n)) = (\<lambda>n. app1 (i1 (\<lambda>x. if - (2 ^ (n - 1)) \<le> x \<and> x < 2 ^ (n - 1) \<and> 1 \<le> n then ri x else None))) n"
  "int_fits (int n) \<Longrightarrow> m_gen M ''TUPLE'' (toString (int n)) = tuple_prim n"
  "int_fits (int n) \<Longrightarrow> m_gen M ''UNTUPLE'' (toString (int n)) = untuple_prim n"
  "int_fits (int n) \<Longrightarrow> m_gen M ''INDEX_EXCEP'' (toString (int n)) = (\<lambda>i. app1 (index_of i)) n"
  "int_fits (int n) \<Longrightarrow> m_gen M ''INDEX_NOEXCEP'' (toString (int n)) = (\<lambda>i. app1 (index_of i)) n"
  "int_fits (int n) \<Longrightarrow> m_gen M ''STU'' (toString (int n)) = (\<lambda>n. app2 (\<lambda>x b. st_u n b x)) n"
  "int_fits (int n) \<Longrightarrow> m_gen M ''STUR'' (toString (int n)) = (\<lambda>n. app2 (st_u n)) n"
  "int_fits (int n) \<Longrightarrow> m_gen M ''STI'' (toString (int n)) = (\<lambda>n. app2 (\<lambda>x b. st_i n b x)) n"
  "int_fits (int n) \<Longrightarrow> m_gen M ''STIR'' (toString (int n)) = (\<lambda>n. app2 (st_i n)) n"
  "int_fits (int n) \<Longrightarrow> m_gen M ''LDU'' (toString (int n)) = (\<lambda>n. app12 (ld_bits False n)) n"
  "int_fits (int n) \<Longrightarrow> m_gen M ''LDI'' (toString (int n)) = (\<lambda>n. app12 (ld_bits True n)) n"
  "int_fits (int n) \<Longrightarrow> m_gen M ''PLDU'' (toString (int n)) = (\<lambda>n. app1 (\<lambda>x. map_option fst (ld_bits False n x))) n"
  "int_fits (int n) \<Longrightarrow> m_gen M ''PLDI'' (toString (int n)) = (\<lambda>n. app1 (\<lambda>x. map_option fst (ld_bits True n x))) n"
  by (rule gen_doc, simp add: doc_lookup nat_arg_def)+

lemma gen_int_arg:
  "int_fits v \<Longrightarrow> m_gen M ''ADDCONST'' (toString v) = (\<lambda>c. ari1 (\<lambda>x. x + c)) v"
  "int_fits v \<Longrightarrow> m_gen M ''MULCONST'' (toString v) = (\<lambda>c. ari1 (\<lambda>x. x * c)) v"
  "int_fits v \<Longrightarrow> m_gen M ''EQINT'' (toString v) = (\<lambda>c. app1 (i1 (\<lambda>x. rb ((=) x c)))) v"
  "int_fits v \<Longrightarrow> m_gen M ''NEQINT'' (toString v) = (\<lambda>c. app1 (i1 (\<lambda>x. rb ((\<noteq>) x c)))) v"
  "int_fits v \<Longrightarrow> m_gen M ''LESSINT'' (toString v) = (\<lambda>c. app1 (i1 (\<lambda>x. rb ((<) x c)))) v"
  "int_fits v \<Longrightarrow> m_gen M ''GTINT'' (toString v) = (\<lambda>c. app1 (i1 (\<lambda>x. rb ((>) x c)))) v"
  by (rule gen_doc, simp add: doc_lookup int_arg_def cmp_int_def)+

lemma gen_PUSHINT: "m_gen M ''PUSHINT'' (toString v) = app0 (VInt v)"
  by (rule gen_doc) (simp add: doc_lookup big_arg_def)

lemma gen_PUSHINT_big: "bigint_of a = Some v \<Longrightarrow> m_gen M ''PUSHINT'' a = app0 (VInt v)"
  by (rule gen_doc) (simp add: doc_lookup big_arg_def)

lemma gen_shift:
  "m_gen M ''LSHIFT'' [] = app2 (i2 lshift)"
  "m_gen M ''RSHIFT'' [] = app2 (i2 rshift)"
  "int_fits v \<Longrightarrow> m_gen M ''LSHIFT'' (toString v) = app1 (i1 (\<lambda>x. lshift x v))"
  "int_fits v \<Longrightarrow> m_gen M ''RSHIFT'' (toString v) = app1 (i1 (\<lambda>x. rshift x v))"
  "int_fits v \<Longrightarrow> m_gen M ''MULRSHIFT'' (toString v) = app2 (i2 (\<lambda>x y. rshift (x * y) v))"
  by (rule gen_doc, simp add: doc_lookup opt_arg_def int_arg_def)+

lemma gen_STSLICECONST:
  "sliceToBitString a = Some b \<Longrightarrow> m_gen M ''STSLICECONST'' a = app1 (st_bits b [])"
  by (rule gen_doc) (simp add: doc_lookup)

lemma gen_INDEX2:
  "two_args a = Some (i, j) \<Longrightarrow>
   m_gen M ''INDEX2'' a = app1 (\<lambda>t. index_of i t \<bind> index_of j)"
  by (rule gen_doc) (simp add: doc_lookup)

lemma gen_INDEX3:
  "three_args a = Some (i, j, k) \<Longrightarrow>
   m_gen M ''INDEX3'' a = app1 (\<lambda>t. index_of i t \<bind> index_of j \<bind> index_of k)"
  by (rule gen_doc) (simp add: doc_lookup)

lemmas gen_sem = gen_no_arg gen_nat_arg gen_int_arg gen_PUSHINT gen_shift

end

section \<open>Texts and the instructions built from them\<close>

lemma strToInt_toString_iff: "strToInt (toString v) = (if int_fits v then Some v else None)"
proof (cases "int_fits v")
  case False
  have "lexical_cast_int (toString v) \<noteq> Some w" for w
  proof (cases "v < 0")
    case True
    then show ?thesis using False by (simp add: toString_def lexical_cast_int_def)
  next
    case nonneg: False
    obtain c t where ct: "string_of_nat (nat v) = c # t"
      by (cases "string_of_nat (nat v)") auto
    then have "c \<noteq> CHR ''-''" "c \<noteq> CHR ''+''" using string_of_nat_ConsD by blast+
    then show ?thesis
      using False nonneg ct read_nat_string_of_nat [of "nat v"]
      by (simp add: toString_def lexical_cast_int_def del: read_nat_string_of_nat)
  qed
  then show ?thesis using False by (cases "lexical_cast_int (toString v)") (auto simp: strToInt_def)
qed simp

lemma toString_inject [simp]: "toString v = toString w \<longleftrightarrow> v = w"
  by (metis bigint_of_toString option.inject)

definition text_ok :: "string \<Rightarrow> bool" where
  "text_ok a = (CHR '';'' \<notin> set a \<and> trim a = a)"

lemma text_ok_toString [simp]: "text_ok (toString v)"
  by (simp add: text_ok_def plain_no_sep)

lemma text_ok_Nil [simp]: "text_ok []"
  by (simp add: text_ok_def)

lemma arg_ok_text: "arg_ok a \<Longrightarrow> text_ok a"
  by (simp add: arg_ok_def text_ok_def)

lemma arg_ok_toString [simp]: "arg_ok (toString v)"
  by (auto simp: arg_ok_def plain_no_sep strToInt_toString_iff split: if_splits)

lemma arg_ok_Nil [simp]: "arg_ok []"
  by (simp add: arg_ok_def strToInt_def lexical_cast_int_def bigint_of_def)

lemma comment_ok_Nil [simp]: "comment_ok []"
  by (simp add: comment_ok_def)

lemma arg_ok_int:
  assumes "arg_ok a" "strToInt a = Some v"
  shows "a = toString v \<and> int_fits v"
proof -
  have "a = toString v" using assms unfolding arg_ok_def by blast
  then show ?thesis using assms(2) strToInt_toString_iff [of v] by (simp split: if_splits)
qed

lemma arg_ok_nat:
  assumes "arg_ok a" "nonneg_arg a = Some n"
  shows "a = toString (int n) \<and> int_fits (int n)"
proof -
  obtain v where "strToInt a = Some v" "0 \<le> v" "n = nat v"
    using assms(2) by (auto simp: nonneg_arg_def split: option.splits if_splits)
  then show ?thesis using arg_ok_int [OF assms(1)] by auto
qed

text \<open>The text of an instruction with its argument, as the rules compose it.\<close>

definition cmd_text :: "string \<Rightarrow> string \<Rightarrow> string" where
  "cmd_text opc a = opc @ CHR '' '' # a"

lemma mkGenOpcode_txt:
  assumes "plain opc" "text_ok a"
  shows "mkGenOpcode (cmd_text opc a) t r p = Some (GenOpcode opc a [] t r p)"
proof -
  have no: "CHR '';'' \<notin> set (opc @ CHR '' '' # a)"
    using assms plain_no_sep by (auto simp: text_ok_def)
  have tw: "takeWhile (\<lambda>c. c \<noteq> CHR '' '') (opc @ CHR '' '' # a) = opc"
    using assms(1) plain_no_sep [of opc] by (subst takeWhile_append2) auto
  have dw: "dropWhile (\<lambda>c. c \<noteq> CHR '' '') (opc @ CHR '' '' # a) = CHR '' '' # a"
    using assms(1) plain_no_sep [of opc] by (subst dropWhile_append2) auto
  show ?thesis
    using assms by (simp add: cmd_text_def mkGenOpcode_def split_at_no_sep [OF no] tw dw text_ok_def)
qed

lemma gen_txt:
  assumes "plain opc" "opc \<noteq> []" "text_ok a" "map_of opcodes opc = Some (t, r, p)"
  shows "gen (cmd_text opc a) = Some (GenOpcode opc a [] t r p)"
  using assms mkGenOpcode_txt [of opc a t r p] by (simp add: gen_def cmd_text_def word1_sep)

lemmas plain_lit = plain_Cons is_space_def

lemma not_dict:
  "dictSet (c # s) \<Longrightarrow> c = CHR ''D''" "dictReplaceOrAdd (c # s) \<Longrightarrow> c = CHR ''D''"
  by (auto simp: dictSet_def dictReplaceOrAdd_def dict_keys_def dict_sufs_def)

lemma gen_shift_txt [gen_simps]:
  "gen (cmd_text ''LSHIFT'' (toString v)) = Some (GenOpcode ''LSHIFT'' (toString v) [] 1 1 False)"
  "gen (cmd_text ''RSHIFT'' (toString v)) = Some (GenOpcode ''RSHIFT'' (toString v) [] 1 1 False)"
  "gen (cmd_text ''MULRSHIFT'' (toString v)) = Some (GenOpcode ''MULRSHIFT'' (toString v) [] 2 1 False)"
proof -
  have d: "\<not> dictSet (cmd_text opc a) \<and> \<not> dictReplaceOrAdd (cmd_text opc a)"
    if "opc \<noteq> [] \<and> hd opc \<noteq> CHR ''D''" for opc a
    using that not_dict by (cases opc) (auto simp: cmd_text_def)
  have g: "word1 (cmd_text opc (toString v)) = opc \<and> word2 (cmd_text opc (toString v)) = toString v"
    if "plain opc" "opc \<noteq> []" for opc
    using that by (simp add: cmd_text_def word1_sep word2_sep)
  show "gen (cmd_text ''LSHIFT'' (toString v)) = Some (GenOpcode ''LSHIFT'' (toString v) [] 1 1 False)"
    using d [of "''LSHIFT''"] g [of "''LSHIFT''"]
    by (simp add: gen_def opcode_lookup_shift plain_lit mkGenOpcode_txt)
  show "gen (cmd_text ''RSHIFT'' (toString v)) = Some (GenOpcode ''RSHIFT'' (toString v) [] 1 1 False)"
    using d [of "''RSHIFT''"] g [of "''RSHIFT''"]
    by (simp add: gen_def opcode_lookup_shift plain_lit mkGenOpcode_txt)
  show "gen (cmd_text ''MULRSHIFT'' (toString v)) =
    Some (GenOpcode ''MULRSHIFT'' (toString v) [] 2 1 False)"
    using d [of "''MULRSHIFT''"] g [of "''MULRSHIFT''"]
    by (simp add: gen_def opcode_lookup_shift plain_lit mkGenOpcode_txt)
qed

lemma gen_lit [gen_simps]:
  "gen ''INC'' = Some (GenOpcode ''INC'' [] [] 1 1 False)"
  "gen ''DEC'' = Some (GenOpcode ''DEC'' [] [] 1 1 False)"
  "gen ''NEGATE'' = Some (GenOpcode ''NEGATE'' [] [] 1 1 False)"
  "gen ''CONDSEL'' = Some (GenOpcode ''CONDSEL'' [] [] 3 1 False)"
  "gen ''NEWC'' = Some (GenOpcode ''NEWC'' [] [] 0 1 True)"
  "gen ''STZEROES'' = Some (GenOpcode ''STZEROES'' [] [] 2 1 False)"
  "gen ''STSLICER'' = Some (GenOpcode ''STSLICER'' [] [] 2 1 False)"
  "gen ''SUBR'' = Some (GenOpcode ''SUBR'' [] [] 2 1 False)"
  "gen ''SUB'' = Some (GenOpcode ''SUB'' [] [] 2 1 False)"
  "gen ''ADD'' = Some (GenOpcode ''ADD'' [] [] 2 1 False)"
  "gen ''STZERO'' = Some (GenOpcode ''STZERO'' [] [] 1 1 False)"
  "gen ''STONE'' = Some (GenOpcode ''STONE'' [] [] 1 1 False)"
  "gen ''ABS'' = Some (GenOpcode ''ABS'' [] [] 1 1 False)"
  "gen ''STBREFR'' = Some (GenOpcode ''STBREFR'' [] [] 2 1 False)"
  "gen ''TRUE'' = Some (GenOpcode ''TRUE'' [] [] 0 1 True)"
  "gen ''FALSE'' = Some (GenOpcode ''FALSE'' [] [] 0 1 True)"
  "gen ''NULL'' = Some (GenOpcode ''NULL'' [] [] 0 1 True)"
  "gen ''STSLICE'' = Some (GenOpcode ''STSLICE'' [] [] 2 1 False)"
  "gen ''STREF'' = Some (GenOpcode ''STREF'' [] [] 2 1 False)"
  "gen ''STB'' = Some (GenOpcode ''STB'' [] [] 2 1 False)"
  "gen ''STBREF'' = Some (GenOpcode ''STBREF'' [] [] 2 1 False)"
  "gen ''STREFR'' = Some (GenOpcode ''STREFR'' [] [] 2 1 False)"
  "gen ''ENDC'' = Some (GenOpcode ''ENDC'' [] [] 1 1 False)"
  "gen ''AND'' = Some (GenOpcode ''AND'' [] [] 2 1 True)"
  "gen ''OR'' = Some (GenOpcode ''OR'' [] [] 2 1 True)"
  "gen ''PLDREF'' = Some (GenOpcode ''PLDREF'' [] [] 1 1 False)"
  "gen ''PLDDICT'' = Some (GenOpcode ''PLDDICT'' [] [] 1 1 False)"
  "gen ''PLDUX'' = Some (GenOpcode ''PLDUX'' [] [] 2 1 False)"
  "gen ''PLDIX'' = Some (GenOpcode ''PLDIX'' [] [] 2 1 False)"
  "gen ''STBR'' = Some (GenOpcode ''STBR'' [] [] 2 1 False)"
  "gen ''PUSHINT'' = Some (GenOpcode ''PUSHINT'' [] [] 0 1 True)"
  "gen ''STUR'' = Some (GenOpcode ''STUR'' [] [] 2 1 False)"
  "gen ''STU'' = Some (GenOpcode ''STU'' [] [] 2 1 False)"
  "gen ''STI'' = Some (GenOpcode ''STI'' [] [] 2 1 False)"
  "gen ''STIR'' = Some (GenOpcode ''STIR'' [] [] 2 1 False)"
  "gen ''ADDCONST'' = Some (GenOpcode ''ADDCONST'' [] [] 1 1 False)"
  "gen ''MULCONST'' = Some (GenOpcode ''MULCONST'' [] [] 1 1 False)"
  "gen ''INDEX2'' = Some (GenOpcode ''INDEX2'' [] [] 1 1 False)"
  "gen ''INDEX3'' = Some (GenOpcode ''INDEX3'' [] [] 1 1 False)"
  "gen ''MODPOW2'' = Some (GenOpcode ''MODPOW2'' [] [] 1 1 False)"
  "gen ''NEQINT'' = Some (GenOpcode ''NEQINT'' [] [] 1 1 True)"
  "gen ''EQINT'' = Some (GenOpcode ''EQINT'' [] [] 1 1 True)"
  "gen ''GTINT'' = Some (GenOpcode ''GTINT'' [] [] 1 1 True)"
  "gen ''LESSINT'' = Some (GenOpcode ''LESSINT'' [] [] 1 1 True)"
  "gen ''UFITS'' = Some (GenOpcode ''UFITS'' [] [] 1 1 False)"
  "gen ''FITS'' = Some (GenOpcode ''FITS'' [] [] 1 1 False)"
  "gen ''PLDU'' = Some (GenOpcode ''PLDU'' [] [] 1 1 False)"
  "gen ''PLDI'' = Some (GenOpcode ''PLDI'' [] [] 1 1 False)"
  "gen ''STSLICECONST'' = Some (GenOpcode ''STSLICECONST'' [] [] 1 1 False)"
  by (rule gen_plain; simp add: opcode_lookup plain_lit)+

lemma gen_lit_txt [gen_simps]:
  "text_ok a \<Longrightarrow> gen (cmd_text ''INC'' a) = Some (GenOpcode ''INC'' a [] 1 1 False)"
  "text_ok a \<Longrightarrow> gen (cmd_text ''DEC'' a) = Some (GenOpcode ''DEC'' a [] 1 1 False)"
  "text_ok a \<Longrightarrow> gen (cmd_text ''NEGATE'' a) = Some (GenOpcode ''NEGATE'' a [] 1 1 False)"
  "text_ok a \<Longrightarrow> gen (cmd_text ''CONDSEL'' a) = Some (GenOpcode ''CONDSEL'' a [] 3 1 False)"
  "text_ok a \<Longrightarrow> gen (cmd_text ''NEWC'' a) = Some (GenOpcode ''NEWC'' a [] 0 1 True)"
  "text_ok a \<Longrightarrow> gen (cmd_text ''STZEROES'' a) = Some (GenOpcode ''STZEROES'' a [] 2 1 False)"
  "text_ok a \<Longrightarrow> gen (cmd_text ''STSLICER'' a) = Some (GenOpcode ''STSLICER'' a [] 2 1 False)"
  "text_ok a \<Longrightarrow> gen (cmd_text ''SUBR'' a) = Some (GenOpcode ''SUBR'' a [] 2 1 False)"
  "text_ok a \<Longrightarrow> gen (cmd_text ''SUB'' a) = Some (GenOpcode ''SUB'' a [] 2 1 False)"
  "text_ok a \<Longrightarrow> gen (cmd_text ''ADD'' a) = Some (GenOpcode ''ADD'' a [] 2 1 False)"
  "text_ok a \<Longrightarrow> gen (cmd_text ''STZERO'' a) = Some (GenOpcode ''STZERO'' a [] 1 1 False)"
  "text_ok a \<Longrightarrow> gen (cmd_text ''STONE'' a) = Some (GenOpcode ''STONE'' a [] 1 1 False)"
  "text_ok a \<Longrightarrow> gen (cmd_text ''ABS'' a) = Some (GenOpcode ''ABS'' a [] 1 1 False)"
  "text_ok a \<Longrightarrow> gen (cmd_text ''STBREFR'' a) = Some (GenOpcode ''STBREFR'' a [] 2 1 False)"
  "text_ok a \<Longrightarrow> gen (cmd_text ''TRUE'' a) = Some (GenOpcode ''TRUE'' a [] 0 1 True)"
  "text_ok a \<Longrightarrow> gen (cmd_text ''FALSE'' a) = Some (GenOpcode ''FALSE'' a [] 0 1 True)"
  "text_ok a \<Longrightarrow> gen (cmd_text ''NULL'' a) = Some (GenOpcode ''NULL'' a [] 0 1 True)"
  "text_ok a \<Longrightarrow> gen (cmd_text ''STSLICE'' a) = Some (GenOpcode ''STSLICE'' a [] 2 1 False)"
  "text_ok a \<Longrightarrow> gen (cmd_text ''STREF'' a) = Some (GenOpcode ''STREF'' a [] 2 1 False)"
  "text_ok a \<Longrightarrow> gen (cmd_text ''STB'' a) = Some (GenOpcode ''STB'' a [] 2 1 False)"
  "text_ok a \<Longrightarrow> gen (cmd_text ''STBREF'' a) = Some (GenOpcode ''STBREF'' a [] 2 1 False)"
  "text_ok a \<Longrightarrow> gen (cmd_text ''STREFR'' a) = Some (GenOpcode ''STREFR'' a [] 2 1 False)"
  "text_ok a \<Longrightarrow> gen (cmd_text ''ENDC'' a) = Some (GenOpcode ''ENDC'' a [] 1 1 False)"
  "text_ok a \<Longrightarrow> gen (cmd_text ''AND'' a) = Some (GenOpcode ''AND'' a [] 2 1 True)"
  "text_ok a \<Longrightarrow> gen (cmd_text ''OR'' a) = Some (GenOpcode ''OR'' a [] 2 1 True)"
  "text_ok a \<Longrightarrow> gen (cmd_text ''PLDREF'' a) = Some (GenOpcode ''PLDREF'' a [] 1 1 False)"
  "text_ok a \<Longrightarrow> gen (cmd_text ''PLDDICT'' a) = Some (GenOpcode ''PLDDICT'' a [] 1 1 False)"
  "text_ok a \<Longrightarrow> gen (cmd_text ''PLDUX'' a) = Some (GenOpcode ''PLDUX'' a [] 2 1 False)"
  "text_ok a \<Longrightarrow> gen (cmd_text ''PLDIX'' a) = Some (GenOpcode ''PLDIX'' a [] 2 1 False)"
  "text_ok a \<Longrightarrow> gen (cmd_text ''STBR'' a) = Some (GenOpcode ''STBR'' a [] 2 1 False)"
  "text_ok a \<Longrightarrow> gen (cmd_text ''PUSHINT'' a) = Some (GenOpcode ''PUSHINT'' a [] 0 1 True)"
  "text_ok a \<Longrightarrow> gen (cmd_text ''STUR'' a) = Some (GenOpcode ''STUR'' a [] 2 1 False)"
  "text_ok a \<Longrightarrow> gen (cmd_text ''STU'' a) = Some (GenOpcode ''STU'' a [] 2 1 False)"
  "text_ok a \<Longrightarrow> gen (cmd_text ''STI'' a) = Some (GenOpcode ''STI'' a [] 2 1 False)"
  "text_ok a \<Longrightarrow> gen (cmd_text ''STIR'' a) = Some (GenOpcode ''STIR'' a [] 2 1 False)"
  "text_ok a \<Longrightarrow> gen (cmd_text ''ADDCONST'' a) = Some (GenOpcode ''ADDCONST'' a [] 1 1 False)"
  "text_ok a \<Longrightarrow> gen (cmd_text ''MULCONST'' a) = Some (GenOpcode ''MULCONST'' a [] 1 1 False)"
  "text_ok a \<Longrightarrow> gen (cmd_text ''INDEX2'' a) = Some (GenOpcode ''INDEX2'' a [] 1 1 False)"
  "text_ok a \<Longrightarrow> gen (cmd_text ''INDEX3'' a) = Some (GenOpcode ''INDEX3'' a [] 1 1 False)"
  "text_ok a \<Longrightarrow> gen (cmd_text ''MODPOW2'' a) = Some (GenOpcode ''MODPOW2'' a [] 1 1 False)"
  "text_ok a \<Longrightarrow> gen (cmd_text ''NEQINT'' a) = Some (GenOpcode ''NEQINT'' a [] 1 1 True)"
  "text_ok a \<Longrightarrow> gen (cmd_text ''EQINT'' a) = Some (GenOpcode ''EQINT'' a [] 1 1 True)"
  "text_ok a \<Longrightarrow> gen (cmd_text ''GTINT'' a) = Some (GenOpcode ''GTINT'' a [] 1 1 True)"
  "text_ok a \<Longrightarrow> gen (cmd_text ''LESSINT'' a) = Some (GenOpcode ''LESSINT'' a [] 1 1 True)"
  "text_ok a \<Longrightarrow> gen (cmd_text ''UFITS'' a) = Some (GenOpcode ''UFITS'' a [] 1 1 False)"
  "text_ok a \<Longrightarrow> gen (cmd_text ''FITS'' a) = Some (GenOpcode ''FITS'' a [] 1 1 False)"
  "text_ok a \<Longrightarrow> gen (cmd_text ''PLDU'' a) = Some (GenOpcode ''PLDU'' a [] 1 1 False)"
  "text_ok a \<Longrightarrow> gen (cmd_text ''PLDI'' a) = Some (GenOpcode ''PLDI'' a [] 1 1 False)"
  "text_ok a \<Longrightarrow> gen (cmd_text ''STSLICECONST'' a) = Some (GenOpcode ''STSLICECONST'' a [] 1 1 False)"
  by (rule gen_txt; simp add: opcode_lookup plain_lit)+

text \<open>The text of an instruction with its comment.\<close>

lemma trim_space [simp]: "trim (a @ '' '') = trim a"
proof (cases "\<forall>x \<in> set a. is_space x")
  case True
  then have "dropWhile is_space a = []" "dropWhile is_space (a @ '' '') = []" by simp_all
  then show ?thesis by (simp only: trim_def)
next
  case False
  then have "dropWhile is_space (a @ '' '') = dropWhile is_space a @ '' ''"
    by (meson dropWhile_append1)
  then show ?thesis by (simp add: trim_def)
qed

lemma split_at_sep:
  "sep \<notin> set a \<Longrightarrow> sep \<notin> set b \<Longrightarrow> split_at sep (a @ sep # b) = a # (if b = [] then [] else [b])"
proof -
  assume ab: "sep \<notin> set a" "sep \<notin> set b"
  have tw: "takeWhile (\<lambda>x. x \<noteq> sep) (a @ sep # b) = a"
    using ab by (induction a) auto
  have dw: "dropWhile (\<lambda>x. x \<noteq> sep) (a @ sep # b) = sep # b"
    using ab by (induction a) auto
  obtain c s where cs: "a @ sep # b = c # s" by (cases a) auto
  then show ?thesis
    using tw dw split_at_no_sep [OF ab(2)] by (simp del: takeWhile.simps dropWhile.simps)
qed

lemma gen_full:
  assumes "plain opc" "opc \<noteq> []" "text_ok a" "comment_ok cm" "map_of opcodes opc = Some (t, r, p)"
  obtains cm' where "comment_ok cm'" "gen (joinArg opc a cm) = Some (GenOpcode opc a cm' t r p)"
proof (cases "cm = []")
  case True
  then show ?thesis
    using that [of "[]"] assms gen_plain [OF assms(1,2,5)] gen_txt [OF assms(1-3,5)]
    by (cases "a = []") (auto simp: joinArg_def cmd_text_def)
next
  case False
  then obtain l where l: "cm = CHR '';'' # l" "CHR '';'' \<notin> set l"
    using assms(4) by (auto simp: comment_ok_def)
  let ?line = "opc @ CHR '' '' # (if a = [] then [] else a @ '' '')"
  have full: "joinArg opc a cm = ?line @ CHR '';'' # l"
    by (simp add: joinArg_def l)
  have no: "CHR '';'' \<notin> set ?line"
    using assms plain_no_sep by (auto simp: text_ok_def)
  have tw: "takeWhile (\<lambda>c. c \<noteq> CHR '' '') ?line = opc"
    using assms(1) plain_no_sep [of opc] by (subst takeWhile_append2) auto
  have dw: "dropWhile (\<lambda>c. c \<noteq> CHR '' '') ?line = CHR '' '' # (if a = [] then [] else a @ '' '')"
    using assms(1) plain_no_sep [of opc] by (subst dropWhile_append2) auto
  let ?cm = "if l = [] then [] else CHR '';'' # l"
  have "mkGenOpcode (joinArg opc a cm) t r p = Some (GenOpcode opc a ?cm t r p)"
    unfolding full mkGenOpcode_def split_at_sep [OF no l(2)]
    using assms(1,3) by (simp add: tw dw text_ok_def)
  moreover have "word1 (joinArg opc a cm) = opc"
    using assms(1,2) by (simp add: full word1_sep)
  ultimately show ?thesis
    using that [of ?cm] assms(5) l by (simp add: gen_def comment_ok_def)
qed

section \<open>Well-formedness of new instructions\<close>

lemma pushes_frame: "pushes M n \<Longrightarrow> frame01 M n"
proof -
  assume "pushes M n"
  then obtain f where f: "\<And>s r. run1 M n s r \<longleftrightarrow>
      r = Norm (set_stk s (spush (f (glb s) (wld s)) (stk s)))"
    by (auto simp: pushes_def)
  show ?thesis
    unfolding frame01_def f
    by (intro allI impI disjI2, rule_tac x = "f (glb s) (wld s)" in exI,
        rule_tac x = "glb s" in exI, rule_tac x = "wld s" in exI) (simp add: set_stk_def)
qed

lemma mul_ok_other: "opc \<noteq> ''RSHIFT'' \<Longrightarrow> opc \<noteq> ''MUL'' \<Longrightarrow> mul_ok mul opc a"
  by (simp add: mul_ok_def)

lemma wfn_genI_comment:
  assumes "map_of opcodes opc = Some (t, r, p)" "plain opc" "opc \<noteq> []" "arg_ok a" "documented M opc a"
    "opc \<noteq> ''RSHIFT''" "opc \<noteq> ''MUL''" "declared M (GenOpcode opc a cm t r p)" "comment_ok cm"
  shows "wfn M mul (GenOpcode opc a cm t r p)"
  using assms by (simp add: wfn_GenOpcode gen_wf_def gen_sig_ok_def mul_ok_other)

lemma wfn_genI:
  assumes "map_of opcodes opc = Some (t, r, p)" "plain opc" "opc \<noteq> []" "arg_ok a" "documented M opc a"
    "opc \<noteq> ''RSHIFT''" "opc \<noteq> ''MUL''" "declared M (GenOpcode opc a [] t r p)"
  shows "wfn M mul (GenOpcode opc a [] t r p)"
  by (rule wfn_genI_comment [OF assms comment_ok_Nil])

lemma wfn_new:
  "arg_ok a \<Longrightarrow> wfn M mul (GenOpcode ''INC'' a [] 1 1 False)"
  "arg_ok a \<Longrightarrow> wfn M mul (GenOpcode ''DEC'' a [] 1 1 False)"
  "arg_ok a \<Longrightarrow> wfn M mul (GenOpcode ''NEGATE'' a [] 1 1 False)"
  "arg_ok a \<Longrightarrow> wfn M mul (GenOpcode ''CONDSEL'' a [] 3 1 False)"
  "arg_ok a \<Longrightarrow> wfn M mul (GenOpcode ''STZEROES'' a [] 2 1 False)"
  "arg_ok a \<Longrightarrow> wfn M mul (GenOpcode ''STSLICER'' a [] 2 1 False)"
  "arg_ok a \<Longrightarrow> wfn M mul (GenOpcode ''SUBR'' a [] 2 1 False)"
  "arg_ok a \<Longrightarrow> wfn M mul (GenOpcode ''SUB'' a [] 2 1 False)"
  "arg_ok a \<Longrightarrow> wfn M mul (GenOpcode ''ADD'' a [] 2 1 False)"
  "arg_ok a \<Longrightarrow> wfn M mul (GenOpcode ''STZERO'' a [] 1 1 False)"
  "arg_ok a \<Longrightarrow> wfn M mul (GenOpcode ''STONE'' a [] 1 1 False)"
  "arg_ok a \<Longrightarrow> wfn M mul (GenOpcode ''ABS'' a [] 1 1 False)"
  "arg_ok a \<Longrightarrow> wfn M mul (GenOpcode ''STBREFR'' a [] 2 1 False)"
  "arg_ok a \<Longrightarrow> wfn M mul (GenOpcode ''STSLICE'' a [] 2 1 False)"
  "arg_ok a \<Longrightarrow> wfn M mul (GenOpcode ''STREF'' a [] 2 1 False)"
  "arg_ok a \<Longrightarrow> wfn M mul (GenOpcode ''STB'' a [] 2 1 False)"
  "arg_ok a \<Longrightarrow> wfn M mul (GenOpcode ''STBREF'' a [] 2 1 False)"
  "arg_ok a \<Longrightarrow> wfn M mul (GenOpcode ''STREFR'' a [] 2 1 False)"
  "arg_ok a \<Longrightarrow> wfn M mul (GenOpcode ''ENDC'' a [] 1 1 False)"
  "arg_ok a \<Longrightarrow> wfn M mul (GenOpcode ''AND'' a [] 2 1 True)"
  "arg_ok a \<Longrightarrow> wfn M mul (GenOpcode ''OR'' a [] 2 1 True)"
  "arg_ok a \<Longrightarrow> wfn M mul (GenOpcode ''PLDREF'' a [] 1 1 False)"
  "arg_ok a \<Longrightarrow> wfn M mul (GenOpcode ''PLDDICT'' a [] 1 1 False)"
  "arg_ok a \<Longrightarrow> wfn M mul (GenOpcode ''PLDUX'' a [] 2 1 False)"
  "arg_ok a \<Longrightarrow> wfn M mul (GenOpcode ''PLDIX'' a [] 2 1 False)"
  "arg_ok a \<Longrightarrow> wfn M mul (GenOpcode ''STBR'' a [] 2 1 False)"
  "int_fits (int n) \<Longrightarrow> wfn M mul (GenOpcode ''STUR'' (toString (int n)) [] 2 1 False)"
  "int_fits (int n) \<Longrightarrow> wfn M mul (GenOpcode ''STU'' (toString (int n)) [] 2 1 False)"
  "int_fits (int n) \<Longrightarrow> wfn M mul (GenOpcode ''STI'' (toString (int n)) [] 2 1 False)"
  "int_fits (int n) \<Longrightarrow> wfn M mul (GenOpcode ''STIR'' (toString (int n)) [] 2 1 False)"
  "int_fits v \<Longrightarrow> wfn M mul (GenOpcode ''ADDCONST'' (toString v) [] 1 1 False)"
  "int_fits v \<Longrightarrow> wfn M mul (GenOpcode ''MULCONST'' (toString v) [] 1 1 False)"
  "int_fits (int n) \<Longrightarrow> wfn M mul (GenOpcode ''MODPOW2'' (toString (int n)) [] 1 1 False)"
  "int_fits (int n) \<Longrightarrow> wfn M mul (GenOpcode ''UFITS'' (toString (int n)) [] 1 1 False)"
  "int_fits (int n) \<Longrightarrow> wfn M mul (GenOpcode ''FITS'' (toString (int n)) [] 1 1 False)"
  "int_fits (int n) \<Longrightarrow> wfn M mul (GenOpcode ''PLDU'' (toString (int n)) [] 1 1 False)"
  "int_fits (int n) \<Longrightarrow> wfn M mul (GenOpcode ''PLDI'' (toString (int n)) [] 1 1 False)"
  by (rule wfn_genI; simp add: opcode_lookup plain_lit declared_def documented_nat_arg documented_int_arg)+

lemma wfn_STSLICECONST:
  "arg_ok a \<Longrightarrow> sliceToBitString a \<noteq> None \<Longrightarrow> wfn M mul (GenOpcode ''STSLICECONST'' a [] 1 1 False)"
  by (rule wfn_genI; simp add: opcode_lookup plain_lit declared_def documented_def doc_lookup)

lemma wfn_INDEX2: "arg_ok a \<Longrightarrow> two_args a \<noteq> None \<Longrightarrow> wfn M mul (GenOpcode ''INDEX2'' a [] 1 1 False)"
  by (rule wfn_genI; simp add: opcode_lookup plain_lit declared_def documented_def doc_lookup)

lemma wfn_INDEX3: "arg_ok a \<Longrightarrow> three_args a \<noteq> None \<Longrightarrow> wfn M mul (GenOpcode ''INDEX3'' a [] 1 1 False)"
  by (rule wfn_genI; simp add: opcode_lookup plain_lit declared_def documented_def doc_lookup)

lemma starts_with_shift:
  "\<not> starts_with ''LSHIFT'' ''ST''" "\<not> starts_with ''RSHIFT'' ''ST''"
  "\<not> starts_with ''MULRSHIFT'' ''ST''"
  by (simp_all add: starts_with_def)

lemma wfn_shift:
  "int_fits v \<Longrightarrow> wfn M mul (GenOpcode ''LSHIFT'' (toString v) [] 1 1 False)"
  "int_fits v \<Longrightarrow> wfn M mul (GenOpcode ''RSHIFT'' (toString v) [] 1 1 False)"
  "int_fits v \<Longrightarrow> wfn M mul (GenOpcode ''MULRSHIFT'' (toString v) [] 2 1 False)"
  by (simp_all add: wfn_GenOpcode gen_wf_def gen_sig_ok_def mul_ok_def opcode_lookup_shift starts_with_shift
      plain_lit declared_def documented_def doc_lookup opt_arg_def int_arg_def)

context tvm
begin

lemma wfn_push:
  "arg_ok a \<Longrightarrow> wfn M mul (GenOpcode ''TRUE'' a [] 0 1 True)"
  "arg_ok a \<Longrightarrow> wfn M mul (GenOpcode ''FALSE'' a [] 0 1 True)"
  "arg_ok a \<Longrightarrow> wfn M mul (GenOpcode ''NULL'' a [] 0 1 True)"
  "arg_ok a \<Longrightarrow> wfn M mul (GenOpcode ''NEWC'' a [] 0 1 True)"
  "wfn M mul (GenOpcode ''PUSHINT'' (toString v) [] 0 1 True)"
proof -
  have p: "declared M (GenOpcode opc a [] 0 1 True)"
    if "m_gen M opc a = app0 v" "opc \<noteq> ''NOT''" for opc a v
  proof -
    have "pushes M (GenOpcode opc a [] 0 1 True)"
      unfolding pushes_def
      by (rule exI [of _ "\<lambda>g w. v"])
        (auto simp: run1_GenOpcode that norm_eq_Some gen_typed_def app0_def)
    then show ?thesis by (simp add: declared_def pushes_frame)
  qed
  show "wfn M mul (GenOpcode ''TRUE'' a [] 0 1 True)" if "arg_ok a"
    using that p [of "''TRUE''" a "VInt (-1)"]
    by (intro wfn_genI) (simp_all add: opcode_lookup plain_lit gen_no_arg)
  show "wfn M mul (GenOpcode ''FALSE'' a [] 0 1 True)" if "arg_ok a"
    using that p [of "''FALSE''" a "VInt 0"]
    by (intro wfn_genI) (simp_all add: opcode_lookup plain_lit gen_no_arg)
  show "wfn M mul (GenOpcode ''NULL'' a [] 0 1 True)" if "arg_ok a"
    using that p [of "''NULL''" a "VNull"]
    by (intro wfn_genI) (simp_all add: opcode_lookup plain_lit gen_no_arg)
  show "wfn M mul (GenOpcode ''NEWC'' a [] 0 1 True)" if "arg_ok a"
    using that p [of "''NEWC''" a "VBuilder [] []"]
    by (intro wfn_genI) (simp_all add: opcode_lookup plain_lit gen_no_arg)
  show "wfn M mul (GenOpcode ''PUSHINT'' (toString v) [] 0 1 True)"
    using p [of "''PUSHINT''" "toString v" "VInt v"]
    by (intro wfn_genI) (simp_all add: opcode_lookup plain_lit gen_PUSHINT documented_def)
qed

lemma wfn_cmp:
  "int_fits v \<Longrightarrow> wfn M mul (GenOpcode ''NEQINT'' (toString v) [] 1 1 True)"
  "int_fits v \<Longrightarrow> wfn M mul (GenOpcode ''EQINT'' (toString v) [] 1 1 True)"
  "int_fits v \<Longrightarrow> wfn M mul (GenOpcode ''GTINT'' (toString v) [] 1 1 True)"
  "int_fits v \<Longrightarrow> wfn M mul (GenOpcode ''LESSINT'' (toString v) [] 1 1 True)"
proof -
  have p: "declared M (GenOpcode opc a [] 1 1 True)" if "m_gen M opc a = app1 f" for opc a f
    using that by (auto simp: declared_def maps1_def run1_GenOpcode norm_eq_Some app1_def)
  assume fits: "int_fits v"
  show "wfn M mul (GenOpcode ''NEQINT'' (toString v) [] 1 1 True)"
    by (rule wfn_genI; simp add: opcode_lookup plain_lit documented_int_arg fits
        p [OF gen_int_arg(4) [OF fits]])
  show "wfn M mul (GenOpcode ''EQINT'' (toString v) [] 1 1 True)"
    by (rule wfn_genI; simp add: opcode_lookup plain_lit documented_int_arg fits
        p [OF gen_int_arg(3) [OF fits]])
  show "wfn M mul (GenOpcode ''GTINT'' (toString v) [] 1 1 True)"
    by (rule wfn_genI; simp add: opcode_lookup plain_lit documented_int_arg fits
        p [OF gen_int_arg(6) [OF fits]])
  show "wfn M mul (GenOpcode ''LESSINT'' (toString v) [] 1 1 True)"
    by (rule wfn_genI; simp add: opcode_lookup plain_lit documented_int_arg fits
        p [OF gen_int_arg(5) [OF fits]])
qed

end

end
