(* ===== verification/Peephole.thy ===== *)
theory Peephole
  imports RuleLib
begin

text \<open>
  \<open>libsolidity/codegen/PeepholeOptimizer.cpp\<close>, the common part: the result of a rule, the recognisers
  that only the optimiser uses, \<open>hasRetOrJmp\<close>, the rules of \<open>unsquash\<close> and of the slice pass, and
  what it means for the result of a rule to be sound. A null command pointer is \<open>None\<close>.
\<close>

section \<open>Results and recognisers\<close>

datatype result = Result (removeQty: int) (commands: "node list")

abbreviation ret :: "int \<Rightarrow> node list \<Rightarrow> result option exc" where
  "ret n c \<equiv> Some (Some (Result n c))"

abbreviation noResult :: "result option exc" where
  "noResult \<equiv> Some None"

fun isBLKDROP2 :: "node \<Rightarrow> (int \<times> int) option" where
  "isBLKDROP2 (Stack p i j k) =
     (if p = BLKDROP2 then Some (i, j) else if p = POP_S \<and> i = 1 then Some (1, 1) else None)"
| "isBLKDROP2 _ = None"

fun isPUSH :: "node \<Rightarrow> int option" where
  "isPUSH (Stack p i j k) =
     (if p = PUSH_S then Some i else if p = BLKPUSH \<and> i = 1 then Some j else None)"
| "isPUSH _ = None"

fun isPUSHINT :: "node \<Rightarrow> bool" where
  "isPUSHINT (GenOpcode opc a _ _ _ _) =
     (opc = ''PUSHINT'' \<and>
      (case a of [] \<Rightarrow> True | c # t \<Rightarrow> (isdigit c \<or> c = CHR ''-'') \<and> list_all isdigit t))"
| "isPUSHINT _ = False"

fun argument :: "node \<Rightarrow> string exc" where
  "argument (GenOpcode _ a _ _ _ _) = Some a"
| "argument _ = None"

definition pushintValue :: "node \<Rightarrow> int exc" where
  "pushintValue n = do { _ \<leftarrow> solAssert (isPUSHINT n); a \<leftarrow> argument n; bigint_of a }"

definition fetchInt :: "node \<Rightarrow> int exc" where
  "fetchInt n = do { a \<leftarrow> argument n; strToInt a }"

definition isNIP :: "node \<Rightarrow> bool" where
  "isNIP n = (isPOP n = Some 1 \<or> isBLKDROP2 n = Some (1, 1))"

fun is_op :: "node \<Rightarrow> string list \<Rightarrow> bool" where
  "is_op (GenOpcode opc _ _ _ _ _) names = (opc \<in> set names)"
| "is_op _ names = False"

definition getIndexes :: "string \<Rightarrow> (int \<times> int) exc" where
  "getIndexes str = do {
     let pos = length (takeWhile (\<lambda>c. c \<noteq> CHR '','') str);
     _ \<leftarrow> solAssert (pos < length str);
     i \<leftarrow> strToInt (take pos str);
     j \<leftarrow> strToInt (drop (pos + 2) str);
     Some (i, j) }"

fun isExc :: "node \<Rightarrow> string list \<Rightarrow> bool" where
  "isExc (TvmException a y i m p) names = (exc_opcode a y i m \<in> set names)"
| "isExc _ names = False"

fun exc_arg :: "node \<Rightarrow> string" where
  "exc_arg (TvmException a y i m p) = p"
| "exc_arg _ = []"

definition isConstAdd :: "node \<Rightarrow> bool" where
  "isConstAdd n = is_op n [''INC'', ''DEC'', ''ADDCONST'']"

definition getAddNum :: "node \<Rightarrow> int exc" where
  "getAddNum n =
     (if is_op n [''INC''] then Some 1
      else if is_op n [''DEC''] then Some (-1)
      else if is_op n [''ADDCONST''] then fetchInt n
      else None)"

fun isSimpleCommand :: "node \<Rightarrow> bool" where
  "isSimpleCommand (GenOpcode _ _ _ t r _) = (t = 0 \<and> r = 1)"
| "isSimpleCommand (PushCellOrSlice _) = True"
| "isSimpleCommand (Glob p _) = (glob_take p = 0 \<and> glob_ret p = 1)"
| "isSimpleCommand (Opaque _ t r _) = (t = 0 \<and> r = 1)"
| "isSimpleCommand (HardCode _ t r _) = (t = 0 \<and> r = 1)"
| "isSimpleCommand _ = False"

definition isAddOrSub :: "node \<Rightarrow> bool" where
  "isAddOrSub n = (is_op n [''ADD''] \<or> is_op n [''SUB''])"

fun isCommutative :: "node \<Rightarrow> bool" where
  "isCommutative (GenOpcode opc a c _ _ _) =
     (joinArg opc a c \<in> set [''ADD'', ''AND'', ''EQUAL'', ''MAX'', ''MIN'', ''MUL'', ''NEQ'', ''OR'',
        ''SDEQ'', ''XOR''])"
| "isCommutative _ = False"

fun hasRetOrJmp :: "node \<Rightarrow> bool" and blockHasRetOrJmp :: "code_block \<Rightarrow> bool"
  and listHasRetOrJmp :: "node list \<Rightarrow> bool" where
  "hasRetOrJmp (Opaque b _ _ _) = blockHasRetOrJmp b"
| "hasRetOrJmp (BlockNode b) = blockHasRetOrJmp b"
| "hasRetOrJmp (ReturnOrBreakOrCont _ _) = True"
| "hasRetOrJmp (TvmReturn _ _ _) = True"
| "hasRetOrJmp (SubProgram _ _ jm _ _) = jm"
| "hasRetOrJmp (TvmIfElse _ jm _ _ _) = jm"
| "hasRetOrJmp _ = False"
| "blockHasRetOrJmp (CodeBlock _ c) = listHasRetOrJmp c"
| "listHasRetOrJmp [] = False"
| "listHasRetOrJmp (n # c) = (hasRetOrJmp n \<or> listHasRetOrJmp c)"

section \<open>Positions\<close>

definition valid :: "node list \<Rightarrow> int \<Rightarrow> bool" where
  "valid l idx = (0 \<le> idx \<and> idx < int (length l))"

definition get :: "node list \<Rightarrow> int \<Rightarrow> node option" where
  "get l idx = (if valid l idx then Some (l ! nat idx) else None)"

text \<open>The first position from \<open>idx\<close> on that is no line mark, \<open>-1\<close> if there is none.\<close>

function nextFrom :: "nat \<Rightarrow> node list \<Rightarrow> int" where
  "nextFrom idx l =
     (if idx < length l then (if \<not> isLoc (l ! idx) then int idx else nextFrom (idx + 1) l) else -1)"
  by auto
termination by (relation "measure (\<lambda>(idx, l). length l - idx)") auto

declare nextFrom.simps [simp del]

definition nextCommandLine :: "node list \<Rightarrow> int \<Rightarrow> int" where
  "nextCommandLine l idx = nextFrom (nat (idx + 1)) l"

definition commandsFrom :: "node list \<Rightarrow> int \<Rightarrow> node list" where
  "commandsFrom l idx = unloc (drop (nat idx) l)"

section \<open>Sound results\<close>

definition sound :: "'w machine \<Rightarrow> bool \<Rightarrow> node list \<Rightarrow> result \<Rightarrow> bool" where
  "sound M mul w res =
     (\<exists>n. removeQty res = int n \<and> 1 \<le> n \<and> n \<le> length w
        \<and> refines M w (commands res @ drop n w) \<and> wf_list M mul (commands res))"

definition sound_tail :: "'w machine \<Rightarrow> bool \<Rightarrow> node list \<Rightarrow> result \<Rightarrow> bool" where
  "sound_tail M mul w res =
     (\<exists>n. removeQty res = int n \<and> 1 \<le> n \<and> n \<le> length w
        \<and> refines_tail M w (commands res @ drop n w) \<and> wf_list M mul (commands res))"

lemma sound_window:
  "refines M w c \<Longrightarrow> wf_list M mul c \<Longrightarrow> w \<noteq> [] \<Longrightarrow> n = int (length w) \<Longrightarrow>
   sound M mul w (Result n c)"
  unfolding sound_def by (rule exI [of _ "length w"]) (cases w; simp)

lemma sound_extend:
  assumes "sound M mul w res"
  shows "sound M mul (w @ v) res"
proof -
  from assms obtain n where n: "removeQty res = int n" "1 \<le> n" "n \<le> length w"
    "refines M w (commands res @ drop n w)" "wf_list M mul (commands res)"
    by (auto simp: sound_def)
  have "refines M (w @ v) ((commands res @ drop n w) @ v)"
    using n(4) by (intro refines_append) auto
  then show ?thesis
    using n by (auto simp: sound_def intro!: exI [of _ n])
qed

lemma sound_imp_tail: "sound M mul w res \<Longrightarrow> sound_tail M mul w res"
  by (auto simp: sound_def sound_tail_def intro: refines_imp_tail)

text \<open>The commands that the rules look at are the line-mark-free rest of the list.\<close>

lemma nextFrom_None: "nextFrom i l = -1 \<longleftrightarrow> unloc (drop i l) = []"
proof (induction i l rule: nextFrom.induct)
  case (1 i l)
  then show ?case
    by (cases "i < length l")
      (auto simp: nextFrom.simps [of i] Cons_nth_drop_Suc [symmetric])
qed

lemma nextFrom_Some:
  "nextFrom i l \<noteq> -1 \<Longrightarrow>
   \<exists>k. nextFrom i l = int k \<and> i \<le> k \<and> k < length l \<and> \<not> isLoc (l ! k)
       \<and> unloc (drop i l) = l ! k # unloc (drop (k + 1) l)"
proof (induction i l rule: nextFrom.induct)
  case (1 i l)
  show ?case
  proof (cases "i < length l \<and> isLoc (l ! i)")
    case True
    with 1 obtain k where k: "nextFrom (i + 1) l = int k" "i + 1 \<le> k" "k < length l" "\<not> isLoc (l ! k)"
      "unloc (drop (i + 1) l) = l ! k # unloc (drop (k + 1) l)"
      by (auto simp: nextFrom.simps [of i])
    then show ?thesis
      using True by (intro exI [of _ k])
        (simp add: nextFrom.simps [of i] Cons_nth_drop_Suc [symmetric])
  next
    case False
    then show ?thesis
      using 1 by (intro exI [of _ i])
        (auto simp: nextFrom.simps [of i] Cons_nth_drop_Suc [symmetric] split: if_splits)
  qed
qed

definition at_cmd :: "node list \<Rightarrow> int \<Rightarrow> bool" where
  "at_cmd l i = (valid l i \<and> \<not> isLoc (l ! nat i))"

lemma commandsFrom_at:
  assumes "at_cmd l i"
  shows "commandsFrom l i = l ! nat i # unloc (drop (nat i + 1) l)"
  using assms Cons_nth_drop_Suc [of "nat i" l]
  by (auto simp: at_cmd_def valid_def commandsFrom_def unloc_def nat_less_iff
      simp del: drop_Suc dest: sym)

text \<open>Stepping to the next command.\<close>

lemma next_step:
  assumes "at_cmd l i"
  shows "get l i = Some (hd (commandsFrom l i))"
    and "commandsFrom l i \<noteq> []"
    and "nextCommandLine l i = -1 \<longleftrightarrow> tl (commandsFrom l i) = []"
    and "nextCommandLine l i \<noteq> -1 \<Longrightarrow>
      at_cmd l (nextCommandLine l i) \<and> i < nextCommandLine l i \<and>
      commandsFrom l (nextCommandLine l i) = tl (commandsFrom l i)"
proof -
  note c = commandsFrom_at [OF assms]
  have i: "nat (i + 1) = nat i + 1" "0 \<le> i"
    using assms by (auto simp: at_cmd_def valid_def)
  show "get l i = Some (hd (commandsFrom l i))" "commandsFrom l i \<noteq> []"
    using assms by (simp_all add: c get_def at_cmd_def)
  show "nextCommandLine l i = -1 \<longleftrightarrow> tl (commandsFrom l i) = []"
    by (simp add: nextCommandLine_def nextFrom_None i c del: nat_add_distrib)
  assume "nextCommandLine l i \<noteq> -1"
  then obtain k where k: "nextCommandLine l i = int k" "nat i + 1 \<le> k" "k < length l"
    "\<not> isLoc (l ! k)" "unloc (drop (nat i + 1) l) = l ! k # unloc (drop (k + 1) l)"
    using nextFrom_Some [of "nat i + 1" l] by (auto simp: nextCommandLine_def i)
  then have "at_cmd l (int k)" by (simp add: at_cmd_def valid_def)
  moreover from this have "commandsFrom l (int k) = tl (commandsFrom l i)"
    using k commandsFrom_at [of l "int k"] by (simp add: c)
  ultimately show "at_cmd l (nextCommandLine l i) \<and> i < nextCommandLine l i \<and>
      commandsFrom l (nextCommandLine l i) = tl (commandsFrom l i)"
    using k i by auto
qed

end
