(* ===== verification/Peephole2.thy ===== *)
theory Peephole2
  imports Peephole
begin

text \<open>
  \<open>PrivatePeepholeOptimizer::optimizeAt2\<close>: the rules on two neighbouring commands, one definition per
  rule in the order of the source, and their chain.
\<close>

section \<open>Exchange in front of a binary instruction, constants\<close>

definition r2_swap :: "node \<Rightarrow> node \<Rightarrow> result option exc" where
  "r2_swap c1 c2 =
     (if \<not> isSWAP c1 then noResult
      else if is_op c2 [''STU''] then do { a \<leftarrow> argument c2; g \<leftarrow> gen (cmd_text ''STUR'' a); ret 2 [g] }
      else if is_op c2 [''STSLICE''] then do { g \<leftarrow> gen ''STSLICER''; ret 2 [g] }
      else if is_op c2 [''SUB''] then do { g \<leftarrow> gen ''SUBR''; ret 2 [g] }
      else if is_op c2 [''SUBR''] then do { g \<leftarrow> gen ''SUB''; ret 2 [g] }
      else if isCommutative c2 then ret 1 []
      else (case c2 of
          GenOpcode opc a _ tk rt _ \<Rightarrow>
            if starts_with opc ''ST'' \<and> ends_with opc ''R'' \<and> tk = 2 \<and> rt = 1
            then do { g \<leftarrow> gen (cmd_text (butlast opc) a); ret 2 [g] }
            else noResult
        | _ \<Rightarrow> noResult))"

definition r2_pushint_arith :: "node \<Rightarrow> node \<Rightarrow> result option exc" where
  "r2_pushint_arith c1 c2 =
     (if \<not> isPUSHINT c1 then noResult
      else do {
        a \<leftarrow> argument c1;
        if a = ''1'' \<and> is_op c2 [''ADD''] then do { g \<leftarrow> gen ''INC''; ret 2 [g] }
        else if a = ''1'' \<and> is_op c2 [''SUB''] then do { g \<leftarrow> gen ''DEC''; ret 2 [g] }
        else do {
          v \<leftarrow> pushintValue c1;
          if -128 \<le> v \<and> v \<le> 127 \<and> is_op c2 [''ADD''] then
            do { g \<leftarrow> gen (cmd_text ''ADDCONST'' (toString v)); ret 2 [g] }
          else if -128 \<le> v \<and> v \<le> 127 \<and> is_op c2 [''MUL''] then
            do { g \<leftarrow> gen (cmd_text ''MULCONST'' (toString v)); ret 2 [g] }
          else if -128 \<le> - v \<and> - v \<le> 127 \<and> is_op c2 [''SUB''] then
            do { g \<leftarrow> gen (cmd_text ''ADDCONST'' (toString (- v))); ret 2 [g] }
          else noResult } })"

definition r2_after_ret :: "node \<Rightarrow> node \<Rightarrow> result option exc" where
  "r2_after_ret c1 c2 =
     (if (case c1 of TvmReturn withIf _ _ \<Rightarrow> \<not> withIf | _ \<Rightarrow> False) \<or> isExc c1 [''THROWANY'', ''THROW'']
      then ret 2 [c1] else noResult)"

section \<open>Pushes, pops and drops\<close>

definition r2_dup_swap :: "node \<Rightarrow> node \<Rightarrow> result option exc" where
  "r2_dup_swap c1 c2 = (if isPUSH c1 = Some 0 \<and> isSWAP c2 then ret 2 [c1] else noResult)"

definition r2_pop_drop :: "node \<Rightarrow> node \<Rightarrow> result option exc" where
  "r2_pop_drop c1 c2 =
     (case (isPOP c1, isDrop c2) of
        (Some n, Some d) \<Rightarrow>
          if n = d + 1 \<and> 1 \<le> n \<and> n \<le> 15 then do { g \<leftarrow> makeBLKDROP2 n 1; ret 2 [g] } else noResult
      | _ \<Rightarrow> noResult)"

definition r2_swap_pop2 :: "node \<Rightarrow> node \<Rightarrow> result option exc" where
  "r2_swap_pop2 c1 c2 =
     (if isSWAP c1 \<and> isPOP c2 = Some 2 then do { g \<leftarrow> makeBLKDROP2 1 2; ret 2 [g] } else noResult)"

definition r2_push_drop :: "node \<Rightarrow> node \<Rightarrow> result option exc" where
  "r2_push_drop c1 c2 =
     (case isDrop c2 of
        None \<Rightarrow> noResult
      | Some qty \<Rightarrow>
          if isPUSH c1 \<noteq> None \<or> isPureGen01 c1 then
            (if qty = 1 then ret 2 [] else do { g \<leftarrow> makeDROP (qty - 1); ret 2 [g] })
          else noResult)"

definition r2_blkpush_drop :: "node \<Rightarrow> node \<Rightarrow> result option exc" where
  "r2_blkpush_drop c1 c2 =
     (case (isBLKPUSH c1, isDrop c2) of
        (Some (qty, index), Some d) \<Rightarrow>
          let diff = qty - d
          in if diff = 0 then ret 2 []
             else if diff < 0 then do { g \<leftarrow> makeDROP (- diff); ret 2 [g] }
             else do { g \<leftarrow> makeBLKPUSH diff index; ret 2 [g] }
      | _ \<Rightarrow> noResult)"

definition r2_push_blkdrop2 :: "node \<Rightarrow> node \<Rightarrow> result option exc" where
  "r2_push_blkdrop2 c1 c2 =
     (case (isPUSH c1, isBLKDROP2 c2) of
        (Some index, Some (drp, rest)) \<Rightarrow>
          if drp = index + 1 \<and> rest = 1 then
            (if drp = 1 then ret 2 [] else do { g \<leftarrow> makeDROP (drp - 1); ret 2 [g] })
          else noResult
      | _ \<Rightarrow> noResult)"

definition r2_pure_blkdrop2 :: "node \<Rightarrow> node \<Rightarrow> result option exc" where
  "r2_pure_blkdrop2 c1 c2 =
     (case isBLKDROP2 c2 of
        Some (down, up) \<Rightarrow>
          if isPureGen01 c1 then do { g \<leftarrow> makeBLKDROP2 down (up - 1); ret 2 [g, c1] } else noResult
      | None \<Rightarrow> noResult)"

definition r2_blkpush_blkdrop2 :: "node \<Rightarrow> node \<Rightarrow> result option exc" where
  "r2_blkpush_blkdrop2 c1 c2 =
     (case (isBLKPUSH c1, isBLKDROP2 c2) of
        (Some (qty, index), Some (drp, rest)) \<Rightarrow>
          if qty = index + 1 \<and> rest = qty \<and> drp = qty then ret 2 []
          else if qty = index + 1 \<and> rest = qty \<and> drp > qty then
            do { g \<leftarrow> makeBLKDROP2 (drp - qty) qty; ret 2 [g] }
          else if qty = rest \<and> index - qty + 1 \<ge> 0 \<and> index - qty + 1 + qty = drp then
            do { g \<leftarrow> makeDROP (index - qty + 1); ret 2 [g] }
          else noResult
      | _ \<Rightarrow> noResult)"

definition r2_dup_blkdrop2 :: "node \<Rightarrow> node \<Rightarrow> result option exc" where
  "r2_dup_blkdrop2 c1 c2 =
     (case isBLKDROP2 c2 of
        Some (n, rest) \<Rightarrow>
          if isPUSH c1 = Some 0 \<and> rest = 1 then
            (if n = 1 then ret 2 [] else do { g \<leftarrow> makeBLKDROP2 (n - 1) 1; ret 2 [g] })
          else noResult
      | None \<Rightarrow> noResult)"

definition r2_nip_drop :: "node \<Rightarrow> node \<Rightarrow> result option exc" where
  "r2_nip_drop c1 c2 =
     (case isDrop c2 of
        Some n \<Rightarrow> if isNIP c1 then do { g \<leftarrow> makeDROP (n + 1); ret 2 [g] } else noResult
      | None \<Rightarrow> noResult)"

section \<open>Conditions\<close>

definition throw_or_flip :: "bool \<Rightarrow> node \<Rightarrow> result option exc" where
  "throw_or_flip flip c2 =
     (if isExc c2 [''THROWIF''] then
        do { g \<leftarrow> makeTHROW (cmd_text (if flip then ''THROWIFNOT'' else ''THROWIF'') (exc_arg c2)); ret 2 [g] }
      else if isExc c2 [''THROWIFNOT''] then
        do { g \<leftarrow> makeTHROW (cmd_text (if flip then ''THROWIF'' else ''THROWIFNOT'') (exc_arg c2)); ret 2 [g] }
      else (case c2 of
          TvmIfElse w jm t f r \<Rightarrow>
            if flip then do { g \<leftarrow> flipIfElse w jm t f r; ret 2 [g] } else ret 2 [c2]
        | _ \<Rightarrow> noResult))"

definition r2_not :: "node \<Rightarrow> node \<Rightarrow> result option exc" where
  "r2_not c1 c2 = (if is_op c1 [''NOT''] then throw_or_flip True c2 else noResult)"

definition r2_eqint0 :: "node \<Rightarrow> node \<Rightarrow> result option exc" where
  "r2_eqint0 c1 c2 =
     (if is_op c1 [''EQINT''] \<and> argument c1 = Some ''0'' then throw_or_flip True c2 else noResult)"

definition r2_neqint0 :: "node \<Rightarrow> node \<Rightarrow> result option exc" where
  "r2_neqint0 c1 c2 =
     (if is_op c1 [''NEQINT''] \<and> argument c1 = Some ''0'' then throw_or_flip False c2 else noResult)"

definition r2_true_if :: "node \<Rightarrow> node \<Rightarrow> result option exc" where
  "r2_true_if c1 c2 =
     (case c2 of
        TvmIfElse w jm t f r \<Rightarrow>
          if is_op c1 [''TRUE''] \<and> \<not> w then ret 2 [SubProgram 0 0 jm t False] else noResult
      | _ \<Rightarrow> noResult)"

section \<open>Block exchanges and block drops\<close>

definition r2_blkswap_blkdrop2 :: "node \<Rightarrow> node \<Rightarrow> result option exc" where
  "r2_blkswap_blkdrop2 c1 c2 =
     (case (isBLKSWAP c1, isBLKDROP2 c2) of
        (Some (down, up), Some (drp, rest)) \<Rightarrow>
          if drp = up \<and> rest = down then do { g \<leftarrow> makeDROP up; ret 2 [g] } else noResult
      | _ \<Rightarrow> noResult)"

definition r2_blkdrop2_drop :: "node \<Rightarrow> node \<Rightarrow> result option exc" where
  "r2_blkdrop2_drop c1 c2 =
     (case (isBLKDROP2 c1, isDrop c2) of
        (Some (drp, rest), Some n) \<Rightarrow>
          let some = n - rest
          in if some \<ge> 0 then do { g \<leftarrow> makeDROP (drp + rest + some); ret 2 [g] } else noResult
      | _ \<Rightarrow> noResult)"

definition r2_blkswap_drop :: "node \<Rightarrow> node \<Rightarrow> result option exc" where
  "r2_blkswap_drop c1 c2 =
     (case (isBLKSWAP c1, isDrop c2) of
        (Some (down, up), Some n) \<Rightarrow>
          if n = down then do { g \<leftarrow> makeBLKDROP2 down up; ret 2 [g] } else noResult
      | _ \<Rightarrow> noResult)"

definition r2_blkswap2 :: "node \<Rightarrow> node \<Rightarrow> result option exc" where
  "r2_blkswap2 c1 c2 =
     (case (isBLKSWAP c1, isBLKSWAP c2) of
        (Some (down1, top1), Some (down2, top2)) \<Rightarrow>
          if down1 + top1 = down2 + top2 then
            if down2 = 1 then
              (if top1 = 1 then ret 2 [] else do { g \<leftarrow> makeBLKSWAP (down1 + 1) (top1 - 1); ret 2 [g] })
            else if top2 = 1 then
              (if down1 = 1 then ret 2 [] else do { g \<leftarrow> makeBLKSWAP (down1 - 1) (top1 + 1); ret 2 [g] })
            else noResult
          else noResult
      | _ \<Rightarrow> noResult)"

definition r2_tuple :: "node \<Rightarrow> node \<Rightarrow> result option exc" where
  "r2_tuple c1 c2 =
     (if (is_op c1 [''TUPLE''] \<and> is_op c2 [''UNTUPLE'']) \<or> (is_op c1 [''UNTUPLE''] \<and> is_op c2 [''TUPLE''])
      then do { i \<leftarrow> fetchInt c1; j \<leftarrow> fetchInt c2; if i = j then ret 2 [] else noResult }
      else noResult)"

definition r2_setget :: "node \<Rightarrow> node \<Rightarrow> result option exc" where
  "r2_setget c1 c2 =
     (case (c1, c2) of
        (Glob SetOrSetVar i, Glob GetOrGetVar j) \<Rightarrow>
          if i = j then do { g \<leftarrow> makePUSH 0; ret 2 [g, makeSetGlob i] } else noResult
      | _ \<Rightarrow> noResult)"

section \<open>Constant operands\<close>

definition r2_constadd :: "node \<Rightarrow> node \<Rightarrow> result option exc" where
  "r2_constadd c1 c2 =
     (if isConstAdd c1 \<and> isConstAdd c2 then do {
        i \<leftarrow> getAddNum c1; j \<leftarrow> getAddNum c2;
        if -128 \<le> i + j \<and> i + j \<le> 127 then
          do { g \<leftarrow> gen (cmd_text ''ADDCONST'' (toString (i + j))); ret 2 [g] }
        else noResult }
      else noResult)"

definition isIndex :: "node \<Rightarrow> bool" where
  "isIndex n = (is_op n [''INDEX_NOEXCEP''] \<or> is_op n [''INDEX_EXCEP''])"

definition r2_index :: "node \<Rightarrow> node \<Rightarrow> result option exc" where
  "r2_index c1 c2 =
     (if isIndex c1 then do {
        i \<leftarrow> fetchInt c1;
        if 0 \<le> i \<and> i \<le> 3 \<and> isIndex c2 then do {
          j \<leftarrow> fetchInt c2;
          if 0 \<le> j \<and> j \<le> 3 then do {
            a \<leftarrow> argument c1; b \<leftarrow> argument c2;
            g \<leftarrow> gen (cmd_text ''INDEX2'' (a @ '', '' @ b)); ret 2 [g] }
          else noResult }
        else noResult }
      else noResult)"

definition r2_index2 :: "node \<Rightarrow> node \<Rightarrow> result option exc" where
  "r2_index2 c1 c2 =
     (if is_op c1 [''INDEX2''] \<and> isIndex c2 then do {
        k \<leftarrow> fetchInt c2;
        if 0 \<le> k \<and> k \<le> 3 then do {
          a \<leftarrow> argument c1; b \<leftarrow> argument c2;
          (i, j) \<leftarrow> getIndexes a;
          if 0 \<le> i \<and> i \<le> 3 \<and> 0 \<le> j \<and> j \<le> 3 then
            do { g \<leftarrow> gen (cmd_text ''INDEX3'' (toString i @ '', '' @ toString j @ '', '' @ b)); ret 2 [g] }
          else noResult }
        else noResult }
      else noResult)"

definition r2_shift_const :: "node \<Rightarrow> node \<Rightarrow> result option exc" where
  "r2_shift_const c1 c2 =
     (if isPUSHINT c1 then do {
        v \<leftarrow> pushintValue c1;
        if 1 \<le> v \<and> v \<le> 256 \<and> (is_op c2 [''RSHIFT''] \<or> is_op c2 [''LSHIFT'']) \<and> argument c2 = Some [] then
          (case c2 of
             GenOpcode opc _ _ _ _ _ \<Rightarrow>
               do { a \<leftarrow> argument c1; g \<leftarrow> gen (cmd_text opc a); ret 2 [g] }
           | _ \<Rightarrow> None)
        else noResult }
      else noResult)"

text \<open>The table \<open>power2\<close>: the powers of two from 2 to 256 with their exponents.\<close>

definition power2 :: "int \<Rightarrow> int option" where
  "power2 v = map_of [(2 ^ p, int p). p \<leftarrow> [1..<9]] v"

definition r2_divmul_pow2 :: "node \<Rightarrow> node \<Rightarrow> result option exc" where
  "r2_divmul_pow2 c1 c2 =
     (if isPUSHINT c1 \<and> (is_op c2 [''DIV''] \<or> is_op c2 [''MUL'']) then do {
        v \<leftarrow> pushintValue c1;
        case power2 v of
          Some p \<Rightarrow> do {
            g \<leftarrow> gen (cmd_text (if is_op c2 [''DIV''] then ''RSHIFT'' else ''LSHIFT'') (toString p));
            ret 2 [g] }
        | None \<Rightarrow> noResult }
      else noResult)"

definition r2_mod_pow2 :: "node \<Rightarrow> node \<Rightarrow> result option exc" where
  "r2_mod_pow2 c1 c2 =
     (if isPUSHINT c1 \<and> is_op c2 [''MOD''] then do {
        v \<leftarrow> pushintValue c1;
        case power2 v of
          Some p \<Rightarrow> do { g \<leftarrow> gen (cmd_text ''MODPOW2'' (toString p)); ret 2 [g] }
        | None \<Rightarrow> noResult }
      else noResult)"

definition r2_cmp :: "node \<Rightarrow> node \<Rightarrow> result option exc" where
  "r2_cmp c1 c2 =
     (if isPUSHINT c1 then do {
        v \<leftarrow> pushintValue c1;
        let small = (-128 \<le> v \<and> v < 128);
        if small \<and> is_op c2 [''NEQ''] then do { g \<leftarrow> gen (cmd_text ''NEQINT'' (toString v)); ret 2 [g] }
        else if small \<and> is_op c2 [''EQUAL''] then do { g \<leftarrow> gen (cmd_text ''EQINT'' (toString v)); ret 2 [g] }
        else if small \<and> is_op c2 [''GREATER''] then do { g \<leftarrow> gen (cmd_text ''GTINT'' (toString v)); ret 2 [g] }
        else if small \<and> is_op c2 [''LESS''] then do { g \<leftarrow> gen (cmd_text ''LESSINT'' (toString v)); ret 2 [g] }
        else if -128 \<le> v - 1 \<and> v - 1 < 128 \<and> is_op c2 [''GEQ''] then
          do { g \<leftarrow> gen (cmd_text ''GTINT'' (toString (v - 1))); ret 2 [g] }
        else if -128 \<le> v + 1 \<and> v + 1 < 128 \<and> is_op c2 [''LEQ''] then
          do { g \<leftarrow> gen (cmd_text ''LESSINT'' (toString (v + 1))); ret 2 [g] }
        else noResult }
      else noResult)"

definition r2_blkdrop2_2 :: "node \<Rightarrow> node \<Rightarrow> result option exc" where
  "r2_blkdrop2_2 c1 c2 =
     (case (isBLKDROP2 c1, isBLKDROP2 c2) of
        (Some (drop1, rest1), Some (drop2, rest2)) \<Rightarrow>
          if rest1 = rest2 \<and> drop1 + drop2 \<le> 15 then
            do { g \<leftarrow> makeBLKDROP2 (drop1 + drop2) rest1; ret 2 [g] }
          else if rest1 = drop2 + rest2 \<and> rest1 \<ge> rest2 then
            do { g \<leftarrow> makeBLKDROP2 (drop1 + drop2) rest2; ret 2 [g] }
          else noResult
      | _ \<Rightarrow> noResult)"

definition r2_blkswap_drop_again :: "node \<Rightarrow> node \<Rightarrow> result option exc" where
  "r2_blkswap_drop_again c1 c2 =
     (case (isBLKSWAP c1, isDrop c2) of
        (Some (bottom, tp), Some n) \<Rightarrow>
          if n = bottom then do { g \<leftarrow> makeBLKDROP2 n tp; ret 2 [g] } else noResult
      | _ \<Rightarrow> noResult)"

section \<open>Single patterns\<close>

definition r2_mulrshift :: "node \<Rightarrow> node \<Rightarrow> result option exc" where
  "r2_mulrshift c1 c2 =
     (if is_op c1 [''MUL''] \<and> is_op c2 [''RSHIFT''] \<and> argument c2 \<noteq> Some '' '' then
        do { a \<leftarrow> argument c2; g \<leftarrow> gen (cmd_text ''MULRSHIFT'' a); ret 2 [g] }
      else noResult)"

definition r2_newc_endc :: "node \<Rightarrow> node \<Rightarrow> result option exc" where
  "r2_newc_endc c1 c2 =
     (if is_op c1 [''NEWC''] \<and> is_op c2 [''ENDC''] then ret 2 [makePUSHREF []] else noResult)"

definition r2_not_not :: "node \<Rightarrow> node \<Rightarrow> result option exc" where
  "r2_not_not c1 c2 = (if is_op c1 [''NOT''] \<and> is_op c2 [''NOT''] then ret 2 [] else noResult)"

definition r2_fits :: "node \<Rightarrow> node \<Rightarrow> result option exc" where
  "r2_fits c1 c2 =
     (if (is_op c1 [''UFITS''] \<and> is_op c2 [''UFITS'']) \<or> (is_op c1 [''FITS''] \<and> is_op c2 [''FITS'']) then do {
        i \<leftarrow> fetchInt c1; j \<leftarrow> fetchInt c2;
        case c1 of
          GenOpcode opc _ _ _ _ _ \<Rightarrow> do { g \<leftarrow> gen (cmd_text opc (toString (min i j))); ret 2 [g] }
        | _ \<Rightarrow> None }
      else noResult)"

definition r2_bool_stir :: "node \<Rightarrow> node \<Rightarrow> result option exc" where
  "r2_bool_stir c1 c2 =
     (if (is_op c1 [''TRUE''] \<or> is_op c1 [''FALSE'']) \<and> is_op c2 [''STIR''] then do {
        n \<leftarrow> fetchInt c2;
        if n = 1 then
          (if is_op c1 [''FALSE''] then do { g \<leftarrow> gen ''STZERO''; ret 2 [g] }
           else do { g \<leftarrow> gen ''STONE''; ret 2 [g] })
        else noResult }
      else noResult)"

definition r2_zero_stur :: "node \<Rightarrow> node \<Rightarrow> result option exc" where
  "r2_zero_stur c1 c2 =
     (if isPUSHINT c1 then do {
        v \<leftarrow> pushintValue c1;
        if v = 0 \<and> is_op c2 [''STUR''] then do {
          a \<leftarrow> argument c2; g \<leftarrow> gen (cmd_text ''PUSHINT'' a); h \<leftarrow> gen ''STZEROES''; ret 2 [g, h] }
        else noResult }
      else noResult)"

definition r2_abs :: "node \<Rightarrow> node \<Rightarrow> result option exc" where
  "r2_abs c1 c2 =
     (if is_op c1 [''ABS''] \<and> is_op c2 [''UFITS''] then do {
        n \<leftarrow> fetchInt c2;
        if n = 256 then do { g \<leftarrow> gen ''ABS''; ret 2 [g] } else noResult }
      else noResult)"

definition r2_one_stzeroes :: "node \<Rightarrow> node \<Rightarrow> result option exc" where
  "r2_one_stzeroes c1 c2 =
     (if isPUSHINT c1 then do {
        v \<leftarrow> pushintValue c1;
        if v = 1 \<and> is_op c2 [''STZEROES''] then do { g \<leftarrow> gen ''STZERO''; ret 2 [g] } else noResult }
      else noResult)"

definition r2_reverse_blkswap :: "node \<Rightarrow> node \<Rightarrow> result option exc" where
  "r2_reverse_blkswap c1 c2 =
     (case (isREVERSE c1, isBLKSWAP c2) of
        (Some (qty, index), Some (bottom, tp)) \<Rightarrow>
          if tp = 1 \<and> index = 1 \<and> qty = bottom then do { g \<leftarrow> makeREVERSE (qty + 1) 0; ret 2 [g] }
          else noResult
      | _ \<Rightarrow> noResult)"

definition r2_reverse_drop :: "node \<Rightarrow> node \<Rightarrow> result option exc" where
  "r2_reverse_drop c1 c2 =
     (case (isREVERSE c1, isDrop c2) of
        (Some (qty, index), Some n) \<Rightarrow>
          if n + 1 = qty \<and> index = 0 then do { g \<leftarrow> makeBLKDROP2 n 1; ret 2 [g] } else noResult
      | _ \<Rightarrow> noResult)"

definition r2_endc_strefr :: "node \<Rightarrow> node \<Rightarrow> result option exc" where
  "r2_endc_strefr c1 c2 =
     (if is_op c1 [''ENDC''] \<and> is_op c2 [''STREFR''] then do { g \<leftarrow> gen ''STBREFR''; ret 2 [g] }
      else noResult)"

definition r2_pure_xchg :: "node \<Rightarrow> node \<Rightarrow> result option exc" where
  "r2_pure_xchg c1 c2 =
     (if isPureGen01 c1 \<and> isXCHG c2 1 2 then do { g \<leftarrow> makeBLKSWAP 1 1; ret 2 [g, c1] } else noResult)"

definition r2_dup_log :: "node \<Rightarrow> node \<Rightarrow> result option exc" where
  "r2_dup_log c1 c2 =
     (case c2 of
        LogCircuit t b \<Rightarrow>
          (case instructions b of
             [n0, n1] \<Rightarrow>
               if isPUSH c1 = Some 0 \<and> t = LogAND \<and> isDrop n0 = Some 1 \<and> is_op n1 [''TRUE'']
               then ret 2 [] else noResult
           | _ \<Rightarrow> noResult)
      | _ \<Rightarrow> noResult)"

definition r2_true_and :: "node \<Rightarrow> node \<Rightarrow> result option exc" where
  "r2_true_and c1 c2 = (if is_op c1 [''TRUE''] \<and> is_op c2 [''AND''] then ret 2 [] else noResult)"

definition r2_null_isnull :: "node \<Rightarrow> node \<Rightarrow> result option exc" where
  "r2_null_isnull c1 c2 =
     (if is_op c1 [''NULL''] \<and> is_op c2 [''ISNULL''] then do { g \<leftarrow> gen ''TRUE''; ret 2 [g] } else noResult)"

definition r2_bool_nothrow :: "node \<Rightarrow> node \<Rightarrow> result option exc" where
  "r2_bool_nothrow c1 c2 =
     (if (is_op c1 [''TRUE''] \<and> isExc c2 [''THROWIFNOT'']) \<or> (is_op c1 [''FALSE''] \<and> isExc c2 [''THROWIF''])
      then ret 2 [] else noResult)"

definition r2_pushint_isnull :: "node \<Rightarrow> node \<Rightarrow> result option exc" where
  "r2_pushint_isnull c1 c2 =
     (if is_op c1 [''PUSHINT''] \<and> is_op c2 [''ISNULL''] then do { g \<leftarrow> gen ''FALSE''; ret 2 [g] }
      else noResult)"

definition r2_bool_throw :: "node \<Rightarrow> node \<Rightarrow> result option exc" where
  "r2_bool_throw c1 c2 =
     (if (is_op c1 [''TRUE''] \<and> isExc c2 [''THROWIF'']) \<or> (is_op c1 [''FALSE''] \<and> isExc c2 [''THROWIFNOT''])
      then do { g \<leftarrow> makeTHROW (cmd_text ''THROW'' (exc_arg c2)); ret 2 [g] } else noResult)"

definition r2_pure11_drop :: "node \<Rightarrow> node \<Rightarrow> result option exc" where
  "r2_pure11_drop c1 c2 =
     (case c1 of
        GenOpcode _ _ _ tk rt pure \<Rightarrow>
          if pure \<and> (tk, rt) = (1, 1) \<and> isDrop c2 \<noteq> None then ret 2 [c2] else noResult
      | _ \<Rightarrow> noResult)"

definition r2_blkpush2 :: "node \<Rightarrow> node \<Rightarrow> result option exc" where
  "r2_blkpush2 c1 c2 =
     (case (isBLKPUSH c1, isBLKPUSH c2) of
        (Some (qty0, index0), Some (qty1, index1)) \<Rightarrow>
          if index0 = 0 \<and> index1 = 0 \<and> qty0 + qty1 \<le> 15 then
            do { g \<leftarrow> makeBLKPUSH (qty0 + qty1) 0; ret 2 [g] }
          else noResult
      | _ \<Rightarrow> noResult)"

definition r2_ld_drop :: "node \<Rightarrow> node \<Rightarrow> result option exc" where
  "r2_ld_drop c1 c2 =
     (case isDrop c2 of
        None \<Rightarrow> noResult
      | Some n \<Rightarrow>
          if is_op c1 [''LDU'', ''LDI'', ''LDREF'', ''LDDICT'', ''LDUX'', ''LDIX''] then do {
            newOpcode \<leftarrow> gen (CHR ''P'' # fullOpcode c1);
            if n = 1 then ret 2 [newOpcode]
            else do { g \<leftarrow> makeDROP (n - 1); ret 2 [newOpcode, g] } }
          else noResult)"

section \<open>The chain\<close>

definition rules2 :: "(node \<Rightarrow> node \<Rightarrow> result option exc) list" where
  "rules2 = [
     r2_swap, r2_pushint_arith, r2_after_ret, r2_dup_swap, r2_pop_drop, r2_swap_pop2, r2_push_drop,
     r2_blkpush_drop, r2_push_blkdrop2, r2_pure_blkdrop2, r2_blkpush_blkdrop2, r2_dup_blkdrop2,
     r2_nip_drop, r2_not, r2_eqint0, r2_neqint0, r2_true_if, r2_blkswap_blkdrop2, r2_blkdrop2_drop,
     r2_blkswap_drop, r2_blkswap2, r2_tuple, r2_setget, r2_constadd, r2_index, r2_index2,
     r2_shift_const, r2_divmul_pow2, r2_mod_pow2, r2_cmp, r2_blkdrop2_2, r2_blkswap_drop_again,
     r2_mulrshift, r2_newc_endc, r2_not_not, r2_fits, r2_bool_stir, r2_zero_stur, r2_abs,
     r2_one_stzeroes, r2_reverse_blkswap, r2_reverse_drop, r2_endc_strefr, r2_pure_xchg, r2_dup_log,
     r2_true_and, r2_null_isnull, r2_bool_nothrow, r2_pushint_isnull, r2_bool_throw,
     r2_pure11_drop, r2_blkpush2, r2_ld_drop]"

definition optimizeAt2 :: "node \<Rightarrow> node \<Rightarrow> result option exc" where
  "optimizeAt2 c1 c2 = first_of (map (\<lambda>r. r c1 c2) rules2)"

end
