(* ===== verification/StackView.thy ===== *)
theory StackView
  imports Peephole
begin

text \<open>
  Stack instructions by their effect: each recogniser and each constructor of stack instructions
  determines a function on stacks, whatever the spelling of the instruction. A rule that rewrites
  stack instructions into stack instructions is an equation between compositions of these functions.
\<close>

section \<open>The effect of a stack instruction\<close>

definition stk_is :: "node \<Rightarrow> (stack \<Rightarrow> stack) \<Rightarrow> bool" where
  "stk_is n f = (is_stack n \<and> (\<forall>t. stk_run [n] t = Some (f t)))"

definition comp_all :: "(stack \<Rightarrow> stack) list \<Rightarrow> stack \<Rightarrow> stack" where
  "comp_all fs t = fold (\<lambda>f. f) fs t"

lemma comp_all_simps [simp]: "comp_all [] t = t" "comp_all (f # fs) t = comp_all fs (f t)"
  by (simp_all add: comp_all_def)

lemma comp_all_append: "comp_all (fs @ gs) t = comp_all gs (comp_all fs t)"
  by (simp add: comp_all_def)

lemma run_stk_is: "stk_is n f \<Longrightarrow> run M (n # c) s r \<longleftrightarrow> run M c (set_stk s (f (stk s))) r"
  using run_stk [of "[n]" M c s r] by (simp add: stk_is_def)

lemma run_stk_all:
  "list_all2 stk_is c fs \<Longrightarrow> run M (c @ d) s r \<longleftrightarrow> run M d (set_stk s (comp_all fs (stk s))) r"
proof (induction c fs arbitrary: s rule: list_all2_induct)
  case (Cons n c f fs)
  then show ?case by (simp add: run_stk_is)
qed simp

lemma refines_stk_all:
  assumes "list_all2 stk_is c fs" "list_all2 stk_is c' gs" "comp_all fs = comp_all gs"
  shows "refines M c c'"
  using run_stk_all [OF assms(1), of M "[]"] run_stk_all [OF assms(2), of M "[]"] assms(3)
  by (simp add: refines_def)

lemma sound_stk:
  assumes "list_all2 stk_is w fs" "list_all2 stk_is c gs" "comp_all fs = comp_all gs"
    "wf_list M mul c" "w \<noteq> []" "n = int (length w)"
  shows "sound M mul w (Result n c)"
  using sound_window [OF refines_stk_all [OF assms(1-3)]] assms by blast

lemma stk_isI: "stack_ok p i j k \<Longrightarrow> stack_fun p (nat i) (nat j) (nat k) (nat (j + 1)) = f \<Longrightarrow>
  stk_is (Stack p i j k) f"
  by (auto simp: stk_is_def stack_exec_def)

fun stk_wfn :: "node \<Rightarrow> bool" where
  "stk_wfn (Stack p i j k) = stack_wf p i j k"
| "stk_wfn _ = False"

lemma stk_wfn_wfn: "stk_wfn n \<Longrightarrow> wfn M mul n"
  by (cases n) simp_all

lemma stack_cong: "i = j \<Longrightarrow> (t :: stack) i = t j"
  by simp

section \<open>Closed forms\<close>

lemma sblkpush_closed:
  "sblkpush n j t = (\<lambda>k. if k < n then t (j - (n - 1 - k) mod (j + 1)) else t (k - n))"
proof (induction n arbitrary: t)
  case (Suc n)
  have m: "(if j - (n - 1 - k) mod (j + 1) = 0 then t j else t (j - (n - 1 - k) mod (j + 1) - 1))
    = t (j - (n - k) mod (j + 1))" if "k < n" for k
  proof -
    let ?m = "(n - Suc k) mod Suc j"
    have lt: "?m = j \<or> ?m < j" using mod_less_divisor [of "Suc j" "n - Suc k"] by linarith
    have e: "(n - k) mod Suc j = (if ?m = j then 0 else Suc ?m)"
      using mod_Suc [of "n - Suc k" "Suc j"] that by (simp add: Suc_diff_Suc)
    show ?thesis using lt by (rule disjE) (simp_all add: e)
  qed
  show ?case
  proof
    fix k
    show "sblkpush (Suc n) j t k =
      (if k < Suc n then t (j - (Suc n - 1 - k) mod (j + 1)) else t (k - Suc n))"
      using m [of k] by (auto simp: Suc spushs_def spush_def not_less le_Suc_eq)
  qed
qed (simp add: fun_eq_iff)

lemma sblkpush_below: "n \<le> k \<Longrightarrow> sblkpush n j t k = t (k - n)"
  by (simp add: sblkpush_closed)

lemma sblkpush_near: "k < n \<Longrightarrow> n \<le> j + 1 \<Longrightarrow> sblkpush n j t k = t (j - (n - 1 - k))"
  by (simp add: sblkpush_closed)

lemma sblkpush_drop: "d \<le> n \<Longrightarrow> sblkpush n j t (k + d) = sblkpush (n - d) j t k"
  by (auto simp: sblkpush_closed add.commute intro!: stack_cong)

lemma sblkpush_dup: "sblkpush n 0 t k = (if k < n then t 0 else t (k - n))"
  by (simp add: sblkpush_closed)

lemma spushs_closed: "spushs i t = (\<lambda>k. if k = 0 then t i else t (k - 1))"
  by (simp add: spushs_def spush_def)

lemma spop_closed: "spop i t = (\<lambda>k. if k + 1 = i then t 0 else t (k + 1))"
  by (auto simp: spop_def sdrop_def fun_eq_iff)

lemma sxchg_closed: "sxchg i j t = (\<lambda>k. if k = i then t j else if k = j then t i else t k)"
  by (auto simp: sxchg_def fun_eq_iff)

lemmas closed_forms =
  spushs_closed spop_closed sxchg_closed sdrop_def sblkdrop2_def sblkswap_def sreverse_def spush_def

section \<open>Recognisers\<close>

lemma ex2I: "P a b \<Longrightarrow> \<exists>x y. P x y"
  by blast

lemma ex3I: "P a b c \<Longrightarrow> \<exists>x y z. P x y z"
  by blast

lemma isDrop_view:
  "isDrop n = Some i \<Longrightarrow> wfn M mul n \<Longrightarrow> \<exists>d. i = int d \<and> 1 \<le> d \<and> stk_is n (sdrop d)"
  by (cases n) (auto simp: stack_op_defs fun_eq_iff intro!: exI [of _ "nat i"] stk_isI split: if_splits)

lemma isPOP_view:
  "isPOP n = Some i \<Longrightarrow> wfn M mul n \<Longrightarrow> \<exists>d. i = int d \<and> 1 \<le> d \<and> stk_is n (spop d)"
  by (cases n)
    (auto simp: stack_op_defs fun_eq_iff closed_forms intro!: exI [of _ "nat i"] stk_isI
      split: if_splits stack_opcode.splits)

lemma isPUSH_view:
  "isPUSH n = Some i \<Longrightarrow> wfn M mul n \<Longrightarrow> \<exists>d. i = int d \<and> stk_is n (spushs d)"
  by (cases n)
    (auto simp: stack_op_defs fun_eq_iff intro!: exI [of _ "nat i"] stk_isI
      split: if_splits stack_opcode.splits)

lemma isBLKPUSH_view:
  "isBLKPUSH n = Some (q, j) \<Longrightarrow> wfn M mul n \<Longrightarrow>
   \<exists>a b. q = int a \<and> j = int b \<and> 1 \<le> a \<and> stk_is n (sblkpush a b)"
  by (rule ex2I [of _ "nat q" "nat j"], cases n)
    (auto simp: stack_op_defs fun_eq_iff intro!: stk_isI
      split: if_splits stack_opcode.splits)

lemma isBLKDROP2_view:
  "isBLKDROP2 n = Some (d, r) \<Longrightarrow> wfn M mul n \<Longrightarrow>
   \<exists>a b. d = int a \<and> r = int b \<and> 1 \<le> a \<and> 1 \<le> b \<and> stk_is n (sblkdrop2 a b)"
  by (rule ex2I [of _ "nat d" "nat r"], cases n)
    (auto simp: stack_op_defs fun_eq_iff closed_forms intro!: stk_isI split: if_splits stack_opcode.splits)

lemma swap_forms:
  "sblkswap (Suc 0) (Suc 0) = sxchg 0 (Suc 0)" "sreverse 2 0 = sxchg 0 (Suc 0)"
  "sreverse 3 0 = sxchg 0 2"
proof -
  show "sreverse 3 0 = sxchg 0 2"
  proof (intro ext)
    fix t :: stack and k :: nat
    consider "k = 0" | "k = 1" | "k = 2" | "3 \<le> k" by linarith
    then show "sreverse 3 0 t k = sxchg 0 2 t k" by cases (simp_all add: closed_forms)
  qed
qed (auto simp: fun_eq_iff closed_forms)

lemma isBLKSWAP_view:
  "isBLKSWAP n = Some (d, u) \<Longrightarrow> wfn M mul n \<Longrightarrow>
   \<exists>a b. d = int a \<and> u = int b \<and> 1 \<le> a \<and> 1 \<le> b \<and> stk_is n (sblkswap a b)"
  by (rule ex2I [of _ "nat d" "nat u"], cases n)
    (auto simp: stack_op_defs fun_eq_iff swap_forms [unfolded fun_eq_iff]
      intro!: stk_isI split: if_splits stack_opcode.splits)

lemma isREVERSE_view:
  "isREVERSE n = Some (q, j) \<Longrightarrow> wfn M mul n \<Longrightarrow>
   \<exists>a b. q = int a \<and> j = int b \<and> 2 \<le> a \<and> stk_is n (sreverse a b)"
  by (rule ex2I [of _ "nat q" "nat j"], cases n)
    (auto simp: stack_op_defs fun_eq_iff swap_forms [unfolded fun_eq_iff]
      intro!: stk_isI split: if_splits stack_opcode.splits)

lemma isXCHG_S0_view:
  "isXCHG_S0 n = Some j \<Longrightarrow> wfn M mul n \<Longrightarrow> \<exists>a. j = int a \<and> stk_is n (sxchg 0 a)"
  by (cases n)
    (auto simp: stack_op_defs fun_eq_iff swap_forms [unfolded fun_eq_iff]
      intro!: exI [of _ "nat j"] stk_isI split: if_splits stack_opcode.splits)

lemma isXCHG_view:
  "isXCHG n i j \<Longrightarrow> wfn M mul n \<Longrightarrow> \<exists>a b. i = int a \<and> j = int b \<and> stk_is n (sxchg a b)"
  by (rule ex2I [of _ "nat i" "nat j"], cases n)
    (auto simp: isXCHG_def stack_op_defs fun_eq_iff intro!: stk_isI)

lemma isSWAP_view: "isSWAP n \<Longrightarrow> wfn M mul n \<Longrightarrow> stk_is n (sxchg 0 1)"
  using isBLKSWAP_view [of n 1 1] by (auto simp: isSWAP_def swap_forms)

section \<open>Constructors\<close>

lemma makeDROP_view:
  "makeDROP i = Some n \<Longrightarrow> \<exists>d. i = int d \<and> 1 \<le> d \<and> stk_is n (sdrop d) \<and> stk_wfn n"
  by (auto simp: makeDROP_def stack_op_defs fun_eq_iff intro!: exI [of _ "nat i"] stk_isI
      split: if_splits)

lemma makePOP_view:
  "makePOP i = Some n \<Longrightarrow> \<exists>d. i = int d \<and> 1 \<le> d \<and> stk_is n (spop d) \<and> stk_wfn n"
  by (auto simp: makePOP_def stack_op_defs fun_eq_iff intro!: exI [of _ "nat i"] stk_isI
      split: if_splits)

lemma makePUSH_view:
  "makePUSH i = Some n \<Longrightarrow> \<exists>d. i = int d \<and> stk_is n (spushs d) \<and> stk_wfn n"
  by (auto simp: makePUSH_def stack_op_defs fun_eq_iff intro!: exI [of _ "nat i"] stk_isI
      split: if_splits)

lemma makeBLKPUSH_view:
  "makeBLKPUSH q j = Some n \<Longrightarrow>
   \<exists>a b. q = int a \<and> j = int b \<and> 1 \<le> a \<and> stk_is n (sblkpush a b) \<and> stk_wfn n"
  by (rule ex2I [of _ "nat q" "nat j"])
    (auto simp: makeBLKPUSH_def makePUSH_def stack_op_defs fun_eq_iff
      intro!: stk_isI split: if_splits)

lemma makeBLKDROP2_view:
  "makeBLKDROP2 d r = Some n \<Longrightarrow>
   \<exists>a b. d = int a \<and> r = int b \<and> 1 \<le> a \<and> stk_is n (sblkdrop2 a b) \<and> stk_wfn n"
  by (rule ex2I [of _ "nat d" "nat r"])
    (auto simp: makeBLKDROP2_def makeDROP_def stack_op_defs fun_eq_iff closed_forms
      intro!: stk_isI split: if_splits)

lemma makeBLKSWAP_view:
  "makeBLKSWAP d u = Some n \<Longrightarrow>
   \<exists>a b. d = int a \<and> u = int b \<and> 1 \<le> a \<and> 1 \<le> b \<and> stk_is n (sblkswap a b) \<and> stk_wfn n"
  by (rule ex2I [of _ "nat d" "nat u"])
    (auto simp: makeBLKSWAP_def stack_op_defs fun_eq_iff
      intro!: stk_isI split: if_splits)

lemma makeREVERSE_view:
  "makeREVERSE q j = Some n \<Longrightarrow>
   \<exists>a b. q = int a \<and> j = int b \<and> 2 \<le> a \<and> stk_is n (sreverse a b) \<and> stk_wfn n"
  by (rule ex2I [of _ "nat q" "nat j"])
    (auto simp: makeREVERSE_def stack_op_defs fun_eq_iff
      intro!: stk_isI split: if_splits)

lemma makePUSH2_view:
  "makePUSH2 i j = Some n \<Longrightarrow>
   \<exists>a b. i = int a \<and> j = int b \<and> stk_is n (\<lambda>t. spush (t b) (spush (t a) t)) \<and> stk_wfn n"
  by (rule ex2I [of _ "nat i" "nat j"])
    (auto simp: makePUSH2_def stack_op_defs fun_eq_iff
      intro!: stk_isI split: if_splits)

lemma makePUSH3_view:
  "makePUSH3 i j k = Some n \<Longrightarrow>
   \<exists>a b c. i = int a \<and> j = int b \<and> k = int c \<and>
     stk_is n (\<lambda>t. spush (t c) (spush (t b) (spush (t a) t))) \<and> stk_wfn n"
  by (rule ex3I [of _ "nat i" "nat j" "nat k"])
    (auto simp: makePUSH3_def stack_op_defs fun_eq_iff
      intro!: stk_isI split: if_splits)

lemma makeTUCK_view: "stk_is makeTUCK (\<lambda>t. spushs 1 (sxchg 0 1 t)) \<and> stk_wfn makeTUCK"
  by (auto simp: makeTUCK_def stack_op_defs fun_eq_iff intro!: stk_isI)

lemma makePUXC_view:
  "makePUXC i (-1) = Some n \<Longrightarrow>
   \<exists>a. i = int a \<and> stk_is n (\<lambda>t. sxchg 0 1 (spushs a t)) \<and> stk_wfn n"
  by (auto simp: makePUXC_def stack_op_defs fun_eq_iff closed_forms
      intro!: exI [of _ "nat i"] stk_isI split: if_splits)

end
