(* ===== verification/Peephole2Stack.thy ===== *)
theory Peephole2Stack
  imports Peephole2 StackView
begin

text \<open>Soundness of the two-command rules on stack instructions.\<close>

lemma sound_stk2_1:
  "stk_is c1 f \<Longrightarrow> stk_is c2 g \<Longrightarrow> stk_is n h \<Longrightarrow> stk_wfn n \<Longrightarrow> (\<And>t k. g (f t) k = h t k) \<Longrightarrow>
   sound M mul [c1, c2] (Result 2 [n])"
  by (rule sound_stk [of _ "[f, g]" _ "[h]"]) (auto simp: fun_eq_iff stk_wfn_wfn)

lemma sound_stk2_0:
  "stk_is c1 f \<Longrightarrow> stk_is c2 g \<Longrightarrow> (\<And>t k. g (f t) k = t k) \<Longrightarrow> sound M mul [c1, c2] (Result 2 [])"
  by (rule sound_stk [of _ "[f, g]" _ "[]"]) (auto simp: fun_eq_iff)

lemmas rule_splits = option.splits if_splits prod.splits

lemmas views =
  isDrop_view isPOP_view isPUSH_view isBLKPUSH_view isBLKDROP2_view isBLKSWAP_view isREVERSE_view
  isSWAP_view makeDROP_view makePUSH_view makeBLKPUSH_view makeBLKDROP2_view makeBLKSWAP_view
  makeREVERSE_view

lemma r2_dup_swap_sound:
  "r2_dup_swap c1 c2 = Some (Some res) \<Longrightarrow> wfn M mul c1 \<Longrightarrow> wfn M mul c2 \<Longrightarrow>
   sound M mul [c1, c2] res"
  by (auto simp: r2_dup_swap_def closed_forms fun_eq_iff split: rule_splits dest!: views
      intro!: sound_stk [of _ "[spushs 0, sxchg 0 1]" _ "[spushs 0]"])

lemma r2_pop_drop_sound:
  "r2_pop_drop c1 c2 = Some (Some res) \<Longrightarrow> wfn M mul c1 \<Longrightarrow> wfn M mul c2 \<Longrightarrow>
   sound M mul [c1, c2] res"
  by (auto simp: r2_pop_drop_def bind_eq_Some_conv closed_forms Let_def split: rule_splits dest!: views
      intro!: sound_stk2_1 sound_stk2_0; (rule stack_cong; linarith)?)

lemma r2_swap_pop2_sound:
  "r2_swap_pop2 c1 c2 = Some (Some res) \<Longrightarrow> wfn M mul c1 \<Longrightarrow> wfn M mul c2 \<Longrightarrow>
   sound M mul [c1, c2] res"
  by (auto simp: r2_swap_pop2_def bind_eq_Some_conv closed_forms Let_def split: rule_splits dest!: views
      intro!: sound_stk2_1 sound_stk2_0; (rule stack_cong; linarith)?)

lemma r2_blkpush_drop_sound:
  "r2_blkpush_drop c1 c2 = Some (Some res) \<Longrightarrow> wfn M mul c1 \<Longrightarrow> wfn M mul c2 \<Longrightarrow>
   sound M mul [c1, c2] res"
  by (auto simp: r2_blkpush_drop_def bind_eq_Some_conv sdrop_def Let_def sblkpush_below sblkpush_drop
      split: rule_splits dest!: views intro!: sound_stk2_1 sound_stk2_0;
      (rule stack_cong; linarith)?; (subst sblkpush_drop, linarith, simp))

lemma r2_push_blkdrop2_sound:
  "r2_push_blkdrop2 c1 c2 = Some (Some res) \<Longrightarrow> wfn M mul c1 \<Longrightarrow> wfn M mul c2 \<Longrightarrow>
   sound M mul [c1, c2] res"
  by (auto simp: r2_push_blkdrop2_def bind_eq_Some_conv closed_forms Let_def split: rule_splits dest!: views
      intro!: sound_stk2_1 sound_stk2_0; (rule stack_cong; linarith)?)

lemma r2_blkpush_blkdrop2_sound:
  "r2_blkpush_blkdrop2 c1 c2 = Some (Some res) \<Longrightarrow> wfn M mul c1 \<Longrightarrow> wfn M mul c2 \<Longrightarrow>
   sound M mul [c1, c2] res"
  by (auto simp: r2_blkpush_blkdrop2_def bind_eq_Some_conv sblkdrop2_def sdrop_def
      sblkpush_below sblkpush_near split: rule_splits dest!: views intro!: sound_stk2_1 sound_stk2_0;
      (rule stack_cong; linarith)?)

lemma r2_dup_blkdrop2_sound:
  "r2_dup_blkdrop2 c1 c2 = Some (Some res) \<Longrightarrow> wfn M mul c1 \<Longrightarrow> wfn M mul c2 \<Longrightarrow>
   sound M mul [c1, c2] res"
  by (auto simp: r2_dup_blkdrop2_def bind_eq_Some_conv closed_forms Let_def split: rule_splits dest!: views
      intro!: sound_stk2_1 sound_stk2_0; (rule stack_cong; linarith)?)

lemma r2_blkswap_blkdrop2_sound:
  "r2_blkswap_blkdrop2 c1 c2 = Some (Some res) \<Longrightarrow> wfn M mul c1 \<Longrightarrow> wfn M mul c2 \<Longrightarrow>
   sound M mul [c1, c2] res"
  by (auto simp: r2_blkswap_blkdrop2_def bind_eq_Some_conv closed_forms Let_def split: rule_splits dest!: views
      intro!: sound_stk2_1 sound_stk2_0; (rule stack_cong; linarith)?)

lemma r2_blkdrop2_drop_sound:
  "r2_blkdrop2_drop c1 c2 = Some (Some res) \<Longrightarrow> wfn M mul c1 \<Longrightarrow> wfn M mul c2 \<Longrightarrow>
   sound M mul [c1, c2] res"
  by (auto simp: r2_blkdrop2_drop_def bind_eq_Some_conv closed_forms Let_def split: rule_splits dest!: views
      intro!: sound_stk2_1 sound_stk2_0; (rule stack_cong; linarith)?)

lemma r2_blkswap_drop_sound:
  "r2_blkswap_drop c1 c2 = Some (Some res) \<Longrightarrow> wfn M mul c1 \<Longrightarrow> wfn M mul c2 \<Longrightarrow>
   sound M mul [c1, c2] res"
  by (auto simp: r2_blkswap_drop_def bind_eq_Some_conv closed_forms Let_def split: rule_splits dest!: views
      intro!: sound_stk2_1 sound_stk2_0; (rule stack_cong; linarith)?)

lemma r2_blkswap2_sound:
  "r2_blkswap2 c1 c2 = Some (Some res) \<Longrightarrow> wfn M mul c1 \<Longrightarrow> wfn M mul c2 \<Longrightarrow>
   sound M mul [c1, c2] res"
  by (auto simp: r2_blkswap2_def bind_eq_Some_conv closed_forms Let_def split: rule_splits dest!: views
      intro!: sound_stk2_1 sound_stk2_0; (rule stack_cong; linarith)?)

lemma r2_blkdrop2_2_sound:
  "r2_blkdrop2_2 c1 c2 = Some (Some res) \<Longrightarrow> wfn M mul c1 \<Longrightarrow> wfn M mul c2 \<Longrightarrow>
   sound M mul [c1, c2] res"
  by (auto simp: r2_blkdrop2_2_def bind_eq_Some_conv closed_forms Let_def split: rule_splits dest!: views
      intro!: sound_stk2_1 sound_stk2_0; (rule stack_cong; linarith)?)

lemma r2_blkswap_drop_again_sound:
  "r2_blkswap_drop_again c1 c2 = Some (Some res) \<Longrightarrow> wfn M mul c1 \<Longrightarrow> wfn M mul c2 \<Longrightarrow>
   sound M mul [c1, c2] res"
  by (auto simp: r2_blkswap_drop_again_def bind_eq_Some_conv closed_forms Let_def split: rule_splits dest!: views
      intro!: sound_stk2_1 sound_stk2_0; (rule stack_cong; linarith)?)

lemma r2_reverse_blkswap_sound:
  "r2_reverse_blkswap c1 c2 = Some (Some res) \<Longrightarrow> wfn M mul c1 \<Longrightarrow> wfn M mul c2 \<Longrightarrow>
   sound M mul [c1, c2] res"
  by (auto simp: r2_reverse_blkswap_def bind_eq_Some_conv closed_forms Let_def split: rule_splits dest!: views
      intro!: sound_stk2_1 sound_stk2_0; (rule stack_cong; linarith)?)

lemma r2_reverse_drop_sound:
  "r2_reverse_drop c1 c2 = Some (Some res) \<Longrightarrow> wfn M mul c1 \<Longrightarrow> wfn M mul c2 \<Longrightarrow>
   sound M mul [c1, c2] res"
  by (auto simp: r2_reverse_drop_def bind_eq_Some_conv closed_forms Let_def split: rule_splits dest!: views
      intro!: sound_stk2_1 sound_stk2_0; (rule stack_cong; linarith)?)

lemma r2_blkpush2_sound:
  "r2_blkpush2 c1 c2 = Some (Some res) \<Longrightarrow> wfn M mul c1 \<Longrightarrow> wfn M mul c2 \<Longrightarrow>
   sound M mul [c1, c2] res"
  by (auto simp: r2_blkpush2_def bind_eq_Some_conv sblkpush_dup split: rule_splits dest!: views
      intro!: sound_stk2_1 sound_stk2_0; (rule stack_cong; linarith)?)

end
