(* ===== verification/Peephole2Sound.thy ===== *)
theory Peephole2Sound
  imports Peephole2Stack
begin

text \<open>Soundness of the remaining two-command rules and of the whole chain.\<close>

section \<open>Calculating with stacks\<close>

lemma stack_calc:
  "spush v t 0 = v" "spush v t (Suc n) = t n" "spush v t 1 = t 0" "spush v t 2 = t 1"
  "spush v t 3 = t 2"
  "sdrop 0 t = t" "sdrop n t 0 = t n" "sdrop (Suc n) (spush v t) = sdrop n t"
  "sdrop 1 (spush v t) = t" "sdrop 2 (spush v t) = sdrop 1 t" "sdrop 3 (spush v t) = sdrop 2 t"
  "sxchg 0 1 t 0 = t 1" "sxchg 0 1 t 1 = t 0" "sdrop 2 (sxchg 0 1 t) = sdrop 2 t"
  "sxchg 0 (Suc 0) t 0 = t 1" "sxchg 0 (Suc 0) t (Suc 0) = t 0"
  "sdrop 2 (sxchg 0 (Suc 0) t) = sdrop 2 t"
  "spush (t 0) (sdrop 1 t) = t" "spush (t 0) (sdrop (Suc 0) t) = t"
  "sdrop m (sdrop n t) = sdrop (m + n) t" "sdrop (Suc (Suc 0)) t = sdrop 2 t"
  "sdrop (Suc 2) t = sdrop 3 t"
  by (auto simp: fun_eq_iff closed_forms eval_nat_numeral add.commute add.left_commute)

lemma spush_top:
  "t 0 = v \<Longrightarrow> spush v (sdrop (Suc 0) t) = t" "t 0 = v \<Longrightarrow> spush v (sdrop 1 t) = t"
  by (auto simp: fun_eq_iff closed_forms)

lemma set_stk_calc: "set_stk s t = set_stk s u \<longleftrightarrow> t = u"
  by simp

section \<open>What a recognised command is\<close>

lemma mem_list:
  "x \<in> set [] \<longleftrightarrow> False" "x \<in> set (y # ys) \<longleftrightarrow> x = y \<or> x \<in> set ys"
  by simp_all

lemma is_opE:
  assumes "is_op n names"
  obtains opc a cm tk rt p where "n = GenOpcode opc a cm tk rt p" "opc \<in> set names"
  using assms by (cases n) auto

lemma is_op1E:
  assumes "is_op n [opc]"
  obtains a cm tk rt p where "n = GenOpcode opc a cm tk rt p"
  using assms by (cases n) auto

lemma pure_pushes: "isPureGen01 n \<Longrightarrow> wfn M mul n \<Longrightarrow> pushes M n"
  by (cases n) (auto simp: isPureGen01_def declared_def wfn_GenOpcode)

lemma wfn_GenD:
  assumes "wfn M mul (GenOpcode opc a cm tk rt p)"
  shows "arg_ok a" "documented M opc a" "plain opc" "opc \<noteq> []" "comment_ok cm"
    "gen_sig_ok opc tk rt p" "mul_ok mul opc a" "text_ok a"
  using assms by (simp_all add: wfn_GenOpcode gen_wf_def arg_ok_text)

definition nat_ops :: "string list" where
  "nat_ops = [''MODPOW2'', ''UFITS'', ''FITS'', ''TUPLE'', ''UNTUPLE'', ''INDEX_EXCEP'',
    ''INDEX_NOEXCEP'', ''STU'', ''STUR'', ''STI'', ''STIR'', ''LDU'', ''LDI'', ''PLDU'', ''PLDI'']"

lemma nat_argument:
  assumes "wfn M mul (GenOpcode opc a cm tk rt p)" "opc \<in> set nat_ops"
  obtains n where "a = toString (int n)" "int_fits (int n)"
proof -
  have "nonneg_arg a \<noteq> None"
    using assms wfn_GenD(2) [OF assms(1)] by (auto simp: nat_ops_def documented_nat_arg)
  then show ?thesis
    using that arg_ok_nat [OF wfn_GenD(1) [OF assms(1)]] by blast
qed

lemma pushint_view:
  assumes "isPUSHINT n" "pushintValue n = Some v" "wfn M mul n"
  obtains cm tk rt p where "n = GenOpcode ''PUSHINT'' (toString v) cm tk rt p"
proof (cases n)
  case (GenOpcode opc a cm tk rt p)
  have "arg_ok a" using assms(3) GenOpcode wfn_GenD(1) by blast
  moreover have "bigint_of a = Some v"
    using assms(1,2) GenOpcode by (auto simp: pushintValue_def)
  ultimately have "a = toString v" unfolding arg_ok_def by blast
  then show ?thesis using that assms(1) GenOpcode by simp
qed (use assms(1) in auto)

lemma fetchInt_view:
  assumes "fetchInt (GenOpcode opc a cm tk rt p) = Some v" "wfn M mul (GenOpcode opc a cm tk rt p)"
  shows "a = toString v \<and> int_fits v"
  using assms arg_ok_int wfn_GenD(1) [OF assms(2)] by (auto simp: fetchInt_def)

lemma small_fits: "-1000 \<le> v \<Longrightarrow> v \<le> 1000 \<Longrightarrow> int_fits v"
  by (simp add: int_fits_def)

lemma gen_typed_other [simp]: "opc \<noteq> ''NOT'' \<Longrightarrow> gen_typed opc s"
  by (simp add: gen_typed_def)

lemmas prim_defs =
  app0_def app1_def app2_def app3_def app12_def app22_def ari1_def ari2_def cmp2_def i1_def i2_def
  rb_def ri_def

lemma prim_iffs:
  "app0 v s = Some t \<longleftrightarrow> t = set_stk s (spush v (stk s))"
  "app1 f s = Some t \<longleftrightarrow> (\<exists>v. f (stk s 0) = Some v \<and> t = set_stk s (spush v (sdrop 1 (stk s))))"
  "app2 g s = Some t \<longleftrightarrow>
     (\<exists>v. g (stk s 1) (stk s 0) = Some v \<and> t = set_stk s (spush v (sdrop 2 (stk s))))"
  "app3 h s = Some t \<longleftrightarrow>
     (\<exists>v. h (stk s 2) (stk s 1) (stk s 0) = Some v \<and> t = set_stk s (spush v (sdrop 3 (stk s))))"
  "i1 p u = Some w \<longleftrightarrow> (\<exists>x. u = VInt x \<and> p x = Some w)"
  "i2 q u u' = Some w \<longleftrightarrow> (\<exists>x y. u = VInt x \<and> u' = VInt y \<and> q x y = Some w)"
  "ri n = Some w \<longleftrightarrow> int257 n \<and> w = VInt n"
  "rb b = Some w \<longleftrightarrow> w = VInt (if b then -1 else 0)"
  by (auto simp: prim_defs split: val.splits)

lemma ari_iffs:
  "ari1 f s = Some t \<longleftrightarrow> (\<exists>x. stk s 0 = VInt x \<and> int257 (f x) \<and>
     t = set_stk s (spush (VInt (f x)) (sdrop 1 (stk s))))"
  "ari2 g s = Some t \<longleftrightarrow> (\<exists>x y. stk s 1 = VInt x \<and> stk s 0 = VInt y \<and> int257 (g x y) \<and>
     t = set_stk s (spush (VInt (g x y)) (sdrop 2 (stk s))))"
  "cmp2 R s = Some t \<longleftrightarrow> (\<exists>x y. stk s 1 = VInt x \<and> stk s 0 = VInt y \<and>
     t = set_stk s (spush (VInt (if R x y then -1 else 0)) (sdrop 2 (stk s))))"
  by (auto simp: ari1_def ari2_def cmp2_def prim_iffs split del: if_split)

context tvm
begin

section \<open>Pure pushes\<close>

lemma run_pure:
  assumes "isPureGen01 n" "wfn M mul n"
  obtains f where "\<And>s r c. run M (n # c) s r \<longleftrightarrow>
    run M c (set_stk s (spush (f (glb s) (wld s)) (stk s))) r"
  using pushes_run [OF pure_pushes [OF assms]] by blast

lemma r2_push_drop_sound:
  assumes "r2_push_drop c1 c2 = Some (Some res)" "wfn M mul c1" "wfn M mul c2"
  shows "sound M mul [c1, c2] res"
proof -
  obtain qty where q: "isDrop c2 = Some qty" and push: "isPUSH c1 \<noteq> None \<or> isPureGen01 c1"
    and res: "(if qty = 1 then ret 2 [] else do { g \<leftarrow> makeDROP (qty - 1); ret 2 [g] }) = Some (Some res)"
    using assms(1) by (auto simp: r2_push_drop_def split: rule_splits)
  obtain d where d: "qty = int d" "1 \<le> d" "stk_is c2 (sdrop d)"
    using isDrop_view [OF q assms(3)] by blast
  have run1: "\<exists>v. run M [c1, c2] s r \<longrightarrow> r = Norm (set_stk s (sdrop d (spush v (stk s))))" for s r
    using push
  proof
    assume "isPUSH c1 \<noteq> None"
    then obtain i where "stk_is c1 (spushs i)" using isPUSH_view [OF _ assms(2)] by blast
    then show ?thesis using d by (auto simp: run_stk_is spushs_def)
  next
    assume "isPureGen01 c1"
    then obtain f where "\<And>s r c. run M (c1 # c) s r \<longleftrightarrow>
      run M c (set_stk s (spush (f (glb s) (wld s)) (stk s))) r"
      using run_pure [OF _ assms(2)] by blast
    then show ?thesis using d by (auto simp: run_stk_is)
  qed
  have eq: "sdrop d (spush v t) = sdrop (d - 1) t" for v t
    using d(2) by (cases d) (auto simp: stack_calc)
  have ref: "refines M [c1, c2] c" if "stk_is g (sdrop (d - 1)) \<and> c = [g] \<or> d = 1 \<and> c = []" for c g
    unfolding refines_def
  proof (intro allI impI)
    fix s r
    assume "run M [c1, c2] s r"
    then have "r = Norm (set_stk s (sdrop (d - 1) (stk s)))" using run1 [of s r] eq by auto
    then show "run M c s r" using that by (auto simp: run_stk_is stack_calc)
  qed
  show ?thesis
  proof (cases "d = 1")
    case True
    then show ?thesis using ref [of _ "[]"] res d by (auto intro: sound_window)
  next
    case False
    then obtain g where g: "makeDROP (qty - 1) = Some g" "res = Result 2 [g]"
      using res d by (auto simp: bind_eq_Some_conv)
    obtain e where e: "qty - 1 = int e" "stk_is g (sdrop e)" "stk_wfn g"
      using makeDROP_view [OF g(1)] by blast
    then have "e = d - 1" using d by linarith
    then have "stk_is g (sdrop (d - 1))" "stk_wfn g" using e by simp_all
    then show ?thesis using ref [of g "[g]"] g by (auto intro!: sound_window stk_wfn_wfn)
  qed
qed

lemma isNIP_view: "isNIP n \<Longrightarrow> wfn M mul n \<Longrightarrow> stk_is n (spop 1)"
  using isPOP_view [of n 1 M mul] isBLKDROP2_view [of n 1 1 M mul]
  by (auto simp: isNIP_def closed_forms fun_eq_iff stk_is_def)

lemma r2_nip_drop_sound:
  "r2_nip_drop c1 c2 = Some (Some res) \<Longrightarrow> wfn M mul c1 \<Longrightarrow> wfn M mul c2 \<Longrightarrow>
   sound M mul [c1, c2] res"
  by (auto simp: r2_nip_drop_def bind_eq_Some_conv closed_forms split: rule_splits
      dest!: isDrop_view makeDROP_view isNIP_view intro!: sound_stk2_1; (rule stack_cong; linarith)?)

lemma sound2:
  "(\<And>s r. visible r \<Longrightarrow> run M [c1, c2] s r \<Longrightarrow> run M c s r) \<Longrightarrow> wf_list M mul c \<Longrightarrow>
   sound M mul [c1, c2] (Result 2 c)"
  by (rule sound_window) (auto intro: refinesI)

lemma r2_pure_blkdrop2_sound:
  assumes "r2_pure_blkdrop2 c1 c2 = Some (Some res)" "wfn M mul c1" "wfn M mul c2"
  shows "sound M mul [c1, c2] res"
proof -
  obtain down up g where c2: "isBLKDROP2 c2 = Some (down, up)" and c1: "isPureGen01 c1"
    and g: "makeBLKDROP2 down (up - 1) = Some g" "res = Result 2 [g, c1]"
    using assms(1) by (auto simp: r2_pure_blkdrop2_def bind_eq_Some_conv split: rule_splits)
  obtain a b where v2: "down = int a" "up = int b" "stk_is c2 (sblkdrop2 a b)"
    using isBLKDROP2_view [OF c2 assms(3)] by blast
  obtain a' b' where vg: "down = int a'" "up - 1 = int b'" "stk_is g (sblkdrop2 a' b')" "stk_wfn g"
    using makeBLKDROP2_view [OF g(1)] by blast
  have ab: "a' = a" "b = Suc b'" using v2 vg by auto
  obtain f where f: "\<And>s r c. run M (c1 # c) s r \<longleftrightarrow>
    run M c (set_stk s (spush (f (glb s) (wld s)) (stk s))) r"
    using run_pure [OF c1 assms(2)] by blast
  have eq: "sblkdrop2 a (Suc b') (spush v t) = spush v (sblkdrop2 a b' t)" for v t
    by (auto simp: fun_eq_iff closed_forms)
  show ?thesis
    unfolding g by (rule sound2) (use v2 vg assms ab in \<open>auto simp: run_stk_is f eq stk_wfn_wfn\<close>)
qed

lemma r2_pure_xchg_sound:
  assumes "r2_pure_xchg c1 c2 = Some (Some res)" "wfn M mul c1" "wfn M mul c2"
  shows "sound M mul [c1, c2] res"
proof -
  obtain g where c1: "isPureGen01 c1" and c2: "isXCHG c2 1 2"
    and g: "makeBLKSWAP 1 1 = Some g" "res = Result 2 [g, c1]"
    using assms(1) by (auto simp: r2_pure_xchg_def bind_eq_Some_conv split: rule_splits)
  have v2: "stk_is c2 (sxchg 1 2)" using isXCHG_view [OF c2 assms(3)] by auto
  have vg: "stk_is g (sblkswap 1 1)" "stk_wfn g" using makeBLKSWAP_view [OF g(1)] by auto
  obtain f where f: "\<And>s r c. run M (c1 # c) s r \<longleftrightarrow>
    run M c (set_stk s (spush (f (glb s) (wld s)) (stk s))) r"
    using run_pure [OF c1 assms(2)] by blast
  have eq: "sxchg (Suc 0) 2 (spush v t) = spush v (sblkswap (Suc 0) (Suc 0) t)" for v t
    by (auto simp: fun_eq_iff closed_forms)
  show ?thesis
    unfolding g by (rule sound2) (use v2 vg assms in \<open>auto simp: run_stk_is f eq stk_wfn_wfn\<close>)
qed

lemma r2_pure11_drop_sound:
  assumes "r2_pure11_drop c1 c2 = Some (Some res)" "wfn M mul c1" "wfn M mul c2"
  shows "sound M mul [c1, c2] res"
proof -
  obtain opc a cm n where c1: "c1 = GenOpcode opc a cm 1 1 True" and c2: "isDrop c2 = Some n"
    and res: "res = Result 2 [c2]"
    using assms(1) by (auto simp: r2_pure11_drop_def split: node.splits if_splits)
  obtain d where d: "1 \<le> d" "stk_is c2 (sdrop d)" using isDrop_view [OF c2 assms(3)] by blast
  have m: "\<exists>v. r = Norm (set_stk s (spush v (sdrop 1 (stk s))))" if "run1 M c1 s r" for s r
    using that assms(2) c1 by (auto simp: declared_def maps1_def wfn_GenOpcode)
  have eq: "sdrop d (spush v (sdrop 1 t)) = sdrop d t" for v t
    using d(1) by (cases d) (auto simp: stack_calc)
  show ?thesis
    unfolding res by (rule sound2) (use assms d eq in \<open>auto simp: run_Cons_iff [of M c1] run_stk_is dest!: m\<close>)
qed

section \<open>Exchange in front of a binary instruction\<close>

lemma wfn_one: "wf_list M mul [n] \<longleftrightarrow> wfn M mul n"
  by simp

lemma opcodes_ST_R:
  "list_all (\<lambda>(n, t, r, p). starts_with n ''ST'' \<and> ends_with n ''R'' \<longrightarrow>
     n \<in> set [''STBR'', ''STBREFR'', ''STIR'', ''STREFR'', ''STSLICER'', ''STUR''] \<or>
     (n \<in> set [''STIXR'', ''STUXR''] \<and> t = 3)) opcodes"
  by code_simp

lemma ST_R_cases:
  assumes "wfn M mul (GenOpcode opc a cm tk rt p)" "starts_with opc ''ST''" "ends_with opc ''R''"
  shows "opc \<in> set [''STBR'', ''STBREFR'', ''STIR'', ''STREFR'', ''STSLICER'', ''STUR''] \<or>
    (opc \<in> set [''STIXR'', ''STUXR''] \<and> tk = 3)"
proof -
  have "gen_sig_ok opc tk rt p" by (rule wfn_GenD(6) [OF assms(1)])
  then have "(opc, tk, rt, p) \<in> set opcodes"
    using assms(2) by (auto simp: gen_sig_ok_def split: option.splits dest: map_of_SomeD)
  then show ?thesis
    using opcodes_ST_R assms(2,3) by (fastforce simp: list_all_iff)
qed

lemma isCommutative_view:
  assumes "isCommutative n" "wfn M mul n"
  obtains opc tk rt p where "n = GenOpcode opc [] [] tk rt p"
    "opc \<in> set [''ADD'', ''AND'', ''EQUAL'', ''MAX'', ''MIN'', ''MUL'', ''NEQ'', ''OR'', ''SDEQ'', ''XOR'']"
proof (cases n)
  case (GenOpcode opc a cm tk rt p)
  have "joinArg opc a cm \<in> set [''ADD'', ''AND'', ''EQUAL'', ''MAX'', ''MIN'', ''MUL'', ''NEQ'', ''OR'',
      ''SDEQ'', ''XOR'']"
    using assms(1) GenOpcode by simp
  moreover from this have "CHR '' '' \<notin> set (joinArg opc a cm)" by auto
  then have "a = []" "cm = []" by (auto simp: joinArg_def split: if_splits)
  ultimately show ?thesis using that GenOpcode by (simp add: joinArg_def)
qed (use assms(1) in auto)

lemma app2_swap:
  "(\<And>u v. f u v = f v u) \<Longrightarrow> app2 f (set_stk s (sxchg 0 1 (stk s))) = app2 f s"
  by (simp add: app2_def stack_calc)

lemma i2_sym: "(\<And>x y. g x y = g y x) \<Longrightarrow> i2 g u v = i2 g v u"
  by (simp add: i2_def i1_def split: val.splits)

lemma swap_commutes:
  assumes "opc \<in> set [''ADD'', ''AND'', ''EQUAL'', ''MAX'', ''MIN'', ''MUL'', ''NEQ'', ''OR'', ''SDEQ'', ''XOR'']"
  shows "m_gen M opc a (set_stk s (sxchg 0 1 (stk s))) = m_gen M opc a s"
proof -
  have i2: "app2 (i2 g) (set_stk s (sxchg 0 1 (stk s))) = app2 (i2 g) s" if "\<And>x y. g x y = g y x" for g
    by (rule app2_swap, rule i2_sym, rule that)
  from assms show ?thesis
    unfolding mem_list
  proof (elim disjE FalseE)
    assume o: "opc = ''ADD''" show ?thesis unfolding o gen_no_arg ari2_def by (rule i2) (simp add: add.commute)
  next
    assume o: "opc = ''AND''" show ?thesis unfolding o gen_no_arg ari2_def by (rule i2) (simp add: and.commute)
  next
    assume o: "opc = ''EQUAL''" show ?thesis unfolding o gen_no_arg cmp2_def by (rule i2) (simp add: rb_def)
  next
    assume o: "opc = ''MAX''" show ?thesis unfolding o gen_no_arg ari2_def by (rule i2) (simp add: max.commute)
  next
    assume o: "opc = ''MIN''" show ?thesis unfolding o gen_no_arg ari2_def by (rule i2) (simp add: min.commute)
  next
    assume o: "opc = ''MUL''" show ?thesis unfolding o gen_no_arg ari2_def by (rule i2) (simp add: mult.commute)
  next
    assume o: "opc = ''NEQ''" show ?thesis unfolding o gen_no_arg cmp2_def by (rule i2) (auto simp: rb_def)
  next
    assume o: "opc = ''OR''" show ?thesis unfolding o gen_no_arg ari2_def by (rule i2) (simp add: or.commute)
  next
    assume o: "opc = ''SDEQ''" show ?thesis unfolding o gen_no_arg by (rule app2_swap) (auto simp: rb_def split: val.splits)
  next
    assume o: "opc = ''XOR''" show ?thesis unfolding o gen_no_arg ari2_def by (rule i2) (simp add: xor.commute)
  qed
qed

lemma rev_gen:
  assumes "opc \<in> set [''STBR'', ''STBREFR'', ''STIR'', ''STREFR'', ''STSLICER'', ''STUR'']" "text_ok a"
  shows "gen (cmd_text (butlast opc) a) = Some (GenOpcode (butlast opc) a [] 2 1 False)"
  using assms unfolding mem_list by (elim disjE FalseE) (simp_all add: gen_simps)

lemma rev_wfn:
  assumes "opc \<in> set [''STBR'', ''STBREFR'', ''STIR'', ''STREFR'', ''STSLICER'', ''STUR'']" "arg_ok a"
    "opc \<in> {''STIR'', ''STUR''} \<Longrightarrow> \<exists>n. a = toString (int n) \<and> int_fits (int n)"
  shows "wfn M mul (GenOpcode (butlast opc) a [] 2 1 False)"
  using assms unfolding mem_list by (elim disjE FalseE) (auto simp: wfn_new)

lemma swap_reversed:
  assumes "opc \<in> set [''STBR'', ''STBREFR'', ''STIR'', ''STREFR'', ''STSLICER'', ''STUR'']"
    "wfn M mul (GenOpcode opc a cm tk rt p)"
    "m_gen M opc a (set_stk s (sxchg 0 1 (stk s))) = Some t"
  shows "m_gen M (butlast opc) a s = Some t"
proof -
  consider "opc = ''STBR''" | "opc = ''STBREFR''" | "opc = ''STREFR''" | "opc = ''STSLICER''"
    | "opc = ''STIR''" | "opc = ''STUR''"
    using assms(1) unfolding mem_list by blast
  then show ?thesis
  proof cases
    case 5
    then obtain n where "a = toString (int n)" "int_fits (int n)"
      using nat_argument [OF assms(2)] by (auto simp: nat_ops_def)
    then show ?thesis using assms(3) 5 by (simp add: gen_nat_arg prim_defs stack_calc)
  next
    case 6
    then obtain n where "a = toString (int n)" "int_fits (int n)"
      using nat_argument [OF assms(2)] by (auto simp: nat_ops_def)
    then show ?thesis using assms(3) 6 by (simp add: gen_nat_arg prim_defs stack_calc)
  qed (use assms(3) in \<open>simp_all add: gen_no_arg prim_defs stack_calc\<close>)
qed

lemma r2_swap_sound:
  assumes "r2_swap c1 c2 = Some (Some res)" "wfn M mul c1" "wfn M mul c2"
  shows "sound M mul [c1, c2] res"
proof -
  have sw: "isSWAP c1" using assms(1) by (auto simp: r2_swap_def split: if_splits)
  note c1 = isSWAP_view [OF sw assms(2)]
  consider
      (stu) "is_op c2 [''STU'']" | (stslice) "is_op c2 [''STSLICE'']" | (sub) "is_op c2 [''SUB'']"
    | (subr) "is_op c2 [''SUBR'']" | (comm) "isCommutative c2" "res = Result 1 []"
    | (rev) opc a cm tk rt p g where "c2 = GenOpcode opc a cm tk rt p" "starts_with opc ''ST''"
        "ends_with opc ''R''" "tk = 2" "gen (cmd_text (butlast opc) a) = Some g" "res = Result 2 [g]"
    using assms(1) sw
    by (auto simp: r2_swap_def bind_eq_Some_conv split: if_splits node.splits)
  then show ?thesis
  proof cases
    case stu
    then obtain a cm tk rt p where c2: "c2 = GenOpcode ''STU'' a cm tk rt p" by (rule is_op1E)
    obtain n where n: "a = toString (int n)" "int_fits (int n)"
      using nat_argument [OF assms(3) [unfolded c2]] by (auto simp: nat_ops_def)
    have res: "res = Result 2 [GenOpcode ''STUR'' a [] 2 1 False]"
      using assms(1) sw by (simp add: r2_swap_def c2 n gen_simps)
    show ?thesis
      unfolding res c2
      by (rule sound2) (auto simp: run_stk_is [OF c1] n gen_nat_arg prim_defs stack_calc wfn_new)
  next
    case stslice
    then obtain a cm tk rt p where c2: "c2 = GenOpcode ''STSLICE'' a cm tk rt p" by (rule is_op1E)
    have res: "res = Result 2 [GenOpcode ''STSLICER'' [] [] 2 1 False]"
      using assms(1) sw by (simp add: r2_swap_def c2 gen_simps)
    show ?thesis
      unfolding res c2
      by (rule sound2) (auto simp: run_stk_is [OF c1] gen_no_arg prim_defs stack_calc wfn_new)
  next
    case sub
    then obtain a cm tk rt p where c2: "c2 = GenOpcode ''SUB'' a cm tk rt p" by (rule is_op1E)
    have res: "res = Result 2 [GenOpcode ''SUBR'' [] [] 2 1 False]"
      using assms(1) sw by (simp add: r2_swap_def c2 gen_simps)
    show ?thesis
      unfolding res c2
      by (rule sound2) (auto simp: run_stk_is [OF c1] gen_no_arg prim_defs stack_calc wfn_new
          split: val.splits)
  next
    case subr
    then obtain a cm tk rt p where c2: "c2 = GenOpcode ''SUBR'' a cm tk rt p" by (rule is_op1E)
    have res: "res = Result 2 [GenOpcode ''SUB'' [] [] 2 1 False]"
      using assms(1) sw by (simp add: r2_swap_def c2 gen_simps)
    show ?thesis
      unfolding res c2
      by (rule sound2) (auto simp: run_stk_is [OF c1] gen_no_arg prim_defs stack_calc wfn_new
          split: val.splits)
  next
    case comm
    obtain opc tk rt p where c2: "c2 = GenOpcode opc [] [] tk rt p"
      and opc: "opc \<in> set [''ADD'', ''AND'', ''EQUAL'', ''MAX'', ''MIN'', ''MUL'', ''NEQ'', ''OR'', ''SDEQ'', ''XOR'']"
      using isCommutative_view [OF comm(1) assms(3)] by blast
    then have "opc \<noteq> ''NOT''" by auto
    then have "refines M [c1, c2] [c2]"
      unfolding c2 refines_def by (auto simp: run_stk_is [OF c1] swap_commutes [OF opc, simplified])
    then show ?thesis unfolding comm sound_def by (intro exI [of _ 1]) simp
  next
    case rev
    have opc: "opc \<in> set [''STBR'', ''STBREFR'', ''STIR'', ''STREFR'', ''STSLICER'', ''STUR'']"
    proof -
      have "tk \<noteq> 3" using rev(4) by simp
      then show ?thesis using ST_R_cases [OF assms(3) [unfolded rev(1)] rev(2,3)] by blast
    qed
    have "text_ok a" "arg_ok a" using wfn_GenD(1,8) [OF assms(3) [unfolded rev(1)]] by simp_all
    have nat: "\<exists>n. a = toString (int n) \<and> int_fits (int n)" if "opc \<in> {''STIR'', ''STUR''}"
    proof -
      have "opc \<in> set nat_ops" using that by (elim insertE emptyE) (simp_all add: nat_ops_def)
      then show ?thesis using nat_argument [OF assms(3) [unfolded rev(1)]] by blast
    qed
    have g: "wfn M mul g \<and> (\<exists>tk. g = GenOpcode (butlast opc) a [] tk 1 False)"
      using rev_gen [OF opc \<open>text_ok a\<close>] rev(5) rev_wfn [OF opc \<open>arg_ok a\<close> nat] by simp
    show ?thesis
      unfolding rev(6) rev(1)
    proof (rule sound2)
      fix s r
      assume "run M [c1, GenOpcode opc a cm tk rt p] s r"
      then obtain t where "m_gen M opc a (set_stk s (sxchg 0 1 (stk s))) = Some t" "r = Norm t"
        by (auto simp: run_stk_is [OF c1])
      moreover have "butlast opc \<noteq> ''NOT''"
        using opc unfolding mem_list by (elim disjE FalseE) simp_all
      ultimately show "run M [g] s r"
        using g swap_reversed [OF opc assms(3) [unfolded rev(1)]] by auto
    qed (use g in simp)
  qed
qed

end

end
