(* ===== verification/Peephole2Const.thy ===== *)
theory Peephole2Const
  imports Peephole2Sound
begin

text \<open>Soundness of the two-command rules on arithmetic, constants, builders and slices.\<close>

section \<open>Values written as texts\<close>

lemma toString_lits: "''0'' = toString 0" "''1'' = toString 1"
  by (simp_all add: toString_def string_of_nat.simps digit_char_def)

lemma power2_view: "power2 v = Some p \<Longrightarrow> 1 \<le> p \<and> p \<le> 8 \<and> v = 2 ^ nat p"
  by (auto simp: power2_def upt_rec split: if_splits)

lemma argument_Gen:
  assumes "argument n = Some a"
  obtains opc cm tk rt p where "n = GenOpcode opc a cm tk rt p"
  using assms by (cases n) auto

context tvm
begin

lemma r2_pushint_arith_sound:
  assumes "r2_pushint_arith c1 c2 = Some (Some res)" "wfn M mul c1" "wfn M mul c2"
  shows "sound M mul [c1, c2] res"
proof -
  have p: "isPUSHINT c1" using assms(1) by (auto simp: r2_pushint_arith_def split: if_splits)
  obtain a where a: "argument c1 = Some a"
    using assms(1) p by (auto simp: r2_pushint_arith_def bind_eq_Some_conv)
  consider
      (inc) "a = toString 1" "is_op c2 [''ADD'']" "res = Result 2 [GenOpcode ''INC'' [] [] 1 1 False]"
    | (dec) "a = toString 1" "is_op c2 [''SUB'']" "res = Result 2 [GenOpcode ''DEC'' [] [] 1 1 False]"
    | (add) v where "pushintValue c1 = Some v" "-128 \<le> v" "v \<le> 127" "is_op c2 [''ADD'']"
        "res = Result 2 [GenOpcode ''ADDCONST'' (toString v) [] 1 1 False]"
    | (mul) v where "pushintValue c1 = Some v" "-128 \<le> v" "v \<le> 127" "is_op c2 [''MUL'']"
        "res = Result 2 [GenOpcode ''MULCONST'' (toString v) [] 1 1 False]"
    | (sub) v where "pushintValue c1 = Some v" "-128 \<le> - v" "- v \<le> 127" "is_op c2 [''SUB'']"
        "res = Result 2 [GenOpcode ''ADDCONST'' (toString (- v)) [] 1 1 False]"
    using assms(1) p a
    by (auto simp: r2_pushint_arith_def bind_eq_Some_conv gen_simps toString_lits split: if_splits)
  then show ?thesis
  proof cases
    case inc
    obtain opc cm tk rt q where c1: "c1 = GenOpcode opc a cm tk rt q" by (rule argument_Gen [OF a])
    then have "opc = ''PUSHINT''" using p by simp
    then show ?thesis
      using inc(2) unfolding inc(3) c1 inc(1)
      by (elim is_op1E, intro sound2)
        (auto simp: gen_sem prim_defs stack_calc wfn_new split: val.splits)
  next
    case dec
    obtain opc cm tk rt q where c1: "c1 = GenOpcode opc a cm tk rt q" by (rule argument_Gen [OF a])
    then have "opc = ''PUSHINT''" using p by simp
    then show ?thesis
      using dec(2) unfolding dec(3) c1 dec(1)
      by (elim is_op1E, intro sound2)
        (auto simp: gen_sem prim_defs stack_calc wfn_new split: val.splits)
  next
    case (add v)
    have f: "int_fits v" using add by (intro small_fits) auto
    obtain cm tk rt q where c1: "c1 = GenOpcode ''PUSHINT'' (toString v) cm tk rt q"
      by (rule pushint_view [OF p add(1) assms(2)])
    show ?thesis
      using add(4) f unfolding add(5) c1
      by (elim is_op1E, intro sound2)
        (auto simp: gen_sem prim_defs stack_calc wfn_new split: val.splits)
  next
    case (mul v)
    have f: "int_fits v" using mul by (intro small_fits) auto
    obtain cm tk rt q where c1: "c1 = GenOpcode ''PUSHINT'' (toString v) cm tk rt q"
      by (rule pushint_view [OF p mul(1) assms(2)])
    show ?thesis
      using mul(4) f unfolding mul(5) c1
      by (elim is_op1E, intro sound2)
        (auto simp: gen_sem prim_defs stack_calc wfn_new split: val.splits)
  next
    case (sub v)
    have f: "int_fits (- v)" using sub by (intro small_fits) auto
    obtain cm tk rt q where c1: "c1 = GenOpcode ''PUSHINT'' (toString v) cm tk rt q"
      by (rule pushint_view [OF p sub(1) assms(2)])
    show ?thesis
      using sub(4) f unfolding sub(5) c1
      by (elim is_op1E, intro sound2)
        (auto simp: gen_sem prim_defs stack_calc wfn_new split: val.splits)
  qed
qed

lemma r2_cmp_sound:
  assumes "r2_cmp c1 c2 = Some (Some res)" "wfn M mul c1" "wfn M mul c2"
  shows "sound M mul [c1, c2] res"
proof -
  obtain v where p: "isPUSHINT c1" and v: "pushintValue c1 = Some v"
    using assms(1) by (auto simp: r2_cmp_def bind_eq_Some_conv split: if_splits)
  obtain cm tk rt q where c1: "c1 = GenOpcode ''PUSHINT'' (toString v) cm tk rt q"
    by (rule pushint_view [OF p v assms(2)])
  obtain opc new w where c2: "is_op c2 [opc]" and w: "int_fits w"
    and res: "res = Result 2 [GenOpcode new (toString w) [] 1 1 True]"
    and new: "(opc, new, w) \<in> {(''NEQ'', ''NEQINT'', v), (''EQUAL'', ''EQINT'', v),
      (''GREATER'', ''GTINT'', v), (''LESS'', ''LESSINT'', v), (''GEQ'', ''GTINT'', v - 1),
      (''LEQ'', ''LESSINT'', v + 1)}"
  proof -
    have f: "int_fits w" if "-128 \<le> w" "w < 128" for w
      using that by (intro small_fits) auto
    show ?thesis
      using assms(1) p v that f
      by (auto simp: r2_cmp_def bind_eq_Some_conv gen_simps Let_def split: if_splits)
  qed
  show ?thesis
    using c2 new w unfolding res c1 insert_iff empty_iff prod.inject
    by (elim is_op1E disjE conjE FalseE; hypsubst; intro sound2)
      (auto simp: gen_sem prim_defs stack_calc wfn_cmp split: val.splits)
qed

lemma r2_shift_const_sound:
  assumes "r2_shift_const c1 c2 = Some (Some res)" "wfn M mul c1" "wfn M mul c2"
  shows "sound M mul [c1, c2] res"
proof -
  obtain v opc cm2 tk2 rt2 q2 where p: "isPUSHINT c1" and v: "pushintValue c1 = Some v" "1 \<le> v" "v \<le> 256"
    and c2: "c2 = GenOpcode opc [] cm2 tk2 rt2 q2" and opc: "opc = ''RSHIFT'' \<or> opc = ''LSHIFT''"
    using assms(1) by (auto simp: r2_shift_const_def bind_eq_Some_conv split: if_splits node.splits)
  have f: "int_fits v" using v by (intro small_fits) auto
  obtain cm tk rt q where c1: "c1 = GenOpcode ''PUSHINT'' (toString v) cm tk rt q"
    by (rule pushint_view [OF p v(1) assms(2)])
  have res: "res = Result 2 [GenOpcode opc (toString v) [] 1 1 False]"
    using assms(1) p v opc by (auto simp: r2_shift_const_def c1 c2 gen_simps)
  show ?thesis
    using opc f unfolding res c1 c2
    by (elim disjE; hypsubst; intro sound2)
      (auto simp: gen_sem prim_defs stack_calc wfn_shift split: val.splits)
qed

lemma r2_divmul_pow2_sound:
  assumes "r2_divmul_pow2 c1 c2 = Some (Some res)" "wfn M mul c1" "wfn M mul c2"
  shows "sound M mul [c1, c2] res"
proof -
  obtain v e where p: "isPUSHINT c1" and v: "pushintValue c1 = Some v" "power2 v = Some e"
    and c2: "is_op c2 [''DIV''] \<or> is_op c2 [''MUL'']"
    and res: "res = Result 2 [GenOpcode (if is_op c2 [''DIV''] then ''RSHIFT'' else ''LSHIFT'')
      (toString e) [] 1 1 False]"
    using assms(1)
    by (auto simp: r2_divmul_pow2_def bind_eq_Some_conv gen_simps split: if_splits option.splits)
  note e = power2_view [OF v(2)]
  have f: "int_fits e" using e by (intro small_fits) auto
  obtain cm tk rt q where c1: "c1 = GenOpcode ''PUSHINT'' (toString v) cm tk rt q"
    by (rule pushint_view [OF p v(1) assms(2)])
  have sh: "shift_arg e = Some (nat e)" using e by (simp add: shift_arg_def)
  show ?thesis
    using c2 f e unfolding res c1
    by (elim disjE is_op1E; hypsubst; intro sound2)
      (auto simp: gen_sem prim_defs stack_calc wfn_shift lshift_def rshift_def sh split: val.splits)
qed

lemma r2_mod_pow2_sound:
  assumes "r2_mod_pow2 c1 c2 = Some (Some res)" "wfn M mul c1" "wfn M mul c2"
  shows "sound M mul [c1, c2] res"
proof -
  obtain v e where p: "isPUSHINT c1" and v: "pushintValue c1 = Some v" "power2 v = Some e"
    and c2: "is_op c2 [''MOD'']"
    and res: "res = Result 2 [GenOpcode ''MODPOW2'' (toString e) [] 1 1 False]"
    using assms(1)
    by (auto simp: r2_mod_pow2_def bind_eq_Some_conv gen_simps split: if_splits option.splits)
  note e = power2_view [OF v(2)]
  obtain n where n: "e = int n" using e by (metis nat_0_le order_trans zero_le_one)
  have f: "int_fits (int n)" using e n by (intro small_fits) auto
  obtain cm tk rt q where c1: "c1 = GenOpcode ''PUSHINT'' (toString v) cm tk rt q"
    by (rule pushint_view [OF p v(1) assms(2)])
  show ?thesis
    using c2 f e n unfolding res c1
    by (elim is_op1E; hypsubst; intro sound2)
      (auto simp: gen_sem prim_defs stack_calc wfn_new split: val.splits)
qed

lemma constadd_view:
  assumes "isConstAdd n" "getAddNum n = Some v" "wfn M mul n"
  obtains opc a cm tk rt p where "n = GenOpcode opc a cm tk rt p" "opc \<noteq> ''NOT''"
    "m_gen M opc a = ari1 (\<lambda>x. x + v)"
proof -
  obtain opc a cm tk rt p where n: "n = GenOpcode opc a cm tk rt p"
    and opc: "opc \<in> set [''INC'', ''DEC'', ''ADDCONST'']"
    using assms(1) unfolding isConstAdd_def by (rule is_opE)
  have "a = toString v \<and> int_fits v" if "opc = ''ADDCONST''"
    using assms(2,3) fetchInt_view [of opc a cm tk rt p v M mul] that by (simp add: getAddNum_def n)
  then have "m_gen M opc a = ari1 (\<lambda>x. x + v)"
    using opc assms(2) unfolding mem_list
    by (elim disjE FalseE) (auto simp: gen_sem getAddNum_def n)
  moreover have "opc \<noteq> ''NOT''" using opc unfolding mem_list by (elim disjE FalseE) simp_all
  ultimately show ?thesis using that n by blast
qed

lemma r2_constadd_sound:
  assumes "r2_constadd c1 c2 = Some (Some res)" "wfn M mul c1" "wfn M mul c2"
  shows "sound M mul [c1, c2] res"
proof -
  obtain i j where c: "isConstAdd c1" "isConstAdd c2" and ij: "getAddNum c1 = Some i" "getAddNum c2 = Some j"
    "-128 \<le> i + j" "i + j \<le> 127"
    and res: "res = Result 2 [GenOpcode ''ADDCONST'' (toString (i + j)) [] 1 1 False]"
    using assms(1) by (auto simp: r2_constadd_def bind_eq_Some_conv gen_simps split: if_splits)
  have f: "int_fits (i + j)" using ij by (intro small_fits) auto
  obtain o1 a1 m1 t1 r1 p1 where 1: "c1 = GenOpcode o1 a1 m1 t1 r1 p1" "o1 \<noteq> ''NOT''"
    "m_gen M o1 a1 = ari1 (\<lambda>x. x + i)"
    using constadd_view [OF c(1) ij(1) assms(2)] by blast
  obtain o2 a2 m2 t2 r2 p2 where 2: "c2 = GenOpcode o2 a2 m2 t2 r2 p2" "o2 \<noteq> ''NOT''"
    "m_gen M o2 a2 = ari1 (\<lambda>x. x + j)"
    using constadd_view [OF c(2) ij(2) assms(3)] by blast
  show ?thesis
    unfolding res 1 2
    by (rule sound2)
      (auto simp: 1(2,3) 2(2,3) f gen_sem ari_iffs stack_calc wfn_new add.assoc)
qed

section \<open>Tuples, globals, indices\<close>

lemma fold_spush:
  "fold spush xs u k = (if k < length xs then xs ! (length xs - 1 - k) else u (k - length xs))"
  by (induction xs arbitrary: u) (auto simp: spush_def nth_Cons' not_less le_Suc_eq)

lemma tuple_untuple: "fold spush (map t (rev [0..<n])) (sdrop n t) = t"
proof (induction n)
  case (Suc n)
  have "spush (t n) (sdrop (Suc n) t) = sdrop n t"
    by (auto simp: fun_eq_iff closed_forms)
  then show ?case using Suc by simp
qed (simp add: stack_calc)

lemma tuple_untuple_eq: "map t (rev [0..<n]) = xs \<Longrightarrow> fold spush xs (sdrop n t) = t"
  using tuple_untuple by blast

lemma untuple_tuple:
  "map (fold spush xs u) (rev [0..<length xs]) = xs" "sdrop (length xs) (fold spush xs u) = u"
  by (auto simp: fold_spush rev_nth intro!: nth_equalityI) (auto simp: fun_eq_iff sdrop_def fold_spush)

lemma r2_tuple_sound:
  assumes "r2_tuple c1 c2 = Some (Some res)" "wfn M mul c1" "wfn M mul c2"
  shows "sound M mul [c1, c2] res"
proof -
  obtain i where ops: "(is_op c1 [''TUPLE''] \<and> is_op c2 [''UNTUPLE'']) \<or> (is_op c1 [''UNTUPLE''] \<and> is_op c2 [''TUPLE''])"
    and i: "fetchInt c1 = Some i" "fetchInt c2 = Some i" and res: "res = Result 2 []"
    using assms(1) by (auto simp: r2_tuple_def bind_eq_Some_conv split: if_splits)
  obtain o1 a1 m1 t1 r1 p1 where c1: "c1 = GenOpcode o1 a1 m1 t1 r1 p1" using ops by (cases c1) auto
  obtain o2 a2 m2 t2 r2 p2 where c2: "c2 = GenOpcode o2 a2 m2 t2 r2 p2" using ops by (cases c2) auto
  have "o1 \<in> set nat_ops" using ops by (auto simp: c1 c2 nat_ops_def)
  then obtain n where n: "a1 = toString (int n)" "int_fits (int n)"
    using nat_argument [OF assms(2) [unfolded c1]] by blast
  have a2: "a2 = a1"
    using fetchInt_view [OF i(1) [unfolded c1] assms(2) [unfolded c1]]
      fetchInt_view [OF i(2) [unfolded c2] assms(3) [unfolded c2]] by simp
  show ?thesis
    using ops unfolding res c1 c2 a2
    by (intro sound2)
      (auto simp: n gen_nat_arg tuple_prim_def untuple_prim_def stack_calc spush_top tuple_untuple_eq untuple_tuple
        split: val.splits if_splits)
qed

lemma r2_setget_sound:
  assumes "r2_setget c1 c2 = Some (Some res)" "wfn M mul c1" "wfn M mul c2"
  shows "sound M mul [c1, c2] res"
proof -
  obtain i g where c: "c1 = Glob SetOrSetVar i" "c2 = Glob GetOrGetVar i" and g: "makePUSH 0 = Some g"
    and res: "res = Result 2 [g, makeSetGlob i]"
    using assms(1)
    by (auto simp: r2_setget_def bind_eq_Some_conv split: node.splits glob_opcode.splits if_splits)
  have vg: "stk_is g (spushs 0)" "stk_wfn g" using makePUSH_view [OF g] by auto
  have "wfn M mul (makeSetGlob i)" by (simp add: makeSetGlob_def declared_def glob_take_def glob_ret_def glob_is_push_def)
  then show ?thesis
    unfolding res c
    by (intro sound2)
      (auto simp: run_stk_is [OF vg(1)] makeSetGlob_def pop1_def spushs_def stack_calc stk_wfn_wfn [OF vg(2)]
        set_stk_def)
qed

end

end
