(* ===== verification/Peephole2Build.thy ===== *)
theory Peephole2Build
  imports Peephole2Const
begin

text \<open>Soundness of the two-command rules on builders, slices, tuple indices and range checks.\<close>

section \<open>Argument lists\<close>

lemma digit_of_toString: "c \<in> set (toString v) \<Longrightarrow> isdigit c \<or> c = CHR ''-''"
  using digits_string_of_nat by (auto simp: toString_def list_all_iff split: if_splits)

lemma no_comma: "CHR '','' \<notin> set (toString v)"
  using digit_of_toString [of "CHR '',''" v] by (auto simp: isdigit_def)

lemma nondigit_None: "c \<in> set s \<Longrightarrow> \<not> isdigit c \<Longrightarrow> read_digits radix acc s = None"
  by (induction radix acc s rule: read_digits.induct) (auto simp: digit_val_def split: option.splits)

lemma comma_not_number:
  assumes "CHR '','' \<in> set s"
  shows "strToInt s = None" "bigint_of s = None"
proof -
  have nd: "\<not> isdigit (CHR '','')" by (simp add: isdigit_def)
  have r: "read_nat radix t = None" if "CHR '','' \<in> set t" for radix t
    using that nondigit_None [OF _ nd] by (auto simp: read_nat_def)
  have sub: "CHR '','' \<in> set (trim s)"
  proof -
    have d: "CHR '','' \<in> set (dropWhile is_space t)" if "CHR '','' \<in> set t" for t
      using that by (induction t) (auto simp: is_space_def)
    show ?thesis using d [of s] assms d [of "rev (dropWhile is_space s)"] by (simp add: trim_def)
  qed
  show "strToInt s = None"
    using r sub by (auto simp: strToInt_def lexical_cast_int_def split: list.splits)
  show "bigint_of s = None"
    using r assms by (auto simp: bigint_of_def bigint_of_nat_text_def split: list.splits)
qed

lemma takeWhile_comma: "takeWhile (\<lambda>c. c \<noteq> CHR '','') (toString v @ CHR '','' # s) = toString v"
  using no_comma [of v] by (subst takeWhile_append2) auto

lemma dropWhile_comma: "dropWhile (\<lambda>c. c \<noteq> CHR '','') (toString v @ CHR '','' # s) = CHR '','' # s"
  using no_comma [of v] by (subst dropWhile_append2) auto

lemma after_comma_toString: "after_comma (toString v @ '', '' @ s) = Some s"
  by (simp add: after_comma_def dropWhile_comma starts_with_def)

lemma two_args_toString:
  "int_fits (int i) \<Longrightarrow> int_fits (int j) \<Longrightarrow>
   two_args (toString (int i) @ '', '' @ toString (int j)) = Some (i, j)"
  by (simp add: two_args_def takeWhile_comma after_comma_toString [simplified])

lemma three_args_toString:
  "int_fits (int i) \<Longrightarrow> int_fits (int j) \<Longrightarrow> int_fits (int k) \<Longrightarrow>
   three_args (toString (int i) @ '', '' @ toString (int j) @ '', '' @ toString (int k)) =
     Some (i, j, k)"
  using two_args_toString [of j k]
  by (simp add: three_args_def takeWhile_comma after_comma_toString [simplified])

lemma trim_digits:
  "trim (toString v @ s @ toString w) = toString v @ s @ toString w"
proof -
  have d: "dropWhile is_space (toString v @ t) = toString v @ t" for v t
    by (rule dropWhile_space_word) simp_all
  have r: "dropWhile is_space (rev (toString v) @ t) = rev (toString v) @ t" for v t
    by (rule dropWhile_space_word) simp_all
  show ?thesis
    using d [of v "s @ toString w"] r [of w "rev s @ rev (toString v)"]
    by (simp add: trim_def)
qed

lemma arg_ok_list:
  assumes "CHR '';'' \<notin> set s" "CHR '','' \<in> set s"
  shows "arg_ok (toString v @ s @ toString w)"
proof -
  let ?a = "toString v @ s @ toString w"
  have "CHR '','' \<in> set ?a" using assms by simp
  then show ?thesis
    using assms comma_not_number [of ?a] plain_no_sep [of "toString v"] plain_no_sep [of "toString w"]
    by (simp add: arg_ok_def trim_digits)
qed

lemma two_args_view:
  assumes "two_args a = Some (i, j)"
  shows "getIndexes a = Some (int i, int j)"
proof -
  let ?p = "takeWhile (\<lambda>c. c \<noteq> CHR '','') a" and ?q = "dropWhile (\<lambda>c. c \<noteq> CHR '','') a"
  have i: "nonneg_arg ?p = Some i" and q: "starts_with ?q '', ''" and j: "nonneg_arg (drop 2 ?q) = Some j"
    using assms by (auto simp: two_args_def after_comma_def Let_def bind_eq_Some_conv split: if_splits)
  have "?q \<noteq> []"
  proof
    assume e: "?q = []"
    show False using q unfolding e starts_with_def by simp
  qed
  then have len: "length ?p < length a"
    using takeWhile_dropWhile_id [of "\<lambda>c. c \<noteq> CHR '',''" a] by (metis append_Nil2 length_append
        length_greater_0_conv less_add_same_cancel1)
  have "take (length ?p) a = ?p" "drop (length ?p + 2) a = drop 2 ?q"
    by (metis takeWhile_eq_take) (metis drop_drop add.commute dropWhile_eq_drop)
  then show ?thesis
    using i j len
    by (auto simp: getIndexes_def nonneg_arg_def split: option.splits if_splits)
qed

section \<open>Indices\<close>

lemma append_comma: "CHR '','' # CHR '' '' # s = '', '' @ s"
  by simp

context tvm
begin

lemma index_view:
  assumes "isIndex n" "wfn M mul n"
  obtains opc i cm tk rt p where "n = GenOpcode opc (toString (int i)) cm tk rt p" "opc \<noteq> ''NOT''"
    "int_fits (int i)" "m_gen M opc (toString (int i)) = app1 (index_of i)" "fetchInt n = Some (int i)"
proof -
  obtain opc a cm tk rt p where n: "n = GenOpcode opc a cm tk rt p"
    and opc: "opc = ''INDEX_NOEXCEP'' \<or> opc = ''INDEX_EXCEP''"
    using assms(1) by (cases n) (auto simp: isIndex_def)
  have "opc \<in> set nat_ops" using opc by (auto simp: nat_ops_def)
  then obtain i where i: "a = toString (int i)" "int_fits (int i)"
    using nat_argument [OF assms(2) [unfolded n]] by blast
  have "m_gen M opc a = app1 (index_of i)" using opc i by (auto simp: gen_nat_arg)
  moreover have "opc \<noteq> ''NOT''" using opc by auto
  ultimately show ?thesis using that i n by (simp add: fetchInt_def)
qed

lemma r2_index_sound:
  assumes "r2_index c1 c2 = Some (Some res)" "wfn M mul c1" "wfn M mul c2"
  shows "sound M mul [c1, c2] res"
proof -
  have ix: "isIndex c1" "isIndex c2"
    using assms(1) by (auto simp: r2_index_def bind_eq_Some_conv split: if_splits)
  obtain o1 i m1 t1 r1 p1 where 1: "c1 = GenOpcode o1 (toString (int i)) m1 t1 r1 p1" "o1 \<noteq> ''NOT''"
    "int_fits (int i)" "m_gen M o1 (toString (int i)) = app1 (index_of i)"
    using index_view [OF ix(1) assms(2)] by metis
  obtain o2 j m2 t2 r2 p2 where 2: "c2 = GenOpcode o2 (toString (int j)) m2 t2 r2 p2" "o2 \<noteq> ''NOT''"
    "int_fits (int j)" "m_gen M o2 (toString (int j)) = app1 (index_of j)"
    using index_view [OF ix(2) assms(3)] by metis
  let ?a = "toString (int i) @ '', '' @ toString (int j)"
  have ok: "arg_ok ?a" by (rule arg_ok_list) simp_all
  have res: "res = Result 2 [GenOpcode ''INDEX2'' ?a [] 1 1 False]"
    using assms(1) arg_ok_text [OF ok]
    by (auto simp: r2_index_def 1(1) 2(1) bind_eq_Some_conv gen_simps split: if_splits)
  show ?thesis
    unfolding res 1(1) 2(1)
  proof (rule sound2)
    show "wf_list M mul [GenOpcode ''INDEX2'' ?a [] 1 1 False]"
      using wfn_INDEX2 [OF ok] two_args_toString [OF 1(3) 2(3)] by simp
  qed (use gen_INDEX2 [OF two_args_toString [OF 1(3) 2(3)]] in
      \<open>auto simp: 1(2,4) 2(2,4) prim_iffs stack_calc bind_eq_Some_conv\<close>)
qed

lemma r2_index2_sound:
  assumes "r2_index2 c1 c2 = Some (Some res)" "wfn M mul c1" "wfn M mul c2"
  shows "sound M mul [c1, c2] res"
proof -
  have ix: "is_op c1 [''INDEX2'']" "isIndex c2"
    using assms(1) by (auto simp: r2_index2_def bind_eq_Some_conv split: if_splits)
  obtain a m1 t1 r1 p1 where c1: "c1 = GenOpcode ''INDEX2'' a m1 t1 r1 p1" using ix(1) by (rule is_op1E)
  obtain o2 k m2 t2 r2 p2 where 2: "c2 = GenOpcode o2 (toString (int k)) m2 t2 r2 p2" "o2 \<noteq> ''NOT''"
    "int_fits (int k)" "m_gen M o2 (toString (int k)) = app1 (index_of k)"
    using index_view [OF ix(2) assms(3)] by metis
  have "two_args a \<noteq> None"
    using wfn_GenD(2) [OF assms(2) [unfolded c1]] by (simp add: documented_def doc_lookup doc_names_def)
  then obtain i j where ij: "two_args a = Some (i, j)" by auto
  have small: "int i \<le> 3" "int j \<le> 3"
    using assms(1) two_args_view [OF ij]
    by (auto simp: r2_index2_def c1 2(1) bind_eq_Some_conv split: if_splits)
  then have fits: "int_fits (int i)" "int_fits (int j)" by (auto intro: small_fits)
  let ?a = "toString (int i) @ ('', '' @ toString (int j) @ '', '') @ toString (int k)"
  have ok: "arg_ok ?a"
    by (rule arg_ok_list) (use plain_no_sep [of "toString (int j)"] in simp_all)
  have res: "res = Result 2 [GenOpcode ''INDEX3'' ?a [] 1 1 False]"
    using assms(1) arg_ok_text [OF ok] two_args_view [OF ij]
    by (auto simp: r2_index2_def c1 2(1) bind_eq_Some_conv gen_simps split: if_splits)
  have three: "three_args ?a = Some (i, j, k)"
    using three_args_toString [OF fits 2(3)] by simp
  show ?thesis
    unfolding res c1 2(1)
  proof (rule sound2)
    show "wf_list M mul [GenOpcode ''INDEX3'' ?a [] 1 1 False]"
      using wfn_INDEX3 [OF ok] three by simp
  qed (use gen_INDEX3 [OF three] gen_INDEX2 [OF ij] in
      \<open>auto simp: 2(2,4) prim_iffs stack_calc bind_eq_Some_conv\<close>)
qed

section \<open>Builders and slices\<close>

lemma wfn_cell: "doc_cell c = Some v \<Longrightarrow> wfn M mul (PushCellOrSlice c)"
proof -
  assume doc: "doc_cell c = Some v"
  have "pushes M (PushCellOrSlice c)"
    unfolding pushes_def
    by (rule exI [of _ "\<lambda>g w. v"])
      (auto simp: run1_PushCell cell_doc [OF doc] norm_eq_Some app0_def)
  then show ?thesis using doc by (simp add: declared_def pushes_frame)
qed

lemma doc_cell_PUSHREF: "blob_bits b = Some bits \<Longrightarrow> doc_cell (PushCell PUSHREF b None) = Some (VCell bits [])"
  by (simp add: doc_cell_def)

lemma r2_newc_endc_sound:
  assumes "r2_newc_endc c1 c2 = Some (Some res)" "wfn M mul c1" "wfn M mul c2"
  shows "sound M mul [c1, c2] res"
proof -
  obtain a1 m1 t1 r1 p1 a2 m2 t2 r2 p2 where c: "c1 = GenOpcode ''NEWC'' a1 m1 t1 r1 p1"
    "c2 = GenOpcode ''ENDC'' a2 m2 t2 r2 p2" and res: "res = Result 2 [makePUSHREF []]"
    using assms(1) by (auto simp: r2_newc_endc_def split: if_splits elim!: is_op1E)
  have doc: "doc_cell (PushCell PUSHREF [] None) = Some (VCell [] [])"
    by (simp add: doc_cell_def blob_bits_def)
  show ?thesis
    unfolding res c makePUSHREF_def
    by (rule sound2)
      (use wfn_cell [OF doc] cell_doc [OF doc] in \<open>auto simp: gen_sem prim_iffs endc_def stack_calc\<close>)
qed

lemma r2_not_not_sound:
  assumes "r2_not_not c1 c2 = Some (Some res)" "wfn M mul c1" "wfn M mul c2"
  shows "sound M mul [c1, c2] res"
proof -
  obtain a1 m1 t1 r1 p1 a2 m2 t2 r2 p2 where c: "c1 = GenOpcode ''NOT'' a1 m1 t1 r1 p1"
    "c2 = GenOpcode ''NOT'' a2 m2 t2 r2 p2" and res: "res = Result 2 []"
    using assms(1) by (auto simp: r2_not_not_def split: if_splits elim!: is_op1E)
  show ?thesis
    unfolding res c
    by (rule sound2) (auto simp: gen_sem ari_iffs stack_calc spush_top)
qed

lemma r2_fits_sound:
  assumes "r2_fits c1 c2 = Some (Some res)" "wfn M mul c1" "wfn M mul c2"
  shows "sound M mul [c1, c2] res"
proof -
  obtain opc a1 m1 t1 r1 p1 a2 m2 t2 r2 p2 where c: "c1 = GenOpcode opc a1 m1 t1 r1 p1"
    "c2 = GenOpcode opc a2 m2 t2 r2 p2" and opc: "opc = ''UFITS'' \<or> opc = ''FITS''"
    using assms(1) by (auto simp: r2_fits_def split: if_splits elim!: is_op1E)
  have "opc \<in> set nat_ops" using opc by (auto simp: nat_ops_def)
  then obtain i j where ij: "a1 = toString (int i)" "int_fits (int i)" "a2 = toString (int j)" "int_fits (int j)"
    using nat_argument [OF assms(2) [unfolded c]] nat_argument [OF assms(3) [unfolded c]] by metis
  have m: "int_fits (int (min i j))" using ij by (simp add: min_def)
  have res: "res = Result 2 [GenOpcode opc (toString (int (min i j))) [] 1 1 False]"
    using assms(1) opc
    by (auto simp: r2_fits_def c fetchInt_def ij bind_eq_Some_conv of_nat_min [symmetric] gen_simps)
  have pow: "(2::int) ^ min i j = min (2 ^ i) (2 ^ j)" "(2::int) ^ (min i j - 1) = min (2 ^ (i - 1)) (2 ^ (j - 1))"
    by (cases "i \<le> j"; simp add: min_def)+
  show ?thesis
    using opc unfolding res c ij
    by (elim disjE; hypsubst; intro sound2)
      (auto simp: gen_nat_arg [OF ij(2)] gen_nat_arg [OF ij(4)] gen_nat_arg [OF m] prim_iffs stack_calc
        pow [simplified] minus_min_eq_max wfn_new m split: if_splits)
qed

lemma low_bits_0: "low_bits 0 n = replicate n (CHR ''0'')"
  by (induction n) (simp_all add: bit_char_def half_def)

lemma bits_const:
  "toBitString (-1) (Suc 0) = ''1''" "toBitString 0 n = replicate n (CHR ''0'')"
  by (simp_all add: toBitString_def bit_char_def half_def low_bits_0)

lemma r2_bool_stir_sound:
  assumes "r2_bool_stir c1 c2 = Some (Some res)" "wfn M mul c1" "wfn M mul c2"
  shows "sound M mul [c1, c2] res"
proof -
  obtain o1 a1 m1 t1 r1 p1 a2 m2 t2 r2 p2 where c: "c1 = GenOpcode o1 a1 m1 t1 r1 p1"
    "c2 = GenOpcode ''STIR'' a2 m2 t2 r2 p2" and o1: "o1 = ''TRUE'' \<or> o1 = ''FALSE''"
    and n: "fetchInt c2 = Some 1"
    and res: "res = Result 2 [GenOpcode (if o1 = ''FALSE'' then ''STZERO'' else ''STONE'') [] [] 1 1 False]"
    using assms(1)
    by (auto simp: r2_bool_stir_def bind_eq_Some_conv gen_simps split: if_splits elim!: is_op1E)
  have a2: "a2 = toString (int (Suc 0))" "int_fits (int (Suc 0))"
    using fetchInt_view [OF n [unfolded c] assms(3) [unfolded c]] by simp_all
  show ?thesis
    using o1 unfolding res c a2(1)
    by (elim disjE; hypsubst; intro sound2)
      (auto simp: gen_nat_arg [OF a2(2), simplified] gen_sem prim_iffs st_i_def stack_calc bits_const wfn_new
        split: if_splits)
qed

lemma r2_zero_stur_sound:
  assumes "r2_zero_stur c1 c2 = Some (Some res)" "wfn M mul c1" "wfn M mul c2"
  shows "sound M mul [c1, c2] res"
proof -
  obtain a m2 t2 r2 p2 where p: "isPUSHINT c1" "pushintValue c1 = Some 0"
    and c2: "c2 = GenOpcode ''STUR'' a m2 t2 r2 p2"
    using assms(1) by (auto simp: r2_zero_stur_def bind_eq_Some_conv split: if_splits elim!: is_op1E)
  obtain cm tk rt q where c1: "c1 = GenOpcode ''PUSHINT'' (toString 0) cm tk rt q"
    by (rule pushint_view [OF p assms(2)])
  obtain n where n: "a = toString (int n)" "int_fits (int n)"
    using nat_argument [OF assms(3) [unfolded c2]] by (auto simp: nat_ops_def)
  have res: "res = Result 2 [GenOpcode ''PUSHINT'' a [] 0 1 True, GenOpcode ''STZEROES'' [] [] 2 1 False]"
    using assms(1) p by (auto simp: r2_zero_stur_def c2 n gen_simps split: if_splits)
  show ?thesis
    unfolding res c1 c2 n(1)
    by (rule sound2)
      (auto simp: gen_nat_arg [OF n(2)] gen_sem prim_iffs st_u_def st_zeroes_def stack_calc bits_const
        wfn_new wfn_push split: if_splits)
qed

lemma r2_abs_sound:
  assumes "r2_abs c1 c2 = Some (Some res)" "wfn M mul c1" "wfn M mul c2"
  shows "sound M mul [c1, c2] res"
proof -
  obtain a1 m1 t1 r1 p1 a2 m2 t2 r2 p2 where c: "c1 = GenOpcode ''ABS'' a1 m1 t1 r1 p1"
    "c2 = GenOpcode ''UFITS'' a2 m2 t2 r2 p2" and n: "fetchInt c2 = Some 256"
    and res: "res = Result 2 [GenOpcode ''ABS'' [] [] 1 1 False]"
    using assms(1) by (auto simp: r2_abs_def bind_eq_Some_conv gen_simps split: if_splits elim!: is_op1E)
  have a2: "a2 = toString (int 256)" "int_fits (int 256)"
    using fetchInt_view [OF n [unfolded c] assms(3) [unfolded c]] by simp_all
  show ?thesis
    unfolding res c a2(1)
    by (rule sound2)
      (auto simp: gen_nat_arg [OF a2(2), simplified] gen_sem prim_iffs ari_iffs stack_calc wfn_new int257_def
        split: if_splits)
qed

lemma r2_one_stzeroes_sound:
  assumes "r2_one_stzeroes c1 c2 = Some (Some res)" "wfn M mul c1" "wfn M mul c2"
  shows "sound M mul [c1, c2] res"
proof -
  obtain a m2 t2 r2 p2 where p: "isPUSHINT c1" "pushintValue c1 = Some 1"
    and c2: "c2 = GenOpcode ''STZEROES'' a m2 t2 r2 p2"
    and res: "res = Result 2 [GenOpcode ''STZERO'' [] [] 1 1 False]"
    using assms(1)
    by (auto simp: r2_one_stzeroes_def bind_eq_Some_conv gen_simps split: if_splits elim!: is_op1E)
  obtain cm tk rt q where c1: "c1 = GenOpcode ''PUSHINT'' (toString 1) cm tk rt q"
    by (rule pushint_view [OF p assms(2)])
  show ?thesis
    unfolding res c1 c2
    by (rule sound2) (auto simp: gen_sem prim_iffs st_zeroes_def stack_calc wfn_new split: if_splits)
qed

lemma r2_endc_strefr_sound:
  assumes "r2_endc_strefr c1 c2 = Some (Some res)" "wfn M mul c1" "wfn M mul c2"
  shows "sound M mul [c1, c2] res"
proof -
  obtain a1 m1 t1 r1 p1 a2 m2 t2 r2 p2 where c: "c1 = GenOpcode ''ENDC'' a1 m1 t1 r1 p1"
    "c2 = GenOpcode ''STREFR'' a2 m2 t2 r2 p2" and res: "res = Result 2 [GenOpcode ''STBREFR'' [] [] 2 1 False]"
    using assms(1) by (auto simp: r2_endc_strefr_def gen_simps split: if_splits elim!: is_op1E)
  have d: "sdrop 2 (spush v (sdrop (Suc 0) t)) = sdrop 2 t" "sdrop 1 t 0 = t (Suc 0)" for v t
    by (auto simp: fun_eq_iff closed_forms)
  show ?thesis
    unfolding res c
    by (rule sound2)
      (auto simp: gen_sem prim_iffs endc_def st_ref_def st_bref_def stack_calc d wfn_new
        split: val.splits)
qed

lemma r2_true_and_sound:
  assumes "r2_true_and c1 c2 = Some (Some res)" "wfn M mul c1" "wfn M mul c2"
  shows "sound M mul [c1, c2] res"
proof -
  obtain a1 m1 t1 r1 p1 a2 m2 t2 r2 p2 where c: "c1 = GenOpcode ''TRUE'' a1 m1 t1 r1 p1"
    "c2 = GenOpcode ''AND'' a2 m2 t2 r2 p2" and res: "res = Result 2 []"
    using assms(1) by (auto simp: r2_true_and_def split: if_splits elim!: is_op1E)
  show ?thesis
    unfolding res c by (rule sound2) (auto simp: gen_sem prim_iffs ari_iffs stack_calc spush_top)
qed

lemma r2_null_isnull_sound:
  assumes "r2_null_isnull c1 c2 = Some (Some res)" "wfn M mul c1" "wfn M mul c2"
  shows "sound M mul [c1, c2] res"
proof -
  obtain a1 m1 t1 r1 p1 a2 m2 t2 r2 p2 where c: "c1 = GenOpcode ''NULL'' a1 m1 t1 r1 p1"
    "c2 = GenOpcode ''ISNULL'' a2 m2 t2 r2 p2" and res: "res = Result 2 [GenOpcode ''TRUE'' [] [] 0 1 True]"
    using assms(1) by (auto simp: r2_null_isnull_def gen_simps split: if_splits elim!: is_op1E)
  show ?thesis
    unfolding res c by (rule sound2) (auto simp: gen_sem prim_iffs stack_calc wfn_push)
qed

lemma r2_pushint_isnull_sound:
  assumes "r2_pushint_isnull c1 c2 = Some (Some res)" "wfn M mul c1" "wfn M mul c2"
  shows "sound M mul [c1, c2] res"
proof -
  obtain a1 m1 t1 r1 p1 a2 m2 t2 r2 p2 where c: "c1 = GenOpcode ''PUSHINT'' a1 m1 t1 r1 p1"
    "c2 = GenOpcode ''ISNULL'' a2 m2 t2 r2 p2" and res: "res = Result 2 [GenOpcode ''FALSE'' [] [] 0 1 True]"
    using assms(1) by (auto simp: r2_pushint_isnull_def gen_simps split: if_splits elim!: is_op1E)
  show ?thesis
    unfolding res c
    by (rule sound2) (auto simp: gen_sem prim_iffs stack_calc wfn_push dest!: pushint_doc)
qed

lemma r2_mulrshift_sound:
  assumes "r2_mulrshift c1 c2 = Some (Some res)" "wfn M mul c1" "wfn M mul c2"
  shows "sound M mul [c1, c2] res"
proof -
  obtain a1 m1 t1 r1 p1 a2 m2 t2 r2 p2 where c: "c1 = GenOpcode ''MUL'' a1 m1 t1 r1 p1"
    "c2 = GenOpcode ''RSHIFT'' a2 m2 t2 r2 p2"
    using assms(1) by (auto simp: r2_mulrshift_def split: if_splits elim!: is_op1E)
  have "a2 \<noteq> []"
    using wfn_GenD(7) [OF assms(2) [unfolded c]] wfn_GenD(7) [OF assms(3) [unfolded c]]
    by (auto simp: mul_ok_def split: if_splits)
  then have "strToInt a2 \<noteq> None"
    using wfn_GenD(2) [OF assms(3) [unfolded c]]
    by (auto simp: documented_def doc_lookup doc_names_def opt_arg_def int_arg_def split: if_splits)
  then obtain v where v: "a2 = toString v" "int_fits v"
    using arg_ok_int [OF wfn_GenD(1) [OF assms(3) [unfolded c]]] by blast
  have res: "res = Result 2 [GenOpcode ''MULRSHIFT'' (toString v) [] 2 1 False]"
    using assms(1) by (simp add: r2_mulrshift_def c v gen_simps split: if_splits)
  have d: "sdrop 1 (spush w t) = t" for w t by (simp add: stack_calc)
  show ?thesis
    unfolding res c v(1)
    by (rule sound2) (auto simp: v(2) gen_sem prim_iffs ari_iffs stack_calc wfn_shift)
qed

end

end
