(* ===== verification/Peephole2Cond.thy ===== *)
theory Peephole2Cond
  imports Peephole2Build
begin

text \<open>Soundness of the two-command rules on control flow, and of the whole chain \<open>optimizeAt2\<close>.\<close>

section \<open>Exceptions\<close>

lemma exc_opcode_iff:
  "exc_opcode a y i m = ''THROW'' \<longleftrightarrow> \<not> a \<and> \<not> y \<and> \<not> i \<and> \<not> m"
  "exc_opcode a y i m = ''THROWANY'' \<longleftrightarrow> \<not> a \<and> y \<and> \<not> i \<and> \<not> m"
  "exc_opcode a y i m = ''THROWIF'' \<longleftrightarrow> \<not> a \<and> \<not> y \<and> i \<and> \<not> m"
  "exc_opcode a y i m = ''THROWIFNOT'' \<longleftrightarrow> \<not> a \<and> \<not> y \<and> i \<and> m"
  by (cases a; cases y; cases i; cases m; simp add: exc_opcode_def)+

lemma makeTHROW_txt:
  "plain p \<Longrightarrow> makeTHROW (cmd_text ''THROW'' p) = Some (TvmException False False False False p)"
  "plain p \<Longrightarrow> makeTHROW (cmd_text ''THROWIF'' p) = Some (TvmException False False True False p)"
  "plain p \<Longrightarrow> makeTHROW (cmd_text ''THROWIFNOT'' p) = Some (TvmException False False True True p)"
proof -
  have w: "word1 (cmd_text opc p) = opc \<and> word2 (cmd_text opc p) = p"
    if "plain opc" "opc \<noteq> []" "plain p" for opc
    using that by (simp add: cmd_text_def word1_sep word2_sep)
  show "plain p \<Longrightarrow> makeTHROW (cmd_text ''THROW'' p) = Some (TvmException False False False False p)"
    using w [of "''THROW''"] by (simp add: makeTHROW_def skip_def starts_with_def plain_lit)
  show "plain p \<Longrightarrow> makeTHROW (cmd_text ''THROWIF'' p) = Some (TvmException False False True False p)"
    using w [of "''THROWIF''"] by (simp add: makeTHROW_def skip_def starts_with_def plain_lit)
  show "plain p \<Longrightarrow> makeTHROW (cmd_text ''THROWIFNOT'' p) = Some (TvmException False False True True p)"
    using w [of "''THROWIFNOT''"] by (simp add: makeTHROW_def skip_def starts_with_def plain_lit)
qed

lemma exc_prim_if:
  "exc_prim False False True m p s =
     map_option (\<lambda>b. if b then Exc (Code p) None (wld s) else Norm (pop1 s)) (cond m (stk s 0))"
proof -
  have "popn (Suc 0) s = pop1 s" by (simp add: pop1_def popn_def)
  then show ?thesis by (cases "cond m (stk s 0)") (simp_all add: exc_prim_def)
qed

lemma exc_prim_always:
  "exc_prim False False False False p s = Some (Exc (Code p) None (wld s))"
  by (simp add: exc_prim_def)

lemma pop1_spush [simp]: "pop1 (set_stk s (spush v t)) = set_stk s t"
  by (simp add: pop1_def stack_calc)

lemma pop1_fold [simp]: "set_stk s (sdrop (Suc 0) (stk s)) = pop1 s"
  by (simp add: pop1_def)

lemma pop1_simps [simp]:
  "stk (pop1 s) = sdrop (Suc 0) (stk s)" "set_stk (pop1 s) t = set_stk s t" "glb (pop1 s) = glb s"
  "wld (pop1 s) = wld s"
  by (simp_all only: pop1_def set_stk_simps One_nat_def)

lemma r2_after_ret_sound:
  assumes "r2_after_ret c1 c2 = Some (Some res)" "wfn M mul c1" "wfn M mul c2"
  shows "sound M mul [c1, c2] res"
proof -
  have res: "res = Result 2 [c1]"
    and c: "(case c1 of TvmReturn withIf _ _ \<Rightarrow> \<not> withIf | _ \<Rightarrow> False) \<or> isExc c1 [''THROWANY'', ''THROW'']"
    using assms(1) by (auto simp: r2_after_ret_def split: if_splits)
  have "run M [c1] s r" if "run M [c1, c2] s r" for s r
  proof (cases c1)
    case (TvmReturn i m a)
    then show ?thesis using c that by auto
  next
    case (TvmException a y i m p)
    then have "\<not> a \<and> \<not> i \<and> \<not> m" using c by (auto simp: exc_opcode_iff)
    then show ?thesis using that by (auto simp: TvmException exc_prim_def Let_def split: if_splits)
  qed (use c in auto)
  then show ?thesis
    unfolding res using assms(2) by (intro sound_window) (auto simp: refines_def)
qed

section \<open>Negated conditions\<close>

text \<open>
  \<open>negates flip c1\<close>: the command replaces an integer on top of the stack by one that is a condition
  of the opposite truth value (\<open>flip\<close>) or of the same one.
\<close>

definition negates :: "'w machine \<Rightarrow> bool \<Rightarrow> node \<Rightarrow> bool" where
  "negates M flip c1 = (\<forall>s r c. run M (c1 # c) s r \<longrightarrow>
     (\<exists>x b. stk s 0 = VInt x \<and> run M c (set_stk s (spush (VInt b) (sdrop 1 (stk s)))) r \<and>
        (b \<noteq> 0) = ((x \<noteq> 0) \<noteq> flip)))"

lemma cond_negated: "(b \<noteq> 0) = ((x \<noteq> 0) \<noteq> flip) \<Longrightarrow> cond w (VInt b) = cond (w \<noteq> flip) (VInt x)"
  by (auto simp: cond_def)

lemma replaced_top:
  "stk (set_stk s (spush v (sdrop 1 (stk s)))) 0 = v"
  "pop1 (set_stk s (spush v (sdrop 1 (stk s)))) = pop1 s"
  by (simp_all add: stack_calc)

lemma run1_if_cond:
  assumes "run1 M (TvmIfElse w jm t None rt) (set_stk s (spush v (sdrop 1 (stk s)))) q"
    "cond w v = cond w' (stk s 0)"
  shows "run1 M (TvmIfElse w' jm t None rt) s q"
  using assms(1) unfolding run1_If replaced_top assms(2) .

lemma run1_ifelse_cond:
  assumes "run1 M (TvmIfElse w jm t (Some f) rt) (set_stk s (spush v (sdrop 1 (stk s)))) q"
    "cond w v = cond w (stk s 0)"
  shows "run1 M (TvmIfElse w jm t (Some f) rt) s q"
  using assms(1) unfolding run1_IfElse replaced_top assms(2) .

lemma run1_ifelse_swap:
  assumes "run1 M (TvmIfElse w jm t (Some f) rt) (set_stk s (spush v (sdrop 1 (stk s)))) q"
    "cond w v = map_option Not (cond w (stk s 0))"
  shows "run1 M (TvmIfElse w jm f (Some t) rt) s q"
proof -
  obtain b r where b: "cond w v = Some b" "run M (instructions (if b then t else f)) (pop1 s) r"
    "q = call_out r"
    using assms(1) unfolding run1_IfElse replaced_top by auto
  have "cond w (stk s 0) = Some (\<not> b)" using b(1) assms(2) by (cases "cond w (stk s 0)") auto
  moreover have "run M (instructions (if \<not> b then f else t)) (pop1 s) r"
    using b(2) by (cases b) simp_all
  ultimately show ?thesis unfolding b(3) by (rule r1_ifelse)
qed

lemma cond_not: "cond (\<not> w) v = map_option Not (cond w v)"
  by (auto simp: cond_def split: val.splits)

lemma throw_or_flip_sound:
  assumes "throw_or_flip flip c2 = Some (Some res)" "wfn M mul c2" "negates M flip c1"
  shows "sound M mul [c1, c2] res"
proof (cases c2)
  case (TvmException a y i m p)
  have pl: "plain p" using assms(2) TvmException by simp
  have fl: "\<not> a" "\<not> y" "i" and res: "res = Result 2 [TvmException False False True (m \<noteq> flip) p]"
    using assms(1) pl
    by (auto simp: throw_or_flip_def TvmException exc_opcode_iff makeTHROW_txt split: if_splits)
  have "run M [TvmException False False True (m \<noteq> flip) p] s r" if run: "run M [c1, c2] s r" for s r
  proof -
    obtain x b where x: "stk s 0 = VInt x" "(b \<noteq> 0) = ((x \<noteq> 0) \<noteq> flip)"
      "run M [c2] (set_stk s (spush (VInt b) (sdrop 1 (stk s)))) r"
      using run assms(3) unfolding negates_def by blast
    have c2: "c2 = TvmException False False True m p" using fl TvmException by simp
    show ?thesis
      using x(3) unfolding c2 run_Exc exc_prim_if replaced_top set_stk_simps(3) cond_negated [OF x(2)] x(1) .
  qed
  then show ?thesis
    unfolding res using pl by (intro sound_window) (auto simp: refines_def)
next
  case (TvmIfElse w jm t f rt)
  obtain g where res: "res = Result 2 [g]"
    and g: "if flip then flipIfElse w jm t f rt = Some g else g = c2"
    using assms(1) by (auto simp: throw_or_flip_def TvmIfElse bind_eq_Some_conv split: if_splits)
  have wf: "wfn M mul g"
    using assms(2) g
    by (cases f) (auto simp: TvmIfElse flipIfElse_def mkIfElse_def split: if_splits)
  have "run M [g] s r" if run: "run M [c1, c2] s r" for s r
  proof -
    obtain x b where x: "stk s 0 = VInt x" "(b \<noteq> 0) = ((x \<noteq> 0) \<noteq> flip)"
      "run M [c2] (set_stk s (spush (VInt b) (sdrop 1 (stk s)))) r"
      using run assms(3) unfolding negates_def by blast
    then obtain q where q: "run1 M c2 (set_stk s (spush (VInt b) (sdrop 1 (stk s)))) q" "cont M [] q r"
      unfolding run_cont [of M c2] by blast
    have "run1 M g s q"
    proof (cases f)
      case None
      have "g = TvmIfElse (w \<noteq> flip) jm t None rt"
        using g by (auto simp: None TvmIfElse flipIfElse_def mkIfElse_def split: if_splits)
      then show ?thesis
        using run1_if_cond [of M w jm t rt s "VInt b" q "w \<noteq> flip"] q(1) cond_negated [OF x(2), of w] x(1)
        by (simp add: TvmIfElse None)
    next
      case (Some f')
      have "g = (if flip then TvmIfElse w jm f' (Some t) rt else c2)"
        using g by (auto simp: Some TvmIfElse flipIfElse_def mkIfElse_def split: if_splits)
      then show ?thesis
        using q(1) cond_negated [OF x(2), of w] x(1)
          run1_ifelse_swap [of M w jm t f' rt s "VInt b" q] run1_ifelse_cond [of M w jm t f' rt s "VInt b" q]
        by (cases flip) (simp_all add: TvmIfElse Some cond_not)
    qed
    then show ?thesis using q(2) unfolding run_cont by blast
  qed
  then show ?thesis
    unfolding res using wf by (intro sound_window) (auto simp: refines_def)
qed (use assms(1) in \<open>auto simp: throw_or_flip_def\<close>)

context tvm
begin

lemma r2_not_sound:
  assumes "r2_not c1 c2 = Some (Some res)" "wfn M mul c1" "wfn M mul c2"
  shows "sound M mul [c1, c2] res"
proof -
  obtain a1 m1 t1 r1 p1 where c1: "c1 = GenOpcode ''NOT'' a1 m1 t1 r1 p1"
    and t: "throw_or_flip True c2 = Some (Some res)"
    using assms(1) by (auto simp: r2_not_def split: if_splits elim!: is_op1E)
  have "negates M True c1"
    unfolding negates_def
    by (fastforce simp: c1 gen_sem ari_iffs gen_typed_def is_bool_def)
  then show ?thesis by (rule throw_or_flip_sound [OF t assms(3)])
qed

lemma r2_eqint0_sound:
  assumes "r2_eqint0 c1 c2 = Some (Some res)" "wfn M mul c1" "wfn M mul c2"
  shows "sound M mul [c1, c2] res"
proof -
  obtain m1 t1 r1 p1 where c1: "c1 = GenOpcode ''EQINT'' (toString 0) m1 t1 r1 p1"
    and t: "throw_or_flip True c2 = Some (Some res)"
    using assms(1) by (auto simp: r2_eqint0_def toString_lits split: if_splits elim!: is_op1E)
  have fits: "int_fits 0" by (simp add: int_fits_def)
  have "negates M True c1"
    unfolding negates_def
  proof (intro allI impI)
    fix s r c
    assume "run M (c1 # c) s r"
    then obtain x where x: "stk s 0 = VInt x"
      "run M c (set_stk s (spush (VInt (if x = 0 then -1 else 0)) (sdrop 1 (stk s)))) r"
      by (auto simp: c1 fits gen_int_arg prim_iffs simp del: One_nat_def split del: if_split)
    show "\<exists>x b. stk s 0 = VInt x \<and> run M c (set_stk s (spush (VInt b) (sdrop 1 (stk s)))) r \<and>
        (b \<noteq> 0) = ((x \<noteq> 0) \<noteq> True)"
      by (rule exI [of _ x], rule exI [of _ "if x = 0 then -1 else 0"]) (use x in auto)
  qed
  then show ?thesis by (rule throw_or_flip_sound [OF t assms(3)])
qed

lemma r2_neqint0_sound:
  assumes "r2_neqint0 c1 c2 = Some (Some res)" "wfn M mul c1" "wfn M mul c2"
  shows "sound M mul [c1, c2] res"
proof -
  obtain m1 t1 r1 p1 where c1: "c1 = GenOpcode ''NEQINT'' (toString 0) m1 t1 r1 p1"
    and t: "throw_or_flip False c2 = Some (Some res)"
    using assms(1) by (auto simp: r2_neqint0_def toString_lits split: if_splits elim!: is_op1E)
  have fits: "int_fits 0" by (simp add: int_fits_def)
  have "negates M False c1"
    unfolding negates_def
  proof (intro allI impI)
    fix s r c
    assume "run M (c1 # c) s r"
    then obtain x where x: "stk s 0 = VInt x"
      "run M c (set_stk s (spush (VInt (if x \<noteq> 0 then -1 else 0)) (sdrop 1 (stk s)))) r"
      by (auto simp: c1 fits gen_int_arg prim_iffs simp del: One_nat_def split del: if_split)
    show "\<exists>x b. stk s 0 = VInt x \<and> run M c (set_stk s (spush (VInt b) (sdrop 1 (stk s)))) r \<and>
        (b \<noteq> 0) = ((x \<noteq> 0) \<noteq> False)"
      by (rule exI [of _ x], rule exI [of _ "if x \<noteq> 0 then -1 else 0"]) (use x in auto)
  qed
  then show ?thesis by (rule throw_or_flip_sound [OF t assms(3)])
qed

lemma r2_true_if_sound:
  assumes "r2_true_if c1 c2 = Some (Some res)" "wfn M mul c1" "wfn M mul c2"
  shows "sound M mul [c1, c2] res"
proof -
  obtain a1 m1 t1 r1 p1 jm t f r where c1: "c1 = GenOpcode ''TRUE'' a1 m1 t1 r1 p1"
    and c2: "c2 = TvmIfElse False jm t f r" and res: "res = Result 2 [SubProgram 0 0 jm t False]"
    using assms(1) by (auto simp: r2_true_if_def split: if_splits node.splits elim!: is_op1E)
  have jm: "f = None \<or> \<not> jm" using assms(3) by (cases f) (auto simp: c2)
  have wf: "wf_list M mul [SubProgram 0 0 jm t False]"
    using assms(3) by (cases f) (auto simp: c2 declared_def)
  show ?thesis
    unfolding res
  proof (rule sound2 [OF _ wf])
    fix s q
    assume "run M [c1, c2] s q"
    then have "run M [c2] (set_stk s (spush (VInt (-1)) (stk s))) q"
      by (simp add: c1 gen_sem prim_iffs)
    then obtain o1 where o1: "run1 M c2 (set_stk s (spush (VInt (-1)) (stk s))) o1" "cont M [] o1 q"
      unfolding run_cont [of M c2] by blast
    have "run1 M (SubProgram 0 0 jm t False) s o1"
      using o1(1) jm by (cases f) (auto simp: c2 run1_If run1_IfElse run1_Sub stack_calc cond_def)
    then show "run M [SubProgram 0 0 jm t False] s q" using o1(2) unfolding run_cont by blast
  qed
qed

lemma r2_bool_nothrow_sound:
  assumes "r2_bool_nothrow c1 c2 = Some (Some res)" "wfn M mul c1" "wfn M mul c2"
  shows "sound M mul [c1, c2] res"
proof -
  obtain o1 a1 m1 t1 r1 p1 m p where c1: "c1 = GenOpcode o1 a1 m1 t1 r1 p1"
    and c2: "c2 = TvmException False False True m p" and o1: "o1 = (if m then ''TRUE'' else ''FALSE'')"
    and res: "res = Result 2 []"
    using assms(1)
    by (cases c2) (auto simp: r2_bool_nothrow_def exc_opcode_iff split: if_splits elim!: is_op1E)
  show ?thesis
    unfolding res
    by (rule sound2)
      (cases m; auto simp: c1 c2 o1 gen_sem prim_iffs exc_prim_if stack_calc cond_def)+
qed

lemma r2_bool_throw_sound:
  assumes "r2_bool_throw c1 c2 = Some (Some res)" "wfn M mul c1" "wfn M mul c2"
  shows "sound M mul [c1, c2] res"
proof -
  obtain o1 a1 m1 t1 r1 p1 m p where c1: "c1 = GenOpcode o1 a1 m1 t1 r1 p1"
    and c2: "c2 = TvmException False False True m p" and o1: "o1 = (if m then ''FALSE'' else ''TRUE'')"
    and res: "makeTHROW (cmd_text ''THROW'' p) \<bind> (\<lambda>g. ret 2 [g]) = Some (Some res)"
    using assms(1)
    by (cases c2) (auto simp: r2_bool_throw_def exc_opcode_iff split: if_splits elim!: is_op1E)
  have pl: "plain p" using assms(3) by (simp add: c2)
  have res: "res = Result 2 [TvmException False False False False p]"
    using res pl by (simp add: makeTHROW_txt)
  show ?thesis
    unfolding res
    by (rule sound2)
      (cases m; auto simp: c1 c2 o1 gen_sem prim_iffs exc_prim_if exc_prim_always stack_calc cond_def pl)+
qed

lemma r2_dup_log_sound:
  assumes "r2_dup_log c1 c2 = Some (Some res)" "wfn M mul c1" "wfn M mul c2"
  shows "sound M mul [c1, c2] res"
proof -
  obtain b n0 n1 where c2: "c2 = LogCircuit LogAND b" and b: "instructions b = [n0, n1]"
    and c1: "isPUSH c1 = Some 0" and n: "isDrop n0 = Some 1" "is_op n1 [''TRUE'']" and res: "res = Result 2 []"
    using assms(1) by (auto simp: r2_dup_log_def split: if_splits node.splits list.splits)
  have wf: "wfn M mul n0" "wfn M mul n1" using assms(3) by (auto simp: c2 wf_block_iff b)
  have v1: "stk_is c1 (spushs 0)" using isPUSH_view [OF c1 assms(2)] by auto
  have v0: "stk_is n0 (sdrop 1)" using isDrop_view [OF n(1) wf(1)] by auto
  obtain a1 m1 t1 r1 p1 where n1: "n1 = GenOpcode ''TRUE'' a1 m1 t1 r1 p1" using n(2) by (rule is_op1E)
  show ?thesis
    unfolding res
  proof (rule sound2)
    fix s r
    assume "run M [c1, c2] s r"
    then obtain q where q: "run1 M c2 (set_stk s (spush (stk s 0) (stk s))) q" "cont M [] q r"
      unfolding run_stk_is [OF v1] run_cont [of M c2] by (auto simp: spushs_def)
    let ?s = "set_stk s (spush (stk s 0) (stk s))"
    have s: "stk ?s 0 = stk s 0" "pop1 ?s = s" by (simp_all add: stack_calc)
    have "q = Norm s"
      using q(1) unfolding c2 run1_Log s
    proof (elim disjE exE conjE)
      fix o1
      assume o1: "q = call_out o1" "is_bool (stk s 0)" "cond (LogAND = LogOR) (stk s 0) = Some True"
        "run M (instructions b) s o1"
      then have "stk s 0 = VInt (-1)" by (auto simp: is_bool_def cond_def)
      then show ?thesis
        using o1(1,4) by (simp add: b run_stk_is [OF v0] n1 gen_sem prim_iffs stack_calc spush_top)
    qed auto
    then show "run M [] s r" using q(2) by (simp add: cont_def)
  qed simp
qed

section \<open>Loads\<close>

lemma app12_drop:
  assumes "app12 f s = Some t"
  obtains u v where "f (stk s 0) = Some (u, v)" "t = set_stk s (spush v (spush u (sdrop 1 (stk s))))"
  using assms by (auto simp: app12_def)

lemma app22_drop:
  assumes "app22 f s = Some t"
  obtains u v where "f (stk s 1) (stk s 0) = Some (u, v)"
    "t = set_stk s (spush v (spush u (sdrop 2 (stk s))))"
  using assms by (auto simp: app22_def)

definition load_ops :: "string list" where
  "load_ops = [''LDU'', ''LDI'', ''LDREF'', ''LDDICT'', ''LDUX'', ''LDIX'']"

lemma load_gen:
  assumes "opc \<in> set load_ops" "wfn M mul (GenOpcode opc a cm tk rt p)"
  obtains cm' tk' where "gen (CHR ''P'' # joinArg opc a cm) = Some (GenOpcode (CHR ''P'' # opc) a cm' tk' 1 False)"
    "wfn M mul (GenOpcode (CHR ''P'' # opc) a cm' tk' 1 False)"
proof -
  note wf = wfn_GenD [OF assms(2)]
  have P: "CHR ''P'' # joinArg opc a cm = joinArg (CHR ''P'' # opc) a cm" by (simp add: joinArg_def)
  obtain tk' where look: "map_of opcodes (CHR ''P'' # opc) = Some (tk', 1, False)" and tk': "tk' \<noteq> 0"
    using assms(1) unfolding load_ops_def mem_list
    by (elim disjE FalseE) (simp_all add: opcode_lookup)
  have pl: "plain (CHR ''P'' # opc)" using wf(3) by (simp add: plain_Cons is_space_def)
  obtain cm' where cm': "comment_ok cm'"
    "gen (joinArg (CHR ''P'' # opc) a cm) = Some (GenOpcode (CHR ''P'' # opc) a cm' tk' 1 False)"
    using gen_full [OF pl _ wf(8,5) look] by auto
  have doc: "documented M (CHR ''P'' # opc) a"
    using assms(1) wf(2) unfolding load_ops_def mem_list
    by (elim disjE FalseE) (simp_all add: documented_nat_arg)
  have "wfn M mul (GenOpcode (CHR ''P'' # opc) a cm' tk' 1 False)"
    by (rule wfn_genI_comment [OF look pl _ wf(1) doc]) (use cm' tk' in \<open>auto simp: declared_def\<close>)
  then show ?thesis using that cm' P by metis
qed

lemma load_drop:
  assumes "opc \<in> set load_ops" "wfn M mul (GenOpcode opc a cm tk rt p)" "m_gen M opc a s = Some t"
  obtains v u where "t = set_stk s (spush v u)" "m_gen M (CHR ''P'' # opc) a s = Some (set_stk s u)"
proof -
  have nat: "\<exists>n. a = toString (int n) \<and> int_fits (int n)" if "opc \<in> set nat_ops"
    using nat_argument [OF assms(2) that] by blast
  consider (u) "opc = ''LDU''" | (i) "opc = ''LDI''" | (r) "opc = ''LDREF''" | (d) "opc = ''LDDICT''"
    | (ux) "opc = ''LDUX''" | (ix) "opc = ''LDIX''"
    using assms(1) unfolding load_ops_def mem_list by blast
  then show ?thesis
  proof cases
    case u
    then obtain n where "a = toString (int n)" "int_fits (int n)" using nat by (auto simp: nat_ops_def)
    then show ?thesis
      using assms(3) that u by (auto simp: gen_nat_arg prim_iffs elim!: app12_drop)
  next
    case i
    then obtain n where "a = toString (int n)" "int_fits (int n)" using nat by (auto simp: nat_ops_def)
    then show ?thesis
      using assms(3) that i by (auto simp: gen_nat_arg prim_iffs elim!: app12_drop)
  qed (use assms(3) that in \<open>auto simp: gen_no_arg prim_iffs elim!: app12_drop app22_drop split: val.splits if_splits\<close>)
qed

lemma r2_ld_drop_sound:
  assumes "r2_ld_drop c1 c2 = Some (Some res)" "wfn M mul c1" "wfn M mul c2"
  shows "sound M mul [c1, c2] res"
proof -
  obtain n opc a cm tk rt p where c2: "isDrop c2 = Some n" and c1: "c1 = GenOpcode opc a cm tk rt p"
    and opc: "opc \<in> set load_ops"
    using assms(1) by (auto simp: r2_ld_drop_def load_ops_def split: rule_splits elim!: is_opE)
  obtain d where d: "n = int d" "1 \<le> d" "stk_is c2 (sdrop d)" using isDrop_view [OF c2 assms(3)] by blast
  obtain cm' tk' where g: "gen (CHR ''P'' # joinArg opc a cm) = Some (GenOpcode (CHR ''P'' # opc) a cm' tk' 1 False)"
    "wfn M mul (GenOpcode (CHR ''P'' # opc) a cm' tk' 1 False)"
    using load_gen [OF opc assms(2) [unfolded c1]] by blast
  let ?g = "GenOpcode (CHR ''P'' # opc) a cm' tk' 1 False"
  obtain c where res: "res = Result 2 (?g # c)"
    and c: "d = 1 \<and> c = [] \<or> (\<exists>h. c = [h] \<and> makeDROP (n - 1) = Some h)"
    using assms(1) c2 opc g(1) d
    by (auto simp: r2_ld_drop_def c1 load_ops_def bind_eq_Some_conv split: if_splits)
  obtain fs where fs: "list_all2 stk_is c fs" "comp_all fs = sdrop (d - 1)" "wf_list M mul c"
  proof (cases "c = []")
    case True
    then show ?thesis using c that [of "[]"] by (auto simp: fun_eq_iff stack_calc)
  next
    case False
    then obtain h e where h: "c = [h]" "n - 1 = int e" "stk_is h (sdrop e)" "stk_wfn h"
      using c makeDROP_view by blast
    then have "e = d - 1" using d by linarith
    then show ?thesis using h that [of "[sdrop e]"] by (auto simp: fun_eq_iff stk_wfn_wfn)
  qed
  have np: "CHR ''P'' # opc \<noteq> ''NOT''" by simp
  show ?thesis
    unfolding res
  proof (rule sound2)
    fix s r
    assume "run M [c1, c2] s r"
    then obtain t where t: "m_gen M opc a s = Some t" "r = Norm (set_stk t (sdrop d (stk t)))"
      by (auto simp: c1 run_stk_is [OF d(3)])
    obtain v u where vu: "t = set_stk s (spush v u)" "m_gen M (CHR ''P'' # opc) a s = Some (set_stk s u)"
      using load_drop [OF opc assms(2) [unfolded c1] t(1)] by blast
    have "sdrop d (spush v u) = sdrop (d - 1) u" using d(2) by (cases d) (auto simp: stack_calc)
    then show "run M (?g # c) s r"
      using run_stk_all [OF fs(1), of M "[]"] fs(2) t(2) vu np by simp
  qed (use g fs in simp)
qed

section \<open>The chain\<close>

lemmas rules2_sound =
  r2_swap_sound r2_pushint_arith_sound r2_after_ret_sound r2_dup_swap_sound r2_pop_drop_sound
  r2_swap_pop2_sound r2_push_drop_sound r2_blkpush_drop_sound r2_push_blkdrop2_sound
  r2_pure_blkdrop2_sound r2_blkpush_blkdrop2_sound r2_dup_blkdrop2_sound r2_nip_drop_sound
  r2_not_sound r2_eqint0_sound r2_neqint0_sound r2_true_if_sound r2_blkswap_blkdrop2_sound
  r2_blkdrop2_drop_sound r2_blkswap_drop_sound r2_blkswap2_sound r2_tuple_sound r2_setget_sound
  r2_constadd_sound r2_index_sound r2_index2_sound r2_shift_const_sound r2_divmul_pow2_sound
  r2_mod_pow2_sound r2_cmp_sound r2_blkdrop2_2_sound r2_blkswap_drop_again_sound
  r2_mulrshift_sound r2_newc_endc_sound r2_not_not_sound r2_fits_sound r2_bool_stir_sound
  r2_zero_stur_sound r2_abs_sound r2_one_stzeroes_sound r2_reverse_blkswap_sound
  r2_reverse_drop_sound r2_endc_strefr_sound r2_pure_xchg_sound r2_dup_log_sound
  r2_true_and_sound r2_null_isnull_sound r2_bool_nothrow_sound r2_pushint_isnull_sound
  r2_bool_throw_sound r2_pure11_drop_sound r2_blkpush2_sound r2_ld_drop_sound

lemma bex_list: "(\<exists>x \<in> set (y # ys). P x) \<longleftrightarrow> P y \<or> (\<exists>x \<in> set ys. P x)" "(\<exists>x \<in> set []. P x) \<longleftrightarrow> False"
  by simp_all

lemma optimizeAt2_sound_at:
  assumes "optimizeAt2 c1 c2 = Some (Some res)" "wfn M mul c1" "wfn M mul c2"
  shows "sound M mul [c1, c2] res"
proof -
  have "\<exists>r \<in> set rules2. r c1 c2 = Some (Some res)"
    using first_of_SomeD [OF assms(1) [unfolded optimizeAt2_def]] by auto
  then show ?thesis
    unfolding rules2_def bex_list by (elim disjE FalseE) (erule rules2_sound [OF _ assms(2,3)])+
qed

end

end
