(* ===== verification/NodeEq.thy ===== *)
theory NodeEq
  imports Peephole2Cond
begin

text \<open>
  \<open>operator==\<close> on nodes is sound: equal nodes run alike. And code without \<open>RET\<close> or jump, in the sense of
  \<open>hasRetOrJmp\<close>, never returns from the continuation it stands in.
\<close>

section \<open>Full opcodes\<close>

lemma joinArg_view:
  assumes "joinArg opc a cm = t" "plain opc" "comment_ok cm" "CHR '';'' \<notin> set t"
  shows "opc = takeWhile (\<lambda>c. c \<noteq> CHR '' '') t \<and> a = tl (dropWhile (\<lambda>c. c \<noteq> CHR '' '') t)"
proof -
  have cm: "cm = []" using assms(1,3,4) by (auto simp: comment_ok_def joinArg_def)
  have no: "CHR '' '' \<notin> set opc" using plain_no_sep [OF assms(2)] by simp
  show ?thesis
  proof (cases "a = []")
    case True
    then have "t = opc" using assms(1) by (simp add: joinArg_def cm)
    then show ?thesis using True no by (simp add: takeWhile_other dropWhile_other)
  next
    case False
    then have t: "t = opc @ CHR '' '' # a" using assms(1) by (simp add: joinArg_def cm)
    show ?thesis unfolding t using no by (subst takeWhile_append2 dropWhile_append2; auto)+
  qed
qed

lemma true_text_view:
  assumes "joinArg opc a cm \<in> set true_texts" "plain opc" "comment_ok cm"
  shows "(opc, a) = (''TRUE'', []) \<or> (opc, a) = (''PUSHINT'', ''-1'')"
  using assms joinArg_view [OF refl assms(2,3), of a]
  by (auto simp: true_texts_def)

lemma false_text_view:
  assumes "joinArg opc a cm \<in> set false_texts" "plain opc" "comment_ok cm"
  shows "(opc, a) = (''FALSE'', []) \<or> (opc, a) = (''PUSHINT'', ''0'')"
  using assms joinArg_view [OF refl assms(2,3), of a]
  by (auto simp: false_texts_def)

lemma toString_m1: "''-1'' = toString (-1)"
  by (simp add: toString_def string_of_nat.simps digit_char_def)

section \<open>Equal nodes run alike\<close>

lemma push_cell_eq_iff: "push_cell_eq c d \<longleftrightarrow> c = d"
  by (induction c d rule: push_cell_eq.induct) auto

context tvm
begin

lemma gen_eq_run:
  assumes "genOpcode_eq o1 a1 m1 o2 a2 m2" "wfn M mul (GenOpcode o1 a1 m1 t1 r1 p1)"
    "wfn M mul (GenOpcode o2 a2 m2 t2 r2 p2)"
  shows "run1 M (GenOpcode o1 a1 m1 t1 r1 p1) s r \<longleftrightarrow> run1 M (GenOpcode o2 a2 m2 t2 r2 p2) s r"
proof -
  note w1 = wfn_GenD [OF assms(2)] and w2 = wfn_GenD [OF assms(3)]
  have T: "m_gen M opc a = app0 (VInt (-1)) \<and> opc \<noteq> ''NOT''"
    if "(opc, a) = (''TRUE'', []) \<or> (opc, a) = (''PUSHINT'', ''-1'')" for opc a
    using that by (auto simp: gen_no_arg gen_PUSHINT toString_m1 simp del: toString_lits)
  have F: "m_gen M opc a = app0 (VInt 0) \<and> opc \<noteq> ''NOT''"
    if "(opc, a) = (''FALSE'', []) \<or> (opc, a) = (''PUSHINT'', ''0'')" for opc a
    using that by (auto simp: gen_no_arg gen_PUSHINT toString_lits(1))
  consider "joinArg o1 a1 m1 \<in> set true_texts" "joinArg o2 a2 m2 \<in> set true_texts"
    | "joinArg o1 a1 m1 \<in> set false_texts" "joinArg o2 a2 m2 \<in> set false_texts"
    | "o1 = o2" "a1 = a2"
    using assms(1) unfolding genOpcode_eq_def Let_def by blast
  then show ?thesis
  proof cases
    case 1
    note T [OF true_text_view [OF 1(1) w1(3,5)]] T [OF true_text_view [OF 1(2) w2(3,5)]]
    then show ?thesis by (simp add: run1_GenOpcode)
  next
    case 2
    note F [OF false_text_view [OF 2(1) w1(3,5)]] F [OF false_text_view [OF 2(2) w2(3,5)]]
    then show ?thesis by (simp add: run1_GenOpcode)
  qed (simp add: run1_GenOpcode)
qed

lemma node_eq_run:
  "node_eq x y \<Longrightarrow> wfn M mul x \<Longrightarrow> wfn M mul y \<Longrightarrow> run1 M x s r \<longleftrightarrow> run1 M y s r"
  "block_eq b b' \<Longrightarrow> wf_block M mul b \<Longrightarrow> wf_block M mul b' \<Longrightarrow>
     run M (instructions b) s r \<longleftrightarrow> run M (instructions b') s r"
  "nodes_eq xs ys \<Longrightarrow> wf_list M mul xs \<Longrightarrow> wf_list M mul ys \<Longrightarrow> run M xs s r \<longleftrightarrow> run M ys s r"
proof (induction x y and b b' and xs ys arbitrary: s r and s r and s r
    rule: node_eq_block_eq_nodes_eq.induct)
  case (8 opc a c t r p n)
  then show ?case using gen_eq_run by (auto split: node.splits)
next
  case (14 t r jm b p n)
  then show ?case by (auto simp: run1_Sub split: node.splits)
next
  case (15 t b n)
  then show ?case by (auto simp: run1_Log split: node.splits)
next
  case (20 t xs b)
  then show ?case by (auto simp: wf_block_iff)
next
  case (22 x xs ys)
  then show ?case by (auto simp: run_Cons_iff split: list.splits)
qed (auto simp: run1_Opaque run1_ROBC run1_HardCode push_cell_eq_iff split: node.splits)

end

section \<open>Code that does not return\<close>

definition is_ret :: "'w outcome \<Rightarrow> bool" where
  "is_ret r = (\<exists>s. r = Ret s)"

lemma is_ret_simps [simp]:
  "is_ret (Ret s)" "\<not> is_ret (Norm s)" "\<not> is_ret (RetAlt s)" "\<not> is_ret (Exc e x w)" "\<not> is_ret (call_out r)"
  by (cases r; simp add: is_ret_def)+

lemma brk_not_ret: "\<not> is_norm (call_out r) \<Longrightarrow> \<not> is_ret (brk_out bk r)"
  by (cases r; cases bk) (simp_all add: is_ret_def)

lemma loops_no_ret:
  "run1 M n s r \<Longrightarrow> True" "run M c s r \<Longrightarrow> True"
  "rep M bk c k s r \<Longrightarrow> \<not> is_ret r"
  "unt M bk c s r \<Longrightarrow> \<not> is_ret r"
  "whl M ag bk c b s r \<Longrightarrow> \<not> is_ret r"
  by (induction rule: run1_run_rep_unt_whl.inducts) (auto simp: brk_not_ret)

lemma norm_no_ret: "norm x = Some r \<Longrightarrow> \<not> is_ret r"
  by (auto simp: norm_eq_Some)

lemma exc_no_ret: "exc_prim a y i m p s = Some r \<Longrightarrow> \<not> is_ret r"
  by (auto simp: exc_prim_def Let_def split: if_splits)

lemma no_ret:
  "\<not> hasRetOrJmp n \<Longrightarrow> wfn M mul n \<Longrightarrow> run1 M n s r \<Longrightarrow> \<not> is_ret r"
  "\<not> blockHasRetOrJmp b \<Longrightarrow> wf_block M mul b \<Longrightarrow> run M (instructions b) s r \<Longrightarrow> \<not> is_ret r"
  "\<not> listHasRetOrJmp c \<Longrightarrow> wf_list M mul c \<Longrightarrow> run M c s r \<Longrightarrow> \<not> is_ret r"
proof (induction n and b and c arbitrary: s r and s r and s r
    rule: hasRetOrJmp_blockHasRetOrJmp_listHasRetOrJmp.induct)
  case (6 w jm t f rt)
  then show ?case by (cases f) (auto simp: run1_If run1_IfElse)
next
  case "7_1"
  then show ?case by (auto simp: run1_Loc)
next
  case "7_6"
  then show ?case by (auto simp: run1_HardCode is_ret_def)
next
  case (10 n c)
  then show ?case by (auto simp: run_Cons_iff)
qed (auto simp: run1_Opaque run1_Sub run1_Stack run1_Glob run1_DeclRetFlag run1_AsymGen run1_GenOpcode
    run1_TvmException run1_PushCell run1_Log run1_Repeat run1_Until run1_While wf_block_iff
    dest: norm_no_ret exc_no_ret loops_no_ret split: if_splits)

end
