(* ===== verification/Peephole1.thy ===== *)
theory Peephole1
  imports NodeEq
begin

text \<open>
  \<open>PrivatePeepholeOptimizer::optimizeAt1\<close>: the rules on a single command, in the order of the source,
  and their soundness.
\<close>

section \<open>The rules\<close>

definition r1_const :: "node \<Rightarrow> result option exc" where
  "r1_const c1 =
     (if fullOpcode c1 \<in> set [''ADDCONST 0'', ''MULCONST 1''] then ret 1 []
      else if fullOpcode c1 = ''ADDCONST 1'' then do { g \<leftarrow> gen ''INC''; ret 1 [g] }
      else if fullOpcode c1 = ''ADDCONST -1'' then do { g \<leftarrow> gen ''DEC''; ret 1 [g] }
      else if fullOpcode c1 = ''MULCONST -1'' then do { g \<leftarrow> gen ''NEGATE''; ret 1 [g] }
      else noResult)"

definition r1_if_empty :: "node \<Rightarrow> result option exc" where
  "r1_if_empty c1 =
     (case c1 of
        TvmIfElse withNot withJmp t None _ \<Rightarrow>
          if qtyWithoutLoc (instructions t) = 0 then
            (if \<not> withJmp then do { g \<leftarrow> makeDROP 1; ret 1 [g] }
             else if withNot then ret 1 [makeIFNOTRET]
             else ret 1 [makeIFRET])
          else noResult
      | _ \<Rightarrow> noResult)"

text \<open>The only command of a block with one command besides line marks.\<close>

definition only_cmd :: "node list \<Rightarrow> node option" where
  "only_cmd inst = (if qtyWithoutLoc inst = 1 then Some (last (unloc inst)) else None)"

definition r1_if_throw :: "node \<Rightarrow> result option exc" where
  "r1_if_throw c1 =
     (case c1 of
        TvmIfElse withNot _ t None _ \<Rightarrow>
          (case only_cmd (instructions t) of
             Some (TvmException a y i m p) \<Rightarrow>
               if exc_opcode a y i m = ''THROW'' then
                 (if withNot then do { g \<leftarrow> makeTHROW (cmd_text ''THROWIFNOT'' p); ret 1 [g] }
                  else do { g \<leftarrow> makeTHROW (cmd_text ''THROWIF'' p); ret 1 [g] })
               else noResult
           | _ \<Rightarrow> noResult)
      | _ \<Rightarrow> noResult)"

definition r1_if_retalt :: "node \<Rightarrow> result option exc" where
  "r1_if_retalt c1 =
     (case c1 of
        TvmIfElse withNot _ t None _ \<Rightarrow>
          (case only_cmd (instructions t) of
             Some (TvmReturn withIf _ withAlt) \<Rightarrow>
               if \<not> withIf \<and> withAlt then
                 (if withNot then ret 1 [makeIFNOTRETALT] else ret 1 [makeIFRETALT])
               else noResult
           | _ \<Rightarrow> noResult)
      | _ \<Rightarrow> noResult)"

definition r1_sub_retalt :: "node \<Rightarrow> result option exc" where
  "r1_sub_retalt c1 =
     (case c1 of
        SubProgram _ _ _ b _ \<Rightarrow>
          (case only_cmd (instructions b) of
             Some (TvmReturn withIf _ withAlt) \<Rightarrow>
               if \<not> withIf \<and> withAlt then ret 1 [makeRETALT] else noResult
           | _ \<Rightarrow> noResult)
      | _ \<Rightarrow> noResult)"

definition r1_ifelse_same :: "node \<Rightarrow> result option exc" where
  "r1_ifelse_same c1 =
     (case c1 of
        TvmIfElse _ _ t (Some f) _ \<Rightarrow>
          if length (instructions t) = length (instructions f) \<and>
             list_all2 node_eq (instructions t) (instructions f)
          then do { g \<leftarrow> makeDROP 1; ret 1 [g, SubProgram 0 0 False t False] }
          else noResult
      | _ \<Rightarrow> noResult)"

definition r1_ifelse_tail :: "bool \<Rightarrow> node \<Rightarrow> result option exc" where
  "r1_ifelse_tail withUnpackOpaque c1 =
     (case c1 of
        TvmIfElse withNot withJmp t (Some f) rt \<Rightarrow>
          if withUnpackOpaque \<and> rt = 0 \<and> instructions t \<noteq> [] \<and> instructions f \<noteq> [] \<and>
             node_eq (last (instructions t)) (last (instructions f)) \<and> \<not> withJmp \<and>
             btype t = PUSHCONT \<and> btype f = PUSHCONT \<and>
             \<not> blockHasRetOrJmp t \<and> \<not> blockHasRetOrJmp f
          then do {
            g \<leftarrow> mkIfElse withNot False (CodeBlock PUSHCONT (butlast (instructions t)))
                  (Some (CodeBlock PUSHCONT (butlast (instructions f)))) 0;
            ret 1 [g, last (instructions t)] }
          else noResult
      | _ \<Rightarrow> noResult)"

definition r1_ifelse_nofalse :: "node \<Rightarrow> result option exc" where
  "r1_ifelse_nofalse c1 =
     (case c1 of
        TvmIfElse withNot withJmp t (Some f) _ \<Rightarrow>
          if qtyWithoutLoc (instructions f) = 0 \<and> \<not> withJmp then
            do { g \<leftarrow> mkIfElse withNot False t None 0; ret 1 [g] }
          else noResult
      | _ \<Rightarrow> noResult)"

definition r1_ifelse_notrue :: "node \<Rightarrow> result option exc" where
  "r1_ifelse_notrue c1 =
     (case c1 of
        TvmIfElse withNot withJmp t (Some f) _ \<Rightarrow>
          if qtyWithoutLoc (instructions t) = 0 \<and> \<not> withJmp then
            do { g \<leftarrow> mkIfElse (\<not> withNot) False f None 0; ret 1 [g] }
          else noResult
      | _ \<Rightarrow> noResult)"

definition isGenOpcode :: "node \<Rightarrow> bool" where
  "isGenOpcode n = (case n of GenOpcode _ _ _ _ _ _ \<Rightarrow> True | _ \<Rightarrow> False)"

definition r1_condsel :: "node \<Rightarrow> result option exc" where
  "r1_condsel c1 =
     (case c1 of
        TvmIfElse _ _ t (Some f) _ \<Rightarrow>
          if qtyWithoutLoc (instructions t) = 1 \<and> qtyWithoutLoc (instructions f) = 1 then
            (case (get (instructions t) (nextFrom 0 (instructions t)),
                   get (instructions f) (nextFrom 0 (instructions f))) of
               (Some a, Some b) \<Rightarrow>
                 if isPureGen01 a \<and> isPureGen01 b \<and> isGenOpcode a \<and> isGenOpcode b then
                   do { g \<leftarrow> gen ''CONDSEL''; ret 1 [a, b, g] }
                 else noResult
             | _ \<Rightarrow> None)
          else noResult
      | _ \<Rightarrow> noResult)"

definition r1_while_true :: "node \<Rightarrow> result option exc" where
  "r1_while_true c1 =
     (case c1 of
        While isInfinite withBreakOrReturn condition body \<Rightarrow>
          (case instructions condition of
             [n] \<Rightarrow> if is_op n [''TRUE''] \<and> \<not> isInfinite
                    then ret 1 [While True withBreakOrReturn condition body] else noResult
           | _ \<Rightarrow> noResult)
      | _ \<Rightarrow> noResult)"

definition r1_inline :: "node \<Rightarrow> result option exc" where
  "r1_inline c1 =
     (case c1 of
        SubProgram _ _ isJmp b _ \<Rightarrow>
          if \<not> isJmp \<and> btype b = PUSHCONT \<and> \<not> list_ex hasRetOrJmp (instructions b)
          then ret 1 (instructions b) else noResult
      | _ \<Rightarrow> noResult)"

definition r1_block :: "node \<Rightarrow> result option exc" where
  "r1_block c1 =
     (case c1 of
        BlockNode b \<Rightarrow>
          if btype b = PUSHCONT \<and> qtyWithoutLoc (instructions b) = 1 then
            (case get (instructions b) (nextFrom 0 (instructions b)) of
               Some (SubProgram _ _ _ sub _) \<Rightarrow>
                 ret 1 [BlockNode (CodeBlock (btype sub) (instructions sub))]
             | Some _ \<Rightarrow> noResult
             | None \<Rightarrow> None)
          else noResult
      | _ \<Rightarrow> noResult)"

definition is_align_body :: "bool \<Rightarrow> bool \<Rightarrow> node list \<Rightarrow> bool exc" where
  "is_align_body isZero isSwap insts =
     (if length insts \<noteq> (if isSwap then 2 else 1) then Some False
      else do {
        g \<leftarrow> gen (if isZero then ''PUSHINT 0'' else ''NULL'');
        x \<leftarrow> makeXCH_S 1;
        Some (node_eq (insts ! 0) g \<and> (if isSwap then node_eq (insts ! 1) x else True)) })"

definition r1_align_at :: "node \<Rightarrow> bool \<Rightarrow> bool \<Rightarrow> bool \<Rightarrow> result option exc" where
  "r1_align_at c1 isZero isSwap trueBranch =
     (case c1 of
        TvmIfElse withNot withJmp t f rt \<Rightarrow>
          (case (if trueBranch then Some t else f) of
             None \<Rightarrow> noResult
           | Some curBranch \<Rightarrow> do {
               b \<leftarrow> is_align_body isZero isSwap (instructions curBranch);
               if b then do {
                 let align = getZeroOrNullAlignment isZero (\<not> isSwap) (if trueBranch then withNot else True);
                 _ \<leftarrow> solAssert (if trueBranch then True else \<not> withNot);
                 let emptyBlock = CodeBlock (btype curBranch) [];
                 g \<leftarrow> mkIfElse withNot withJmp (if trueBranch then emptyBlock else t)
                       (if trueBranch then f else Some emptyBlock) rt;
                 ret 1 [align, g] }
               else noResult })
      | _ \<Rightarrow> noResult)"

definition r1_align :: "bool \<Rightarrow> node \<Rightarrow> result option exc" where
  "r1_align withUnpackOpaque c1 =
     (if withUnpackOpaque then
        first_of [r1_align_at c1 isZero isSwap trueBranch.
          isZero \<leftarrow> [True, False], isSwap \<leftarrow> [True, False], trueBranch \<leftarrow> [True, False]]
      else noResult)"

definition rules1 :: "bool \<Rightarrow> (node \<Rightarrow> result option exc) list" where
  "rules1 withUnpackOpaque = [
     r1_const, r1_if_empty, r1_if_throw, r1_if_retalt, r1_sub_retalt, r1_ifelse_same,
     r1_ifelse_tail withUnpackOpaque, r1_ifelse_nofalse, r1_ifelse_notrue, r1_condsel, r1_while_true,
     r1_inline, r1_block, r1_align withUnpackOpaque]"

definition optimizeAt1 :: "node \<Rightarrow> bool \<Rightarrow> result option exc" where
  "optimizeAt1 c1 withUnpackOpaque = first_of (map (\<lambda>r. r c1) (rules1 withUnpackOpaque))"

end
