(* ===== verification/Peephole1Sound.thy ===== *)
theory Peephole1Sound
  imports Peephole1
begin

text \<open>Soundness of the single-command rules and of the chain \<open>optimizeAt1\<close>.\<close>

section \<open>Blocks\<close>

lemma sound1:
  "(\<And>s r. visible r \<Longrightarrow> run M [c1] s r \<Longrightarrow> run M c s r) \<Longrightarrow> wf_list M mul c \<Longrightarrow>
   sound M mul [c1] (Result 1 c)"
  by (rule sound_window) (auto intro: refinesI)

lemma run_single: "run M [n] s r \<longleftrightarrow> run1 M n s r"
proof -
  have "cont M [] q r \<longleftrightarrow> q = r" for q by (cases q) (auto simp: cont_def)
  then show ?thesis by (simp add: run_cont)
qed

lemma sound1_node:
  "(\<And>s r. run1 M c1 s r \<Longrightarrow> run1 M n s r) \<Longrightarrow> wfn M mul n \<Longrightarrow> sound M mul [c1] (Result 1 [n])"
  by (rule sound1) (simp_all add: run_single)

lemma qty_unloc: "qtyWithoutLoc c = length (unloc c)"
  by (simp add: qtyWithoutLoc_def unloc_def)

lemma run_empty: "qtyWithoutLoc c = 0 \<Longrightarrow> run M c s r \<longleftrightarrow> r = Norm s"
  using run_unloc [of M c s r] by (simp add: qty_unloc)

lemma run_only:
  assumes "only_cmd c = Some n"
  shows "run M c s r \<longleftrightarrow> run1 M n s r" and "n \<in> set c"
proof -
  have "length (unloc c) = 1" "last (unloc c) = n"
    using assms by (auto simp: only_cmd_def qty_unloc split: if_splits)
  then have u: "unloc c = [n]" by (cases "unloc c") auto
  then show "run M c s r \<longleftrightarrow> run1 M n s r" using run_unloc [of M c s r] by (simp add: run_single)
  have "n \<in> set (unloc c)" using u by simp
  then show "n \<in> set c" by (simp add: unloc_def)
qed

lemma nextFrom_only:
  assumes "qtyWithoutLoc c = 1" "get c (nextFrom 0 c) = Some n"
  shows "unloc c = [n]"
proof -
  have u: "unloc (drop 0 c) \<noteq> []" "length (unloc c) = 1" using assms(1) by (auto simp: qty_unloc)
  then have "nextFrom 0 c \<noteq> -1" using nextFrom_None [of 0 c] by simp
  then obtain k where "nextFrom 0 c = int k" "k < length c" "unloc c = c ! k # unloc (drop (k + 1) c)"
    using nextFrom_Some [of 0 c] by auto
  then show ?thesis using assms(2) u by (auto simp: get_def valid_def)
qed

lemma wfn_of: "wf_list M mul c \<Longrightarrow> n \<in> set c \<Longrightarrow> wfn M mul n"
  by (simp add: wf_list_iff)

lemma run1_exc_if:
  "run1 M (TvmException False False True m p) s r \<longleftrightarrow>
     (\<exists>b. cond m (stk s 0) = Some b \<and> r = (if b then Exc (Code p) None (wld s) else Norm (pop1 s)))"
  by (auto simp: run1_TvmException exc_prim_if)

lemma run1_ret_if:
  "run1 M (TvmReturn True m a) s r \<longleftrightarrow>
     (\<exists>b. cond m (stk s 0) = Some b \<and> r = (if b then ret_out a (pop1 s) else Norm (pop1 s)))"
  by (auto simp: run1_TvmReturn ret_prim_def)

lemma r1_if_empty_sound:
  assumes "r1_if_empty c1 = Some (Some res)" "wfn M mul c1"
  shows "sound M mul [c1] res"
proof -
  obtain w jm t rt where c1: "c1 = TvmIfElse w jm t None rt" and e: "qtyWithoutLoc (instructions t) = 0"
    and res: "(if \<not> jm then do { g \<leftarrow> makeDROP 1; ret 1 [g] } else ret 1 [TvmReturn True w False]) = Some (Some res)"
    using assms(1)
    by (auto simp: r1_if_empty_def makeIFNOTRET_def makeIFRET_def split: node.splits option.splits if_splits)
  have run: "run1 M c1 s r \<Longrightarrow> \<exists>b. cond w (stk s 0) = Some b \<and> r = (if b \<and> jm then Ret (pop1 s) else Norm (pop1 s))"
    for s r
    unfolding c1 run1_If run_empty [OF e] by (elim disjE exE conjE) (simp_all add: ex_bool_eq)
  show ?thesis
  proof (cases jm)
    case True
    then have r: "res = Result 1 [TvmReturn True w False]" using res by simp
    show ?thesis
      unfolding r
      by (rule sound1_node, drule run, elim exE conjE) (simp_all add: run1_ret_if ret_out_def True)
  next
    case False
    then obtain g where g: "makeDROP 1 = Some g" "res = Result 1 [g]"
      using res by (auto simp: bind_eq_Some_conv)
    then have v: "stk_is g (sdrop 1)" "stk_wfn g" using makeDROP_view [OF g(1)] by auto
    have G: "run1 M g s r \<longleftrightarrow> r = Norm (pop1 s)" for s r
      unfolding run_single [symmetric] run_stk_is [OF v(1)] by simp
    show ?thesis
      unfolding g
      by (rule sound1_node, drule run, elim exE conjE) (simp_all add: G stk_wfn_wfn [OF v(2)] False)
  qed
qed

lemma r1_if_throw_sound:
  assumes "r1_if_throw c1 = Some (Some res)" "wfn M mul c1"
  shows "sound M mul [c1] res"
proof -
  obtain w jm t rt p where c1: "c1 = TvmIfElse w jm t None rt"
    and o: "only_cmd (instructions t) = Some (TvmException False False False False p)"
    and res: "(if w then do { g \<leftarrow> makeTHROW (cmd_text ''THROWIFNOT'' p); ret 1 [g] }
                  else do { g \<leftarrow> makeTHROW (cmd_text ''THROWIF'' p); ret 1 [g] }) = Some (Some res)"
    using assms(1)
    by (auto simp: r1_if_throw_def exc_opcode_iff split: node.splits option.splits if_splits)
  have pl: "plain p"
    using wfn_of [OF _ run_only(2) [OF o]] assms(2) by (simp add: c1 wf_block_iff)
  have res: "res = Result 1 [TvmException False False True w p]"
    using res pl by (cases w) (simp_all add: makeTHROW_txt)
  have T: "run1 M (TvmException False False False False p) s r \<longleftrightarrow> r = Exc (Code p) None (wld s)" for s r
    by (auto simp: run1_TvmException exc_prim_always)
  show ?thesis
    unfolding res
    by (rule sound1_node, unfold c1 run1_If run1_exc_if run_only(1) [OF o] T, elim disjE exE conjE)
      (simp_all add: ex_bool_eq pl)
qed

lemma r1_if_retalt_sound:
  assumes "r1_if_retalt c1 = Some (Some res)" "wfn M mul c1"
  shows "sound M mul [c1] res"
proof -
  obtain w jm t rt m where c1: "c1 = TvmIfElse w jm t None rt"
    and o: "only_cmd (instructions t) = Some (TvmReturn False m True)"
    and res: "res = Result 1 [TvmReturn True w True]"
    using assms(1)
    by (auto simp: r1_if_retalt_def makeIFNOTRETALT_def makeIFRETALT_def
        split: node.splits option.splits if_splits)
  have T: "run1 M (TvmReturn False m True) s r \<longleftrightarrow> r = RetAlt s" for s r
    by (auto simp: run1_TvmReturn ret_prim_def ret_out_def)
  show ?thesis
    unfolding res
    by (rule sound1_node, unfold c1 run1_If run1_ret_if run_only(1) [OF o] T, elim disjE exE conjE)
      (simp_all add: ret_out_def ex_bool_eq)
qed

lemma r1_sub_retalt_sound:
  assumes "r1_sub_retalt c1 = Some (Some res)" "wfn M mul c1"
  shows "sound M mul [c1] res"
proof -
  obtain tk rt jm b p m where c1: "c1 = SubProgram tk rt jm b p"
    and o: "only_cmd (instructions b) = Some (TvmReturn False m True)"
    and res: "res = Result 1 [makeRETALT]"
    using assms(1) by (auto simp: r1_sub_retalt_def split: node.splits option.splits if_splits)
  show ?thesis
    unfolding res makeRETALT_def
    by (rule sound1_node)
      (auto simp: c1 run1_Sub run_only(1) [OF o] run1_TvmReturn ret_prim_def ret_out_def)
qed

lemma r1_ifelse_nofalse_sound:
  assumes "r1_ifelse_nofalse c1 = Some (Some res)" "wfn M mul c1"
  shows "sound M mul [c1] res"
proof -
  obtain w t f rt where c1: "c1 = TvmIfElse w False t (Some f) rt" and e: "qtyWithoutLoc (instructions f) = 0"
    and res: "res = Result 1 [TvmIfElse w False t None 0]"
    using assms(1)
    by (auto simp: r1_ifelse_nofalse_def mkIfElse_def split: node.splits option.splits if_splits)
  show ?thesis
    unfolding res
    by (rule sound1_node)
      (use assms(2) in \<open>auto simp: c1 run1_If run1_IfElse run_empty [OF e] split: if_splits\<close>)
qed

lemma r1_ifelse_notrue_sound:
  assumes "r1_ifelse_notrue c1 = Some (Some res)" "wfn M mul c1"
  shows "sound M mul [c1] res"
proof -
  obtain w t f rt where c1: "c1 = TvmIfElse w False t (Some f) rt" and e: "qtyWithoutLoc (instructions t) = 0"
    and res: "res = Result 1 [TvmIfElse (\<not> w) False f None 0]"
    using assms(1)
    by (auto simp: r1_ifelse_notrue_def mkIfElse_def split: node.splits option.splits if_splits)
  have w: "\<not> w" using assms(2) by (simp add: c1)
  have n: "cond True v = map_option Not (cond False v)" for v by (cases v) (auto simp: cond_def)
  show ?thesis
    unfolding res
    by (rule sound1_node)
      (use assms(2) w in \<open>auto simp: c1 run1_If run1_IfElse run_empty [OF e] n split: if_splits\<close>)
qed

lemma r1_inline_sound:
  assumes "r1_inline c1 = Some (Some res)" "wfn M mul c1"
  shows "sound M mul [c1] res"
proof -
  obtain tk rt b p where c1: "c1 = SubProgram tk rt False b p"
    and no: "\<not> list_ex hasRetOrJmp (instructions b)" and res: "res = Result 1 (instructions b)"
    using assms(1) by (auto simp: r1_inline_def split: node.splits if_splits)
  have wf: "wf_list M mul (instructions b)" using assms(2) by (simp add: c1 wf_block_iff)
  have "\<not> listHasRetOrJmp c" if "\<not> list_ex hasRetOrJmp c" for c using that by (induction c) auto
  then have nr: "\<not> is_ret r" if "run M (instructions b) s r" for s r
    using no_ret(3) [OF _ wf that] no by blast
  have "call_out r = r" if "run M (instructions b) s r" for s r
    using nr [OF that] by (cases r) (auto simp: is_ret_def)
  then show ?thesis
    unfolding res using wf
    by (intro sound1) (auto simp: run_single c1 run1_Sub)
qed

lemma r1_while_true_sound:
  assumes "r1_while_true c1 = Some (Some res)" "wfn M mul c1" "tvm M"
  shows "sound M mul [c1] res"
proof -
  obtain bk c b n where c1: "c1 = While False bk c b" and n: "instructions c = [n]" "is_op n [''TRUE'']"
    and res: "res = Result 1 [While True bk c b]"
    using assms(1) by (auto simp: r1_while_true_def split: node.splits list.splits if_splits)
  obtain a m t rt p where n': "n = GenOpcode ''TRUE'' a m t rt p" using n(2) by (rule is_op1E)
  have T: "run M [n] s r \<longleftrightarrow> r = Norm (set_stk s (spush (VInt (-1)) (stk s)))" for s r
    by (auto simp: n' tvm.gen_no_arg [OF assms(3)] prim_iffs)
  have W: "\<not> ag \<Longrightarrow> c' = [n] \<Longrightarrow> whl M True bk [n] b' s r" if "whl M ag bk c' b' s r" for ag bk c' b' s r
    using that
  proof (induction rule: run1_run_rep_unt_whl.inducts(5) [of _ _ _ _ _ _ _ "\<lambda>_ _ _. True" "\<lambda>_ _ _. True"
        "\<lambda>_ _ _ _ _. True" "\<lambda>_ _ _ _. True"])
    case (whl_next ag c s r0 t b r1 u bk r)
    then have "t = set_stk s (spush (VInt (-1)) (stk s))" by (auto simp: T)
    then have "pop1 t = s" by simp
    then show ?case using whl_next by (auto intro: again_next)
  next
    case (whl_stop ag c s r0 t b r bk)
    then have "t = set_stk s (spush (VInt (-1)) (stk s))" by (auto simp: T)
    then have "pop1 t = s" by simp
    then show ?case using whl_stop by (auto intro: again_stop)
  next
    case (whl_end ag c s r0 t bk b)
    then have "t = set_stk s (spush (VInt (-1)) (stk s))" by (auto simp: T)
    then show ?case using whl_end by (simp add: stack_calc cond_def)
  next
    case (whl_cond_stop ag c s r bk b)
    then show ?case by (auto simp: T)
  qed auto
  show ?thesis
    unfolding res using assms(2)
    by (intro sound1_node) (auto simp: c1 run1_While n(1) intro: W)
qed

section \<open>Rules that depend on the machine\<close>

lemma spush_same: "stk s 0 = v \<Longrightarrow> set_stk s (spush v (sdrop (Suc 0) (stk s))) = s"
  using spush_top [of "stk s"] by auto

lemma run_eq_append:
  assumes "\<And>s r. run1 M x s r \<longleftrightarrow> run1 M y s r" "f \<noteq> []" "last f = y"
  shows "run M f s r \<longleftrightarrow> run M (butlast f @ [x]) s r"
proof -
  have "f = butlast f @ [y]" using append_butlast_last_id [OF assms(2)] assms(3) by simp
  then have "run M f s r \<longleftrightarrow> run M (butlast f @ [y]) s r" by simp
  then show ?thesis by (simp only: run_append run_single assms(1))
qed

definition align_stack :: "bool \<Rightarrow> bool \<Rightarrow> stack \<Rightarrow> stack" where
  "align_stack isZero isSwap t =
     (let v = (if isZero then VInt 0 else VNull)
      in if isSwap then spush (t 0) (spush v (sdrop 1 t)) else spush v t)"

context tvm
begin

lemma r1_const_sound:
  assumes "r1_const c1 = Some (Some res)" "wfn M mul c1"
  shows "sound M mul [c1] res"
proof (cases c1)
  case (GenOpcode opc a cm tk rt p)
  note w = wfn_GenD [OF assms(2) [unfolded GenOpcode]]
  have view: "opc = takeWhile (\<lambda>c. c \<noteq> CHR '' '') t \<and> a = tl (dropWhile (\<lambda>c. c \<noteq> CHR '' '') t)"
    if "fullOpcode c1 = t" "CHR '';'' \<notin> set t" for t
    using joinArg_view [OF _ w(3,5) that(2)] that(1) by (simp add: GenOpcode)
  have f: "int_fits (-1)" "int_fits 0" "int_fits 1" by (simp_all add: int_fits_def)
  note lits = toString_lits toString_m1
  consider "fullOpcode c1 = ''ADDCONST 0''" "res = Result 1 []"
    | "fullOpcode c1 = ''MULCONST 1''" "res = Result 1 []"
    | "fullOpcode c1 = ''ADDCONST 1''" "res = Result 1 [GenOpcode ''INC'' [] [] 1 1 False]"
    | "fullOpcode c1 = ''ADDCONST -1''" "res = Result 1 [GenOpcode ''DEC'' [] [] 1 1 False]"
    | "fullOpcode c1 = ''MULCONST -1''" "res = Result 1 [GenOpcode ''NEGATE'' [] [] 1 1 False]"
    using assms(1) by (auto simp: r1_const_def gen_simps split: if_splits)
  then show ?thesis
  proof cases
    case 1
    have "opc = ''ADDCONST''" "a = ''0''" using view [OF 1(1)] by simp_all
    then show ?thesis unfolding 1(2)
      by (intro sound1) (auto simp: GenOpcode f lits gen_sem ari_iffs stack_calc spush_same)
  next
    case 2
    have "opc = ''MULCONST''" "a = ''1''" using view [OF 2(1)] by simp_all
    then show ?thesis unfolding 2(2)
      by (intro sound1) (auto simp: GenOpcode f lits gen_sem ari_iffs stack_calc spush_same)
  next
    case 3
    have "opc = ''ADDCONST''" "a = ''1''" using view [OF 3(1)] by simp_all
    then show ?thesis unfolding 3(2)
      by (intro sound1) (auto simp: GenOpcode f lits gen_sem ari_iffs wfn_new)
  next
    case 4
    have "opc = ''ADDCONST''" "a = ''-1''" using view [OF 4(1)] by simp_all
    then show ?thesis unfolding 4(2)
      by (intro sound1) (auto simp: GenOpcode f toString_m1 gen_sem ari_iffs wfn_new)
  next
    case 5
    have "opc = ''MULCONST''" "a = ''-1''" using view [OF 5(1)] by simp_all
    then show ?thesis unfolding 5(2)
      by (intro sound1) (auto simp: GenOpcode f toString_m1 gen_sem ari_iffs wfn_new)
  qed
qed (use assms(1) in \<open>auto simp: r1_const_def split: if_splits\<close>)

lemma nodes_eq_all2: "list_all2 node_eq xs ys \<Longrightarrow> nodes_eq xs ys"
  by (induction rule: list_all2_induct) simp_all

lemma r1_ifelse_same_sound:
  assumes "r1_ifelse_same c1 = Some (Some res)" "wfn M mul c1"
  shows "sound M mul [c1] res"
proof -
  obtain w jm t f rt g where c1: "c1 = TvmIfElse w jm t (Some f) rt"
    and e: "list_all2 node_eq (instructions t) (instructions f)" and g: "makeDROP 1 = Some g"
    and res: "res = Result 1 [g, SubProgram 0 0 False t False]"
    using assms(1) by (auto simp: r1_ifelse_same_def bind_eq_Some_conv split: node.splits option.splits if_splits)
  have wf: "wf_list M mul (instructions t)" "wf_list M mul (instructions f)"
    using assms(2) by (simp_all add: c1 wf_block_iff)
  have eq: "run M (instructions t) s r \<longleftrightarrow> run M (instructions f) s r" for s r
    using node_eq_run(3) [OF nodes_eq_all2 [OF e] wf] .
  have v: "stk_is g (sdrop 1)" "stk_wfn g" using makeDROP_view [OF g] by auto
  show ?thesis
    unfolding res using wf
    by (intro sound1)
      (auto simp: c1 run_stk_is [OF v(1)] stk_wfn_wfn [OF v(2)] run_single run1_Sub run1_IfElse wf_block_iff declared_def eq
        split: if_splits)
qed

lemma r1_ifelse_tail_sound:
  assumes "r1_ifelse_tail u c1 = Some (Some res)" "wfn M mul c1"
  shows "sound M mul [c1] res"
proof -
  obtain w t f rt where c1: "c1 = TvmIfElse w False t (Some f) rt"
    and ne: "instructions t \<noteq> []" "instructions f \<noteq> []"
    and eq: "node_eq (last (instructions t)) (last (instructions f))"
    and nr: "\<not> blockHasRetOrJmp t" "\<not> blockHasRetOrJmp f"
    and res: "res = Result 1 [TvmIfElse w False (CodeBlock PUSHCONT (butlast (instructions t)))
                  (Some (CodeBlock PUSHCONT (butlast (instructions f)))) 0, last (instructions t)]"
    using assms(1) by (auto simp: r1_ifelse_tail_def mkIfElse_def split: node.splits option.splits if_splits)
  have wf: "wf_list M mul (instructions t)" "wf_list M mul (instructions f)" "\<not> w"
    using assms(2) by (simp_all add: c1 wf_block_iff)
  let ?l = "last (instructions t)"
  have wl: "wfn M mul ?l" "wfn M mul (last (instructions f))" using wf ne by (simp_all add: wf_list_iff)
  have T: "run M (instructions t) s r \<longleftrightarrow> run M (butlast (instructions t) @ [?l]) s r" for s r
    by (rule run_eq_append [OF refl ne(1) refl])
  have F: "run M (instructions f) s r \<longleftrightarrow> run M (butlast (instructions f) @ [?l]) s r" for s r
    by (rule run_eq_append [OF node_eq_run(1) [OF eq wl] ne(2) refl])
  have split: "run M (butlast (instructions (if b then t else f)) @ [?l]) s r" and nret: "call_out r = r"
    if "run M (instructions (if b then t else f)) s r" for b s r
    using that T F no_ret(2) [OF nr(1), of M mul] no_ret(2) [OF nr(2), of M mul] wf
    by (cases b; cases r; fastforce simp: wf_block_iff is_ret_def)+
  have "run M [TvmIfElse w False (CodeBlock PUSHCONT (butlast (instructions t)))
                  (Some (CodeBlock PUSHCONT (butlast (instructions f)))) 0, ?l] s r"
    if r: "run1 M c1 s r" for s r
  proof -
    obtain b where b: "cond w (stk s 0) = Some b" "run M (instructions (if b then t else f)) (pop1 s) r"
      using r nret unfolding c1 run1_IfElse by auto
    let ?n = "TvmIfElse w False (CodeBlock PUSHCONT (butlast (instructions t)))
                  (Some (CodeBlock PUSHCONT (butlast (instructions f)))) 0"
    have step: "run1 M ?n s (call_out q)" if "run M (butlast (instructions (if b then t else f))) (pop1 s) q" for q
      using r1_ifelse [OF b(1), of M "CodeBlock PUSHCONT (butlast (instructions t))" "CodeBlock PUSHCONT (butlast (instructions f))" q]
        that by (cases b) simp_all
    show ?thesis
      using split [OF b(2)] unfolding run_append
    proof (elim disjE exE conjE)
      fix x
      assume "run M (butlast (instructions (if b then t else f))) (pop1 s) (Norm x)" "run M [?l] x r"
      then show ?thesis using step [of "Norm x"] by (auto simp: run_Cons_iff)
    next
      assume "run M (butlast (instructions (if b then t else f))) (pop1 s) r" "\<not> is_norm r"
      then show ?thesis using step [of r] nret [OF b(2)] by (auto simp: run_Cons_iff)
    qed
  qed
  then show ?thesis
    unfolding res using wf wl wf_list_take_drop
    by (intro sound1) (auto simp: run_single wf_list_iff dest: in_set_butlastD)
qed

lemma r1_condsel_sound:
  assumes "r1_condsel c1 = Some (Some res)" "wfn M mul c1"
  shows "sound M mul [c1] res"
proof -
  obtain w jm t f rt a b where c1: "c1 = TvmIfElse w jm t (Some f) rt"
    and u: "unloc (instructions t) = [a]" "unloc (instructions f) = [b]"
    and p: "isPureGen01 a" "isPureGen01 b"
    and res: "res = Result 1 [a, b, GenOpcode ''CONDSEL'' [] [] 3 1 False]"
    using assms(1) nextFrom_only
    by (auto simp: r1_condsel_def gen_simps split: node.splits option.splits if_splits)
  have "wf_list M mul (unloc (instructions t))" "wf_list M mul (unloc (instructions f))" and w: "\<not> w"
    using assms(2) by (simp_all add: c1 wf_block_iff wf_unloc)
  then have wf: "wfn M mul a" "wfn M mul b" by (simp_all add: u)
  obtain x y where xy: "\<And>s r c. run M (a # c) s r \<longleftrightarrow> run M c (set_stk s (spush (x (glb s) (wld s)) (stk s))) r"
    "\<And>s r c. run M (b # c) s r \<longleftrightarrow> run M c (set_stk s (spush (y (glb s) (wld s)) (stk s))) r"
    using run_pure [OF p(1) wf(1)] run_pure [OF p(2) wf(2)] by metis
  have T: "run M (instructions t) s r \<longleftrightarrow> r = Norm (set_stk s (spush (x (glb s) (wld s)) (stk s)))" for s r
    using run_unloc [of M "instructions t" s r] by (simp add: u xy)
  have F: "run M (instructions f) s r \<longleftrightarrow> r = Norm (set_stk s (spush (y (glb s) (wld s)) (stk s)))" for s r
    using run_unloc [of M "instructions f" s r] by (simp add: u xy)
  show ?thesis
    unfolding res using wf w
    by (intro sound1)
      (auto simp: run_single [of M "TvmIfElse ww jm t (Some f) rt" for ww] c1 run1_IfElse T F xy gen_sem prim_iffs stack_calc wfn_new cond_def
        split: if_splits val.splits)
qed

section \<open>Alignment of the branches\<close>

lemma gen_align: "gen (if z then ''PUSHINT 0'' else ''NULL'') =
    Some (if z then GenOpcode ''PUSHINT'' (toString 0) [] 0 1 True else GenOpcode ''NULL'' [] [] 0 1 True)"
proof (cases z)
  case True
  have "''PUSHINT 0'' = cmd_text ''PUSHINT'' ''0''" by (simp add: cmd_text_def)
  moreover have "gen (cmd_text ''PUSHINT'' (toString 0)) = Some (GenOpcode ''PUSHINT'' (toString 0) [] 0 1 True)"
    by (simp add: gen_simps)
  ultimately show ?thesis using True by (simp only: if_True toString_lits(1))
qed (simp add: gen_simps)

lemma run1_align_push:
  "run1 M (if z then GenOpcode ''PUSHINT'' (toString 0) [] 0 1 True else GenOpcode ''NULL'' [] [] 0 1 True) s r \<longleftrightarrow>
     r = Norm (set_stk s (spush (if z then VInt 0 else VNull) (stk s)))"
  by (auto simp: run1_GenOpcode gen_sem norm_eq_Some prim_iffs gen_typed_def)

lemma align_body_run:
  assumes "is_align_body z sw insts = Some True" "wf_list M mul insts"
  shows "run M insts s r \<longleftrightarrow> r = Norm (set_stk s (align_stack z sw (stk s)))"
proof -
  let ?g = "if z then GenOpcode ''PUSHINT'' (toString 0) [] 0 1 True else GenOpcode ''NULL'' [] [] 0 1 True"
  let ?x = "Stack XCHG 0 1 (-1)"
  have len: "length insts = (if sw then 2 else 1)"
    and e: "node_eq (insts ! 0) ?g" "sw \<longrightarrow> node_eq (insts ! 1) ?x"
    using assms(1) unfolding is_align_body_def gen_align
    by (auto simp: makeXCH_S_def makeXCH_S_S_def split: if_split_asm)
  have wg: "wfn M mul ?g" "wfn M mul ?x" by (simp_all add: wfn_push stack_wf_def)
  show ?thesis
  proof (cases sw)
    case True
    then obtain a b where ab: "insts = [a, b]" using len by (auto simp: length_Suc_conv numeral_2_eq_2)
    have "run1 M a s r \<longleftrightarrow> run1 M ?g s r" "run1 M b s r \<longleftrightarrow> run1 M ?x s r" for s r
      using node_eq_run(1) [of a ?g mul] node_eq_run(1) [of b ?x mul] e assms(2) wg True by (simp_all add: ab)
    then have "run M insts s r \<longleftrightarrow> run M [?g, ?x] s r"
      unfolding ab run_Cons_iff by simp
    also have "\<dots> \<longleftrightarrow> run M [?x] (set_stk s (spush (if z then VInt 0 else VNull) (stk s))) r"
      unfolding run_Cons_iff [of M ?g] run1_align_push by auto
    moreover have "stack_fun XCHG 0 1 0 2 (spush v t) = spush (t 0) (spush v (sdrop 1 t))" for v t
      by (auto simp: spush_def sdrop_def sxchg_def stack_fun_def fun_eq_iff Suc_diff_Suc)
    ultimately show ?thesis
      using True by (simp add: align_stack_def Let_def stack_ok_def)
  next
    case False
    then obtain a where a: "insts = [a]" using len by (auto simp: length_Suc_conv)
    have "run1 M a s r \<longleftrightarrow> run1 M ?g s r" for s r
      using node_eq_run(1) [of a ?g mul] e assms(2) wg by (simp add: a)
    then show ?thesis using False by (simp add: a run_single run1_align_push align_stack_def)
  qed
qed

lemma run_align:
  "run M (getZeroOrNullAlignment z sw n # c) s r \<longleftrightarrow>
     (\<exists>b. cond n (stk s 0) = Some b \<and>
        run M c (if b then set_stk s (spush (stk s 0) (align_stack z (\<not> sw) (sdrop 1 (stk s)))) else s) r)"
proof -
  have "doc_asym (case getZeroOrNullAlignment z sw n of AsymGen x \<Rightarrow> x | _ \<Rightarrow> []) = Some (align_prim z sw n)"
    by (cases z; cases sw; cases n) (simp_all add: doc_asym_def getZeroOrNullAlignment_def)
  from asym_doc [OF this] show ?thesis
    by (auto simp: getZeroOrNullAlignment_def align_prim_def Let_def cond_def align_stack_def stack_calc
        split: val.splits if_splits)
qed

text \<open>One branch of a conditional becomes an alignment in front of it.\<close>

lemma align_front:
  assumes body: "\<And>s r. run M b s r \<longleftrightarrow> r = Norm (set_stk s (align_stack z sw (stk s)))"
    and orig: "\<And>s r. run1 M c1 s r \<Longrightarrow> \<exists>x. cond n (stk s 0) = Some x \<and>
      (if x then \<exists>q. run M b (pop1 s) q \<and> r = out q else run1 M N s r)"
    and new: "\<And>s. cond n (stk s 0) = Some True \<Longrightarrow> run1 M N s (out (Norm (pop1 s)))"
    and wf: "wfn M mul N"
  shows "sound M mul [c1] (Result 1 [getZeroOrNullAlignment z (\<not> sw) n, N])"
proof (rule sound1)
  fix s r
  assume "run M [c1] s r"
  then obtain x where x: "cond n (stk s 0) = Some x"
    "if x then \<exists>q. run M b (pop1 s) q \<and> r = out q else run1 M N s r"
    using orig unfolding run_single by blast
  let ?A = "set_stk s (spush (stk s 0) (align_stack z sw (sdrop 1 (stk s))))"
  have "run1 M N (if x then ?A else s) r"
    using x new [of ?A] by (cases x) (auto simp: body stack_calc)
  then show "run M [getZeroOrNullAlignment z (\<not> sw) n, N] s r"
    using x(1) by (auto simp: run_align run_single)
qed (use wf in \<open>simp add: getZeroOrNullAlignment_def\<close>)

lemma r1_align_at_true:
  assumes "r1_align_at c1 z sw True = Some (Some res)" "wfn M mul c1"
  shows "sound M mul [c1] res"
proof -
  obtain w jm t f rt where c1: "c1 = TvmIfElse w jm t f rt"
    and b: "is_align_body z sw (instructions t) = Some True"
    and res: "res = Result 1 [getZeroOrNullAlignment z (\<not> sw) w, TvmIfElse w jm (CodeBlock (btype t) []) f rt]"
    using assms(1)
    by (auto simp: r1_align_at_def mkIfElse_def Let_def bind_eq_Some_conv split: node.splits option.splits if_splits)
  have "wf_list M mul (instructions t)" using assms(2) by (cases f) (simp_all add: c1 wf_block_iff)
  note body = align_body_run [OF b this]
  show ?thesis
  proof (cases f)
    case None
    show ?thesis
      unfolding res c1 None
    proof (rule align_front [OF body, where out = "if jm then jump_out else call_out"])
      fix s r
      assume "run1 M (TvmIfElse w jm t None rt) s r"
      then show "\<exists>x. cond w (stk s 0) = Some x \<and>
          (if x then \<exists>q. run M (instructions t) (pop1 s) q \<and> r = (if jm then jump_out else call_out) q
           else run1 M (TvmIfElse w jm (CodeBlock (btype t) []) None rt) s r)"
        unfolding run1_If by (elim disjE exE conjE) (simp_all add: ex_bool_eq, blast)
    qed (simp_all add: run1_If)
  next
    case (Some f')
    show ?thesis
      unfolding res c1 Some
    proof (rule align_front [OF body, where out = call_out])
      fix s r
      assume "run1 M (TvmIfElse w jm t (Some f') rt) s r"
      then show "\<exists>x. cond w (stk s 0) = Some x \<and>
          (if x then \<exists>q. run M (instructions t) (pop1 s) q \<and> r = call_out q
           else run1 M (TvmIfElse w jm (CodeBlock (btype t) []) (Some f') rt) s r)"
        unfolding run1_IfElse by (elim exE conjE, rename_tac b q, case_tac b) (simp_all add: ex_bool_eq, blast+)
    qed (use assms(2) in \<open>simp_all add: run1_IfElse c1 Some ex_bool_eq\<close>)
  qed
qed

lemma r1_align_at_false:
  assumes "r1_align_at c1 z sw False = Some (Some res)" "wfn M mul c1"
  shows "sound M mul [c1] res"
proof -
  obtain w jm t f rt where c1: "c1 = TvmIfElse w jm t (Some f) rt"
    and b: "is_align_body z sw (instructions f) = Some True"
    and res: "res = Result 1 [getZeroOrNullAlignment z (\<not> sw) True, TvmIfElse w jm t (Some (CodeBlock (btype f) [])) rt]"
    using assms(1)
    by (auto simp: r1_align_at_def mkIfElse_def Let_def bind_eq_Some_conv split: node.splits option.splits if_splits)
  have wf: "wf_list M mul (instructions f)" "\<not> w" using assms(2) by (simp_all add: c1 wf_block_iff)
  have n: "cond True v = map_option Not (cond False v)" for v by (cases v) (auto simp: cond_def)
  note body = align_body_run [OF b wf(1)]
  show ?thesis
    unfolding res c1
  proof (rule align_front [OF body, where out = call_out])
    fix s r
    assume "run1 M (TvmIfElse w jm t (Some f) rt) s r"
    then show "\<exists>x. cond True (stk s 0) = Some x \<and>
        (if x then \<exists>q. run M (instructions f) (pop1 s) q \<and> r = call_out q
         else run1 M (TvmIfElse w jm t (Some (CodeBlock (btype f) [])) rt) s r)"
      using wf(2) unfolding run1_IfElse n
      by (elim exE conjE, rename_tac b q, case_tac b) (simp_all add: ex_bool_eq, blast+)
  qed (use assms(2) wf(2) in \<open>simp_all add: run1_IfElse c1 n ex_bool_eq\<close>)
qed

lemma r1_align_sound:
  assumes "r1_align u c1 = Some (Some res)" "wfn M mul c1"
  shows "sound M mul [c1] res"
proof -
  obtain z sw tb where "r1_align_at c1 z sw tb = Some (Some res)"
    using assms(1) first_of_SomeD unfolding r1_align_def
    by (auto split: if_splits)
  then show ?thesis
    using r1_align_at_true [OF _ assms(2)] r1_align_at_false [OF _ assms(2)] by (cases tb) auto
qed

lemma r1_block_sound: "r1_block c1 = Some (Some res) \<Longrightarrow> wfn M mul c1 \<Longrightarrow> sound M mul [c1] res"
  by (cases c1) (simp_all add: r1_block_def)

lemma r1_while_true_sound': "r1_while_true c1 = Some (Some res) \<Longrightarrow> wfn M mul c1 \<Longrightarrow> sound M mul [c1] res"
  by (rule r1_while_true_sound) (unfold_locales)

lemmas rules1_sound =
  r1_const_sound r1_if_empty_sound r1_if_throw_sound r1_if_retalt_sound r1_sub_retalt_sound
  r1_ifelse_same_sound r1_ifelse_tail_sound r1_ifelse_nofalse_sound r1_ifelse_notrue_sound
  r1_condsel_sound r1_while_true_sound' r1_inline_sound r1_block_sound r1_align_sound

lemma optimizeAt1_sound_at:
  assumes "optimizeAt1 c1 u = Some (Some res)" "wfn M mul c1"
  shows "sound M mul [c1] res"
proof -
  have "\<exists>r \<in> set (rules1 u). r c1 = Some (Some res)"
    using first_of_SomeD [OF assms(1) [unfolded optimizeAt1_def]] by auto
  then show ?thesis
    unfolding rules1_def bex_list by (elim disjE FalseE) (erule rules1_sound [OF _ assms(2)])+
qed

end

end
