(* ===== verification/Peephole3.thy ===== *)
theory Peephole3
  imports Peephole1Sound
begin

text \<open>
  \<open>PrivatePeepholeOptimizer::optimizeAt3\<close> to \<open>optimizeAt6\<close> and \<open>optimizeSlice\<close>: the rules on three to
  six commands and the rules of the slice pass, in the order of the source.
\<close>

section \<open>Three commands\<close>

definition r3_newc_rev :: "node \<Rightarrow> node \<Rightarrow> node \<Rightarrow> result option exc" where
  "r3_newc_rev c1 c2 c3 =
     (case c3 of
        GenOpcode opc a _ _ _ _ \<Rightarrow>
          if is_op c1 [''NEWC''] \<and> isSimpleCommand c2 \<and> starts_with opc ''ST'' \<and> ends_with opc ''R''
          then do { g \<leftarrow> gen ''NEWC''; h \<leftarrow> gen (cmd_text (butlast opc) a); ret 3 [c2, g, h] }
          else noResult
      | _ \<Rightarrow> noResult)"

definition r3_dup_throw_drop :: "node \<Rightarrow> node \<Rightarrow> node \<Rightarrow> result option exc" where
  "r3_dup_throw_drop c1 c2 c3 =
     (case isDrop c3 of
        Some n \<Rightarrow>
          if isPUSH c1 = Some 0 \<and> isExc c2 [''THROWIFNOT'', ''THROWIF''] then
            (if n = 1 then ret 3 [c2] else do { g \<leftarrow> makeDROP (n - 1); ret 3 [c2, g] })
          else noResult
      | None \<Rightarrow> noResult)"

definition r3_newc_const_endc :: "node \<Rightarrow> node \<Rightarrow> node \<Rightarrow> result option exc" where
  "r3_newc_const_endc c1 c2 c3 =
     (if is_op c1 [''NEWC''] \<and> is_op c2 [''STSLICECONST''] then do {
        a \<leftarrow> argument c2;
        if length a > 1 \<and> is_op c3 [''ENDC''] then ret 3 [makePUSHREF a] else noResult }
      else noResult)"

definition r3_cmp :: "node \<Rightarrow> node \<Rightarrow> node \<Rightarrow> result option exc" where
  "r3_cmp c1 c2 c3 =
     (if isPUSHINT c1 \<and> ((isPUSH c2 \<noteq> None \<and> isPUSH c2 \<noteq> Some 0) \<or> isPureGen01 c2) then do {
        newCmd2 \<leftarrow> (case isPUSH c2 of Some i \<Rightarrow> makePUSH (i - 1) | None \<Rightarrow> Some c2);
        val \<leftarrow> pushintValue c1;
        let small = (-128 \<le> val \<and> val < 128);
        if small \<and> is_op c3 [''NEQ''] then do { g \<leftarrow> gen (cmd_text ''NEQINT'' (toString val)); ret 3 [newCmd2, g] }
        else if small \<and> is_op c3 [''EQUAL''] then do { g \<leftarrow> gen (cmd_text ''EQINT'' (toString val)); ret 3 [newCmd2, g] }
        else if small \<and> is_op c3 [''GREATER''] then do { g \<leftarrow> gen (cmd_text ''LESSINT'' (toString val)); ret 3 [newCmd2, g] }
        else if small \<and> is_op c3 [''LESS''] then do { g \<leftarrow> gen (cmd_text ''GTINT'' (toString val)); ret 3 [newCmd2, g] }
        else if -128 \<le> val + 1 \<and> val + 1 < 128 \<and> is_op c3 [''GEQ''] then
          do { g \<leftarrow> gen (cmd_text ''LESSINT'' (toString (val + 1))); ret 3 [newCmd2, g] }
        else if -128 \<le> val - 1 \<and> val - 1 < 128 \<and> is_op c3 [''LEQ''] then
          do { g \<leftarrow> gen (cmd_text ''GTINT'' (toString (val - 1))); ret 3 [newCmd2, g] }
        else noResult }
      else noResult)"

definition r3_mul :: "node \<Rightarrow> node \<Rightarrow> node \<Rightarrow> result option exc" where
  "r3_mul c1 c2 c3 =
     (if isPUSHINT c1 \<and> isPUSHINT c2 \<and> is_op c3 [''MUL''] then do {
        a \<leftarrow> pushintValue c1;
        b \<leftarrow> pushintValue c2;
        g \<leftarrow> gen (cmd_text ''PUSHINT'' (toString (a * b)));
        ret 3 [g] }
      else noResult)"

definition r3_div :: "node \<Rightarrow> node \<Rightarrow> node \<Rightarrow> result option exc" where
  "r3_div c1 c2 c3 =
     (if isPUSHINT c1 \<and> isPUSHINT c2 \<and> is_op c3 [''DIV''] then do {
        a \<leftarrow> pushintValue c1;
        b \<leftarrow> pushintValue c2;
        if a \<ge> 0 \<and> b > 0 then do { g \<leftarrow> gen (cmd_text ''PUSHINT'' (toString (a div b))); ret 3 [g] }
        else noResult }
      else noResult)"

definition r3_bool_newc_sti :: "node \<Rightarrow> node \<Rightarrow> node \<Rightarrow> result option exc" where
  "r3_bool_newc_sti c1 c2 c3 =
     (if (is_op c1 [''TRUE''] \<or> is_op c1 [''FALSE'']) \<and> is_op c2 [''NEWC''] \<and> is_op c3 [''STI''] then do {
        a \<leftarrow> argument c3;
        if a = ''1'' then do {
          g \<leftarrow> gen ''NEWC'';
          h \<leftarrow> gen (if is_op c1 [''TRUE''] then ''STONE'' else ''STZERO'');
          ret 3 [g, h] }
        else noResult }
      else noResult)"

definition r3_blkswap_pure :: "node \<Rightarrow> node \<Rightarrow> node \<Rightarrow> result option exc" where
  "r3_blkswap_pure c1 c2 c3 =
     (case (isBLKSWAP c1, isBLKSWAP c3) of
        (Some (bottom1, top1), Some (bottom3, top3)) \<Rightarrow>
          if isPureGen01 c2 \<and> bottom1 = 1 \<and> bottom3 = 1 \<and> top3 = 1
          then do { g \<leftarrow> makeBLKSWAP bottom1 (top1 + 1); ret 3 [c2, g] } else noResult
      | _ \<Rightarrow> noResult)"

definition r3_null_isnull :: "node \<Rightarrow> node \<Rightarrow> node \<Rightarrow> result option exc" where
  "r3_null_isnull c1 c2 c3 =
     (if is_op c1 [''NULL''] \<and> isPUSH c2 = Some 0 \<and> is_op c3 [''ISNULL'']
      then do { g \<leftarrow> gen ''NULL''; h \<leftarrow> gen ''TRUE''; ret 3 [g, h] } else noResult)"

definition r3_pure_blkpush :: "node \<Rightarrow> node \<Rightarrow> node \<Rightarrow> result option exc" where
  "r3_pure_blkpush c1 c2 c3 =
     (case isBLKPUSH c2 of
        Some (qty, index) \<Rightarrow>
          if isPureGen01 c1 \<and> isPureGen01 c3 \<and> node_eq c1 c3 \<and> index = 0 \<and> qty + 1 \<le> 15
          then do { g \<leftarrow> makeBLKPUSH (qty + 1) index; ret 3 [c1, g] } else noResult
      | None \<Rightarrow> noResult)"

definition rules3 :: "(node \<Rightarrow> node \<Rightarrow> node \<Rightarrow> result option exc) list" where
  "rules3 = [r3_newc_rev, r3_dup_throw_drop, r3_newc_const_endc, r3_cmp, r3_mul, r3_div,
     r3_bool_newc_sti, r3_blkswap_pure, r3_null_isnull, r3_pure_blkpush]"

definition optimizeAt3 :: "node \<Rightarrow> node \<Rightarrow> node \<Rightarrow> result option exc" where
  "optimizeAt3 c1 c2 c3 = first_of (map (\<lambda>r. r c1 c2 c3) rules3)"

section \<open>Four commands\<close>

definition r4_addsub :: "node \<Rightarrow> node \<Rightarrow> node \<Rightarrow> node \<Rightarrow> result option exc" where
  "r4_addsub c1 c2 c3 c4 =
     (if isPUSHINT c1 \<and> isPUSHINT c3 \<and> isAddOrSub c2 \<and> isAddOrSub c4 then do {
        a \<leftarrow> pushintValue c1;
        b \<leftarrow> pushintValue c3;
        let sum = (if is_op c2 [''ADD''] then a else - a) + (if is_op c4 [''ADD''] then b else - b);
        g \<leftarrow> gen (cmd_text ''PUSHINT'' (toString sum));
        h \<leftarrow> gen ''ADD'';
        ret 4 [g, h] }
      else noResult)"

text \<open>The constant slice that several rules end in.\<close>

definition push_newc_store :: "int \<Rightarrow> string option \<Rightarrow> result option exc" where
  "push_newc_store n slice =
     (case slice of
        Some h \<Rightarrow> do { p \<leftarrow> genPushSlice h; g \<leftarrow> gen ''NEWC''; st \<leftarrow> gen ''STSLICE''; ret n [p, g, st] }
      | None \<Rightarrow> noResult)"

definition r4_slice_const :: "node \<Rightarrow> node \<Rightarrow> node \<Rightarrow> node \<Rightarrow> result option exc" where
  "r4_slice_const c1 c2 c3 c4 =
     (case isPlainPushSlice c1 of
        Some b \<Rightarrow>
          if is_op c2 [''NEWC''] \<and> is_op c3 [''STSLICECONST''] \<and> is_op c4 [''STSLICE''] then do {
            a \<leftarrow> argument c3;
            slice \<leftarrow> unitSlices a b;
            push_newc_store 4 slice }
          else noResult
      | None \<Rightarrow> noResult)"

definition r4_fits_at :: "string \<Rightarrow> node \<Rightarrow> node \<Rightarrow> node \<Rightarrow> node \<Rightarrow> result option exc" where
  "r4_fits_at fit c1 c2 c3 c4 =
     (if is_op c2 [fit] \<and> is_op c4 [fit] \<and> argument c2 = argument c4 then do {
        a \<leftarrow> argument c2;
        x \<leftarrow> getAddNum c1;
        y \<leftarrow> getAddNum c3;
        if -128 \<le> x + y \<and> x + y \<le> 127 then do {
          g \<leftarrow> gen (cmd_text ''ADDCONST'' (toString (x + y)));
          h \<leftarrow> gen (cmd_text fit a);
          ret 4 [g, h] }
        else noResult }
      else noResult)"

definition r4_fits :: "node \<Rightarrow> node \<Rightarrow> node \<Rightarrow> node \<Rightarrow> result option exc" where
  "r4_fits c1 c2 c3 c4 =
     (if isConstAdd c1 \<and> isConstAdd c3
      then first_of [r4_fits_at fit c1 c2 c3 c4. fit \<leftarrow> [''UFITS'', ''FITS'']] else noResult)"

definition r4_int_const :: "node \<Rightarrow> node \<Rightarrow> node \<Rightarrow> node \<Rightarrow> result option exc" where
  "r4_int_const c1 c2 c3 c4 =
     (if isPUSHINT c1 \<and> is_op c2 [''NEWC''] \<and> is_op c3 [''STSLICECONST''] \<and> is_op c4 [''STU''] then do {
        a \<leftarrow> argument c3;
        x \<leftarrow> sliceToBitString a;
        v \<leftarrow> pushintValue c1;
        n \<leftarrow> fetchInt c4;
        slice \<leftarrow> unitBitStringToHex (x @ toBitString v (nat n)) [];
        push_newc_store 4 slice }
      else noResult)"

definition r4_slice_endc :: "node \<Rightarrow> node \<Rightarrow> node \<Rightarrow> node \<Rightarrow> result option exc" where
  "r4_slice_endc c1 c2 c3 c4 =
     (case isPlainPushSlice c1 of
        Some b \<Rightarrow>
          if is_op c2 [''NEWC''] \<and> is_op c3 [''STSLICE''] \<and> is_op c4 [''ENDC'']
          then ret 4 [makePUSHREF b] else noResult
      | None \<Rightarrow> noResult)"

definition r4_zero_stur :: "node \<Rightarrow> node \<Rightarrow> node \<Rightarrow> node \<Rightarrow> result option exc" where
  "r4_zero_stur c1 c2 c3 c4 =
     (if isPUSHINT c1 then do {
        v \<leftarrow> pushintValue c1;
        if v = 0 \<and> is_op c2 [''STUR''] \<and> isPUSHINT c3 then do {
          w \<leftarrow> pushintValue c3;
          if w = 0 \<and> is_op c4 [''STUR''] then do {
            i \<leftarrow> fetchInt c2;
            j \<leftarrow> fetchInt c4;
            if i + j \<le> 256 then do {
              g \<leftarrow> gen (cmd_text ''PUSHINT'' (toString 0));
              h \<leftarrow> gen (cmd_text ''STUR'' (toString (i + j)));
              ret 4 [g, h] }
            else noResult }
          else noResult }
        else noResult }
      else noResult)"

definition r4_slice_stbrefr :: "node \<Rightarrow> node \<Rightarrow> node \<Rightarrow> node \<Rightarrow> result option exc" where
  "r4_slice_stbrefr c1 c2 c3 c4 =
     (case isPlainPushSlice c1 of
        Some b \<Rightarrow>
          if is_op c2 [''NEWC''] \<and> is_op c3 [''STSLICE''] \<and> is_op c4 [''STBREFR'']
          then do { g \<leftarrow> gen ''STREFR''; ret 4 [makePUSHREF b, g] } else noResult
      | None \<Rightarrow> noResult)"

definition r4_unsingle :: "node \<Rightarrow> node \<Rightarrow> node \<Rightarrow> node \<Rightarrow> result option exc" where
  "r4_unsingle c1 c2 c3 c4 =
     (if isPUSH c1 = Some 0 \<and> is_op c2 [''ISNULL''] \<and> isExc c3 [''THROWIF''] \<and>
         exc_arg c3 = toString GetOptionalException \<and> is_op c4 [''UNTUPLE'']
      then do { n \<leftarrow> fetchInt c4; if n = 1 then ret 4 [c4] else noResult }
      else noResult)"

definition rules4 :: "(node \<Rightarrow> node \<Rightarrow> node \<Rightarrow> node \<Rightarrow> result option exc) list" where
  "rules4 = [r4_addsub, r4_slice_const, r4_fits, r4_int_const, r4_slice_endc, r4_zero_stur,
     r4_slice_stbrefr, r4_unsingle]"

definition optimizeAt4 :: "node \<Rightarrow> node \<Rightarrow> node \<Rightarrow> node \<Rightarrow> result option exc" where
  "optimizeAt4 c1 c2 c3 c4 = first_of (map (\<lambda>r. r c1 c2 c3 c4) rules4)"

section \<open>Five and six commands\<close>

definition r5_slices :: "node \<Rightarrow> node \<Rightarrow> node \<Rightarrow> node \<Rightarrow> node \<Rightarrow> result option exc" where
  "r5_slices c1 c2 c3 c4 c5 =
     (case (isPlainPushSlice c1, isPlainPushSlice c2) of
        (Some b1, Some b2) \<Rightarrow>
          if is_op c3 [''NEWC''] \<and> is_op c4 [''STSLICE''] \<and> is_op c5 [''STSLICE''] then do {
            x \<leftarrow> sliceToBitString b2;
            y \<leftarrow> sliceToBitString b1;
            slice \<leftarrow> unitBitStringToHex (x @ y) [];
            push_newc_store 5 slice }
          else noResult
      | _ \<Rightarrow> noResult)"

definition r5_int_slice :: "node \<Rightarrow> node \<Rightarrow> node \<Rightarrow> node \<Rightarrow> node \<Rightarrow> result option exc" where
  "r5_int_slice c1 c2 c3 c4 c5 =
     (case isPlainPushSlice c2 of
        Some b2 \<Rightarrow>
          if isPUSHINT c1 \<and> is_op c3 [''NEWC''] \<and> is_op c4 [''STSLICE''] \<and> is_op c5 [''STU''] then do {
            x \<leftarrow> sliceToBitString b2;
            v \<leftarrow> pushintValue c1;
            n \<leftarrow> fetchInt c5;
            slice \<leftarrow> unitBitStringToHex (x @ toBitString v (nat n)) [];
            push_newc_store 5 slice }
          else noResult
      | None \<Rightarrow> noResult)"

definition rules5 :: "(node \<Rightarrow> node \<Rightarrow> node \<Rightarrow> node \<Rightarrow> node \<Rightarrow> result option exc) list" where
  "rules5 = [r5_slices, r5_int_slice]"

definition optimizeAt5 :: "node \<Rightarrow> node \<Rightarrow> node \<Rightarrow> node \<Rightarrow> node \<Rightarrow> result option exc" where
  "optimizeAt5 c1 c2 c3 c4 c5 = first_of (map (\<lambda>r. r c1 c2 c3 c4 c5) rules5)"

definition optimizeAt6 :: "node \<Rightarrow> node \<Rightarrow> node \<Rightarrow> node \<Rightarrow> node \<Rightarrow> node \<Rightarrow> result option exc" where
  "optimizeAt6 c1 c2 c3 c4 c5 c6 =
     (case isPlainPushSlice c1 of
        Some b1 \<Rightarrow>
          if is_op c2 [''NEWC''] \<and> is_op c3 [''STSLICE''] \<and> is_op c4 [''NEWC''] \<and>
             is_op c5 [''STSLICECONST''] \<and> is_op c6 [''STB''] then do {
            str1 \<leftarrow> sliceToBitString b1;
            a \<leftarrow> argument c5;
            str5 \<leftarrow> sliceToBitString a;
            slice \<leftarrow> unitBitStringToHex str5 str1;
            push_newc_store 6 slice }
          else noResult
      | None \<Rightarrow> noResult)"

section \<open>The slice pass\<close>

definition optimizeSlice :: "node \<Rightarrow> node option \<Rightarrow> result option exc" where
  "optimizeSlice c1 c2 =
     (case (isPlainPushSlice c1, c2) of
        (Some slice, Some n2) \<Rightarrow>
          if is_op n2 [''STSLICER''] then do {
            binStr \<leftarrow> sliceToBitString slice;
            let len = length binStr;
            if list_all (\<lambda>ch. ch = CHR ''0'') binStr then do {
              g \<leftarrow> gen (cmd_text ''PUSHINT'' (toString (int len)));
              h \<leftarrow> gen ''STZEROES'';
              ret 2 [g, h] }
            else do {
              let num = toBigint binStr;
              bin \<leftarrow> toBinString num;
              if length bin \<le> 255 \<and> length bin < len then do {
                g \<leftarrow> gen (cmd_text ''PUSHINT'' (toString num));
                h \<leftarrow> gen (cmd_text ''STUR'' (toString (int len)));
                ret 2 [g, h] }
              else noResult } }
          else noResult
      | _ \<Rightarrow> noResult)"

end
