(* ===== verification/Peephole3Sound.thy ===== *)
theory Peephole3Sound
  imports Peephole3
begin

text \<open>Soundness of the rules on three to six commands and of the slice pass.\<close>

section \<open>Constant slices\<close>

lemma bitstring_slice: "sliceToBitString a = Some b \<Longrightarrow> bitstring b"
proof -
  have "bitstring b" if "slice_digits s = Some b" for s b
    using that
  proof (induction s arbitrary: b rule: slice_digits.induct)
    case (3 c d s)
    then show ?case by (auto simp: bind_eq_Some_conv split: if_splits)
  qed (auto simp: bind_eq_Some_conv)
  then show "sliceToBitString a = Some b \<Longrightarrow> bitstring b"
    by (auto simp: sliceToBitString_def split: list.splits if_splits)
qed

lemma unit_roundtrip:
  assumes "unitBitStringToHex x y = Some (Some h)" "bitstring x" "bitstring y"
  shows "sliceToBitString h = Some (x @ y)" "h \<noteq> []" "length (x @ y) \<le> 1023"
proof -
  obtain d where d: "binaryStringToSlice (x @ y) = Some d" "h = CHR ''x'' # d" and len: "length (x @ y) \<le> 1023"
    using assms(1) by (auto simp: unitBitStringToHex_def Let_def bind_eq_Some_conv CellBitLength_def split: if_splits)
  show "sliceToBitString h = Some (x @ y)"
    using slice_roundtrip_aux [of "x @ y"] assms(2,3) d by (auto simp: sliceToBitString_def)
  show "h \<noteq> []" "length (x @ y) \<le> 1023" using d len by simp_all
qed

lemma wfn_pcD:
  assumes "isPlainPushSlice c = Some b" "wfn M mul c"
  obtains pc bits v where "c = PushCellOrSlice pc" "doc_cell pc = Some v" "blob_bits b = Some bits"
    "v = VSlice bits [] \<or> v = VCell bits []"
proof -
  obtain pc where pc: "c = PushCellOrSlice pc" "pc_child pc = None" "b = pc_blob pc"
    using assms(1) by (cases c) (auto split: if_splits)
  then obtain v where v: "doc_cell pc = Some v" using assms(2) by auto
  then show ?thesis
    using that [OF pc(1) v] pc by (auto simp: doc_cell_def split: cell_type.splits)
qed

lemma blob_sliceD: "blob_bits b = Some x \<Longrightarrow> sliceToBitString b = Some y \<Longrightarrow> x = y"
  by (auto simp: blob_bits_def sliceToBitString_def split: if_splits)

lemma newc_store:
  "st_slice (VBuilder [] []) (VSlice b []) = Some v \<longleftrightarrow> length b \<le> 1023 \<and> v = VBuilder b []"
  "st_slice (VBuilder [] []) (VCell b r) = None"
  by (auto simp: st_slice_def st_bits_def mk_builder_def)

lemma int_Suc_iff: "int k + 1 = int a \<longleftrightarrow> a = Suc k"
  by auto

lemma run_exc_if:
  "run M (TvmException False False True m q # c) s r \<longleftrightarrow>
     (\<exists>b. cond m (stk s 0) = Some b \<and> (if b then r = Exc (Code q) None (wld s) else run M c (pop1 s) r))"
  unfolding run_Cons_iff run1_exc_if by (auto simp: is_norm_def split: if_splits)

lemma soundw:
  "(\<And>s r. visible r \<Longrightarrow> run M w s r \<Longrightarrow> run M c s r) \<Longrightarrow> wf_list M mul c \<Longrightarrow> w \<noteq> [] \<Longrightarrow> n = int (length w) \<Longrightarrow>
   sound M mul w (Result n c)"
  by (rule sound_window) (auto intro: refinesI)

lemma opcode_lookup_STUX: "map_of opcodes ''STUX'' = Some (3, 1, False)" "map_of opcodes ''STIX'' = None"
  by code_simp+

lemma plain_ST: "plain ''STUX''" "plain ''STIX''"
  by (simp_all add: plain_lit)

lemma gen_STIX: "gen (cmd_text ''STIX'' a) = None"
proof -
  have w: "word1 (cmd_text ''STIX'' a) = ''STIX''"
    using word1_sep [OF plain_ST(2), of a] by (simp add: cmd_text_def)
  have "hd t = CHR ''D''" if "t \<in> set [''DICT'' @ key @ x @ suf. key \<leftarrow> dict_keys, x \<leftarrow> xs, suf \<leftarrow> dict_sufs]" for t xs
    using that by auto
  moreover have "hd (cmd_text ''STIX'' a) \<noteq> CHR ''D''" by (simp add: cmd_text_def)
  ultimately have "\<not> dictReplaceOrAdd (cmd_text ''STIX'' a)" "\<not> dictSet (cmd_text ''STIX'' a)"
    by (auto simp: dictReplaceOrAdd_def dictSet_def cmd_text_def)
  then show ?thesis by (simp add: gen_def w opcode_lookup_STUX)
qed

lemma wfn_STUX: "arg_ok a \<Longrightarrow> wfn M mul (GenOpcode ''STUX'' a [] 3 1 False)"
  by (rule wfn_genI; simp add: opcode_lookup_STUX plain_ST declared_def documented_no_arg)

context tvm
begin

lemma cell_run:
  assumes "isPlainPushSlice c = Some b" "wfn M mul c"
  obtains bits v where "blob_bits b = Some bits" "v = VSlice bits [] \<or> v = VCell bits []"
    "\<And>d s r. run M (c # d) s r \<longleftrightarrow> run M d (set_stk s (spush v (stk s))) r"
proof -
  obtain pc bits v where c: "c = PushCellOrSlice pc" and v: "doc_cell pc = Some v" "blob_bits b = Some bits"
    "v = VSlice bits [] \<or> v = VCell bits []"
    by (rule wfn_pcD [OF assms])
  show ?thesis by (rule that [OF v(2,3)]) (simp add: c cell_doc [OF v(1)])
qed

lemma wfn_PUSHREF: "blob_bits b = Some bits \<Longrightarrow> wfn M mul (makePUSHREF b)"
  unfolding makePUSHREF_def by (rule wfn_cell [OF doc_cell_PUSHREF])

lemma run_PUSHREF:
  "blob_bits b = Some bits \<Longrightarrow>
   run M (makePUSHREF b # c) s r \<longleftrightarrow> run M c (set_stk s (spush (VCell bits []) (stk s))) r"
  by (simp add: makePUSHREF_def cell_doc [OF doc_cell_PUSHREF])

text \<open>The rules that replace a construction by a constant slice.\<close>

lemma push_newc_store_sound:
  assumes "push_newc_store n slice = Some (Some res)" "unitBitStringToHex x y = Some slice"
    "bitstring x" "bitstring y" "w \<noteq> []" "n = int (length w)"
    and run: "\<And>s r. run M w s r \<Longrightarrow> r = Norm (set_stk s (spush (VBuilder (x @ y) []) (stk s)))"
  shows "sound M mul w res"
proof -
  obtain h p where h: "slice = Some h" and p: "genPushSlice h = Some p"
    and res: "res = Result n [p, GenOpcode ''NEWC'' [] [] 0 1 True, GenOpcode ''STSLICE'' [] [] 2 1 False]"
    using assms(1) by (auto simp: push_newc_store_def bind_eq_Some_conv gen_simps split: option.splits)
  note u = unit_roundtrip [OF assms(2) [unfolded h] assms(3,4)]
  obtain pc where pc: "p = PushCellOrSlice pc" "doc_cell pc = Some (VSlice (x @ y) [])"
    using p u by (auto simp: genPushSlice_def doc_cell_def blob_bits_def bind_eq_Some_conv)
  show ?thesis
    unfolding res pc(1)
    using u(3) assms(5,6) wfn_cell [OF pc(2), of mul]
    by (intro soundw)
      (auto simp: cell_doc [OF pc(2)] gen_sem prim_iffs stack_calc newc_store wfn_push wfn_new
        simp del: wfn.simps dest!: run)
qed

section \<open>Three commands\<close>

lemma r3_dup_throw_drop_sound:
  assumes "r3_dup_throw_drop c1 c2 c3 = Some (Some res)" "wfn M mul c1" "wfn M mul c2" "wfn M mul c3"
  shows "sound M mul [c1, c2, c3] res"
proof -
  obtain n where n: "isDrop c3 = Some n" and p: "isPUSH c1 = Some 0" and e: "isExc c2 [''THROWIFNOT'', ''THROWIF'']"
    and res: "(if n = 1 then ret 3 [c2] else do { g \<leftarrow> makeDROP (n - 1); ret 3 [c2, g] }) = Some (Some res)"
    using assms(1) by (auto simp: r3_dup_throw_drop_def split: option.splits if_splits)
  obtain m q where c2: "c2 = TvmException False False True m q"
    using e by (cases c2) (auto simp: exc_opcode_iff)
  have v1: "stk_is c1 (spushs 0)" using isPUSH_view [OF p assms(2)] by auto
  obtain d where d: "n = int d" "1 \<le> d" "stk_is c3 (sdrop d)" using isDrop_view [OF n assms(4)] by blast
  have d1: "sdrop (d - 1) (sdrop 1 t) = sdrop d t" for t using d(2) by (auto simp: sdrop_def fun_eq_iff)
  have dup: "sdrop 1 (spushs 0 t) = t" "spushs 0 t 0 = t 0" for t by (simp_all add: spushs_def stack_calc)
  obtain new where new: "res = Result 3 (c2 # new)" "wf_list M mul new"
    "\<And>s r. run M new s r \<longleftrightarrow> r = Norm (set_stk s (sdrop (d - 1) (stk s)))"
  proof (cases "n = 1")
    case True
    then show ?thesis using that [of "[]"] res d by (simp add: stack_calc)
  next
    case False
    then obtain g where g: "makeDROP (n - 1) = Some g" "res = Result 3 [c2, g]"
      using res by (auto simp: bind_eq_Some_conv)
    obtain d' where d': "n - 1 = int d'" "stk_is g (sdrop d')" "stk_wfn g" using makeDROP_view [OF g(1)] by blast
    moreover have "d' = d - 1" using d'(1) d(1,2) by simp
    ultimately have "stk_is g (sdrop (d - 1))" "stk_wfn g" by simp_all
    then show ?thesis using that [of "[g]"] g(2) by (simp add: run_stk_is stk_wfn_wfn)
  qed
  show ?thesis
    unfolding new(1)
  proof (rule soundw)
    fix s r
    assume "run M [c1, c2, c3] s r"
    then obtain b where b: "cond m (stk s 0) = Some b"
      "if b then r = Exc (Code q) None (wld s) else r = Norm (set_stk s (sdrop d (stk s)))"
      unfolding run_stk_is [OF v1] c2 run_exc_if run_stk_is [OF d(3)] by (auto simp: dup [simplified] split: if_splits)
    then show "run M (c2 # new) s r"
      unfolding c2 run_exc_if new(3) using d1 by (intro exI [of _ b]) auto
  qed (use assms(3) new(2) in simp_all)
qed

lemma r3_newc_const_endc_sound:
  assumes "r3_newc_const_endc c1 c2 c3 = Some (Some res)" "wfn M mul c1" "wfn M mul c2" "wfn M mul c3"
  shows "sound M mul [c1, c2, c3] res"
proof -
  obtain a1 m1 t1 r1 p1 a m2 t2 r2 p2 a3 m3 t3 r3 p3 where c: "c1 = GenOpcode ''NEWC'' a1 m1 t1 r1 p1"
    "c2 = GenOpcode ''STSLICECONST'' a m2 t2 r2 p2" "c3 = GenOpcode ''ENDC'' a3 m3 t3 r3 p3"
    and a: "length a > 1" and res: "res = Result 3 [makePUSHREF a]"
    using assms(1) by (auto simp: r3_newc_const_endc_def bind_eq_Some_conv split: if_splits elim!: is_op1E)
  obtain bits where bits: "sliceToBitString a = Some bits"
    using wfn_GenD(2) [OF assms(3) [unfolded c]] by (auto simp: documented_def doc_lookup doc_names_def)
  have b: "blob_bits a = Some bits" using a bits by (auto simp: blob_bits_def)
  show ?thesis
    unfolding res c
    by (rule soundw)
      (auto simp: gen_sem gen_STSLICECONST [OF bits] prim_iffs st_bits_def mk_builder_def endc_def stack_calc
        run_PUSHREF [OF b] wfn_PUSHREF [OF b] split: if_splits)
qed

lemma r3_cmp_sound:
  assumes "r3_cmp c1 c2 c3 = Some (Some res)" "wfn M mul c1" "wfn M mul c2" "wfn M mul c3"
  shows "sound M mul [c1, c2, c3] res"
proof -
  obtain v n where p: "isPUSHINT c1" "pushintValue c1 = Some v"
    and push: "(isPUSH c2 \<noteq> None \<and> isPUSH c2 \<noteq> Some 0) \<or> isPureGen01 c2"
    and n: "(case isPUSH c2 of Some i \<Rightarrow> makePUSH (i - 1) | None \<Rightarrow> Some c2) = Some n"
    using assms(1) by (auto simp: r3_cmp_def bind_eq_Some_conv split: if_splits)
  obtain cm tk rt q where c1: "c1 = GenOpcode ''PUSHINT'' (toString v) cm tk rt q"
    by (rule pushint_view [OF p assms(2)])
  obtain opc new w where c3: "is_op c3 [opc]" and w: "int_fits w"
    and res: "res = Result 3 [n, GenOpcode new (toString w) [] 1 1 True]"
    and new: "(opc, new, w) \<in> {(''NEQ'', ''NEQINT'', v), (''EQUAL'', ''EQINT'', v),
      (''GREATER'', ''LESSINT'', v), (''LESS'', ''GTINT'', v), (''GEQ'', ''LESSINT'', v + 1),
      (''LEQ'', ''GTINT'', v - 1)}"
  proof -
    have f: "int_fits w" if "-128 \<le> w" "w < 128" for w using that by (intro small_fits) auto
    show ?thesis
      using assms(1) p push n that f
      by (auto simp: r3_cmp_def bind_eq_Some_conv gen_simps Let_def split: if_splits)
  qed
  obtain f where f: "\<And>s r c. run M (c1 # c2 # c) s r \<Longrightarrow>
      run M c (set_stk s (spush (f s) (spush (VInt v) (stk s)))) r"
    "\<And>s r c. run M (n # c) s r \<longleftrightarrow> run M c (set_stk s (spush (f s) (stk s))) r" "wfn M mul n"
  proof (cases "isPUSH c2")
    case None
    then have p2: "isPureGen01 c2" and n2: "n = c2" using push n by simp_all
    obtain g where g: "\<And>s r c. run M (c2 # c) s r \<longleftrightarrow>
        run M c (set_stk s (spush (g (glb s) (wld s)) (stk s))) r"
      using run_pure [OF p2 assms(3)] by blast
    show ?thesis
      by (rule that [of "\<lambda>s. g (glb s) (wld s)"]) (simp_all add: n2 g c1 gen_PUSHINT prim_iffs assms(3))
  next
    case (Some i)
    then have "i \<noteq> 0" using push by (cases c2) (auto simp: isPureGen01_def)
    moreover obtain k where k: "i = int k" "stk_is c2 (spushs k)" using isPUSH_view [OF Some assms(3)] by blast
    moreover have mk: "makePUSH (i - 1) = Some n" using n Some by simp
    ultimately obtain k' where k': "k = Suc k'" "stk_is n (spushs k')" "stk_wfn n"
      using makePUSH_view [OF mk] by (cases k) auto
    show ?thesis
      by (rule that [of "\<lambda>s. stk s k'"])
        (simp_all add: run_stk_is [OF k(2)] run_stk_is [OF k'(2)] stk_wfn_wfn [OF k'(3)] k'(1) c1 gen_PUSHINT
          prim_iffs spushs_def stack_calc)
  qed
  show ?thesis
    using c3 new w unfolding res insert_iff empty_iff prod.inject
    by (elim is_op1E disjE conjE FalseE; hypsubst; intro soundw)
      (auto simp: f(2,3) gen_sem prim_defs stack_calc wfn_cmp split: val.splits dest!: f(1))
qed

lemma r3_mul_sound:
  assumes "r3_mul c1 c2 c3 = Some (Some res)" "wfn M mul c1" "wfn M mul c2" "wfn M mul c3"
  shows "sound M mul [c1, c2, c3] res"
proof -
  obtain a b where p: "isPUSHINT c1" "pushintValue c1 = Some a" "isPUSHINT c2" "pushintValue c2 = Some b"
    and c3: "is_op c3 [''MUL'']" and res: "res = Result 3 [GenOpcode ''PUSHINT'' (toString (a * b)) [] 0 1 True]"
    using assms(1) by (auto simp: r3_mul_def bind_eq_Some_conv gen_simps split: if_splits)
  obtain m1 t1 r1 p1 where c1: "c1 = GenOpcode ''PUSHINT'' (toString a) m1 t1 r1 p1"
    by (rule pushint_view [OF p(1,2) assms(2)])
  obtain m2 t2 r2 p2 where c2: "c2 = GenOpcode ''PUSHINT'' (toString b) m2 t2 r2 p2"
    by (rule pushint_view [OF p(3,4) assms(3)])
  show ?thesis
    using c3 unfolding res c1 c2
    by (elim is_op1E, intro soundw) (auto simp: gen_sem prim_iffs ari_iffs stack_calc wfn_push)
qed

lemma r3_div_sound:
  assumes "r3_div c1 c2 c3 = Some (Some res)" "wfn M mul c1" "wfn M mul c2" "wfn M mul c3"
  shows "sound M mul [c1, c2, c3] res"
proof -
  obtain a b where p: "isPUSHINT c1" "pushintValue c1 = Some a" "isPUSHINT c2" "pushintValue c2 = Some b" "b > 0"
    and c3: "is_op c3 [''DIV'']" and res: "res = Result 3 [GenOpcode ''PUSHINT'' (toString (a div b)) [] 0 1 True]"
    using assms(1) by (auto simp: r3_div_def bind_eq_Some_conv gen_simps split: if_splits)
  obtain m1 t1 r1 p1 where c1: "c1 = GenOpcode ''PUSHINT'' (toString a) m1 t1 r1 p1"
    by (rule pushint_view [OF p(1,2) assms(2)])
  obtain m2 t2 r2 p2 where c2: "c2 = GenOpcode ''PUSHINT'' (toString b) m2 t2 r2 p2"
    by (rule pushint_view [OF p(3,4) assms(3)])
  show ?thesis
    using c3 p(5) unfolding res c1 c2
    by (elim is_op1E, intro soundw) (auto simp: gen_sem prim_iffs stack_calc wfn_push)
qed

lemma r3_bool_newc_sti_sound:
  assumes "r3_bool_newc_sti c1 c2 c3 = Some (Some res)" "wfn M mul c1" "wfn M mul c2" "wfn M mul c3"
  shows "sound M mul [c1, c2, c3] res"
proof -
  obtain opc a1 m1 t1 r1 p1 a2 m2 t2 r2 p2 m3 t3 r3 p3
    where c: "c1 = GenOpcode opc a1 m1 t1 r1 p1" "c2 = GenOpcode ''NEWC'' a2 m2 t2 r2 p2"
      "c3 = GenOpcode ''STI'' ''1'' m3 t3 r3 p3" and opc: "opc = ''TRUE'' \<or> opc = ''FALSE''"
    and res: "res = Result 3 [GenOpcode ''NEWC'' [] [] 0 1 True,
        GenOpcode (if opc = ''TRUE'' then ''STONE'' else ''STZERO'') [] [] 1 1 False]"
    using assms(1)
    by (auto simp: r3_bool_newc_sti_def bind_eq_Some_conv gen_simps split: if_splits elim!: is_op1E)
  have a: "''1'' = toString (int (Suc 0))" "int_fits (int (Suc 0))"
    by (simp_all add: toString_lits int_fits_def)
  have sti: "m_gen M ''STI'' ''1'' = app2 (\<lambda>x b. st_i (Suc 0) b x)"
    unfolding a(1) using gen_nat_arg [OF a(2)] by simp
  show ?thesis
    using opc unfolding res c
    by (elim disjE; hypsubst; intro soundw)
      (auto simp: sti gen_sem prim_iffs st_i_def stack_calc bits_const wfn_new wfn_push split: if_splits)
qed

lemma r3_blkswap_pure_sound:
  assumes "r3_blkswap_pure c1 c2 c3 = Some (Some res)" "wfn M mul c1" "wfn M mul c2" "wfn M mul c3"
  shows "sound M mul [c1, c2, c3] res"
proof -
  obtain top g where b: "isBLKSWAP c1 = Some (1, top)" "isBLKSWAP c3 = Some (1, 1)" and p: "isPureGen01 c2"
    and g: "makeBLKSWAP 1 (top + 1) = Some g" "res = Result 3 [c2, g]"
    using assms(1) by (auto simp: r3_blkswap_pure_def bind_eq_Some_conv split: option.splits if_splits prod.splits)
  obtain k where k: "top = int k" "stk_is c1 (sblkswap 1 k)" "1 \<le> k"
    using isBLKSWAP_view [OF b(1) assms(2)] by auto
  have 3: "stk_is c3 (sblkswap 1 1)" using isBLKSWAP_view [OF b(2) assms(4)] by auto
  have vg: "stk_is g (sblkswap 1 (k + 1))" "stk_wfn g" using makeBLKSWAP_view [OF g(1)] k by (auto simp: int_Suc_iff)
  obtain f where f: "\<And>s r c. run M (c2 # c) s r \<longleftrightarrow>
    run M c (set_stk s (spush (f (glb s) (wld s)) (stk s))) r"
    using run_pure [OF p assms(3)] by blast
  have eq: "sblkswap 1 1 (spush v (sblkswap 1 k t)) = sblkswap 1 (k + 1) (spush v t)" for v t
    using k(3) by (auto simp: fun_eq_iff closed_forms intro!: stack_cong)
  show ?thesis
    unfolding g(2)
    by (rule soundw)
      (use assms(3) in \<open>auto simp: run_stk_is [OF k(2)] run_stk_is [OF 3] run_stk_is [OF vg(1)] stk_wfn_wfn [OF vg(2)] f eq [simplified]\<close>)
qed

lemma r3_null_isnull_sound:
  assumes "r3_null_isnull c1 c2 c3 = Some (Some res)" "wfn M mul c1" "wfn M mul c2" "wfn M mul c3"
  shows "sound M mul [c1, c2, c3] res"
proof -
  obtain a1 m1 t1 r1 p1 a3 m3 t3 r3 p3 where c: "c1 = GenOpcode ''NULL'' a1 m1 t1 r1 p1"
    "c3 = GenOpcode ''ISNULL'' a3 m3 t3 r3 p3" and p: "isPUSH c2 = Some 0"
    and res: "res = Result 3 [GenOpcode ''NULL'' [] [] 0 1 True, GenOpcode ''TRUE'' [] [] 0 1 True]"
    using assms(1) by (auto simp: r3_null_isnull_def gen_simps split: if_splits elim!: is_op1E)
  have 2: "stk_is c2 (spushs 0)" using isPUSH_view [OF p assms(3)] by auto
  show ?thesis
    unfolding res c
    by (rule soundw) (auto simp: run_stk_is [OF 2] spushs_def gen_sem prim_iffs stack_calc wfn_push)
qed

lemma r3_pure_blkpush_sound:
  assumes "r3_pure_blkpush c1 c2 c3 = Some (Some res)" "wfn M mul c1" "wfn M mul c2" "wfn M mul c3"
  shows "sound M mul [c1, c2, c3] res"
proof -
  obtain qty g where b: "isBLKPUSH c2 = Some (qty, 0)" and p: "isPureGen01 c1" "node_eq c1 c3"
    and g: "makeBLKPUSH (qty + 1) 0 = Some g" "res = Result 3 [c1, g]"
    using assms(1) by (auto simp: r3_pure_blkpush_def bind_eq_Some_conv split: option.splits if_splits prod.splits)
  obtain k where k: "qty = int k" "stk_is c2 (sblkpush k 0)" using isBLKPUSH_view [OF b assms(3)] by auto
  have vg: "stk_is g (sblkpush (k + 1) 0)" "stk_wfn g" using makeBLKPUSH_view [OF g(1)] k by (auto simp: int_Suc_iff)
  obtain f where f: "\<And>s r c. run M (c1 # c) s r \<longleftrightarrow>
    run M c (set_stk s (spush (f (glb s) (wld s)) (stk s))) r"
    using run_pure [OF p(1) assms(2)] by blast
  have 3: "run M (c3 # c) s r \<longleftrightarrow> run M (c1 # c) s r" for c s r
    using node_eq_run(1) [OF p(2) assms(2,4)] by (simp add: run_Cons_iff)
  have eq: "spush v (sblkpush k 0 (spush v t)) = sblkpush (k + 1) 0 (spush v t)" for v t
    by (auto simp: fun_eq_iff sblkpush_dup spush_def simp del: sblkpush.simps)
  show ?thesis
    unfolding g(2)
    by (rule soundw)
      (use assms(2) in \<open>auto simp: run_stk_is [OF k(2)] run_stk_is [OF vg(1)] stk_wfn_wfn [OF vg(2)] 3 f eq [simplified]\<close>)
qed

text \<open>A command without operands commutes with a constant push.\<close>

lemma simple_frame: "isSimpleCommand n \<Longrightarrow> wfn M mul n \<Longrightarrow> frame01 M n"
  by (cases n) (auto simp: declared_def wfn_GenOpcode)

lemma frame_swap:
  assumes f: "frame01 M n" and r: "run1 M n (set_stk s (spush v (stk s))) r"
  obtains e x w where "r = Exc e x w" "run1 M n s r"
  | u g w where "r = Norm \<lparr>stk = spush u (spush v (stk s)), glb = g, wld = w\<rparr>"
      "run1 M n s (Norm \<lparr>stk = spush u (stk s), glb = g, wld = w\<rparr>)"
proof -
  have again: "set_stk (set_stk s t) (stk s) = s" for t by (simp add: set_stk_def)
  from f [unfolded frame01_def, rule_format, OF r]
  show thesis
  proof (elim disjE exE conjE)
    fix e x w
    assume "r = Exc e x w" "\<forall>t. run1 M n (set_stk (set_stk s (spush v (stk s))) t) r"
    then show thesis using that(1) again by metis
  next
    fix u g w
    assume "r = Norm \<lparr>stk = spush u (stk (set_stk s (spush v (stk s)))), glb = g, wld = w\<rparr>"
      "\<forall>t. run1 M n (set_stk (set_stk s (spush v (stk s))) t) (Norm \<lparr>stk = spush u t, glb = g, wld = w\<rparr>)"
    then show thesis using that(2) again by (metis set_stk_simps(1))
  qed
qed

lemma rev_run:
  assumes "opc \<in> set [''STBR'', ''STBREFR'', ''STIR'', ''STREFR'', ''STSLICER'', ''STUR'']"
    "wfn M mul (GenOpcode opc a cm tk rt p)" "m_gen M opc a s = Some t"
  shows "m_gen M (butlast opc) a (set_stk s (sxchg 0 1 (stk s))) = Some t"
proof -
  have "sxchg 0 1 (sxchg 0 1 t) = t" for t by (auto simp: sxchg_def fun_eq_iff)
  then show ?thesis
    using swap_reversed [OF assms(1,2), of "set_stk s (sxchg 0 1 (stk s))"] assms(3) by simp
qed

lemma r3_newc_rev_sound:
  assumes "r3_newc_rev c1 c2 c3 = Some (Some res)" "wfn M mul c1" "wfn M mul c2" "wfn M mul c3"
  shows "sound M mul [c1, c2, c3] res"
proof -
  obtain opc a cm tk rt p h a1 m1 t1 r1 p1 where c3: "c3 = GenOpcode opc a cm tk rt p"
    and c1: "c1 = GenOpcode ''NEWC'' a1 m1 t1 r1 p1" and c2: "isSimpleCommand c2"
    and st: "starts_with opc ''ST''" "ends_with opc ''R''" and h: "gen (cmd_text (butlast opc) a) = Some h"
    and res: "res = Result 3 [c2, GenOpcode ''NEWC'' [] [] 0 1 True, h]"
    using assms(1)
    by (auto simp: r3_newc_rev_def bind_eq_Some_conv gen_simps split: node.splits if_splits elim!: is_op1E)
  note w3 = wfn_GenD [OF assms(4) [unfolded c3]]
  let ?N = "VBuilder [] []"
  have N: "run M (GenOpcode ''NEWC'' b cm' tk' rt' p' # c) s r \<longleftrightarrow> run M c (set_stk s (spush ?N (stk s))) r" for b cm' tk' rt' p' c s r
    by (simp add: gen_sem prim_iffs)
  have step: "run M [c2, GenOpcode ''NEWC'' [] [] 0 1 True, h] s r"
    if r: "run M [c1, c2, c3] s r"
      and last: "\<And>u g w t. m_gen M opc a \<lparr>stk = spush u (spush ?N (stk s)), glb = g, wld = w\<rparr> = Some t \<Longrightarrow>
        run M [h] \<lparr>stk = spush ?N (spush u (stk s)), glb = g, wld = w\<rparr> (Norm t)" for s r
  proof -
    obtain q where q: "run1 M c2 (set_stk s (spush ?N (stk s))) q" "cont M [c3] q r"
      using r unfolding c1 N run_cont [of M c2] by blast
    from simple_frame [OF c2 assms(3)] q(1) show ?thesis
    proof (cases rule: frame_swap)
      case (1 e x w)
      then show ?thesis using q(2) by (auto simp only: run_Cons_iff [of M c2] cont_def is_norm_def outcome.case outcome.distinct)
    next
      case (2 u g w)
      then obtain t where "m_gen M opc a \<lparr>stk = spush u (spush ?N (stk s)), glb = g, wld = w\<rparr> = Some t" "r = Norm t"
        using q(2) by (auto simp: cont_def c3)
      then have "run M [GenOpcode ''NEWC'' [] [] 0 1 True, h] \<lparr>stk = spush u (stk s), glb = g, wld = w\<rparr> r"
        using last unfolding N by (simp add: set_stk_def)
      then show ?thesis using 2(2) by (auto simp: run_Cons_iff [of M c2])
    qed
  qed
  have "(opc \<in> set [''STBR'', ''STBREFR'', ''STIR'', ''STREFR'', ''STSLICER'', ''STUR'']) \<or> opc = ''STUXR'' \<or> opc = ''STIXR''"
    using ST_R_cases [OF assms(4) [unfolded c3] st] by auto
  then show ?thesis
  proof (elim disjE)
    assume opc: "opc \<in> set [''STBR'', ''STBREFR'', ''STIR'', ''STREFR'', ''STSLICER'', ''STUR'']"
    have hh: "h = GenOpcode (butlast opc) a [] 2 1 False" using rev_gen [OF opc w3(8)] h by simp
    have nat: "\<exists>n. a = toString (int n) \<and> int_fits (int n)" if "opc \<in> {''STIR'', ''STUR''}"
    proof -
      have "opc \<in> set nat_ops" using that by (elim insertE emptyE) (simp_all add: nat_ops_def)
      then show ?thesis using nat_argument [OF assms(4) [unfolded c3]] by blast
    qed
    have wh: "wfn M mul h" using rev_wfn [OF opc w3(1) nat] by (simp add: hh)
    have no: "butlast opc \<noteq> ''NOT''" using opc unfolding mem_list by (elim disjE FalseE) simp_all
    have swp: "sxchg 0 1 (spush u (spush v t)) = spush v (spush u t)" for u v t
      by (auto simp: fun_eq_iff closed_forms)
    have "run M [h] \<lparr>stk = spush ?N (spush u t), glb = g, wld = w\<rparr> (Norm t')"
      if "m_gen M opc a \<lparr>stk = spush u (spush ?N t), glb = g, wld = w\<rparr> = Some t'" for u t g w t'
      using rev_run [OF opc assms(4) [unfolded c3] that] no by (simp add: hh swp [simplified] set_stk_def)
    then show ?thesis
      unfolding res using step wh assms(3) by (intro soundw) (auto simp: wfn_push)
  next
    assume opc: "opc = ''STUXR''"
    have hh: "h = GenOpcode ''STUX'' a [] 3 1 False"
      using h gen_txt [of "''STUX''" a 3 1 False] w3(8) by (simp add: opc opcode_lookup_STUX plain_ST)
    have "m_gen M opc a \<lparr>stk = spush u (spush ?N t), glb = g, wld = w\<rparr> = None" for u t g w
      by (cases u) (simp_all add: opc gen_sem prim_defs stack_calc st_u_def)
    then show ?thesis
      unfolding res using step wfn_STUX [OF w3(1), of M mul] assms(3) by (intro soundw) (auto simp: wfn_push hh)
  next
    assume opc: "opc = ''STIXR''"
    then show ?thesis using h gen_STIX by (simp add: cmd_text_def)
  qed
qed

end

end
