(* ===== verification/Peephole4Sound.thy ===== *)
theory Peephole4Sound
  imports Peephole3Sound
begin

text \<open>Soundness of the rules on four to six commands, of the slice pass, and of the four chains.\<close>

lemma int_split: "0 \<le> v \<Longrightarrow> \<exists>n. v = int n"
  by (metis nat_0_le)

context tvm
begin

lemma constslice_argument:
  assumes "wfn M mul (GenOpcode ''STSLICECONST'' a cm tk rt p)"
  obtains bits where "sliceToBitString a = Some bits" "m_gen M ''STSLICECONST'' a = app1 (st_bits bits [])"
proof -
  obtain bits where "sliceToBitString a = Some bits"
    using wfn_GenD(2) [OF assms] by (auto simp: documented_def doc_lookup doc_names_def)
  then show ?thesis using that gen_STSLICECONST by blast
qed

lemma addsub_view:
  assumes "isAddOrSub n"
  obtains opc a cm tk rt p where "n = GenOpcode opc a cm tk rt p" "opc \<noteq> ''NOT''"
    "m_gen M opc a = ari2 (\<lambda>x y. x + (if is_op n [''ADD''] then y else - y))"
  using assms unfolding isAddOrSub_def by (elim disjE is_op1E) (auto simp: gen_sem)

lemma r4_addsub_sound:
  assumes "r4_addsub c1 c2 c3 c4 = Some (Some res)" "wfn M mul c1" "wfn M mul c2" "wfn M mul c3" "wfn M mul c4"
  shows "sound M mul [c1, c2, c3, c4] res"
proof -
  obtain a b where p: "isPUSHINT c1" "pushintValue c1 = Some a" "isPUSHINT c3" "pushintValue c3 = Some b"
    and op: "isAddOrSub c2" "isAddOrSub c4"
    and res: "res = Result 4 [GenOpcode ''PUSHINT'' (toString ((if is_op c2 [''ADD''] then a else - a)
        + (if is_op c4 [''ADD''] then b else - b))) [] 0 1 True, GenOpcode ''ADD'' [] [] 2 1 False]"
    using assms(1) by (auto simp: r4_addsub_def bind_eq_Some_conv gen_simps Let_def split: if_splits)
  obtain m1 t1 r1 p1 where c1: "c1 = GenOpcode ''PUSHINT'' (toString a) m1 t1 r1 p1"
    by (rule pushint_view [OF p(1,2) assms(2)])
  obtain m3 t3 r3 p3 where c3: "c3 = GenOpcode ''PUSHINT'' (toString b) m3 t3 r3 p3"
    by (rule pushint_view [OF p(3,4) assms(4)])
  let ?a = "if is_op c2 [''ADD''] then a else - a" and ?b = "if is_op c4 [''ADD''] then b else - b"
  obtain o2 a2 m2 t2 r2 p2 where 2: "c2 = GenOpcode o2 a2 m2 t2 r2 p2" "o2 \<noteq> ''NOT''"
    "m_gen M o2 a2 = ari2 (\<lambda>x y. x + (if is_op c2 [''ADD''] then y else - y))"
    by (rule addsub_view [OF op(1)])
  obtain o4 a4 m4 t4 r4 p4 where 4: "c4 = GenOpcode o4 a4 m4 t4 r4 p4" "o4 \<noteq> ''NOT''"
    "m_gen M o4 a4 = ari2 (\<lambda>x y. x + (if is_op c4 [''ADD''] then y else - y))"
    by (rule addsub_view [OF op(2)])
  have run: "\<exists>x. stk s 0 = VInt x \<and> int257 (x + ?a + ?b) \<and>
      r = Norm (set_stk s (spush (VInt (x + ?a + ?b)) (sdrop 1 (stk s))))" if "run M [c1, c2, c3, c4] s r" for s r
    using that unfolding c1 c3 2(1) 4(1)
    by (auto simp: 2(2,3) [unfolded 2(1)] 4(2,3) [unfolded 4(1)] gen_sem prim_iffs ari_iffs stack_calc)
  show ?thesis
    unfolding res
  proof (rule soundw)
    fix s r
    assume "run M [c1, c2, c3, c4] s r"
    from run [OF this] obtain x where x: "stk s 0 = VInt x" "int257 (x + (?a + ?b))"
      "r = Norm (set_stk s (spush (VInt (x + (?a + ?b))) (sdrop 1 (stk s))))"
      unfolding add.assoc by blast
    then show "run M [GenOpcode ''PUSHINT'' (toString (?a + ?b)) [] 0 1 True, GenOpcode ''ADD'' [] [] 2 1 False] s r"
      by (simp add: gen_sem prim_iffs ari_iffs stack_calc del: if_split)
  qed (simp_all add: wfn_push wfn_new)
qed

lemma r4_slice_const_sound:
  assumes "r4_slice_const c1 c2 c3 c4 = Some (Some res)" "wfn M mul c1" "wfn M mul c2" "wfn M mul c3" "wfn M mul c4"
  shows "sound M mul [c1, c2, c3, c4] res"
proof -
  obtain b a2 m2 t2 r2 p2 a m3 t3 r3 p3 a4 m4 t4 r4 p4 x y slice where p: "isPlainPushSlice c1 = Some b"
    and c: "c2 = GenOpcode ''NEWC'' a2 m2 t2 r2 p2" "c3 = GenOpcode ''STSLICECONST'' a m3 t3 r3 p3"
      "c4 = GenOpcode ''STSLICE'' a4 m4 t4 r4 p4"
    and u: "sliceToBitString a = Some x" "sliceToBitString b = Some y" "unitBitStringToHex x y = Some slice"
    and s: "push_newc_store 4 slice = Some (Some res)"
    using assms(1)
    by (auto simp: r4_slice_const_def unitSlices_def bind_eq_Some_conv split: option.splits if_splits elim!: is_op1E)
  obtain bits v where b: "blob_bits b = Some bits" "v = VSlice bits [] \<or> v = VCell bits []"
    "\<And>d s r. run M (c1 # d) s r \<longleftrightarrow> run M d (set_stk s (spush v (stk s))) r"
    using cell_run [OF p assms(2)] by blast
  have bits: "bits = y" using blob_sliceD [OF b(1) u(2)] .
  show ?thesis
  proof (rule push_newc_store_sound [OF s u(3) bitstring_slice [OF u(1)] bitstring_slice [OF u(2)]])
    fix s r
    assume "run M [c1, c2, c3, c4] s r"
    then show "r = Norm (set_stk s (spush (VBuilder (x @ y) []) (stk s)))"
      using b(2) unfolding b(3) c
      by (auto simp: gen_sem gen_STSLICECONST [OF u(1)] prim_iffs st_bits_def mk_builder_def st_slice_def bits stack_calc
          split: if_splits)
  qed simp_all
qed

lemma r4_fits_sound:
  assumes "r4_fits c1 c2 c3 c4 = Some (Some res)" "wfn M mul c1" "wfn M mul c2" "wfn M mul c3" "wfn M mul c4"
  shows "sound M mul [c1, c2, c3, c4] res"
proof -
  obtain fit a m2 t2 r2 p2 m4 t4 r4 p4 x y where c: "isConstAdd c1" "isConstAdd c3"
    and fit: "fit = ''UFITS'' \<or> fit = ''FITS''"
    and c2: "c2 = GenOpcode fit a m2 t2 r2 p2" and c4: "c4 = GenOpcode fit a m4 t4 r4 p4"
    and xy: "getAddNum c1 = Some x" "getAddNum c3 = Some y" "-128 \<le> x + y" "x + y \<le> 127"
    and at: "r4_fits_at fit c1 c2 c3 c4 = Some (Some res)"
  proof -
    obtain fit where at: "fit \<in> set [''UFITS'', ''FITS'']" "r4_fits_at fit c1 c2 c3 c4 = Some (Some res)"
      and c: "isConstAdd c1" "isConstAdd c3"
      using assms(1) first_of_SomeD by (fastforce simp: r4_fits_def split: if_splits)
    then obtain a m2 t2 r2 p2 m4 t4 r4 p4 x y where "c2 = GenOpcode fit a m2 t2 r2 p2" "c4 = GenOpcode fit a m4 t4 r4 p4"
      "getAddNum c1 = Some x" "getAddNum c3 = Some y" "-128 \<le> x + y" "x + y \<le> 127"
      by (auto simp: r4_fits_at_def bind_eq_Some_conv split: if_splits elim!: is_op1E)
    then show ?thesis using that at c by simp
  qed
  have "fit \<in> set nat_ops" using fit by (auto simp: nat_ops_def)
  then obtain n where n: "a = toString (int n)" "int_fits (int n)"
    using nat_argument [OF assms(3) [unfolded c2]] by blast
  have f: "int_fits (x + y)" using xy by (intro small_fits) auto
  have res: "res = Result 4 [GenOpcode ''ADDCONST'' (toString (x + y)) [] 1 1 False, GenOpcode fit a [] 1 1 False]"
    using at fit xy by (auto simp: r4_fits_at_def c2 c4 n gen_simps split: if_splits)
  obtain o1 a1 m1 t1 r1 p1 where 1: "c1 = GenOpcode o1 a1 m1 t1 r1 p1" "o1 \<noteq> ''NOT''"
    "m_gen M o1 a1 = ari1 (\<lambda>z. z + x)"
    using constadd_view [OF c(1) xy(1) assms(2)] by blast
  obtain o3 a3 m3 t3 r3 p3 where 3: "c3 = GenOpcode o3 a3 m3 t3 r3 p3" "o3 \<noteq> ''NOT''"
    "m_gen M o3 a3 = ari1 (\<lambda>z. z + y)"
    using constadd_view [OF c(2) xy(2) assms(4)] by blast
  show ?thesis
    using fit unfolding res 1(1) 3(1) c2 c4 n(1)
    by (elim disjE; hypsubst; intro soundw)
      (auto simp: 1(2,3) 3(2,3) f gen_nat_arg [OF n(2)] gen_sem ari_iffs prim_iffs stack_calc wfn_new n(2) add.assoc
        split: if_splits)
qed

lemma stu_view:
  assumes "fetchInt (GenOpcode ''STU'' a cm tk rt p) = Some n" "wfn M mul (GenOpcode ''STU'' a cm tk rt p)"
  shows "m_gen M ''STU'' a = app2 (\<lambda>x b. st_u (nat n) b x)"
proof -
  obtain k where k: "a = toString (int k)" "int_fits (int k)"
    using nat_argument [OF assms(2)] by (auto simp: nat_ops_def)
  then have "n = int k" using assms(1) by (simp add: fetchInt_def)
  then show ?thesis using k by (simp add: gen_nat_arg)
qed

lemma r4_int_const_sound:
  assumes "r4_int_const c1 c2 c3 c4 = Some (Some res)" "wfn M mul c1" "wfn M mul c2" "wfn M mul c3" "wfn M mul c4"
  shows "sound M mul [c1, c2, c3, c4] res"
proof -
  obtain v n a2 m2 t2 r2 p2 a m3 t3 r3 p3 a4 m4 t4 r4 p4 x slice where p: "isPUSHINT c1" "pushintValue c1 = Some v"
    and c: "c2 = GenOpcode ''NEWC'' a2 m2 t2 r2 p2" "c3 = GenOpcode ''STSLICECONST'' a m3 t3 r3 p3"
      "c4 = GenOpcode ''STU'' a4 m4 t4 r4 p4" and n: "fetchInt c4 = Some n"
    and u: "sliceToBitString a = Some x" "unitBitStringToHex (x @ toBitString v (nat n)) [] = Some slice"
    and s: "push_newc_store 4 slice = Some (Some res)"
    using assms(1)
    by (auto simp: r4_int_const_def bind_eq_Some_conv split: option.splits if_splits elim!: is_op1E)
  obtain m1 t1 r1 p1 where c1: "c1 = GenOpcode ''PUSHINT'' (toString v) m1 t1 r1 p1"
    by (rule pushint_view [OF p assms(2)])
  note st = stu_view [OF n [unfolded c] assms(5) [unfolded c]]
  show ?thesis
  proof (rule push_newc_store_sound [OF s u(2)])
    fix s r
    assume "run M [c1, c2, c3, c4] s r"
    then show "r = Norm (set_stk s (spush (VBuilder ((x @ toBitString v (nat n)) @ []) []) (stk s)))"
      unfolding c1 c
      by (auto simp: st gen_sem gen_STSLICECONST [OF u(1)] prim_iffs st_bits_def mk_builder_def st_u_def stack_calc
          split: if_splits)
  qed (simp_all add: bitstring_slice [OF u(1)])
qed

lemma r4_slice_endc_sound:
  assumes "r4_slice_endc c1 c2 c3 c4 = Some (Some res)" "wfn M mul c1" "wfn M mul c2" "wfn M mul c3" "wfn M mul c4"
  shows "sound M mul [c1, c2, c3, c4] res"
proof -
  obtain b a2 m2 t2 r2 p2 a3 m3 t3 r3 p3 a4 m4 t4 r4 p4 where p: "isPlainPushSlice c1 = Some b"
    and c: "c2 = GenOpcode ''NEWC'' a2 m2 t2 r2 p2" "c3 = GenOpcode ''STSLICE'' a3 m3 t3 r3 p3"
      "c4 = GenOpcode ''ENDC'' a4 m4 t4 r4 p4" and res: "res = Result 4 [makePUSHREF b]"
    using assms(1) by (auto simp: r4_slice_endc_def split: option.splits if_splits elim!: is_op1E)
  obtain bits v where b: "blob_bits b = Some bits" "v = VSlice bits [] \<or> v = VCell bits []"
    "\<And>d s r. run M (c1 # d) s r \<longleftrightarrow> run M d (set_stk s (spush v (stk s))) r"
    using cell_run [OF p assms(2)] by blast
  show ?thesis
    unfolding res c
    by (rule soundw)
      (use b(2) in \<open>auto simp: b(3) gen_sem prim_iffs newc_store endc_def stack_calc
        run_PUSHREF [OF b(1)] wfn_PUSHREF [OF b(1)]\<close>)
qed

lemma r4_slice_stbrefr_sound:
  assumes "r4_slice_stbrefr c1 c2 c3 c4 = Some (Some res)" "wfn M mul c1" "wfn M mul c2" "wfn M mul c3" "wfn M mul c4"
  shows "sound M mul [c1, c2, c3, c4] res"
proof -
  obtain b a2 m2 t2 r2 p2 a3 m3 t3 r3 p3 a4 m4 t4 r4 p4 where p: "isPlainPushSlice c1 = Some b"
    and c: "c2 = GenOpcode ''NEWC'' a2 m2 t2 r2 p2" "c3 = GenOpcode ''STSLICE'' a3 m3 t3 r3 p3"
      "c4 = GenOpcode ''STBREFR'' a4 m4 t4 r4 p4"
    and res: "res = Result 4 [makePUSHREF b, GenOpcode ''STREFR'' [] [] 2 1 False]"
    using assms(1) by (auto simp: r4_slice_stbrefr_def gen_simps split: option.splits if_splits elim!: is_op1E)
  obtain bits v where b: "blob_bits b = Some bits" "v = VSlice bits [] \<or> v = VCell bits []"
    "\<And>d s r. run M (c1 # d) s r \<longleftrightarrow> run M d (set_stk s (spush v (stk s))) r"
    using cell_run [OF p assms(2)] by blast
  show ?thesis
    unfolding res c
    by (rule soundw)
      (use b(2) in \<open>auto simp: b(3) gen_sem prim_iffs newc_store endc_def st_ref_def st_bref_def stack_calc
        run_PUSHREF [OF b(1)] wfn_PUSHREF [OF b(1)] wfn_new\<close>)
qed

lemma st_u_zero: "n \<le> 256 \<Longrightarrow> st_u n b (VInt 0) = st_bits (replicate n (CHR ''0'')) [] b"
  by (simp add: st_u_def i1_def bits_const)

lemma st_bits_twice:
  "st_bits x [] b = Some c \<Longrightarrow> st_bits y [] c = Some d \<Longrightarrow> st_bits (x @ y) [] b = Some d"
  by (auto simp: st_bits_def mk_builder_def split: val.splits if_splits)

lemma r4_zero_stur_sound:
  assumes "r4_zero_stur c1 c2 c3 c4 = Some (Some res)" "wfn M mul c1" "wfn M mul c2" "wfn M mul c3" "wfn M mul c4"
  shows "sound M mul [c1, c2, c3, c4] res"
proof -
  obtain i j a2 m2 t2 r2 p2 a4 m4 t4 r4 p4 where p: "isPUSHINT c1" "pushintValue c1 = Some 0"
      "isPUSHINT c3" "pushintValue c3 = Some 0"
    and c: "c2 = GenOpcode ''STUR'' a2 m2 t2 r2 p2" "c4 = GenOpcode ''STUR'' a4 m4 t4 r4 p4"
    and ij: "fetchInt c2 = Some i" "fetchInt c4 = Some j" "i + j \<le> 256"
    and g: "gen (cmd_text ''STUR'' (toString (i + j))) = Some g \<Longrightarrow>
      res = Result 4 [GenOpcode ''PUSHINT'' (toString 0) [] 0 1 True, g]" for g
    using assms(1) by (auto simp: r4_zero_stur_def bind_eq_Some_conv gen_simps split: if_splits elim!: is_op1E)
  obtain m1 t1 r1 p1 where c1: "c1 = GenOpcode ''PUSHINT'' (toString 0) m1 t1 r1 p1"
    by (rule pushint_view [OF p(1,2) assms(2)])
  obtain m3 t3 r3 p3 where c3: "c3 = GenOpcode ''PUSHINT'' (toString 0) m3 t3 r3 p3"
    by (rule pushint_view [OF p(3,4) assms(4)])
  obtain k where k: "a2 = toString (int k)" "int_fits (int k)"
    using nat_argument [OF assms(3) [unfolded c]] by (auto simp: nat_ops_def)
  obtain l where l: "a4 = toString (int l)" "int_fits (int l)"
    using nat_argument [OF assms(5) [unfolded c]] by (auto simp: nat_ops_def)
  have kl: "i = int k" "j = int l" using ij k l by (simp_all add: c fetchInt_def)
  have f: "int_fits (int (k + l))" using ij(3) kl by (intro small_fits) auto
  have res: "res = Result 4 [GenOpcode ''PUSHINT'' (toString 0) [] 0 1 True,
      GenOpcode ''STUR'' (toString (int (k + l))) [] 2 1 False]"
    using g kl by (simp add: gen_simps flip: of_nat_add)
  have le: "k \<le> 256" "l \<le> 256" "k + l \<le> 256" using ij(3) kl by simp_all
  show ?thesis
    unfolding res c1 c3 c k(1) l(1)
  proof (rule soundw)
    fix s r
    assume "run M [GenOpcode ''PUSHINT'' (toString 0) m1 t1 r1 p1, GenOpcode ''STUR'' (toString (int k)) m2 t2 r2 p2,
      GenOpcode ''PUSHINT'' (toString 0) m3 t3 r3 p3, GenOpcode ''STUR'' (toString (int l)) m4 t4 r4 p4] s r"
    then obtain x y where "st_bits (replicate k (CHR ''0'')) [] (stk s 0) = Some x"
      "st_bits (replicate l (CHR ''0'')) [] x = Some y" "r = Norm (set_stk s (spush y (sdrop 1 (stk s))))"
      by (auto simp: gen_nat_arg [OF k(2)] gen_nat_arg [OF l(2)] gen_PUSHINT prim_iffs stack_calc st_u_zero le)
    then show "run M [GenOpcode ''PUSHINT'' (toString 0) [] 0 1 True,
        GenOpcode ''STUR'' (toString (int (k + l))) [] 2 1 False] s r"
      using st_bits_twice
      by (simp add: gen_nat_arg [OF f] gen_PUSHINT prim_iffs stack_calc st_u_zero [OF le(3)] replicate_add del: of_nat_add)
  qed (use wfn_new(27) [OF f] in \<open>simp_all add: wfn_push del: of_nat_add\<close>)
qed

lemma r4_unsingle_sound:
  assumes "r4_unsingle c1 c2 c3 c4 = Some (Some res)" "wfn M mul c1" "wfn M mul c2" "wfn M mul c3" "wfn M mul c4"
  shows "sound M mul [c1, c2, c3, c4] res"
proof -
  obtain a2 m2 t2 r2 p2 where p: "isPUSH c1 = Some 0" and c2: "c2 = GenOpcode ''ISNULL'' a2 m2 t2 r2 p2"
    and e: "isExc c3 [''THROWIF'']" "exc_arg c3 = toString GetOptionalException" and res: "res = Result 4 [c4]"
    using assms(1) by (auto simp: r4_unsingle_def bind_eq_Some_conv split: if_splits elim!: is_op1E)
  have c3: "c3 = TvmException False False True False (toString GetOptionalException)"
    using e by (cases c3) (auto simp: exc_opcode_iff)
  have 1: "stk_is c1 (spushs 0)" using isPUSH_view [OF p assms(2)] by auto
  show ?thesis
    unfolding res
  proof (rule soundw)
    fix s :: "'w st" and r :: "'w outcome"
    assume v: "visible r" and r: "run M [c1, c2, c3, c4] s r"
    from r have "r = Exc (Code (toString GetOptionalException)) None (wld s) \<or> run M [c4] s r"
      unfolding run_stk_is [OF 1] c2 c3
      by (auto simp: run_exc_if gen_sem prim_iffs spushs_def stack_calc cond_def simp del: run_Exc split: if_splits)
    then show "run M [c4] s r" using v by (auto simp: visible_def)
  qed (use assms(5) in simp_all)
qed

lemmas rules3_sound =
  r3_newc_rev_sound r3_dup_throw_drop_sound r3_newc_const_endc_sound r3_cmp_sound r3_mul_sound r3_div_sound
  r3_bool_newc_sti_sound r3_blkswap_pure_sound r3_null_isnull_sound r3_pure_blkpush_sound

lemma optimizeAt3_sound_at:
  assumes "optimizeAt3 c1 c2 c3 = Some (Some res)" "wfn M mul c1" "wfn M mul c2" "wfn M mul c3"
  shows "sound M mul [c1, c2, c3] res"
proof -
  have "\<exists>r \<in> set rules3. r c1 c2 c3 = Some (Some res)"
    using first_of_SomeD [OF assms(1) [unfolded optimizeAt3_def]] by auto
  then show ?thesis
    unfolding rules3_def bex_list by (elim disjE FalseE) (erule rules3_sound [OF _ assms(2-4)])+
qed

lemmas rules4_sound =
  r4_addsub_sound r4_slice_const_sound r4_fits_sound r4_int_const_sound r4_slice_endc_sound
  r4_zero_stur_sound r4_slice_stbrefr_sound r4_unsingle_sound

lemma optimizeAt4_sound_at:
  assumes "optimizeAt4 c1 c2 c3 c4 = Some (Some res)" "wfn M mul c1" "wfn M mul c2" "wfn M mul c3" "wfn M mul c4"
  shows "sound M mul [c1, c2, c3, c4] res"
proof -
  have "\<exists>r \<in> set rules4. r c1 c2 c3 c4 = Some (Some res)"
    using first_of_SomeD [OF assms(1) [unfolded optimizeAt4_def]] by auto
  then show ?thesis
    unfolding rules4_def bex_list by (elim disjE FalseE) (erule rules4_sound [OF _ assms(2-5)])+
qed

section \<open>Five and six commands\<close>

lemma r5_slices_sound:
  assumes "r5_slices c1 c2 c3 c4 c5 = Some (Some res)" "wfn M mul c1" "wfn M mul c2" "wfn M mul c3" "wfn M mul c4"
    "wfn M mul c5"
  shows "sound M mul [c1, c2, c3, c4, c5] res"
proof -
  obtain b1 b2 a3 m3 t3 r3 p3 a4 m4 t4 r4 p4 a5 m5 t5 r5 p5 x y slice
    where p: "isPlainPushSlice c1 = Some b1" "isPlainPushSlice c2 = Some b2"
    and c: "c3 = GenOpcode ''NEWC'' a3 m3 t3 r3 p3" "c4 = GenOpcode ''STSLICE'' a4 m4 t4 r4 p4"
      "c5 = GenOpcode ''STSLICE'' a5 m5 t5 r5 p5"
    and u: "sliceToBitString b2 = Some x" "sliceToBitString b1 = Some y" "unitBitStringToHex (x @ y) [] = Some slice"
    and s: "push_newc_store 5 slice = Some (Some res)"
    using assms(1) by (auto simp: r5_slices_def bind_eq_Some_conv split: option.splits if_splits elim!: is_op1E)
  obtain bits1 v1 where 1: "blob_bits b1 = Some bits1" "v1 = VSlice bits1 [] \<or> v1 = VCell bits1 []"
    "\<And>d s r. run M (c1 # d) s r \<longleftrightarrow> run M d (set_stk s (spush v1 (stk s))) r"
    using cell_run [OF p(1) assms(2)] by blast
  obtain bits2 v2 where 2: "blob_bits b2 = Some bits2" "v2 = VSlice bits2 [] \<or> v2 = VCell bits2 []"
    "\<And>d s r. run M (c2 # d) s r \<longleftrightarrow> run M d (set_stk s (spush v2 (stk s))) r"
    using cell_run [OF p(2) assms(3)] by blast
  have bits: "bits1 = y" "bits2 = x" using blob_sliceD [OF 1(1) u(2)] blob_sliceD [OF 2(1) u(1)] .
  show ?thesis
  proof (rule push_newc_store_sound [OF s u(3)])
    fix s r
    assume "run M [c1, c2, c3, c4, c5] s r"
    then show "r = Norm (set_stk s (spush (VBuilder ((x @ y) @ []) []) (stk s)))"
      using 1(2) 2(2) unfolding 1(3) 2(3) c
      by (auto simp: gen_sem prim_iffs st_bits_def mk_builder_def st_slice_def bits stack_calc split: if_splits)
  qed (simp_all add: bitstring_slice [OF u(1)] bitstring_slice [OF u(2)])
qed

lemma r5_int_slice_sound:
  assumes "r5_int_slice c1 c2 c3 c4 c5 = Some (Some res)" "wfn M mul c1" "wfn M mul c2" "wfn M mul c3" "wfn M mul c4"
    "wfn M mul c5"
  shows "sound M mul [c1, c2, c3, c4, c5] res"
proof -
  obtain v n b2 a3 m3 t3 r3 p3 a4 m4 t4 r4 p4 a5 m5 t5 r5 p5 x slice
    where p: "isPUSHINT c1" "pushintValue c1 = Some v" "isPlainPushSlice c2 = Some b2"
    and c: "c3 = GenOpcode ''NEWC'' a3 m3 t3 r3 p3" "c4 = GenOpcode ''STSLICE'' a4 m4 t4 r4 p4"
      "c5 = GenOpcode ''STU'' a5 m5 t5 r5 p5" and n: "fetchInt c5 = Some n"
    and u: "sliceToBitString b2 = Some x" "unitBitStringToHex (x @ toBitString v (nat n)) [] = Some slice"
    and s: "push_newc_store 5 slice = Some (Some res)"
    using assms(1) by (auto simp: r5_int_slice_def bind_eq_Some_conv split: option.splits if_splits elim!: is_op1E)
  obtain m1 t1 r1 p1 where c1: "c1 = GenOpcode ''PUSHINT'' (toString v) m1 t1 r1 p1"
    by (rule pushint_view [OF p(1,2) assms(2)])
  obtain bits v2 where 2: "blob_bits b2 = Some bits" "v2 = VSlice bits [] \<or> v2 = VCell bits []"
    "\<And>d s r. run M (c2 # d) s r \<longleftrightarrow> run M d (set_stk s (spush v2 (stk s))) r"
    using cell_run [OF p(3) assms(3)] by blast
  have bits: "bits = x" using blob_sliceD [OF 2(1) u(1)] .
  note st = stu_view [OF n [unfolded c] assms(6) [unfolded c]]
  show ?thesis
  proof (rule push_newc_store_sound [OF s u(2)])
    fix s r
    assume "run M [c1, c2, c3, c4, c5] s r"
    then show "r = Norm (set_stk s (spush (VBuilder ((x @ toBitString v (nat n)) @ []) []) (stk s)))"
      using 2(2) unfolding c1 c
      by (auto simp: 2(3) st gen_sem prim_iffs st_bits_def mk_builder_def st_slice_def st_u_def bits stack_calc split: if_splits)
  qed (simp_all add: bitstring_slice [OF u(1)])
qed

lemma optimizeAt5_sound_at:
  assumes "optimizeAt5 c1 c2 c3 c4 c5 = Some (Some res)" "wfn M mul c1" "wfn M mul c2" "wfn M mul c3" "wfn M mul c4"
    "wfn M mul c5"
  shows "sound M mul [c1, c2, c3, c4, c5] res"
proof -
  have "\<exists>r \<in> set rules5. r c1 c2 c3 c4 c5 = Some (Some res)"
    using first_of_SomeD [OF assms(1) [unfolded optimizeAt5_def]] by auto
  then show ?thesis
    unfolding rules5_def bex_list
    by (elim disjE FalseE) (erule r5_slices_sound [OF _ assms(2-6)] r5_int_slice_sound [OF _ assms(2-6)])+
qed

lemma optimizeAt6_sound_at:
  assumes "optimizeAt6 c1 c2 c3 c4 c5 c6 = Some (Some res)" "wfn M mul c1" "wfn M mul c2" "wfn M mul c3" "wfn M mul c4"
    "wfn M mul c5" "wfn M mul c6"
  shows "sound M mul [c1, c2, c3, c4, c5, c6] res"
proof -
  obtain b1 a2 m2 t2 r2 p2 a3 m3 t3 r3 p3 a4 m4 t4 r4 p4 a5 m5 t5 r5 p5 a6 m6 t6 r6 p6 x y slice
    where p: "isPlainPushSlice c1 = Some b1"
    and c: "c2 = GenOpcode ''NEWC'' a2 m2 t2 r2 p2" "c3 = GenOpcode ''STSLICE'' a3 m3 t3 r3 p3"
      "c4 = GenOpcode ''NEWC'' a4 m4 t4 r4 p4" "c5 = GenOpcode ''STSLICECONST'' a5 m5 t5 r5 p5"
      "c6 = GenOpcode ''STB'' a6 m6 t6 r6 p6"
    and u: "sliceToBitString b1 = Some y" "sliceToBitString a5 = Some x" "unitBitStringToHex x y = Some slice"
    and s: "push_newc_store 6 slice = Some (Some res)"
    using assms(1) by (auto simp: optimizeAt6_def bind_eq_Some_conv split: option.splits if_splits elim!: is_op1E)
  obtain bits v1 where 1: "blob_bits b1 = Some bits" "v1 = VSlice bits [] \<or> v1 = VCell bits []"
    "\<And>d s r. run M (c1 # d) s r \<longleftrightarrow> run M d (set_stk s (spush v1 (stk s))) r"
    using cell_run [OF p assms(2)] by blast
  have bits: "bits = y" using blob_sliceD [OF 1(1) u(1)] .
  show ?thesis
  proof (rule push_newc_store_sound [OF s u(3) bitstring_slice [OF u(2)] bitstring_slice [OF u(1)]])
    fix s r
    assume "run M [c1, c2, c3, c4, c5, c6] s r"
    then show "r = Norm (set_stk s (spush (VBuilder (x @ y) []) (stk s)))"
      using 1(2) unfolding 1(3) c
      by (auto simp: gen_sem gen_STSLICECONST [OF u(2)] prim_iffs st_bits_def mk_builder_def st_slice_def st_b_def bits stack_calc
          split: if_splits)
  qed simp_all
qed

section \<open>The slice pass\<close>

lemma zero_bits: "bitstring b \<Longrightarrow> list_all (\<lambda>ch. ch = CHR ''0'') b \<Longrightarrow> b = replicate (length b) (CHR ''0'')"
  by (simp add: list_all_iff replicate_length_same)

lemma optimizeSlice_sound_at:
  assumes "optimizeSlice c1 (Some c2) = Some (Some res)" "wfn M mul c1" "wfn M mul c2"
    and len: "\<And>b bits. isPlainPushSlice c1 = Some b \<Longrightarrow> sliceToBitString b = Some bits \<Longrightarrow> length bits \<le> 256"
  shows "sound M mul [c1, c2] res"
proof -
  obtain b a2 m2 t2 r2 p2 x where p: "isPlainPushSlice c1 = Some b" and c2: "c2 = GenOpcode ''STSLICER'' a2 m2 t2 r2 p2"
    and x: "sliceToBitString b = Some x"
    using assms(1) by (auto simp: optimizeSlice_def bind_eq_Some_conv split: option.splits if_splits elim!: is_op1E)
  obtain bits v where b: "blob_bits b = Some bits" "v = VSlice bits [] \<or> v = VCell bits []"
    "\<And>d s r. run M (c1 # d) s r \<longleftrightarrow> run M d (set_stk s (spush v (stk s))) r"
    using cell_run [OF p assms(2)] by blast
  have bits: "bits = x" using blob_sliceD [OF b(1) x] .
  note bx = bitstring_slice [OF x] and lx = len [OF p x]
  have f: "int_fits (int (length x))" using lx by (intro small_fits) auto
  have run: "\<exists>y. st_bits x [] (stk s 0) = Some y \<and> r = Norm (set_stk s (spush y (sdrop 1 (stk s))))"
    if "run M [c1, c2] s r" for s r
    using that b(2) unfolding b(3) c2 by (auto simp: gen_sem prim_iffs st_slice_def bits stack_calc)
  show ?thesis
  proof (cases "list_all (\<lambda>ch. ch = CHR ''0'') x")
    case True
    then have res: "res = Result 2 [GenOpcode ''PUSHINT'' (toString (int (length x))) [] 0 1 True,
        GenOpcode ''STZEROES'' [] [] 2 1 False]"
      using assms(1) p x by (simp add: optimizeSlice_def c2 gen_simps)
    show ?thesis
      unfolding res
      by (rule soundw, drule run, subst (asm) zero_bits [OF bx True])
        (use lx in \<open>auto simp: gen_sem prim_iffs st_zeroes_def stack_calc wfn_push wfn_new\<close>)
  next
    case False
    then have res: "res = Result 2 [GenOpcode ''PUSHINT'' (toString (toBigint x)) [] 0 1 True,
        GenOpcode ''STUR'' (toString (int (length x))) [] 2 1 False]"
      using assms(1) p x by (auto simp: optimizeSlice_def c2 gen_simps bind_eq_Some_conv Let_def split: if_splits)
    show ?thesis
      unfolding res
      by (rule soundw, drule run)
        (use lx toBigint_nonneg [of x] toBigint_less [of x] in
          \<open>auto simp: gen_nat_arg [OF f] gen_PUSHINT prim_iffs st_u_def toBitString_toBigint [OF bx] stack_calc wfn_push
            wfn_new(27) [OF f]\<close>)
  qed
qed

end

end
