(* ===== verification/Squasher.thy ===== *)
theory Squasher
  imports StackView
begin

text \<open>
  \<open>libsolidity/codegen/StackOpcodeSquasher.cpp\<close>: the permutation of the nine topmost stack slots that a
  sequence of stack instructions makes (\<open>StackState\<close>), the breadth-first search that tabulates the
  permutations of at most three instructions (\<open>init\<close>), and the reconstruction of a shortest sequence
  (\<open>recover\<close>). The static members \<open>m_dp\<close> and \<open>m_prev\<close> are the fields of a record; \<open>m_hash\<close> only serves
  the hash table and is left out.

  Main results: \<open>init\<close> terminates; \<open>steps\<close> is the least number of instructions that make a permutation,
  \<open>-1\<close> if three do not suffice; \<open>recover\<close> returns that many instructions with exactly that effect.
\<close>

section \<open>Permutations\<close>

type_synonym stack_state = "int list"

definition maxStackDepth :: nat where "maxStackDepth = 9"

definition startState :: stack_state where
  "startState = map int [0..<maxStackDepth]"

text \<open>\<open>std::reverse\<close> on the positions from \<open>b\<close> up to, not including, \<open>e\<close>.\<close>

definition reverse_range :: "nat \<Rightarrow> nat \<Rightarrow> 'a list \<Rightarrow> 'a list" where
  "reverse_range b e xs = take b xs @ rev (take (e - b) (drop b xs)) @ drop e xs"

definition swap_at :: "nat \<Rightarrow> nat \<Rightarrow> 'a list \<Rightarrow> 'a list" where
  "swap_at i j xs = xs[i := xs ! j, j := xs ! i]"

fun apply_state :: "node \<Rightarrow> stack_state \<Rightarrow> bool \<times> stack_state" where
  "apply_state (Stack p i j k) xs =
     (case p of
        BLKSWAP \<Rightarrow>
          if i + j > int maxStackDepth then (False, xs)
          else (True, reverse_range 0 (nat (j + i))
                 (reverse_range (nat j) (nat (j + i)) (reverse_range 0 (nat j) xs)))
      | REVERSE \<Rightarrow>
          if j + i > int maxStackDepth then (False, xs)
          else (True, reverse_range (nat j) (nat (j + i)) xs)
      | XCHG \<Rightarrow>
          if i \<ge> int maxStackDepth \<or> j \<ge> int maxStackDepth then (False, xs)
          else (True, swap_at (nat i) (nat j) xs)
      | _ \<Rightarrow> (False, xs))"
| "apply_state _ xs = (False, xs)"

section \<open>The tables\<close>

record squasher =
  m_dp :: "stack_state \<Rightarrow> int option"
  m_prev :: "stack_state \<Rightarrow> (stack_state \<times> node) option"

definition edges :: "node list" where
  "edges =
     (let D = int maxStackDepth
      in [Stack BLKSWAP down up (-1). down \<leftarrow> [1..D - 1], up \<leftarrow> [1..D - 1 - down]] @
         [Stack XCHG i j (-1). i \<leftarrow> [0..D - 1], j \<leftarrow> [i + 1..D - 1]] @
         [Stack REVERSE n i (-1). i \<leftarrow> [0..D - 1], n \<leftarrow> [2..D - i]])"

text \<open>One edge out of \<open>state\<close>: a new permutation enters the tables and the queue.\<close>

definition relax ::
    "stack_state \<Rightarrow> int \<Rightarrow> node \<Rightarrow> squasher \<times> stack_state list \<Rightarrow> squasher \<times> stack_state list" where
  "relax state nextDp e = (\<lambda>(T, q).
     let nextState = snd (apply_state e state)
     in if m_dp T nextState = None
        then (T\<lparr>m_dp := (m_dp T)(nextState \<mapsto> nextDp), m_prev := (m_prev T)(nextState \<mapsto> (state, e))\<rparr>,
              q @ [nextState])
        else (T, q))"

partial_function (option) bfs :: "squasher \<Rightarrow> stack_state list \<Rightarrow> squasher option" where
  "bfs T q =
     (case q of
        [] \<Rightarrow> Some T
      | state # q \<Rightarrow> do {
          d \<leftarrow> m_dp T state;
          if d + 1 = 4 then Some T
          else let (T', q') = fold (relax state (d + 1)) edges (T, q) in bfs T' q' })"

definition start_tables :: squasher where
  "start_tables = \<lparr>m_dp = [startState \<mapsto> 0], m_prev = Map.empty\<rparr>"

definition squash_init :: "squasher option" where
  "squash_init = bfs start_tables [startState]"

definition steps :: "squasher \<Rightarrow> stack_state \<Rightarrow> int" where
  "steps T state = (case m_dp T state of None \<Rightarrow> -1 | Some d \<Rightarrow> d)"

partial_function (option) recover_rev :: "squasher \<Rightarrow> stack_state \<Rightarrow> node list option" where
  "recover_rev T state =
     (if state = startState then Some []
      else do { (p, e) \<leftarrow> m_prev T state; c \<leftarrow> recover_rev T p; Some (e # c) })"

definition recover :: "squasher \<Rightarrow> stack_state \<Rightarrow> node list exc" where
  "recover T state = map_option rev (recover_rev T state)"

declare bfs.simps [code] recover_rev.simps [code]

section \<open>The effect of a permutation\<close>

lemma length_start: "length startState = maxStackDepth"
  by (simp add: startState_def)

lemma length_reverse_range [simp]: "e \<le> length xs \<Longrightarrow> b \<le> e \<Longrightarrow> length (reverse_range b e xs) = length xs"
  by (simp add: reverse_range_def)

lemma nth_reverse_range:
  assumes "b \<le> e" "e \<le> length xs" "k < length xs"
  shows "reverse_range b e xs ! k = (if b \<le> k \<and> k < e then xs ! (b + e - 1 - k) else xs ! k)"
proof -
  consider "k < b" | "b \<le> k" "k < e" | "e \<le> k" by linarith
  then show ?thesis
  proof cases
    case 2
    then have "rev (take (e - b) (drop b xs)) ! (k - b) = xs ! (b + (e - b - Suc (k - b)))"
      using assms by (simp add: rev_nth)
    moreover have "b + (e - b - Suc (k - b)) = b + e - 1 - k" using 2 by simp
    moreover have "k - b < e - b" using 2 by simp
    ultimately show ?thesis using 2 assms by (simp add: reverse_range_def nth_append)
  next
    case 3
    then have "\<not> k - b < e - b" using assms by simp
    then show ?thesis using 3 assms by (simp add: reverse_range_def nth_append)
  qed (use assms in \<open>simp_all add: reverse_range_def nth_append\<close>)
qed

lemma set_reverse_range: "b \<le> e \<Longrightarrow> set (reverse_range b e xs) = set xs"
proof -
  assume "b \<le> e"
  then have "xs = take b xs @ take (e - b) (drop b xs) @ drop e xs"
    by (metis append_take_drop_id drop_drop le_add_diff_inverse2)
  then have "set xs = set (take b xs) \<union> set (take (e - b) (drop b xs)) \<union> set (drop e xs)"
    by (metis set_append sup.assoc)
  then show ?thesis by (auto simp: reverse_range_def)
qed

text \<open>The stack in which slot \<open>k\<close> holds what was in slot \<open>xs ! k\<close>.\<close>

definition permuted :: "stack_state \<Rightarrow> stack \<Rightarrow> stack" where
  "permuted xs t = (\<lambda>k. if k < length xs then t (nat (xs ! k)) else t k)"

lemma permuted_start [simp]: "permuted startState t = t"
  by (auto simp: permuted_def startState_def)

lemma permuted_reverse:
  assumes "b \<le> e" "e \<le> length xs"
  shows "permuted (reverse_range b e xs) t = sreverse (e - b) b (permuted xs t)"
proof
  fix k
  have "2 * b + (e - b) - 1 - k = b + e - 1 - k" using assms by simp
  then show "permuted (reverse_range b e xs) t k = sreverse (e - b) b (permuted xs t) k"
    using assms nth_reverse_range [OF assms, of k] by (auto simp: permuted_def sreverse_def)
qed

lemma permuted_swap:
  assumes "i < length xs" "j < length xs"
  shows "permuted (swap_at i j xs) t = sxchg i j (permuted xs t)"
  using assms by (auto simp: permuted_def swap_at_def sxchg_def fun_eq_iff nth_list_update)

lemma sblkswap_reverse:
  "sreverse (u + d) 0 (sreverse d u (sreverse u 0 t)) = sblkswap d u t"
  by (auto simp: fun_eq_iff sreverse_def sblkswap_def intro!: stack_cong)

text \<open>An accepted instruction permutes the slots of the state as it permutes the stack.\<close>

lemma apply_state_effect:
  assumes "apply_state n xs = (True, ys)" "stk_wfn n" "length xs = maxStackDepth"
  shows "\<exists>f. stk_is n f \<and> (\<forall>t. f (permuted xs t) = permuted ys t)" and "length ys = maxStackDepth"
proof -
  obtain p i j k where n: "n = Stack p i j k" using assms(2) by (cases n) auto
  have "(\<exists>f. stk_is n f \<and> (\<forall>t. f (permuted xs t) = permuted ys t)) \<and> length ys = maxStackDepth"
  proof (cases p)
    case BLKSWAP
    then have ij: "1 \<le> i" "1 \<le> j" "i + j \<le> int maxStackDepth"
      and ys: "ys = reverse_range 0 (nat (j + i)) (reverse_range (nat j) (nat (j + i)) (reverse_range 0 (nat j) xs))"
      using assms by (auto simp: n stack_wf_def split: if_splits)
    then have le: "nat j \<le> nat (j + i)" "nat (j + i) \<le> length xs" "nat j \<le> length xs" using assms(3) by auto
    have "stk_is n (sblkswap (nat i) (nat j))"
      using ij by (auto simp: n BLKSWAP stack_ok_def stack_fun_def fun_eq_iff intro!: stk_isI)
    moreover have "sblkswap (nat i) (nat j) (permuted xs t) = permuted ys t" for t
    proof -
      have "permuted ys t = sreverse (nat (j + i)) 0
          (sreverse (nat (j + i) - nat j) (nat j) (sreverse (nat j) 0 (permuted xs t)))"
        using le by (simp add: ys permuted_reverse)
      moreover have "nat (j + i) = nat j + nat i" using ij by simp
      ultimately show ?thesis by (simp add: sblkswap_reverse)
    qed
    ultimately show ?thesis using le assms(3) by (auto simp: ys)
  next
    case REVERSE
    then have ij: "2 \<le> i" "0 \<le> j" "j + i \<le> int maxStackDepth" and ys: "ys = reverse_range (nat j) (nat (j + i)) xs"
      using assms by (auto simp: n stack_wf_def split: if_splits)
    then have le: "nat j \<le> nat (j + i)" "nat (j + i) \<le> length xs" using assms(3) by auto
    have "stk_is n (sreverse (nat i) (nat j))"
      using ij by (auto simp: n REVERSE stack_ok_def stack_fun_def fun_eq_iff intro!: stk_isI)
    moreover have "nat (j + i) - nat j = nat i" using ij by simp
    ultimately show ?thesis using permuted_reverse [OF le] le assms(3) by (auto simp: ys)
  next
    case XCHG
    then have ij: "0 \<le> i" "i \<le> j" "i < int maxStackDepth" "j < int maxStackDepth" and ys: "ys = swap_at (nat i) (nat j) xs"
      using assms by (auto simp: n stack_wf_def split: if_splits)
    have "stk_is n (sxchg (nat i) (nat j))"
      using ij by (auto simp: n XCHG stack_ok_def stack_fun_def fun_eq_iff intro!: stk_isI)
    then show ?thesis
      using permuted_swap [of "nat i" xs "nat j"] ij assms(3) by (auto simp: ys) (auto simp: swap_at_def)
  qed (use assms in \<open>auto simp: n\<close>)
  then show "\<exists>f. stk_is n f \<and> (\<forall>t. f (permuted xs t) = permuted ys t)" "length ys = maxStackDepth" by auto
qed

section \<open>Edges\<close>

definition succ_state :: "stack_state \<Rightarrow> node \<Rightarrow> stack_state" where
  "succ_state st e = snd (apply_state e st)"

definition made :: "node list \<Rightarrow> stack_state" where
  "made es = foldl succ_state startState es"

definition states :: "stack_state set" where
  "states = {xs. length xs = maxStackDepth \<and> set xs \<subseteq> set startState}"

lemma finite_states: "finite states"
proof -
  have "states = {xs. set xs \<subseteq> set startState \<and> length xs = maxStackDepth}" by (auto simp: states_def)
  moreover have "finite {xs. set xs \<subseteq> set startState \<and> length xs = maxStackDepth}"
    by (rule finite_lists_length_eq) simp
  ultimately show ?thesis by simp
qed

lemma start_state: "startState \<in> states"
  by (simp add: states_def startState_def)

lemma edge_wf: "e \<in> set edges \<Longrightarrow> stk_wfn e"
  by (auto simp: edges_def Let_def stack_wf_def)

lemma edge_applies: "e \<in> set edges \<Longrightarrow> apply_state e st = (True, succ_state st e)"
  by (auto simp: edges_def Let_def succ_state_def maxStackDepth_def)

lemma set_swap_at: "i < length xs \<Longrightarrow> j < length xs \<Longrightarrow> set (swap_at i j xs) \<subseteq> set xs"
  unfolding swap_at_def using set_update_subset_insert [of xs i "xs ! j"]
    set_update_subset_insert [of "xs[i := xs ! j]" j "xs ! i"] nth_mem [of i xs] nth_mem [of j xs] by blast

lemma succ_states:
  assumes "e \<in> set edges" "st \<in> states"
  shows "succ_state st e \<in> states"
proof -
  have len: "length (succ_state st e) = maxStackDepth"
    using apply_state_effect(2) [OF edge_applies [OF assms(1)] edge_wf [OF assms(1)]] assms(2) by (simp add: states_def)
  have "set (succ_state st e) \<subseteq> set st"
    using assms set_swap_at
    by (auto simp: edges_def Let_def succ_state_def maxStackDepth_def states_def set_reverse_range dest!: subsetD [OF set_swap_at, rotated -1])
  then show ?thesis using assms(2) len by (auto simp: states_def)
qed

section \<open>The search\<close>

text \<open>Every tabulated permutation has a predecessor one step closer to the identity.\<close>

definition tables_ok :: "squasher \<Rightarrow> bool" where
  "tables_ok T =
     (m_dp T startState = Some 0 \<and> dom (m_dp T) \<subseteq> states \<and>
      (\<forall>st d. m_dp T st = Some d \<longrightarrow> 0 \<le> d \<and>
         (st \<noteq> startState \<longrightarrow> 1 \<le> d \<and>
            (\<exists>p e. m_prev T st = Some (p, e) \<and> e \<in> set edges \<and> succ_state p e = st \<and> m_dp T p = Some (d - 1)))))"

lemma tables_okD:
  assumes "tables_ok T" "m_dp T st = Some d"
  shows "0 \<le> d" "st \<noteq> startState \<Longrightarrow> 1 \<le> d"
    "st \<noteq> startState \<Longrightarrow>
      \<exists>p e. m_prev T st = Some (p, e) \<and> e \<in> set edges \<and> succ_state p e = st \<and> m_dp T p = Some (d - 1)"
  using assms unfolding tables_ok_def by blast+

lemma relax_expand:
  "relax st d e (T, q) =
     (let st' = succ_state st e
      in if m_dp T st' = None
         then (T\<lparr>m_dp := (m_dp T)(st' \<mapsto> d), m_prev := (m_prev T)(st' \<mapsto> (st, e))\<rparr>, q @ [st'])
         else (T, q))"
  by (simp add: relax_def succ_state_def)

lemma relax_ok:
  assumes "tables_ok T" "m_dp T st = Some d" "e \<in> set edges" "m_dp T (succ_state st e) = None"
  shows "tables_ok (T\<lparr>m_dp := (m_dp T)(succ_state st e \<mapsto> d + 1),
      m_prev := (m_prev T)(succ_state st e \<mapsto> (st, e))\<rparr>)"
proof -
  have "st \<in> states" using assms(1,2) by (auto simp: tables_ok_def)
  then have "succ_state st e \<in> states" by (rule succ_states [OF assms(3)])
  then show ?thesis
    using assms unfolding tables_ok_def by (auto split: if_splits; metis option.distinct(1))
qed

definition explored :: "squasher \<Rightarrow> stack_state \<Rightarrow> int \<Rightarrow> node list \<Rightarrow> squasher \<Rightarrow> stack_state list \<Rightarrow> bool" where
  "explored T st d es T' new =
     (tables_ok T' \<and> m_dp T \<subseteq>\<^sub>m m_dp T' \<and> (\<forall>x \<in> set new. m_dp T' x = Some (d + 1)) \<and>
      (\<forall>x. x \<in> dom (m_dp T') \<longrightarrow> x \<in> dom (m_dp T) \<or> x \<in> set new) \<and>
      (\<forall>e \<in> set es. succ_state st e \<in> dom (m_dp T')) \<and> (new = [] \<longrightarrow> m_dp T' = m_dp T) \<and>
      (\<forall>x \<in> set new. x \<notin> dom (m_dp T)))"

lemma explore:
  assumes "tables_ok T" "m_dp T st = Some d" "set es \<subseteq> set edges"
  shows "\<exists>T' new. fold (relax st (d + 1)) es (T, q) = (T', q @ new) \<and> explored T st d es T' new"
  using assms
proof (induction es arbitrary: T q)
  case Nil
  then show ?case by (auto simp: explored_def)
next
  case (Cons e es)
  show ?case
  proof (cases "m_dp T (succ_state st e)")
    case (Some x)
    obtain T' new where "fold (relax st (d + 1)) es (T, q) = (T', q @ new)" "explored T st d es T' new"
      using Cons by force
    moreover from this Some have "succ_state st e \<in> dom (m_dp T')"
      by (auto simp: explored_def map_le_def dom_def)
    ultimately show ?thesis using Some by (auto simp: relax_expand explored_def)
  next
    case None
    let ?st' = "succ_state st e"
    let ?T = "T\<lparr>m_dp := (m_dp T)(?st' \<mapsto> d + 1), m_prev := (m_prev T)(?st' \<mapsto> (st, e))\<rparr>"
    have ok: "tables_ok ?T" using relax_ok [OF Cons(2,3) _ None] Cons(4) by simp
    have "st \<noteq> ?st'" using None Cons(3) by auto
    then have "m_dp ?T st = Some d" using Cons(3) by simp
    then obtain T' new where fold: "fold (relax st (d + 1)) es (?T, q @ [?st']) = (T', (q @ [?st']) @ new)"
      and ex: "explored ?T st d es T' new"
      using Cons.IH [OF ok, of "q @ [?st']"] Cons(4) by auto
    have le: "m_dp T \<subseteq>\<^sub>m m_dp ?T" using None by (auto simp: map_le_def)
    have "m_dp T' ?st' = Some (d + 1)" using ex by (auto simp: explored_def map_le_def dom_def)
    then have "explored T st d (e # es) T' (?st' # new)"
      using ex None map_le_trans [OF le, of "m_dp T'"] unfolding explored_def by (auto split: if_splits)
    then show ?thesis using fold None by (auto simp: relax_expand Let_def)
  qed
qed

text \<open>
  The queue is ordered by distance, no tabulated distance exceeds a queued one by more than one, and
  what has left the queue has all its successors in the table.
\<close>

definition dist :: "squasher \<Rightarrow> stack_state \<Rightarrow> int" where
  "dist T st = the (m_dp T st)"

definition closed_at :: "squasher \<Rightarrow> stack_state \<Rightarrow> bool" where
  "closed_at T st = (\<forall>e \<in> set edges. succ_state st e \<in> dom (m_dp T) \<and> dist T (succ_state st e) \<le> dist T st + 1)"

definition search_inv :: "squasher \<Rightarrow> stack_state list \<Rightarrow> bool" where
  "search_inv T q =
     (tables_ok T \<and> set q \<subseteq> dom (m_dp T) \<and> sorted_wrt (\<lambda>x y. dist T x \<le> dist T y) q \<and>
      (\<forall>x \<in> dom (m_dp T). \<forall>y \<in> set q. dist T x \<le> dist T y + 1) \<and>
      (\<forall>st \<in> dom (m_dp T) - set q. closed_at T st))"

lemma dist_mono: "m_dp T \<subseteq>\<^sub>m m_dp T' \<Longrightarrow> x \<in> dom (m_dp T) \<Longrightarrow> dist T' x = dist T x"
  by (simp add: dist_def map_le_def)

lemma closed_mono:
  assumes "m_dp T \<subseteq>\<^sub>m m_dp T'" "x \<in> dom (m_dp T)" "closed_at T x"
  shows "closed_at T' x"
proof -
  have "dom (m_dp T) \<subseteq> dom (m_dp T')" using assms(1) by (rule map_le_implies_dom_le)
  then show ?thesis
    using assms(2,3) dist_mono [OF assms(1)] unfolding closed_at_def by (metis subsetD)
qed

lemma search_step:
  assumes "search_inv T (st # q)" "m_dp T st = Some d" "explored T st d edges T' new"
  shows "search_inv T' (q @ new)"
proof -
  have le: "m_dp T \<subseteq>\<^sub>m m_dp T'" and ok: "tables_ok T'"
    and new: "\<And>x. x \<in> set new \<Longrightarrow> m_dp T' x = Some (d + 1)"
    and dom: "\<And>x. x \<in> dom (m_dp T') \<Longrightarrow> x \<in> dom (m_dp T) \<or> x \<in> set new"
    and succ: "\<And>e. e \<in> set edges \<Longrightarrow> succ_state st e \<in> dom (m_dp T')"
    using assms(3) by (auto simp: explored_def)
  have sub: "dom (m_dp T) \<subseteq> dom (m_dp T')" using le by (rule map_le_implies_dom_le)
  note old = dist_mono [OF le]
  have dnew: "dist T' x = d + 1" if "x \<in> set new" for x using new [OF that] by (simp add: dist_def)
  have inv: "set (st # q) \<subseteq> dom (m_dp T)" "sorted_wrt (\<lambda>x y. dist T x \<le> dist T y) (st # q)"
    and near: "\<And>x y. x \<in> dom (m_dp T) \<Longrightarrow> y \<in> set (st # q) \<Longrightarrow> dist T x \<le> dist T y + 1"
    and closed: "\<And>x. x \<in> dom (m_dp T) \<Longrightarrow> x \<notin> set (st # q) \<Longrightarrow> closed_at T x"
    using assms(1) unfolding search_inv_def by blast+
  have st: "dist T st = d" using assms(2) by (simp add: dist_def)
  have q: "d \<le> dist T' x \<and> dist T' x \<le> d + 1" if "x \<in> set q" for x
    using that inv near [of x st] old [of x] st by (auto simp: subset_iff)
  have all: "dist T' x \<le> d + 1" if "x \<in> dom (m_dp T')" for x
    using dom [OF that]
  proof
    assume "x \<in> dom (m_dp T)"
    then show ?thesis using near [of x st] old [of x] st by simp
  qed (simp add: dnew)
  have "set q \<subseteq> dom (m_dp T)" using inv(1) by simp
  then have 1: "set (q @ new) \<subseteq> dom (m_dp T')" unfolding set_append using sub new by (blast intro: domI)
  have "sorted_wrt (\<lambda>x y. dist T' x \<le> dist T' y) q"
    using inv old by (auto simp: subset_iff intro: sorted_wrt_mono_rel [rotated])
  moreover have "sorted_wrt (\<lambda>x y. dist T' x \<le> dist T' y) new"
    using dnew by (auto simp: sorted_wrt_iff_nth_less)
  ultimately have 2: "sorted_wrt (\<lambda>x y. dist T' x \<le> dist T' y) (q @ new)"
    using q dnew by (auto simp: sorted_wrt_append)
  have 3: "dist T' x \<le> dist T' y + 1" if "x \<in> dom (m_dp T')" "y \<in> set (q @ new)" for x y
    using all [OF that(1)] that(2) q [of y] dnew [of y] by auto
  have 4: "closed_at T' x" if "x \<in> dom (m_dp T')" "x \<notin> set (q @ new)" for x
  proof (cases "x = st")
    case True
    have "dist T' st = d" using st old [of st] inv(1) by simp
    then show ?thesis using succ all True by (auto simp: closed_at_def)
  next
    case False
    then have "x \<in> dom (m_dp T)" "x \<notin> set (st # q)" using dom [OF that(1)] that(2) by auto
    then show ?thesis using closed closed_mono [OF le] by blast
  qed
  show ?thesis unfolding search_inv_def using ok 1 2 3 4 by blast
qed

definition complete3 :: "squasher \<Rightarrow> bool" where
  "complete3 T = (\<forall>es. set es \<subseteq> set edges \<longrightarrow> length es \<le> 3 \<longrightarrow>
     made es \<in> dom (m_dp T) \<and> dist T (made es) \<le> int (length es))"

lemma complete3I:
  assumes "tables_ok T" "\<And>x. x \<in> dom (m_dp T) \<Longrightarrow> dist T x \<le> 2 \<Longrightarrow> closed_at T x"
  shows "complete3 T"
  unfolding complete3_def
proof (intro allI impI)
  fix es
  assume "set es \<subseteq> set edges" "length es \<le> 3"
  then show "made es \<in> dom (m_dp T) \<and> dist T (made es) \<le> int (length es)"
  proof (induction es rule: rev_induct)
    case Nil
    then show ?case using assms(1) by (auto simp: made_def tables_ok_def dist_def)
  next
    case (snoc e es)
    then have IH: "made es \<in> dom (m_dp T)" "dist T (made es) \<le> int (length es)" "length es \<le> 2" by auto
    then have "closed_at T (made es)" using assms(2) by force
    then have "succ_state (made es) e \<in> dom (m_dp T) \<and> dist T (succ_state (made es) e) \<le> dist T (made es) + 1"
      using snoc(2) by (auto simp: closed_at_def)
    then show ?case using IH by (simp add: made_def)
  qed
qed

lemma bfs_total:
  "search_inv T q \<Longrightarrow> \<exists>T'. bfs T q = Some T' \<and> tables_ok T' \<and> complete3 T'"
proof (induction "(T, q)" arbitrary: T q
    rule: wf_induct_rule [OF wf_measures [of "[\<lambda>(T, q). card (states - dom (m_dp T)), \<lambda>(T, q). length q]"]])
  case (1 T q)
  show ?case
  proof (cases q)
    case Nil
    then show ?thesis
      using 1(2) by (auto simp: bfs.simps [of T] search_inv_def intro!: complete3I)
  next
    case (Cons st q0)
    have ok: "tables_ok T" using 1(2) by (simp add: search_inv_def)
    obtain d where d: "m_dp T st = Some d" using 1(2) by (auto simp: search_inv_def Cons)
    show ?thesis
    proof (cases "d + 1 = 4")
      case True
      have "3 \<le> dist T y" if "y \<in> set q" for y
        using 1(2) that d True by (auto simp: search_inv_def Cons dist_def)
      then have "closed_at T x" if "x \<in> dom (m_dp T)" "dist T x \<le> 2" for x
        using 1(2) that by (force simp: search_inv_def)
      then have "complete3 T" using ok by (intro complete3I)
      then show ?thesis using True d ok by (simp add: bfs.simps [of T] Cons)
    next
      case False
      obtain T' new where f: "fold (relax st (d + 1)) edges (T, q0) = (T', q0 @ new)"
        and ex: "explored T st d edges T' new"
        using explore [OF ok d subset_refl] by blast
      have inv: "search_inv T' (q0 @ new)" using search_step [OF _ d ex] 1(2) Cons by simp
      have "((T', q0 @ new), (T, q)) \<in>
          measures [\<lambda>(T, q). card (states - dom (m_dp T)), \<lambda>(T, q). length q]"
      proof (cases "new = []")
        case True
        then show ?thesis using ex by (simp add: explored_def Cons)
      next
        case new: False
        then obtain x where x: "x \<in> set new" by (cases new) auto
        have "m_dp T' x = Some (d + 1)" "x \<notin> dom (m_dp T)" "dom (m_dp T') \<subseteq> states" "m_dp T \<subseteq>\<^sub>m m_dp T'"
          using ex x unfolding explored_def tables_ok_def by blast+
        then have "x \<in> dom (m_dp T')" "x \<notin> dom (m_dp T)" "dom (m_dp T) \<subseteq> dom (m_dp T')" "dom (m_dp T') \<subseteq> states"
          using map_le_implies_dom_le by blast+
        then have "states - dom (m_dp T') \<subset> states - dom (m_dp T)" by blast
        then have "card (states - dom (m_dp T')) < card (states - dom (m_dp T))"
          by (rule psubset_card_mono [rotated]) (simp add: finite_states)
        then show ?thesis by simp
      qed
      from 1(1) [OF this inv] show ?thesis
        using False d by (simp add: bfs.simps [of T] Cons f)
    qed
  qed
qed

lemma start_tables_ok: "tables_ok start_tables"
  by (simp add: start_tables_def tables_ok_def start_state)

lemma squash_init_total: "\<exists>T. squash_init = Some T \<and> tables_ok T \<and> complete3 T"
proof -
  have "search_inv start_tables [startState]"
    using start_tables_ok by (simp add: search_inv_def start_tables_def start_state)
  from bfs_total [OF this] show ?thesis by (simp add: squash_init_def)
qed

section \<open>Recovering the instructions\<close>

lemma recover_rev_ok:
  assumes "tables_ok T" "m_dp T st = Some d"
  shows "\<exists>c. recover_rev T st = Some c \<and> int (length c) = d \<and> set c \<subseteq> set edges \<and> made (rev c) = st"
  using assms(2)
proof (induction "nat d" arbitrary: st d)
  case 0
  note D = tables_okD [OF assms(1) 0(2)]
  have "st = startState" "d = 0" using D(1,2) 0(1) by (cases "st = startState"; simp)+
  then show ?case by (simp add: recover_rev.simps made_def)
next
  case (Suc n)
  then have "st \<noteq> startState" using assms(1) by (auto simp: tables_ok_def)
  then obtain p e where p: "m_prev T st = Some (p, e)" "e \<in> set edges" "succ_state p e = st" "m_dp T p = Some (d - 1)"
    using tables_okD(3) [OF assms(1) Suc(3)] by blast
  moreover obtain c where "recover_rev T p = Some c" "int (length c) = d - 1" "set c \<subseteq> set edges" "made (rev c) = p"
  proof -
    have "n = nat (d - 1)" using Suc(2) by simp
    then show thesis using Suc(1) [OF _ p(4)] that by blast
  qed
  ultimately show ?case
    using \<open>st \<noteq> startState\<close> by (auto simp: recover_rev.simps [of T st] made_def)
qed

lemma recover_ok:
  assumes "tables_ok T" "steps T st \<noteq> -1"
  obtains c where "recover T st = Some c" "int (length c) = steps T st" "set c \<subseteq> set edges" "made c = st"
proof -
  obtain d where d: "m_dp T st = Some d" using assms(2) by (auto simp: steps_def split: option.splits)
  then obtain c where "recover_rev T st = Some c" "int (length c) = d" "set c \<subseteq> set edges" "made (rev c) = st"
    using recover_rev_ok [OF assms(1)] by blast
  then show ?thesis using that [of "rev c"] d by (simp add: recover_def steps_def)
qed

lemma steps_least:
  assumes "tables_ok T" "complete3 T" "set es \<subseteq> set edges" "length es \<le> 3"
  shows "0 \<le> steps T (made es) \<and> steps T (made es) \<le> int (length es)"
proof -
  have d: "made es \<in> dom (m_dp T)" "dist T (made es) \<le> int (length es)"
    using assms(2-4) by (simp_all add: complete3_def)
  then obtain x where x: "m_dp T (made es) = Some x" by blast
  then show ?thesis using d(2) tables_okD(1) [OF assms(1) x] by (simp add: steps_def dist_def)
qed

text \<open>The recovered instructions have the effect of the permutation.\<close>

lemma made_effect:
  "set es \<subseteq> set edges \<Longrightarrow>
   length (made es) = maxStackDepth \<and> (\<exists>fs. list_all2 stk_is es fs \<and> (\<forall>t. comp_all fs t = permuted (made es) t))"
proof (induction es rule: rev_induct)
  case Nil
  then show ?case by (auto simp: made_def length_start)
next
  case (snoc e es)
  then obtain fs where fs: "list_all2 stk_is es fs" "\<And>t. comp_all fs t = permuted (made es) t"
    "length (made es) = maxStackDepth" by auto
  have e: "e \<in> set edges" using snoc(2) by simp
  obtain f where "stk_is e f" "\<And>t. f (permuted (made es) t) = permuted (succ_state (made es) e) t"
    "length (succ_state (made es) e) = maxStackDepth"
    using apply_state_effect [OF edge_applies [OF e] edge_wf [OF e] fs(3)] by blast
  then show ?case
    using fs by (auto simp: made_def comp_all_append intro!: exI [of _ "fs @ [f]"] list_all2_appendI)
qed

end
