(* ===== verification/PeepholeInf.thy ===== *)
theory PeepholeInf
  imports Peephole4Sound Squasher
begin

text \<open>
  \<open>PrivatePeepholeOptimizer::optimizeAtInf\<close>: the rules that look at any number of commands, in the order
  of the source. A loop of the source that goes from one command to the next by \<open>nextCommandLine\<close> is a
  recursion on the list of the commands from the current one on, line marks left out (\<open>commandsFrom\<close>).
  The tables of the squasher are an argument.
\<close>

section \<open>The end of a block\<close>

definition inf_last_ret :: "node list \<Rightarrow> result option exc" where
  "inf_last_ret cs =
     (case cs of
        [TvmReturn withIf _ withAlt] \<Rightarrow> if \<not> withIf \<and> \<not> withAlt then ret 1 [] else noResult
      | _ \<Rightarrow> noResult)"

definition inf_ifnotjmp :: "node list \<Rightarrow> result option exc" where
  "inf_ifnotjmp cs =
     (case cs of
        [TvmIfElse withNot withJmp t None _] \<Rightarrow>
          if withJmp \<and> withNot then
            (case instructions t of
               [a, b] \<Rightarrow>
                 if is_op a [''NULL''] \<and> isSWAP b
                 then do { g \<leftarrow> makeDROP 1; ret 1 [AsymGen ''NULLROTRIFNOT'', g] } else noResult
             | _ \<Rightarrow> noResult)
          else noResult
      | _ \<Rightarrow> noResult)"

section \<open>Constant stores\<close>

text \<open>The start of a chain of stores: a builder with a first constant, or none.\<close>

definition st_head :: "node list \<Rightarrow> (bool \<times> string \<times> int \<times> int \<times> node list) exc" where
  "st_head cs =
     (case cs of
        c1 # c2 # c3 # rest \<Rightarrow>
          (case isPlainPushSlice c1 of
             Some b \<Rightarrow>
               if is_op c2 [''NEWC''] \<and> is_op c3 [''STSLICE'']
               then do { x \<leftarrow> sliceToBitString b; Some (True, x, 3, 1, rest) }
               else Some (False, [], 0, 0, cs)
           | None \<Rightarrow>
               if isPUSHINT c1 \<and> is_op c2 [''NEWC''] \<and> is_op c3 [''STU'']
               then do { v \<leftarrow> pushintValue c1; n \<leftarrow> fetchInt c3; Some (True, toBitString v (nat n), 3, 1, rest) }
               else Some (False, [], 0, 0, cs))
      | _ \<Rightarrow> Some (False, [], 0, 0, cs))"

definition prepend :: "string \<Rightarrow> int \<Rightarrow> (string \<times> int \<times> int) exc \<Rightarrow> (string \<times> int \<times> int) exc" where
  "prepend x qty r = do { (bits, opcodeQty, iterQty) \<leftarrow> r; Some (x @ bits, opcodeQty + qty, iterQty + 1) }"

text \<open>The loop over the stores that follow: the bits, the number of commands, the number of rounds.\<close>

fun st_scan :: "node list \<Rightarrow> (string \<times> int \<times> int) exc" where
  "st_scan [] = Some ([], 0, 0)"
| "st_scan [c1] =
     (if is_op c1 [''STZERO''] then Some (''0'', 1, 1)
      else if is_op c1 [''STONE''] then Some (''1'', 1, 1)
      else if is_op c1 [''STSLICECONST'']
      then do { a \<leftarrow> argument c1; x \<leftarrow> sliceToBitString a; Some (x, 1, 1) }
      else Some ([], 0, 0))"
| "st_scan (c1 # c2 # cs) =
     (if is_op c1 [''STZERO''] then prepend ''0'' 1 (st_scan (c2 # cs))
      else if is_op c1 [''STONE''] then prepend ''1'' 1 (st_scan (c2 # cs))
      else if is_op c1 [''STSLICECONST'']
      then do { a \<leftarrow> argument c1; x \<leftarrow> sliceToBitString a; prepend x 1 (st_scan (c2 # cs)) }
      else if isPUSHINT c1 \<and> is_op c2 [''STUR'']
      then do { v \<leftarrow> pushintValue c1; n \<leftarrow> fetchInt c2; prepend (toBitString v (nat n)) 2 (st_scan cs) }
      else if isPUSHINT c1 \<and> is_op c2 [''STIR'']
      then do { v \<leftarrow> pushintValue c1; n \<leftarrow> fetchInt c2; prepend (toBitString v (nat n)) 2 (st_scan cs) }
      else if is_op c1 [''PUSHINT''] \<and> is_op c2 [''STZEROES'']
      then do { n \<leftarrow> fetchInt c1; _ \<leftarrow> solAssert (0 \<le> n); prepend (replicate (nat n) (CHR ''0'')) 2 (st_scan cs) }
      else (case isPlainPushSlice c1 of
              Some b \<Rightarrow>
                if is_op c2 [''STSLICER'']
                then do { x \<leftarrow> sliceToBitString b; prepend x 2 (st_scan cs) } else Some ([], 0, 0)
            | None \<Rightarrow> Some ([], 0, 0)))"

definition store_opcodes :: "string \<Rightarrow> node list exc" where
  "store_opcodes h = do {
     x \<leftarrow> sliceToBitString h;
     if length x \<le> MaxSTSLICECONST
     then do { g \<leftarrow> gen (cmd_text ''STSLICECONST'' h); Some [g] }
     else do { p \<leftarrow> genPushSlice h; g \<leftarrow> gen ''STSLICER''; Some [p, g] } }"

definition inf_store :: "node list \<Rightarrow> result option exc" where
  "inf_store cs = do {
     (withBuilder, bits0, qty0, iter0, rest) \<leftarrow> st_head cs;
     (bits, qty, iter) \<leftarrow> st_scan rest;
     let opcodeQty = qty0 + qty;
     let iterQty = iter0 + iter;
     slice \<leftarrow> unitBitStringToHex (bits0 @ bits) [];
     case slice of
       None \<Rightarrow> noResult
     | Some h \<Rightarrow> do {
         newc \<leftarrow> (if withBuilder then do { g \<leftarrow> gen ''NEWC''; Some [g] } else Some []);
         store \<leftarrow> store_opcodes h;
         let res = newc @ store;
         if opcodeQty > int (length res) \<or> (opcodeQty = int (length res) \<and> iterQty \<ge> 2)
         then ret opcodeQty res else noResult } }"

section \<open>Repeated stack instructions\<close>

definition inf_drops :: "node list \<Rightarrow> result option exc" where
  "inf_drops cs =
     (let ds = takeWhile (\<lambda>c. isDrop c \<noteq> None) cs
      in if length ds \<ge> 2
         then do { g \<leftarrow> makeDROP (sum_list (map (\<lambda>c. the (isDrop c)) ds)); ret (int (length ds)) [g] }
         else noResult)"

text \<open>This rule counts positions, line marks included.\<close>

definition inf_blkswap_cycle :: "node list \<Rightarrow> int \<Rightarrow> result option exc" where
  "inf_blkswap_cycle l idx1 =
     (case get l idx1 of
        None \<Rightarrow> noResult
      | Some cmd1 \<Rightarrow>
          (case isBLKSWAP cmd1 of
             None \<Rightarrow> noResult
           | Some (n, up) \<Rightarrow>
               if up = 1 \<and>
                  list_all (\<lambda>iter. case get l (idx1 + iter) of Some c \<Rightarrow> isBLKSWAP c = Some (n, 1) | None \<Rightarrow> False) [0..n]
               then ret (n + 1) [] else noResult))"

definition inf_pops :: "node list \<Rightarrow> result option exc" where
  "inf_pops cs =
     (case isPOP (hd cs) of
        None \<Rightarrow> noResult
      | Some n \<Rightarrow>
          if n \<ge> 2 \<and> int (length (take (nat n) cs)) = n \<and> list_all (\<lambda>c. isPOP c = Some n) (take (nat n) cs)
          then do { g \<leftarrow> makeBLKDROP2 n n; ret n [g] } else noResult)"

text \<open>The new pops of the reversed chain, with the slots they write, while the condition holds.\<close>

fun rev_pops :: "int \<Rightarrow> int \<Rightarrow> node list \<Rightarrow> (int list \<times> node list) option exc" where
  "rev_pops n i [] = Some (Some ([], []))"
| "rev_pops n i (c # cs) =
     (case isPOP c of
        None \<Rightarrow> None
      | Some si \<Rightarrow>
          let newSi = si + (n - 1 - 2 * i)
          in if newSi \<ge> n - i then do {
               g \<leftarrow> makePOP newSi;
               r \<leftarrow> rev_pops n (i + 1) cs;
               Some (map_option (\<lambda>(u, gs). ((newSi + i) # u, g # gs)) r) }
             else Some None)"

definition inf_reverse_pops :: "node list \<Rightarrow> result option exc" where
  "inf_reverse_pops cs =
     (case isREVERSE (hd cs) of
        None \<Rightarrow> noResult
      | Some (n, startIndex) \<Rightarrow>
          let pops = take (nat n) (tl cs)
          in if tl cs \<noteq> [] \<and> startIndex = 0 \<and> int (length pops) = n \<and> list_all (\<lambda>c. isPOP c \<noteq> None) pops then do {
               r \<leftarrow> rev_pops n 0 (rev pops);
               case r of
                 None \<Rightarrow> noResult
               | Some (uniqInds, newCmds) \<Rightarrow> if distinct uniqInds then ret (n + 1) newCmds else noResult }
             else noResult)"

fun rolls :: "int \<Rightarrow> node list \<Rightarrow> int" where
  "rolls targetUp [] = 0"
| "rolls targetUp (c # cs) = (if isBLKSWAP c = Some (1, targetUp) then 1 + rolls (targetUp + 1) cs else 0)"

definition inf_rolls :: "node list \<Rightarrow> result option exc" where
  "inf_rolls cs =
     (case isBLKSWAP (hd cs) of
        None \<Rightarrow> noResult
      | Some (down, up) \<Rightarrow>
          let qty = 1 + rolls (up + 1) (tl cs)
          in if down = 1 \<and> qty \<ge> 2
             then do { g \<leftarrow> makeBLKSWAP qty up; h \<leftarrow> makeREVERSE qty 0; ret qty [g, h] } else noResult)"

section \<open>Permutations of the stack\<close>

fun squash_scan ::
    "squasher \<Rightarrow> node list \<Rightarrow> stack_state \<Rightarrow> int \<Rightarrow> (int \<times> stack_state) option \<Rightarrow> (int \<times> stack_state) option" where
  "squash_scan T [] state qty best = best"
| "squash_scan T (c # cs) state qty best =
     (case apply_state c state of
        (False, _) \<Rightarrow> best
      | (True, state') \<Rightarrow>
          let s = steps T state'
          in squash_scan T cs state' (qty + 1)
               (if s \<noteq> -1 \<and> s < qty + 1 then Some (qty + 1, state') else best))"

definition inf_squash :: "squasher \<Rightarrow> node list \<Rightarrow> result option exc" where
  "inf_squash T cs =
     (case squash_scan T cs startState 0 None of
        None \<Rightarrow> noResult
      | Some (bestQty, bestState) \<Rightarrow> do { c \<leftarrow> recover T bestState; ret bestQty c })"

section \<open>Permutations of pure pushes\<close>

text \<open>
  The deque of pushes, the topmost first, each with the number of pushes below it when it was made;
  whether a permutation was absorbed; the number of commands read.
\<close>

fun perm_scan :: "node list \<Rightarrow> (node \<times> int) list \<Rightarrow> bool \<Rightarrow> int \<Rightarrow> (node \<times> int) list \<times> bool \<times> int" where
  "perm_scan [] D removed cnt = (D, removed, cnt)"
| "perm_scan (c # cs) D removed cnt =
     (let n = int (length D)
      in if isPureGen01 c then perm_scan cs ((c, n) # D) removed (cnt + 1)
         else case c of
           Stack p i j k \<Rightarrow>
             (case p of
                BLKSWAP \<Rightarrow>
                  if i + j \<le> n
                  then perm_scan cs (reverse_range 0 (nat (j + i))
                         (reverse_range 0 (nat j) (reverse_range (nat j) (nat (j + i)) D))) True (cnt + 1)
                  else (D, removed, cnt)
              | REVERSE \<Rightarrow>
                  if j < n \<and> j + i \<le> n
                  then perm_scan cs (reverse_range (nat j) (nat (j + i)) D) True (cnt + 1)
                  else (D, removed, cnt)
              | XCHG \<Rightarrow>
                  if i < n \<and> j < n then perm_scan cs (swap_at (nat i) (nat j) D) True (cnt + 1)
                  else (D, removed, cnt)
              | PUSH_S \<Rightarrow>
                  if i \<ge> n then perm_scan cs ((c, n) # D) removed (cnt + 1) else (D, removed, cnt)
              | _ \<Rightarrow> (D, removed, cnt))
         | _ \<Rightarrow> (D, removed, cnt))"

text \<open>Writing the pushes in their new order, the lowest first; \<open>k\<close> pushes are written already.\<close>

fun perm_emit :: "int \<Rightarrow> (node \<times> int) list \<Rightarrow> node list exc" where
  "perm_emit k [] = Some []"
| "perm_emit k ((c, stackSize) # D) = do {
     g \<leftarrow> (case isPUSH c of Some index \<Rightarrow> makePUSH (index - stackSize + k) | None \<Rightarrow> Some c);
     rest \<leftarrow> perm_emit (k + 1) D;
     Some (g # rest) }"

definition inf_perm :: "node list \<Rightarrow> result option exc" where
  "inf_perm cs =
     (let (D, removed, cnt) = perm_scan cs [] False 0
      in if removed then do { res \<leftarrow> perm_emit 0 (rev D); ret cnt res } else noResult)"

section \<open>The chain\<close>

definition optimizeAtInf :: "squasher \<Rightarrow> node list \<Rightarrow> int \<Rightarrow> result option exc" where
  "optimizeAtInf T l idx1 =
     (let cs = commandsFrom l idx1
      in first_of [
        inf_last_ret cs, inf_ifnotjmp cs, inf_store cs, inf_drops cs, inf_blkswap_cycle l idx1, inf_pops cs,
        inf_reverse_pops cs, inf_rolls cs, inf_squash T cs, inf_perm cs])"

end
