(* ===== verification/PeepholeInfSound.thy ===== *)
theory PeepholeInfSound
  imports PeepholeInf
begin

text \<open>
  Soundness of the rules of \<open>optimizeAtInf\<close>: a result removes a prefix of the commands from the
  current one on and keeps the outcomes; the two rules for the end of a block keep them up to the
  difference of \<open>RET\<close> and falling off the end.
\<close>

section \<open>Prefixes\<close>

lemma sound_prefix:
  assumes "refines M a c" "wf_list M mul c" "a \<noteq> []" "n = int (length a)"
  shows "sound M mul (a @ d) (Result n c)"
  using sound_extend [OF sound_window [OF assms]] .

lemma sound_take:
  assumes "refines M (take k w) c" "wf_list M mul c" "1 \<le> k" "k \<le> length w" "n = int k"
  shows "sound M mul w (Result n c)"
proof -
  have "take k w \<noteq> []" using assms(3,4) by (cases w) auto
  then have "sound M mul (take k w @ drop k w) (Result n c)"
    using assms by (intro sound_prefix) auto
  then show ?thesis by simp
qed

lemma wf_nth: "wf_list M mul c \<Longrightarrow> i < length c \<Longrightarrow> wfn M mul (c ! i)"
  by (simp add: wf_list_iff)

lemma list_all2_mapI:
  "length a = n \<Longrightarrow> (\<And>i. i < n \<Longrightarrow> stk_is (a ! i) (f i)) \<Longrightarrow> list_all2 stk_is a (map f [0..<n])"
  by (simp add: list_all2_conv_all_nth)

lemma comp_all_upt: "comp_all (map f [0..<Suc n]) t = f n (comp_all (map f [0..<n]) t)"
  by (simp add: comp_all_append)

section \<open>Repeated stack instructions\<close>

lemma rotations:
  "comp_all (map (\<lambda>_. sblkswap n 1) [0..<m]) t = (\<lambda>k. if k < n + 1 then t ((k + m) mod (n + 1)) else t k)"
proof (induction m)
  case (Suc m)
  have e: "sblkswap n 1 u k = (if k < n + 1 then u ((k + 1) mod (n + 1)) else u k)" for u k
    by (cases "k < n"; cases "k = n") (simp_all add: sblkswap_def)
  show ?case
    unfolding comp_all_upt Suc
    by (auto simp: e [unfolded One_nat_def] fun_eq_iff mod_simps intro!: stack_cong)
qed (simp add: fun_eq_iff)

lemma pops_block:
  "m \<le> n \<Longrightarrow> comp_all (map (\<lambda>_. spop n) [0..<m]) t =
     (\<lambda>k. if n - m \<le> k \<and> k < n then t (k - (n - m)) else t (k + m))"
proof (induction m)
  case (Suc m)
  then have ih: "comp_all (map (\<lambda>_. spop n) [0..<m]) t =
      (\<lambda>k. if n - m \<le> k \<and> k < n then t (k - (n - m)) else t (k + m))" by simp
  show ?case
    unfolding comp_all_upt ih using Suc.prems by (auto simp: spop_closed fun_eq_iff intro!: stack_cong)
qed (auto simp: fun_eq_iff)

lemma rolls_block:
  "comp_all (map (\<lambda>i. sblkswap 1 (u + i)) [0..<m]) t =
     (\<lambda>k. if k < m then t (u + m - 1 - k) else if k < m + u then t (k - m) else t k)"
proof (induction m)
  case (Suc m)
  show ?case
    unfolding comp_all_upt Suc by (auto simp: sblkswap_def fun_eq_iff intro!: stack_cong)
qed (simp add: fun_eq_iff)

lemma roll_reverse: "sreverse q 0 (sblkswap q u t) = comp_all (map (\<lambda>i. sblkswap 1 (u + i)) [0..<q]) t"
  unfolding rolls_block by (auto simp: sreverse_def sblkswap_def fun_eq_iff intro!: stack_cong)

lemma rolls_count:
  "\<exists>m. rolls u cs = int m \<and> m \<le> length cs \<and> (\<forall>i < m. isBLKSWAP (cs ! i) = Some (1, u + int i))"
proof (induction u cs rule: rolls.induct)
  case (2 u c cs)
  show ?case
  proof (cases "isBLKSWAP c = Some (1, u)")
    case True
    with 2 obtain m where m: "rolls (u + 1) cs = int m" "m \<le> length cs"
      "\<forall>i < m. isBLKSWAP (cs ! i) = Some (1, u + 1 + int i)" by blast
    have "isBLKSWAP ((c # cs) ! i) = Some (1, u + int i)" if "i < Suc m" for i
      using that m(3) True by (cases i) (auto simp: add.assoc)
    then show ?thesis using m(1,2) True by (intro exI [of _ "Suc m"]) auto
  qed simp
qed simp

text \<open>A chain of pops whose targets lie below the popped slots and are distinct.\<close>

lemma pops_effect:
  assumes "\<forall>i < length ds. length ds \<le> ds ! i + i"
    and "\<forall>i < length ds. \<forall>j < length ds. ds ! i + i = ds ! j + j \<longrightarrow> i = j"
  shows "(\<forall>i < length ds. comp_all (map spop ds) t (ds ! i + i - length ds) = t i) \<and>
    (\<forall>k. (\<forall>i < length ds. ds ! i + i \<noteq> k + length ds) \<longrightarrow> comp_all (map spop ds) t k = t (k + length ds))"
  using assms
proof (induction ds arbitrary: t)
  case (Cons d ds)
  let ?n = "length ds" and ?t = "spop d t"
  have low: "ds ! i + Suc i \<ge> Suc ?n" if "i < ?n" for i using Cons.prems(1) that by force
  have dist: "ds ! i + Suc i \<noteq> d" if "i < ?n" for i
    using Cons.prems(2) [rule_format, of "Suc i" 0] that by auto
  have inj: "i = j" if "i < ?n" "j < ?n" "ds ! i + i = ds ! j + j" for i j
    using Cons.prems(2) [rule_format, of "Suc i" "Suc j"] that by auto
  have d: "d \<ge> Suc ?n" using Cons.prems(1) by force
  have ih: "(\<forall>i < ?n. comp_all (map spop ds) ?t (ds ! i + i - ?n) = ?t i) \<and>
    (\<forall>k. (\<forall>i < ?n. ds ! i + i \<noteq> k + ?n) \<longrightarrow> comp_all (map spop ds) ?t k = ?t (k + ?n))"
    by (rule Cons.IH) (use low inj in force)+
  have "comp_all (map spop (d # ds)) t ((d # ds) ! i + i - Suc ?n) = t i" if i: "i < Suc ?n" for i
  proof (cases i)
    case 0
    have "ds ! j + j \<noteq> d - Suc ?n + ?n" if "j < ?n" for j using dist [OF that] d by arith
    then have "comp_all (map spop ds) ?t (d - Suc ?n) = ?t (d - Suc ?n + ?n)" using ih by blast
    then show ?thesis using 0 d by (simp add: spop_closed)
  next
    case (Suc j)
    then have "comp_all (map spop ds) ?t (ds ! j + j - ?n) = ?t j" using ih i by simp
    then show ?thesis using Suc i d by (simp add: spop_closed)
  qed
  moreover have "comp_all (map spop (d # ds)) t k = t (k + Suc ?n)"
    if "\<forall>i < Suc ?n. (d # ds) ! i + i \<noteq> k + Suc ?n" for k
  proof -
    have "ds ! i + i \<noteq> k + ?n" if "i < ?n" for i
      using \<open>\<forall>i < Suc ?n. _\<close> [rule_format, of "Suc i"] that by simp
    then have "comp_all (map spop ds) ?t k = ?t (k + ?n)" using ih by blast
    moreover have "d \<noteq> k + Suc ?n" using that [rule_format, of 0] by simp
    ultimately show ?thesis by (simp add: spop_closed)
  qed
  ultimately show ?case by simp
qed simp

lemma reverse_pops:
  assumes "length ds = n" "length es = n" "\<And>i. i < n \<Longrightarrow> es ! i + i = ds ! (n - 1 - i) + (n - 1 - i)"
    and low: "\<And>i. i < n \<Longrightarrow> n \<le> es ! i + i"
    and dist: "\<And>i j. i < n \<Longrightarrow> j < n \<Longrightarrow> es ! i + i = es ! j + j \<Longrightarrow> i = j"
  shows "comp_all (map spop ds) (sreverse n 0 t) = comp_all (map spop es) t"
proof
  fix k
  have de: "ds ! i + i = es ! (n - 1 - i) + (n - 1 - i)" if "i < n" for i
    using assms(3) [of "n - 1 - i"] that by simp
  have e: "\<forall>i < length es. length es \<le> es ! i + i"
    "\<forall>i < length es. \<forall>j < length es. es ! i + i = es ! j + j \<longrightarrow> i = j"
    using low dist assms(2) by auto
  have "i = j" if "i < n" "j < n" "ds ! i + i = ds ! j + j" for i j
    using dist [of "n - 1 - i" "n - 1 - j"] de that by simp
  moreover have "n \<le> ds ! i + i" if "i < n" for i using low [of "n - 1 - i"] de [OF that] that by simp
  ultimately have d: "\<forall>i < length ds. length ds \<le> ds ! i + i"
    "\<forall>i < length ds. \<forall>j < length ds. ds ! i + i = ds ! j + j \<longrightarrow> i = j"
    using assms(1) by auto
  note D = pops_effect [OF d, of "sreverse n 0 t"] and E = pops_effect [OF e, of t]
  show "comp_all (map spop ds) (sreverse n 0 t) k = comp_all (map spop es) t k"
  proof (cases "\<exists>i < n. ds ! i + i = k + n")
    case True
    then obtain i where i: "i < n" "ds ! i + i = k + n" by blast
    then have "comp_all (map spop ds) (sreverse n 0 t) k = t (n - 1 - i)"
      using D assms(1) by (auto simp: sreverse_def dest!: spec [of _ i])
    moreover have "comp_all (map spop es) t (es ! (n - 1 - i) + (n - 1 - i) - n) = t (n - 1 - i)"
      by (rule E [THEN conjunct1, unfolded assms(2), rule_format]) (use i(1) in simp)
    moreover have "es ! (n - 1 - i) + (n - 1 - i) - n = k" using de [OF i(1)] i(2) by simp
    ultimately show ?thesis by simp
  next
    case False
    have "es ! i + i \<noteq> k + n" if "i < n" for i
    proof -
      have "n - 1 - i < n" using that by simp
      then have "ds ! (n - 1 - i) + (n - 1 - i) \<noteq> k + n" using False by blast
      then show ?thesis using assms(3) [OF that] by simp
    qed
    then show ?thesis using False D E assms(1,2) by (simp add: sreverse_def)
  qed
qed

lemma drops_view:
  "wf_list M mul ds \<Longrightarrow> list_all (\<lambda>c. isDrop c \<noteq> None) ds \<Longrightarrow>
   \<exists>ns. list_all2 stk_is ds (map sdrop ns) \<and> sum_list (map (\<lambda>c. the (isDrop c)) ds) = int (sum_list ns)"
proof (induction ds)
  case (Cons c ds)
  then obtain ns where ns: "list_all2 stk_is ds (map sdrop ns)"
    "sum_list (map (\<lambda>c. the (isDrop c)) ds) = int (sum_list ns)" by auto
  obtain d where "isDrop c = Some (int d)" "stk_is c (sdrop d)"
    using Cons.prems isDrop_view [of c _ M mul] by auto
  then show ?case using ns by (intro exI [of _ "d # ns"]) simp
qed simp

lemma comp_drops: "comp_all (map sdrop ns) t = sdrop (sum_list ns) t"
  by (induction ns arbitrary: t) (auto simp: sdrop_def fun_eq_iff add.commute add.left_commute)

lemma inf_drops_sound:
  assumes "inf_drops cs = Some (Some res)" "wf_list M mul cs"
  shows "sound M mul cs res"
proof -
  let ?ds = "takeWhile (\<lambda>c. isDrop c \<noteq> None) cs"
  have len: "2 \<le> length ?ds" using assms(1) by (auto simp: inf_drops_def Let_def split: if_splits)
  then obtain g where g: "makeDROP (sum_list (map (\<lambda>c. the (isDrop c)) ?ds)) = Some g" "res = Result (int (length ?ds)) [g]"
    using assms(1) by (auto simp: inf_drops_def Let_def bind_eq_Some_conv split: if_splits)
  have "wf_list M mul ?ds" using assms(2) by (auto simp: wf_list_iff dest: set_takeWhileD)
  moreover have "list_all (\<lambda>c. isDrop c \<noteq> None) ?ds" by (auto simp: list_all_iff dest: set_takeWhileD)
  ultimately obtain ns where ns: "list_all2 stk_is ?ds (map sdrop ns)"
    "sum_list (map (\<lambda>c. the (isDrop c)) ?ds) = int (sum_list ns)" using drops_view by blast
  obtain d where d: "d = sum_list ns" "stk_is g (sdrop d)" "stk_wfn g" using makeDROP_view [OF g(1)] ns(2) by auto
  have "sound M mul (?ds @ dropWhile (\<lambda>c. isDrop c \<noteq> None) cs) res"
    unfolding g(2)
  proof (rule sound_prefix)
    show "refines M ?ds [g]"
      by (rule refines_stk_all [OF ns(1), of _ "[sdrop d]"]) (use d in \<open>auto simp: comp_drops\<close>)
  qed (use len stk_wfn_wfn [OF d(3)] in auto)
  then show ?thesis by simp
qed

lemma cycle_nodes:
  assumes "isBLKSWAP (l ! nat i) = Some (n, 1)" "0 \<le> i"
    "list_all (\<lambda>iter. case get l (i + iter) of Some c \<Rightarrow> isBLKSWAP c = Some (n, 1) | None \<Rightarrow> False) [0..n]"
    "n = int m"
  shows "m + 1 \<le> length (commandsFrom l i) \<and> (\<forall>k < m + 1. isBLKSWAP (commandsFrom l i ! k) = Some (n, 1))"
proof -
  have g: "valid l (i + int k) \<and> isBLKSWAP (l ! nat (i + int k)) = Some (n, 1)" if "k < m + 1" for k
  proof -
    have "int k \<in> set [0..n]" using that assms(4) by simp
    then show ?thesis using assms(3) by (auto simp: list_all_iff get_def split: if_splits)
  qed
  let ?w = "take (m + 1) (drop (nat i) l)"
  have len: "nat i + m + 1 \<le> length l" using g [of m] assms(2) by (auto simp: valid_def)
  have w: "isBLKSWAP (?w ! k) = Some (n, 1)" if "k < m + 1" for k
    using g [OF that] that len assms(2) by (simp add: nat_add_distrib)
  have "\<not> isLoc c" if "c \<in> set ?w" for c
    using that w len by (auto simp: in_set_conv_nth isLoc_def split: node.splits)
      (metis isBLKSWAP.simps(2) option.distinct(1))
  then have "unloc ?w = ?w" by (auto simp: unloc_def filter_id_conv)
  then have c: "commandsFrom l i = ?w @ unloc (drop (m + 1) (drop (nat i) l))"
    unfolding commandsFrom_def unloc_def by (metis append_take_drop_id filter_append)
  show ?thesis using w len unfolding c by (simp add: nth_append)
qed

lemma inf_blkswap_cycle_sound:
  assumes "inf_blkswap_cycle l i = Some (Some res)" "wf_list M mul l" "at_cmd l i"
  shows "sound M mul (commandsFrom l i) res"
proof -
  have i: "valid l i" "0 \<le> i" using assms(3) by (auto simp: at_cmd_def valid_def)
  obtain n where n: "isBLKSWAP (l ! nat i) = Some (n, 1)" "res = Result (n + 1) []"
    "list_all (\<lambda>iter. case get l (i + iter) of Some c \<Rightarrow> isBLKSWAP c = Some (n, 1) | None \<Rightarrow> False) [0..n]"
    using assms(1) i by (auto simp: inf_blkswap_cycle_def get_def split: option.splits if_splits)
  have wf: "wf_list M mul (commandsFrom l i)"
    using assms(2) by (auto simp: commandsFrom_def wf_unloc wf_list_take_drop)
  have "wfn M mul (l ! nat i)" using assms(2) i by (auto simp: valid_def intro!: wf_nth)
  then obtain m where m: "n = int m" using isBLKSWAP_view [OF n(1)] by blast
  note c = cycle_nodes [OF n(1) i(2) n(3) m]
  have "stk_is (commandsFrom l i ! k) (sblkswap m 1)" if "k < m + 1" for k
    using isBLKSWAP_view [of "commandsFrom l i ! k" n 1 M mul] c that wf_nth [OF wf] m by auto
  then have a: "list_all2 stk_is (take (m + 1) (commandsFrom l i)) (map (\<lambda>_. sblkswap m 1) [0..<m + 1])"
    using c by (intro list_all2_mapI) auto
  have "comp_all (map (\<lambda>_. sblkswap m 1) [0..<m + 1]) = comp_all []"
  proof (intro ext)
    fix t k
    have "k < m + 1 \<Longrightarrow> (k + (m + 1)) mod (m + 1) = k" by (simp only: mod_add_self2 mod_less)
    then show "comp_all (map (\<lambda>_. sblkswap m 1) [0..<m + 1]) t k = comp_all [] t k"
      unfolding rotations by simp
  qed
  with a have "refines M (take (m + 1) (commandsFrom l i)) []"
    by (rule refines_stk_all [OF _ list.rel_intros(1)])
  then show ?thesis
    unfolding n(2) m using c by (intro sound_take [of _ "m + 1"]) auto
qed

lemma inf_pops_sound:
  assumes "inf_pops cs = Some (Some res)" "wf_list M mul cs" "cs \<noteq> []"
  shows "sound M mul cs res"
proof -
  obtain n g where n: "isPOP (hd cs) = Some n" "n \<ge> 2" "int (length (take (nat n) cs)) = n"
      "list_all (\<lambda>c. isPOP c = Some n) (take (nat n) cs)"
    and g: "makeBLKDROP2 n n = Some g" "res = Result n [g]"
    using assms(1) by (auto simp: inf_pops_def bind_eq_Some_conv split: option.splits if_splits)
  define m where "m = nat n"
  have m: "n = int m" "2 \<le> m" "m \<le> length cs" using n by (auto simp: m_def)
  have "stk_is (cs ! k) (spop m)" if "k < m" for k
    using isPOP_view [of "cs ! k" n M mul] n(4) that m wf_nth [OF assms(2)]
    by (auto simp: list_all_length)
  then have a: "list_all2 stk_is (take m cs) (map (\<lambda>_. spop m) [0..<m])"
    using m by (intro list_all2_mapI) auto
  have g': "stk_is g (sblkdrop2 m m)" "stk_wfn g" using makeBLKDROP2_view [OF g(1)] m(1) by auto
  have "comp_all (map (\<lambda>_. spop m) [0..<m]) = comp_all [sblkdrop2 m m]"
    by (simp add: fun_eq_iff pops_block sblkdrop2_def)
  then have "refines M (take m cs) [g]" by (rule refines_stk_all [OF a, rotated]) (use g' in simp)
  then show ?thesis
    unfolding g(2) using m stk_wfn_wfn [OF g'(2)] by (intro sound_take [of _ m]) auto
qed

lemma inf_rolls_sound:
  assumes "inf_rolls cs = Some (Some res)" "wf_list M mul cs" "cs \<noteq> []"
  shows "sound M mul cs res"
proof -
  obtain c cs' where cs: "cs = c # cs'" using assms(3) by (cases cs) auto
  obtain up g h where u: "isBLKSWAP c = Some (1, up)" "1 + rolls (up + 1) cs' \<ge> 2"
    and g: "makeBLKSWAP (1 + rolls (up + 1) cs') up = Some g" "makeREVERSE (1 + rolls (up + 1) cs') 0 = Some h"
    and res: "res = Result (1 + rolls (up + 1) cs') [g, h]"
    using assms(1) by (auto simp: inf_rolls_def cs Let_def bind_eq_Some_conv split: option.splits if_splits)
  obtain m where m: "rolls up cs = int m" "m \<le> length cs" "\<forall>i < m. isBLKSWAP (cs ! i) = Some (1, up + int i)"
    using rolls_count by blast
  have q: "1 + rolls (up + 1) cs' = int m" using m(1) u(1) by (simp add: cs)
  obtain v where v: "up = int v" using isBLKSWAP_view [OF u(1), of M mul] assms(2) by (auto simp: cs)
  have "stk_is (cs ! k) (sblkswap 1 (v + k))" if "k < m" for k
  proof -
    have "wfn M mul (cs ! k)" "isBLKSWAP (cs ! k) = Some (1, int (v + k))"
      using wf_nth [OF assms(2), of k] m that v by simp_all
    from isBLKSWAP_view [OF this(2,1)] show ?thesis by (auto simp del: of_nat_add)
  qed
  then have a: "list_all2 stk_is (take m cs) (map (\<lambda>i. sblkswap 1 (v + i)) [0..<m])"
    using m by (intro list_all2_mapI) auto
  have gh: "stk_is g (sblkswap m v)" "stk_wfn g" "stk_is h (sreverse m 0)" "stk_wfn h"
    using makeBLKSWAP_view [OF g(1)] makeREVERSE_view [OF g(2)] q v by auto
  have "refines M (take m cs) [g, h]"
    by (rule refines_stk_all [OF a, of _ "[sblkswap m v, sreverse m 0]"]) (use gh in \<open>auto simp: roll_reverse\<close>)
  then show ?thesis
    unfolding res q using m u(2) q stk_wfn_wfn [OF gh(2)] stk_wfn_wfn [OF gh(4)]
    by (intro sound_take [of _ m]) auto
qed

section \<open>Pops after a reversal\<close>

lemma pops_view:
  "wf_list M mul cs \<Longrightarrow> list_all (\<lambda>c. isPOP c \<noteq> None) cs \<Longrightarrow>
   \<exists>ds. list_all2 stk_is cs (map spop ds) \<and> length ds = length cs \<and> (\<forall>k < length cs. isPOP (cs ! k) = Some (int (ds ! k)))"
proof (induction cs)
  case (Cons c cs)
  then obtain ds where ds: "list_all2 stk_is cs (map spop ds)" "length ds = length cs"
    "\<forall>k < length cs. isPOP (cs ! k) = Some (int (ds ! k))" by auto
  obtain d where d: "isPOP c = Some (int d)" "stk_is c (spop d)"
    using Cons.prems isPOP_view [of c _ M mul] by auto
  have "isPOP ((c # cs) ! k) = Some (int ((d # ds) ! k))" if "k < length (c # cs)" for k
    using that ds(3) d(1) by (cases k) auto
  then show ?case using ds(1,2) d(2) by (intro exI [of _ "d # ds"]) simp
qed simp

lemma rev_pops_view:
  "rev_pops n i cs = Some (Some (u, gs)) \<Longrightarrow>
   \<exists>es. list_all2 stk_is gs (map spop es) \<and> length es = length cs \<and> length u = length cs \<and> wf_list M mul gs \<and>
     (\<forall>k < length cs. u ! k = int (es ! k) + i + int k \<and> n \<le> u ! k \<and>
        isPOP (cs ! k) = Some (int (es ! k) - (n - 1 - 2 * (i + int k))))"
proof (induction n i cs arbitrary: u gs rule: rev_pops.induct)
  case (2 n i c cs)
  from 2(2) obtain si g u' gs' where c: "isPOP c = Some si" "si + (n - 1 - 2 * i) \<ge> n - i"
    and g: "makePOP (si + (n - 1 - 2 * i)) = Some g" and r: "rev_pops n (i + 1) cs = Some (Some (u', gs'))"
    and e: "u = (si + (n - 1 - 2 * i) + i) # u'" "gs = g # gs'"
    by (auto simp: Let_def bind_eq_Some_conv split: option.splits if_splits)
  obtain d where d: "si + (n - 1 - 2 * i) = int d" "stk_is g (spop d)" "stk_wfn g" using makePOP_view [OF g] by blast
  obtain es where es: "list_all2 stk_is gs' (map spop es)" "length es = length cs" "length u' = length cs" "wf_list M mul gs'"
    "\<forall>k < length cs. u' ! k = int (es ! k) + (i + 1) + int k \<and> n \<le> u' ! k \<and>
        isPOP (cs ! k) = Some (int (es ! k) - (n - 1 - 2 * (i + 1 + int k)))"
    using 2(1) [OF c(1) refl c(2) g r] by blast
  have "\<forall>k < length (c # cs). u ! k = int ((d # es) ! k) + i + int k \<and> n \<le> u ! k \<and>
      isPOP ((c # cs) ! k) = Some (int ((d # es) ! k) - (n - 1 - 2 * (i + int k)))"
  proof (intro allI impI)
    fix k
    assume "k < length (c # cs)"
    then show "u ! k = int ((d # es) ! k) + i + int k \<and> n \<le> u ! k \<and>
        isPOP ((c # cs) ! k) = Some (int ((d # es) ! k) - (n - 1 - 2 * (i + int k)))"
      using c d(1) es(5) [rule_format, of "k - 1"] by (cases k) (simp_all add: e algebra_simps)
  qed
  moreover have "list_all2 stk_is gs (map spop (d # es))" "length (d # es) = length (c # cs)"
    "length u = length (c # cs)" "wf_list M mul gs"
    using es(1-4) d(2) by (simp_all add: e stk_wfn_wfn [OF d(3)])
  ultimately show ?case by blast
qed simp

lemma inf_reverse_pops_sound:
  assumes "inf_reverse_pops cs = Some (Some res)" "wf_list M mul cs" "cs \<noteq> []"
  shows "sound M mul cs res"
proof -
  obtain c cs' where cs: "cs = c # cs'" using assms(3) by (cases cs) auto
  obtain n u gs where n: "isREVERSE c = Some (n, 0)" "int (length (take (nat n) cs')) = n"
      "list_all (\<lambda>c. isPOP c \<noteq> None) (take (nat n) cs')"
    and r: "rev_pops n 0 (rev (take (nat n) cs')) = Some (Some (u, gs))" "distinct u" "res = Result (n + 1) gs"
    using assms(1) by (auto simp: inf_reverse_pops_def cs Let_def bind_eq_Some_conv split: option.splits if_splits prod.splits)
  define m where "m = nat n"
  let ?w = "take m cs'"
  have m: "n = int m" "m \<le> length cs'" and w: "length ?w = m" using n(2) by (auto simp: m_def)
  have wf: "wfn M mul c" "wf_list M mul ?w" using assms(2) by (simp_all add: cs wf_list_take_drop)
  have c: "stk_is c (sreverse m 0)" using isREVERSE_view [OF n(1) wf(1)] m(1) by auto
  obtain ds where ds: "list_all2 stk_is ?w (map spop ds)" "length ds = m"
    "\<And>k. k < m \<Longrightarrow> isPOP (?w ! k) = Some (int (ds ! k))"
    using pops_view [OF wf(2)] n(3) w by (auto simp: m_def)
  obtain es where es: "list_all2 stk_is gs (map spop es)" "length es = m" "length u = m" "wf_list M mul gs"
    and e: "\<And>k. k < m \<Longrightarrow> u ! k = int (es ! k) + int k \<and> n \<le> u ! k \<and>
        isPOP (rev ?w ! k) = Some (int (es ! k) - (n - 1 - 2 * int k))"
  proof -
    have "length (rev (take (nat n) cs')) = m" using w by (simp add: m_def)
    from rev_pops_view [OF r(1), of M mul, unfolded this] show thesis
      using that by (simp add: m_def [symmetric]) blast
  qed
  have "comp_all (map spop ds) (sreverse m 0 t) = comp_all (map spop es) t" for t
  proof (rule reverse_pops [OF ds(2) es(2)])
    fix i j
    assume i: "i < m"
    have "rev ?w ! i = ?w ! (m - 1 - i)" using i w by (simp add: rev_nth)
    then have "int (ds ! (m - 1 - i)) = int (es ! i) - (int m - 1 - 2 * int i)"
      using e [OF i] ds(3) [of "m - 1 - i"] i m(1) by simp
    then show "es ! i + i = ds ! (m - 1 - i) + (m - 1 - i)" using i by linarith
    show "m \<le> es ! i + i" using e [OF i] m(1) by linarith
    assume "j < m" "es ! i + i = es ! j + j"
    then show "i = j" using e [OF i] e [of j] r(2) i es(3) nth_eq_iff_index_eq by (metis of_nat_add)
  qed
  then have "refines M (c # ?w) gs"
    using c ds(1) es(1) by (intro refines_stk_all [of "c # ?w" "sreverse m 0 # map spop ds" gs "map spop es"]) auto
  then have "refines M (take (m + 1) cs) gs" by (simp add: cs)
  then show ?thesis unfolding r(3) using m es(4) by (intro sound_take [of _ "m + 1"]) (simp_all add: cs)
qed

section \<open>Permutations of the stack\<close>

lemma squash_scan_view:
  assumes "squash_scan T cs st (int (length pre)) best = Some (q, st')" "wf_list M mul cs"
    and "list_all2 stk_is pre fs" "\<And>t. comp_all fs t = permuted st t" "length st = maxStackDepth"
  shows "best = Some (q, st') \<or>
    (\<exists>m gs. q = int (length pre + m) \<and> 1 \<le> m \<and> m \<le> length cs \<and> steps T st' \<noteq> -1 \<and> list_all2 stk_is (pre @ take m cs) gs
       \<and> (\<forall>t. comp_all gs t = permuted st' t))"
  using assms
proof (induction cs arbitrary: st pre best fs)
  case (Cons c cs)
  show ?case
  proof (cases "apply_state c st")
    case (Pair b st1)
    show ?thesis
    proof (cases b)
      case False
      then show ?thesis using Cons.prems(1) by (simp add: Pair)
    next
      case True
      have "stk_wfn c" using Pair True Cons.prems(2) by (cases c) auto
      then obtain f where f: "stk_is c f" "\<And>t. f (permuted st t) = permuted st1 t" "length st1 = maxStackDepth"
        using apply_state_effect [of c st st1] Pair True Cons.prems(5) by auto
      let ?fs = "fs @ [f]" and ?pre = "pre @ [c]"
      have l: "list_all2 stk_is ?pre ?fs" "\<And>t. comp_all ?fs t = permuted st1 t"
        using Cons.prems(3,4) f(1,2) by (auto simp: comp_all_append intro: list_all2_appendI)
      let ?best = "if steps T st1 \<noteq> -1 \<and> steps T st1 < int (length ?pre) then Some (int (length ?pre), st1) else best"
      have s: "squash_scan T cs st1 (int (length ?pre)) ?best = Some (q, st')"
        using Cons.prems(1) by (auto simp: Pair True Let_def add.commute split: if_splits)
      have "?best = Some (q, st') \<or>
        (\<exists>m gs. q = int (length ?pre + m) \<and> 1 \<le> m \<and> m \<le> length cs \<and> steps T st' \<noteq> -1 \<and>
           list_all2 stk_is (?pre @ take m cs) gs \<and> (\<forall>t. comp_all gs t = permuted st' t))"
        using Cons.IH [OF s _ l f(3)] Cons.prems(2) by simp
      then show ?thesis
      proof (elim disjE exE conjE)
        assume "?best = Some (q, st')"
        then show ?thesis
        proof (cases "best = Some (q, st')")
          case False
          with \<open>?best = _\<close> have "q = int (length ?pre)" "st' = st1" "steps T st1 \<noteq> -1" by (auto split: if_splits)
          then show ?thesis using l by (intro disjI2 exI [of _ 1] exI [of _ ?fs]) auto
        qed simp
      next
        fix m gs
        assume "q = int (length ?pre + m)" "1 \<le> m" "m \<le> length cs" "steps T st' \<noteq> -1"
          "list_all2 stk_is (?pre @ take m cs) gs" "\<forall>t. comp_all gs t = permuted st' t"
        then show ?thesis by (intro disjI2 exI [of _ "Suc m"] exI [of _ gs]) auto
      qed
    qed
  qed
qed simp

lemma inf_squash_sound:
  assumes "inf_squash T cs = Some (Some res)" "wf_list M mul cs" "tables_ok T"
  shows "sound M mul cs res"
proof -
  obtain q st c where q: "squash_scan T cs startState 0 None = Some (q, st)" "recover T st = Some c" "res = Result q c"
    using assms(1) by (auto simp: inf_squash_def bind_eq_Some_conv split: option.splits)
  obtain m gs where m: "q = int m" "1 \<le> m" "m \<le> length cs" "steps T st \<noteq> -1"
    "list_all2 stk_is (take m cs) gs" "\<And>t. comp_all gs t = permuted st t"
    using squash_scan_view [of T cs startState "[]" None q st M mul "[]"] q(1) assms(2) length_start by auto
  have c: "set c \<subseteq> set edges" "made c = st" using recover_ok [OF assms(3) m(4)] q(2) by auto
  then obtain fs where fs: "list_all2 stk_is c fs" "\<And>t. comp_all fs t = permuted st t" using made_effect by blast
  have "refines M (take m cs) c" by (rule refines_stk_all [OF m(5) fs(1)]) (simp add: fun_eq_iff m(6) fs(2))
  moreover have "wf_list M mul c" using c(1) by (auto simp: wf_list_iff intro!: stk_wfn_wfn edge_wf)
  ultimately show ?thesis unfolding q(3) using m by (intro sound_take [of _ m]) auto
qed

end
