(* ===== verification/PeepholeInfStore.thy ===== *)
theory PeepholeInfStore
  imports PeepholeInfSound
begin

text \<open>
  Soundness of the remaining rules of \<open>optimizeAtInf\<close>, those that store constants in a builder, those
  that reorder pure pushes and those at the end of a block, and of the whole chain.
\<close>

section \<open>The text of a slice\<close>

lemma hex_val_sep: "is_space c \<or> c = CHR '';'' \<Longrightarrow> hex_val c = None"
  unfolding is_space_def mem_list by (elim disjE FalseE) (simp_all add: hex_val_def isdigit_def)

lemma hex_val_plain: "hex_val c = Some v \<Longrightarrow> \<not> is_space c \<and> c \<noteq> CHR '';''"
  using hex_val_sep by force

lemma slice_digits_plain: "slice_digits s = Some b \<Longrightarrow> plain s"
proof (induction s arbitrary: b rule: slice_digits.induct)
  case (3 c d s)
  obtain v where c: "hex_val c = Some v" using 3(2) by (auto simp: bind_eq_Some_conv split: if_splits)
  have "plain (d # s)"
  proof (cases "s = [] \<and> d = CHR ''_''")
    case False
    then obtain r where "slice_digits (d # s) = Some r" using 3(2) c by (auto simp: bind_eq_Some_conv)
    then show ?thesis using 3(1) [OF False] c by blast
  qed (simp add: plain_Cons is_space_def)
  then show ?case using hex_val_plain [OF c] by (simp add: plain_Cons)
qed (auto simp: bind_eq_Some_conv plain_Cons dest!: hex_val_plain)

lemma arg_ok_unit:
  assumes "unitBitStringToHex x y = Some (Some h)" "bitstring x" "bitstring y"
  shows "arg_ok h"
proof -
  obtain d where h: "h = CHR ''x'' # d"
    using assms(1) by (auto simp: unitBitStringToHex_def Let_def bind_eq_Some_conv split: if_splits)
  have "slice_digits d = Some (x @ y)" using unit_roundtrip(1) [OF assms] by (simp add: h sliceToBitString_def)
  then have "plain h" using slice_digits_plain by (simp add: h plain_Cons is_space_def)
  moreover have "read_nat k h = None" for k
    by (simp add: h read_nat_def digit_val_def isdigit_def)
  moreover from this have "bigint_of h = None" "lexical_cast_int h = None"
    by (auto simp: h bigint_of_def bigint_of_nat_text_def lexical_cast_int_def split: list.splits)
  moreover from this \<open>plain h\<close> have "strToInt h = None" by (simp add: strToInt_def)
  ultimately show ?thesis using plain_no_sep [of h] by (simp add: arg_ok_def)
qed

section \<open>Chains of stores\<close>

lemma bitstring_replicate: "bitstring (replicate n (CHR ''0''))"
  by (induction n) auto

text \<open>Running \<open>c\<close> appends \<open>bits\<close> to the builder on top of the stack.\<close>

definition stores :: "'w machine \<Rightarrow> node list \<Rightarrow> string \<Rightarrow> bool" where
  "stores M c bits =
     (\<forall>s r. run M c s r \<longrightarrow>
        (\<exists>v. st_bits bits [] (stk s 0) = Some v \<and> r = Norm (set_stk s (spush v (sdrop 1 (stk s))))))"

lemma storesI:
  "(\<And>s r. run M c s r \<Longrightarrow> \<exists>v. st_bits bits [] (stk s 0) = Some v \<and> r = Norm (set_stk s (spush v (sdrop 1 (stk s))))) \<Longrightarrow>
   stores M c bits"
  by (simp add: stores_def)

context tvm
begin

lemma stores_append:
  assumes "stores M a x" "stores M b y"
  shows "stores M (a @ b) (x @ y)"
proof (rule storesI)
  fix s r
  assume r: "run M (a @ b) s r"
  obtain v where v: "st_bits x [] (stk s 0) = Some v" "run M b (set_stk s (spush v (sdrop 1 (stk s)))) r"
    using r assms(1) unfolding run_append stores_def by fastforce
  then obtain u where "st_bits y [] v = Some u" "r = Norm (set_stk s (spush u (sdrop 1 (stk s))))"
    using assms(2) unfolding stores_def by (fastforce simp: stack_calc)
  then show "\<exists>v. st_bits (x @ y) [] (stk s 0) = Some v \<and> r = Norm (set_stk s (spush v (sdrop 1 (stk s))))"
    using st_bits_twice [OF v(1)] by blast
qed

lemma store_const:
  "stores M [GenOpcode ''STZERO'' a cm t r p] ''0''" "stores M [GenOpcode ''STONE'' a cm t r p] ''1''"
  "sliceToBitString a = Some x \<Longrightarrow> stores M [GenOpcode ''STSLICECONST'' a cm t r p] x"
  by (auto intro!: storesI simp: gen_sem gen_STSLICECONST prim_iffs)

lemma len_view:
  assumes "fetchInt (GenOpcode opc a cm t r p) = Some n" "wfn M mul (GenOpcode opc a cm t r p)" "opc \<in> set nat_ops"
  shows "a = toString (int (nat n)) \<and> int_fits (int (nat n))"
proof -
  obtain k where "a = toString (int k)" "int_fits (int k)" by (rule nat_argument [OF assms(2,3)])
  moreover from this have "n = int k" using assms(1) by (simp add: fetchInt_def)
  ultimately show ?thesis by simp
qed

lemma store_int:
  assumes "isPUSHINT c1" "pushintValue c1 = Some v" "fetchInt c2 = Some n" "is_op c2 [''STUR''] \<or> is_op c2 [''STIR'']"
    "wfn M mul c1" "wfn M mul c2"
  shows "stores M [c1, c2] (toBitString v (nat n))"
proof -
  obtain m1 t1 r1 p1 where c1: "c1 = GenOpcode ''PUSHINT'' (toString v) m1 t1 r1 p1"
    by (rule pushint_view [OF assms(1,2,5)])
  show ?thesis
    using assms(4)
  proof (elim disjE is_op1E)
    fix a cm t r p
    assume c2: "c2 = GenOpcode ''STUR'' a cm t r p"
    have k: "a = toString (int (nat n))" "int_fits (int (nat n))"
      using len_view [OF assms(3,6) [unfolded c2]] by (simp_all add: nat_ops_def)
    show ?thesis
      by (rule storesI) (auto simp: c1 c2 k(1) gen_PUSHINT gen_nat_arg [OF k(2)] prim_iffs stack_calc st_u_def i1_def
        simp del: nat_eq_iff int_nat_eq split: if_splits)
  next
    fix a cm t r p
    assume c2: "c2 = GenOpcode ''STIR'' a cm t r p"
    have k: "a = toString (int (nat n))" "int_fits (int (nat n))"
      using len_view [OF assms(3,6) [unfolded c2]] by (simp_all add: nat_ops_def)
    show ?thesis
      by (rule storesI) (auto simp: c1 c2 k(1) gen_PUSHINT gen_nat_arg [OF k(2)] prim_iffs stack_calc st_i_def i1_def
        simp del: nat_eq_iff int_nat_eq split: if_splits)
  qed
qed

lemma store_zeroes:
  assumes "is_op c1 [''PUSHINT'']" "fetchInt c1 = Some n" "is_op c2 [''STZEROES'']" "wfn M mul c1"
  shows "stores M [c1, c2] (replicate (nat n) (CHR ''0''))"
proof -
  obtain a m1 t1 r1 p1 where c1: "c1 = GenOpcode ''PUSHINT'' a m1 t1 r1 p1" by (rule is_op1E [OF assms(1)])
  have a: "a = toString n" using fetchInt_view [OF assms(2,4) [unfolded c1]] by simp
  show ?thesis
    by (rule is_op1E [OF assms(3)], rule storesI)
      (auto simp: c1 a gen_sem prim_iffs stack_calc st_zeroes_def i1_def split: if_splits)
qed

lemma store_slice:
  assumes "isPlainPushSlice c1 = Some b" "sliceToBitString b = Some x" "is_op c2 [''STSLICER'']" "wfn M mul c1"
  shows "stores M [c1, c2] x"
proof -
  obtain bits v where b: "blob_bits b = Some bits" "v = VSlice bits [] \<or> v = VCell bits []"
    "\<And>d s r. run M (c1 # d) s r \<longleftrightarrow> run M d (set_stk s (spush v (stk s))) r"
    using cell_run [OF assms(1,4)] by blast
  have "bits = x" using blob_sliceD [OF b(1) assms(2)] .
  moreover obtain a cm t r p where "c2 = GenOpcode ''STSLICER'' a cm t r p" by (rule is_op1E [OF assms(3)])
  ultimately show ?thesis
    using b(2) by (intro storesI) (auto simp: b(3) gen_sem prim_iffs stack_calc st_slice_def)
qed

lemma stores_step:
  assumes "stores M a x" "bitstring x" "prepend x (int (length a)) (st_scan cs) = Some (bits, q, it)"
    and ih: "\<And>bits' q' it'. st_scan cs = Some (bits', q', it') \<Longrightarrow>
      bitstring bits' \<and> (\<exists>m. q' = int m \<and> m \<le> length cs \<and> (m = 0 \<and> bits' = [] \<or> stores M (take m cs) bits'))"
  shows "bitstring bits \<and> (\<exists>m. q = int m \<and> m \<le> length (a @ cs) \<and> (m = 0 \<and> bits = [] \<or> stores M (take m (a @ cs)) bits))"
proof -
  obtain b' q' it' where s: "st_scan cs = Some (b', q', it')" "bits = x @ b'" "q = q' + int (length a)"
    using assms(3) by (auto simp: prepend_def bind_eq_Some_conv)
  then obtain m where m: "bitstring b'" "q' = int m" "m \<le> length cs" "m = 0 \<and> b' = [] \<or> stores M (take m cs) b'"
    using ih by blast
  then have "stores M (take (length a + m) (a @ cs)) (x @ b')"
    using assms(1) stores_append by auto
  then show ?thesis
    using m s assms(2) by (auto intro!: exI [of _ "length a + m"])
qed

lemma st_scan_cases:
  assumes "st_scan (c1 # c2 # cs) = Some (bits, q, it)" "wfn M mul c1" "wfn M mul c2"
  obtains (one) x where "stores M [c1] x" "bitstring x" "prepend x 1 (st_scan (c2 # cs)) = Some (bits, q, it)"
    | (two) x where "stores M [c1, c2] x" "bitstring x" "prepend x 2 (st_scan cs) = Some (bits, q, it)"
    | (stop) "bits = []" "q = 0"
proof -
  consider (zero) "is_op c1 [''STZERO'']" "prepend ''0'' 1 (st_scan (c2 # cs)) = Some (bits, q, it)"
    | (ones) "is_op c1 [''STONE'']" "prepend ''1'' 1 (st_scan (c2 # cs)) = Some (bits, q, it)"
    | (const) a x where "is_op c1 [''STSLICECONST'']" "argument c1 = Some a" "sliceToBitString a = Some x"
        "prepend x 1 (st_scan (c2 # cs)) = Some (bits, q, it)"
    | (int) v n where "isPUSHINT c1" "pushintValue c1 = Some v" "fetchInt c2 = Some n"
        "is_op c2 [''STUR''] \<or> is_op c2 [''STIR'']" "prepend (toBitString v (nat n)) 2 (st_scan cs) = Some (bits, q, it)"
    | (zeroes) n where "is_op c1 [''PUSHINT'']" "fetchInt c1 = Some n" "is_op c2 [''STZEROES'']"
        "prepend (replicate (nat n) (CHR ''0'')) 2 (st_scan cs) = Some (bits, q, it)"
    | (slice) b x where "isPlainPushSlice c1 = Some b" "sliceToBitString b = Some x" "is_op c2 [''STSLICER'']"
        "prepend x 2 (st_scan cs) = Some (bits, q, it)"
    | (none) "bits = []" "q = 0"
    using assms(1) unfolding st_scan.simps(3)
    by (auto simp: bind_eq_Some_conv split: if_split_asm option.split_asm)
  then show thesis
  proof cases
    case zero
    then show ?thesis using one [of "''0''"] by (auto simp: store_const elim!: is_op1E)
  next
    case ones
    then show ?thesis using one [of "''1''"] by (auto simp: store_const elim!: is_op1E)
  next
    case (const a x)
    then show ?thesis using one [of x] by (auto simp: store_const bitstring_slice elim!: is_op1E)
  next
    case (int v n)
    then show ?thesis using two store_int [OF _ _ _ _ assms(2,3)] bitstring_toBitString by blast
  next
    case (zeroes n)
    then show ?thesis using two store_zeroes [OF _ _ _ assms(2)] bitstring_replicate by blast
  next
    case (slice b x)
    then show ?thesis using two store_slice [OF _ _ _ assms(2)] bitstring_slice by blast
  qed (rule stop)
qed

lemma st_scan_stores:
  "st_scan cs = Some (bits, q, it) \<Longrightarrow> wf_list M mul cs \<Longrightarrow>
   bitstring bits \<and> (\<exists>m. q = int m \<and> m \<le> length cs \<and> (m = 0 \<and> bits = [] \<or> stores M (take m cs) bits))"
proof (induction "length cs" arbitrary: cs bits q it rule: less_induct)
  case less
  consider "cs = []" | c1 where "cs = [c1]" | c1 c2 cs' where "cs = c1 # c2 # cs'"
    by (cases cs rule: remdups_adj.cases) auto
  then show ?case
  proof cases
    case (2 c1)
    then show ?thesis
      using less.prems by (auto simp: bind_eq_Some_conv store_const bitstring_slice intro!: exI [of _ "1 :: nat"]
        split: if_splits elim!: is_op1E)
  next
    case (3 c1 c2 cs')
    have wf: "wfn M mul c1" "wfn M mul c2" "wf_list M mul cs'" using less.prems(2) by (simp_all add: 3)
    have ih: "bitstring b' \<and> (\<exists>m. q' = int m \<and> m \<le> length ys \<and> (m = 0 \<and> b' = [] \<or> stores M (take m ys) b'))"
      if "st_scan ys = Some (b', q', it')" "ys = c2 # cs' \<or> ys = cs'" for ys b' q' it'
      using less.hyps [OF _ that(1)] that(2) wf by (auto simp: 3)
    show ?thesis
    proof (cases rule: st_scan_cases [OF less.prems(1) [unfolded 3] wf(1,2), case_names one two stop])
      case (one x)
      then show ?thesis using stores_step [of "[c1]" x "c2 # cs'" bits q it] ih [of "c2 # cs'"] by (simp add: 3)
    next
      case (two x)
      then show ?thesis using stores_step [of "[c1, c2]" x cs' bits q it] ih [of cs'] by (simp add: 3)
    qed (auto intro: exI [of _ 0])
  qed (use less.prems in simp)
qed

text \<open>Running \<open>c\<close> pushes a builder with the given bits.\<close>

definition builds :: "node list \<Rightarrow> string \<Rightarrow> bool" where
  "builds c bits = (\<forall>s r. run M c s r \<longrightarrow> r = Norm (set_stk s (spush (VBuilder bits []) (stk s))))"

lemma builds_stores:
  assumes "builds a x" "stores M b y"
  shows "builds (a @ b) (x @ y)"
  unfolding builds_def
proof (intro allI impI)
  fix s r
  assume r: "run M (a @ b) s r"
  then have "run M b (set_stk s (spush (VBuilder x []) (stk s))) r"
    using assms(1) unfolding builds_def run_append by fastforce
  then show "r = Norm (set_stk s (spush (VBuilder (x @ y) []) (stk s)))"
    using assms(2) unfolding stores_def
    by (fastforce simp: stack_calc st_bits_def mk_builder_def split: if_splits)
qed

lemma build_slice:
  assumes "isPlainPushSlice c1 = Some b" "sliceToBitString b = Some x" "is_op c2 [''NEWC'']" "is_op c3 [''STSLICE'']"
    "wfn M mul c1"
  shows "builds [c1, c2, c3] x"
proof -
  obtain bits v where b: "blob_bits b = Some bits" "v = VSlice bits [] \<or> v = VCell bits []"
    "\<And>d s r. run M (c1 # d) s r \<longleftrightarrow> run M d (set_stk s (spush v (stk s))) r"
    using cell_run [OF assms(1,5)] by blast
  have "bits = x" using blob_sliceD [OF b(1) assms(2)] .
  moreover obtain a cm t r p where "c2 = GenOpcode ''NEWC'' a cm t r p" by (rule is_op1E [OF assms(3)])
  moreover obtain a cm t r p where "c3 = GenOpcode ''STSLICE'' a cm t r p" by (rule is_op1E [OF assms(4)])
  ultimately show ?thesis
    using b(2) by (auto simp: builds_def b(3) gen_sem prim_iffs stack_calc newc_store)
qed

lemma build_int:
  assumes "isPUSHINT c1" "pushintValue c1 = Some v" "is_op c2 [''NEWC'']" "is_op c3 [''STU'']" "fetchInt c3 = Some n"
    "wfn M mul c1" "wfn M mul c3"
  shows "builds [c1, c2, c3] (toBitString v (nat n))"
proof -
  obtain m1 t1 r1 p1 where c1: "c1 = GenOpcode ''PUSHINT'' (toString v) m1 t1 r1 p1"
    by (rule pushint_view [OF assms(1,2,6)])
  obtain a cm t r p where c2: "c2 = GenOpcode ''NEWC'' a cm t r p" by (rule is_op1E [OF assms(3)])
  obtain a cm t r p where c3: "c3 = GenOpcode ''STU'' a cm t r p" by (rule is_op1E [OF assms(4)])
  note st = stu_view [OF assms(5,7) [unfolded c3]]
  show ?thesis
    by (auto simp: builds_def c1 c2 c3 gen_PUSHINT gen_no_arg st prim_iffs stack_calc st_u_def i1_def st_bits_def
        mk_builder_def split: if_splits)
qed

lemma st_head_view:
  assumes "st_head cs = Some (wb, b0, q0, it0, rest)" "wf_list M mul cs"
  shows "\<not> wb \<and> b0 = [] \<and> q0 = 0 \<and> rest = cs \<or>
    wb \<and> q0 = 3 \<and> 3 \<le> length cs \<and> rest = drop 3 cs \<and> bitstring b0 \<and> builds (take 3 cs) b0"
proof -
  consider "\<not> wb" "b0 = []" "q0 = 0" "rest = cs"
    | c1 c2 c3 b where "cs = c1 # c2 # c3 # rest" "wb" "q0 = 3" "isPlainPushSlice c1 = Some b"
        "sliceToBitString b = Some b0" "is_op c2 [''NEWC'']" "is_op c3 [''STSLICE'']"
    | c1 c2 c3 v n where "cs = c1 # c2 # c3 # rest" "wb" "q0 = 3" "isPUSHINT c1" "pushintValue c1 = Some v"
        "is_op c2 [''NEWC'']" "is_op c3 [''STU'']" "fetchInt c3 = Some n" "b0 = toBitString v (nat n)"
    using assms(1) unfolding st_head_def
    by (auto simp: bind_eq_Some_conv split: list.split_asm if_split_asm option.split_asm)
  then show ?thesis
  proof cases
    case 2
    then show ?thesis using build_slice bitstring_slice assms(2) by fastforce
  next
    case 3
    then show ?thesis using build_int assms(2) by fastforce
  qed simp
qed

lemma store_code:
  assumes "unitBitStringToHex x [] = Some (Some h)" "bitstring x"
    and "store_opcodes h = Some sc"
  shows "wf_list M mul sc" "1 \<le> length sc"
    "st_bits x [] (stk s 0) = Some v \<Longrightarrow> run M (sc @ d) s r \<longleftrightarrow> run M d (set_stk s (spush v (sdrop 1 (stk s)))) r"
proof -
  note u = unit_roundtrip [OF assms(1,2) bitstring_Nil, simplified]
  note a = arg_ok_unit [OF assms(1,2) bitstring_Nil]
  consider "sc = [GenOpcode ''STSLICECONST'' h [] 1 1 False]"
    | p where "genPushSlice h = Some p" "sc = [p, GenOpcode ''STSLICER'' [] [] 2 1 False]"
    using assms(3) arg_ok_text [OF a] by (auto simp: store_opcodes_def gen_simps bind_eq_Some_conv split: if_splits)
  then have "wf_list M mul sc \<and> 1 \<le> length sc \<and>
    (st_bits x [] (stk s 0) = Some v \<longrightarrow> run M (sc @ d) s r \<longleftrightarrow> run M d (set_stk s (spush v (sdrop 1 (stk s)))) r)"
  proof cases
    case 1
    then show ?thesis
      using wfn_STSLICECONST [OF a] u(1) by (simp add: gen_STSLICECONST prim_iffs)
  next
    case (2 p)
    obtain pc where pc: "p = PushCellOrSlice pc" "doc_cell pc = Some (VSlice x [])"
      using 2(1) u by (auto simp: genPushSlice_def doc_cell_def blob_bits_def bind_eq_Some_conv)
    show ?thesis
      unfolding 2(2) pc(1)
      using wfn_cell [OF pc(2), of mul]
      by (simp add: cell_doc [OF pc(2)] gen_sem prim_iffs stack_calc st_slice_def wfn_new del: wfn.simps)
  qed
  then show "wf_list M mul sc" "1 \<le> length sc"
    "st_bits x [] (stk s 0) = Some v \<Longrightarrow> run M (sc @ d) s r \<longleftrightarrow> run M d (set_stk s (spush v (sdrop 1 (stk s)))) r"
    by blast+
qed

lemma inf_store_sound:
  assumes "inf_store cs = Some (Some res)" "wf_list M mul cs"
  shows "sound M mul cs res"
proof -
  obtain wb b0 q0 it0 rest bits q it h newc sc where hd: "st_head cs = Some (wb, b0, q0, it0, rest)"
    and sc: "st_scan rest = Some (bits, q, it)" and u: "unitBitStringToHex (b0 @ bits) [] = Some (Some h)"
    and n: "newc = (if wb then [GenOpcode ''NEWC'' [] [] 0 1 True] else [])"
    and st: "store_opcodes h = Some sc"
    and q: "int (length (newc @ sc)) \<le> q0 + q" and res: "res = Result (q0 + q) (newc @ sc)"
    using assms(1) unfolding inf_store_def
    by (fastforce simp: Let_def bind_eq_Some_conv gen_simps split: option.split_asm if_split_asm)
  note H = st_head_view [OF hd assms(2)]
  have "wf_list M mul rest" using H assms(2) wf_list_take_drop by blast
  from st_scan_stores [OF sc this] obtain m where m: "bitstring bits" "q = int m" "m \<le> length rest"
    "m = 0 \<and> bits = [] \<or> stores M (take m rest) bits" by blast
  have bs: "bitstring (b0 @ bits)" using m(1) H by auto
  note S = store_code [OF u bs st]
  show ?thesis
  proof (cases wb)
    case False
    then have h: "b0 = []" "q0 = 0" "rest = cs" using H by auto
    have "1 \<le> m" using q S(2) m(2) h by simp
    moreover from this have "refines M (take m cs) sc"
      using m(4) S(3) [where d = "[]"] h by (fastforce simp: stores_def refines_def)
    ultimately show ?thesis
      unfolding res using m h n False S(1) by (intro sound_take [of _ m]) auto
  next
    case True
    then have h: "q0 = 3" "3 \<le> length cs" "rest = drop 3 cs" "builds (take 3 cs) b0" using H by auto
    have "builds (take 3 cs @ take m rest) (b0 @ bits)"
      using m(4) h(4) builds_stores by (elim disjE) auto
    then have b: "builds (take (3 + m) cs) (b0 @ bits)" by (simp add: take_add h(3))
    have "refines M (take (3 + m) cs) (newc @ sc)"
    proof (rule refinesI)
      fix s r
      assume "run M (take (3 + m) cs) s r"
      then have r: "r = Norm (set_stk s (spush (VBuilder (b0 @ bits) []) (stk s)))" using b by (simp add: builds_def)
      have "st_bits (b0 @ bits) [] (VBuilder [] []) = Some (VBuilder (b0 @ bits) [])"
        using unit_roundtrip(3) [OF u bs] by (simp add: st_bits_def mk_builder_def)
      then show "run M (newc @ sc) s r"
        using S(3) [where d = "[]" and s = "set_stk s (spush (VBuilder [] []) (stk s))"] True
        by (simp add: n r gen_no_arg prim_iffs stack_calc)
    qed
    then show ?thesis
      unfolding res using m h n True S(1) by (intro sound_take [of _ "3 + m"]) (auto simp: wfn_push)
  qed
qed

section \<open>The end of a block\<close>

lemma inf_last_ret_sound:
  assumes "inf_last_ret cs = Some (Some res)"
  shows "sound_tail M mul cs res"
proof -
  obtain m where cs: "cs = [TvmReturn False m False]" "res = Result 1 []"
    using assms by (auto simp: inf_last_ret_def split: list.splits node.splits if_splits)
  show ?thesis
    unfolding sound_tail_def
    by (rule exI [of _ 1]) (auto simp: cs refines_tail_def ret_out_def)
qed

lemma inf_ifnotjmp_sound:
  assumes "inf_ifnotjmp cs = Some (Some res)" "wf_list M mul cs"
  shows "sound_tail M mul cs res"
proof -
  obtain t k a b g where cs: "cs = [TvmIfElse True True t None k]" and t: "instructions t = [a, b]" "is_op a [''NULL'']" "isSWAP b"
    and g: "makeDROP 1 = Some g" "res = Result 1 [AsymGen ''NULLROTRIFNOT'', g]"
    using assms(1) by (auto simp: inf_ifnotjmp_def bind_eq_Some_conv split: list.splits node.splits option.splits if_splits)
  have wf: "wfn M mul b" using assms(2) t(1) by (simp add: cs wf_block_iff)
  note b = isSWAP_view [OF t(3) wf]
  obtain x cm tk rt p where a: "a = GenOpcode ''NULL'' x cm tk rt p" by (rule is_op1E [OF t(2)])
  obtain d where d: "stk_is g (sdrop 1)" "stk_wfn g" using makeDROP_view [OF g(1)] by auto
  have asym: "AsymGen ''NULLROTRIFNOT'' = getZeroOrNullAlignment False False True"
    by (simp add: getZeroOrNullAlignment_def)
  have body: "run M [a, b] s r \<longleftrightarrow> r = Norm (set_stk s (align_stack False True (stk s)))" for s r
  proof -
    have "sxchg 0 1 (spush VNull u) = align_stack False True u" for u
      by (auto simp: align_stack_def sxchg_def spush_def sdrop_def fun_eq_iff Suc_diff_Suc)
    then show ?thesis using run_stk_is [OF b, of M "[]"] by (simp add: a gen_no_arg prim_iffs)
  qed
  have "refines_tail M cs [AsymGen ''NULLROTRIFNOT'', g]"
    unfolding refines_tail_def
  proof (intro allI impI)
    fix s r
    assume "run M cs s r"
    then have "\<exists>c. cond True (stk s 0) = Some c \<and>
      r = (if c then Ret (set_stk s (align_stack False True (sdrop 1 (stk s)))) else Norm (pop1 s))"
      unfolding cs run_single run1_If t(1) body
      by (elim disjE exE conjE) (simp_all add: ex_bool_eq)
    then obtain c where c: "cond True (stk s 0) = Some c"
      "r = (if c then Ret (set_stk s (align_stack False True (sdrop 1 (stk s)))) else Norm (pop1 s))" by blast
    have "run M [AsymGen ''NULLROTRIFNOT'', g] s
        (if c then Norm (set_stk s (align_stack False True (sdrop 1 (stk s)))) else Norm (pop1 s))"
      unfolding asym run_align using c(1) run_stk_is [OF d(1), of M "[]"]
      by (cases c) (simp_all add: stack_calc ex_bool_eq)
    then show "\<exists>r'. run M [AsymGen ''NULLROTRIFNOT'', g] s r' \<and> (r' = r \<or> r' = call_out r)"
      using c(2) by (intro exI [of _ "if c then Norm (set_stk s (align_stack False True (sdrop 1 (stk s)))) else Norm (pop1 s)"]) auto
  qed
  then show ?thesis
    unfolding sound_tail_def g(2) cs using stk_wfn_wfn [OF d(2)] by (intro exI [of _ 1]) auto
qed

end

section \<open>Permutations of pure pushes\<close>

text \<open>
  An element of the deque stands for a value that depends on the state before the pushes: a pure push
  on the globals, a copy of a stack slot on that slot.
\<close>

definition holds :: "'w machine \<Rightarrow> bool \<Rightarrow> node \<times> int \<Rightarrow> ('w st \<Rightarrow> val) \<Rightarrow> bool" where
  "holds M mul e g =
     (case isPUSH (fst e) of
        Some index \<Rightarrow> snd e \<le> index \<and> g = (\<lambda>s. stk s (nat (index - snd e)))
      | None \<Rightarrow> wfn M mul (fst e) \<and> (\<forall>s t. g (set_stk s t) = g s) \<and>
          (\<forall>d s r. run M (fst e # d) s r \<longleftrightarrow> run M d (set_stk s (spush (g s) (stk s))) r))"

definition stack_of :: "('w st \<Rightarrow> val) list \<Rightarrow> 'w st \<Rightarrow> stack" where
  "stack_of G s = (\<lambda>k. if k < length G then (G ! k) s else stk s (k - length G))"

lemma stack_of_Nil [simp]: "stack_of [] s = stk s"
  by (simp add: stack_of_def)

lemma stack_of_Cons: "stack_of (g # G) s = spush (g s) (stack_of G s)"
  by (auto simp: stack_of_def spush_def fun_eq_iff nth_Cons split: nat.splits)

lemma stack_of_reverse:
  assumes "b \<le> e" "e \<le> length G"
  shows "stack_of (reverse_range b e G) s = sreverse (e - b) b (stack_of G s)"
proof
  fix k
  have "2 * b + (e - b) - 1 - k = b + e - 1 - k" using assms by simp
  then show "stack_of (reverse_range b e G) s k = sreverse (e - b) b (stack_of G s) k"
    using assms nth_reverse_range [OF assms, of k] by (auto simp: stack_of_def sreverse_def)
qed

lemma stack_of_swap:
  "i < length G \<Longrightarrow> j < length G \<Longrightarrow> stack_of (swap_at i j G) s = sxchg i j (stack_of G s)"
  by (auto simp: stack_of_def swap_at_def sxchg_def fun_eq_iff nth_list_update)

lemma list_all2_reverse_range:
  "list_all2 P xs ys \<Longrightarrow> list_all2 P (reverse_range b e xs) (reverse_range b e ys)"
  unfolding reverse_range_def by (intro list_all2_appendI list_all2_takeI list_all2_dropI list_all2_rev [THEN iffD2])

lemma list_all2_swap_at:
  "list_all2 P xs ys \<Longrightarrow> i < length xs \<Longrightarrow> j < length xs \<Longrightarrow> list_all2 P (swap_at i j xs) (swap_at i j ys)"
  by (auto simp: swap_at_def list_all2_lengthD intro!: list_all2_update_cong intro: list_all2_nthD2)

lemma blkswap_reverse: "sreverse (j + i) 0 (sreverse j 0 (sreverse i j t)) = sblkswap i j t"
  by (auto simp: fun_eq_iff sreverse_def sblkswap_def intro!: stack_cong)

text \<open>The commands read so far have pushed the values of the deque and nothing else.\<close>

definition pushed :: "'w machine \<Rightarrow> bool \<Rightarrow> node list \<Rightarrow> (node \<times> int) list \<Rightarrow> bool" where
  "pushed M mul pre D =
     (\<exists>G. list_all2 (holds M mul) D G \<and>
        (\<forall>d s r. run M (pre @ d) s r \<longleftrightarrow> run M d (set_stk s (stack_of G s)) r))"

lemma pushed_stk:
  assumes "pushed M mul pre D" "stk_is c f"
    and "\<And>G :: ('w st \<Rightarrow> val) list. list_all2 (holds M mul) D G \<Longrightarrow>
      \<exists>G'. list_all2 (holds M mul) D' G' \<and> (\<forall>s. f (stack_of G s) = stack_of G' s)"
  shows "pushed (M :: 'w machine) mul (pre @ [c]) D'"
proof -
  obtain G where G: "list_all2 (holds M mul) D G"
    "\<And>d s r. run M (pre @ d) s r \<longleftrightarrow> run M d (set_stk s (stack_of G s)) r"
    using assms(1) by (auto simp: pushed_def)
  obtain G' where "list_all2 (holds M mul) D' G'" "\<And>s. f (stack_of G s) = stack_of G' s" using assms(3) [OF G(1)] by blast
  then show ?thesis by (auto simp: pushed_def G(2) run_stk_is [OF assms(2)] intro!: exI [of _ G'])
qed

lemma pushed_pure:
  assumes "pushed M mul pre D" "isPureGen01 c" "wfn M mul c"
  shows "pushed M mul (pre @ [c]) ((c, n) # D)"
proof -
  obtain G where G: "list_all2 (holds M mul) D G"
    "\<And>d s r. run M (pre @ d) s r \<longleftrightarrow> run M d (set_stk s (stack_of G s)) r"
    using assms(1) by (auto simp: pushed_def)
  obtain f where f: "\<And>s r d. run M (c # d) s r \<longleftrightarrow> run M d (set_stk s (spush (f (glb s) (wld s)) (stk s))) r"
    using pushes_run [OF pure_pushes [OF assms(2,3)]] by blast
  have "isPUSH c = None" using assms(2) by (cases c) (auto simp: isPureGen01_def)
  then have "holds M mul (c, n) (\<lambda>s. f (glb s) (wld s))" using assms(3) by (simp add: holds_def f)
  then show ?thesis
    using G by (auto simp: pushed_def f stack_of_Cons intro!: exI [of _ "(\<lambda>s. f (glb s) (wld s)) # G"])
qed

lemma stk_is_wf:
  "stack_wf BLKSWAP i j k \<Longrightarrow> stk_is (Stack BLKSWAP i j k) (sblkswap (nat i) (nat j))"
  "stack_wf REVERSE i j k \<Longrightarrow> stk_is (Stack REVERSE i j k) (sreverse (nat i) (nat j))"
  "stack_wf XCHG i j k \<Longrightarrow> stk_is (Stack XCHG i j k) (sxchg (nat i) (nat j))"
  "stack_wf PUSH_S i j k \<Longrightarrow> stk_is (Stack PUSH_S i j k) (spushs (nat i))"
  by (auto simp: stack_op_defs fun_eq_iff intro!: stk_isI)

lemma pushed_blkswap:
  assumes "pushed M mul pre D" "stack_wf BLKSWAP i j k" "i + j \<le> int (length D)"
  shows "pushed M mul (pre @ [Stack BLKSWAP i j k])
    (reverse_range 0 (nat (j + i)) (reverse_range 0 (nat j) (reverse_range (nat j) (nat (j + i)) D)))"
proof (rule pushed_stk [OF assms(1) stk_is_wf(1) [OF assms(2)]])
  fix G
  assume G: "list_all2 (holds M mul) D G"
  have ij: "0 \<le> i" "0 \<le> j" using assms(2) by (auto simp: stack_wf_def)
  let ?G = "reverse_range 0 (nat (j + i)) (reverse_range 0 (nat j) (reverse_range (nat j) (nat (j + i)) G))"
  have "nat (j + i) \<le> length G" using assms(3) list_all2_lengthD [OF G] by simp
  then have "sblkswap (nat i) (nat j) (stack_of G s) = stack_of ?G s" for s
    using ij by (simp add: stack_of_reverse nat_add_distrib flip: blkswap_reverse)
  then show "\<exists>G'. list_all2 (holds M mul) (reverse_range 0 (nat (j + i)) (reverse_range 0 (nat j)
      (reverse_range (nat j) (nat (j + i)) D))) G' \<and> (\<forall>s. sblkswap (nat i) (nat j) (stack_of G s) = stack_of G' s)"
    using G by (intro exI [of _ ?G]) (simp add: list_all2_reverse_range)
qed

lemma pushed_reverse:
  assumes "pushed M mul pre D" "stack_wf REVERSE i j k" "j + i \<le> int (length D)"
  shows "pushed M mul (pre @ [Stack REVERSE i j k]) (reverse_range (nat j) (nat (j + i)) D)"
proof (rule pushed_stk [OF assms(1) stk_is_wf(2) [OF assms(2)]])
  fix G
  assume G: "list_all2 (holds M mul) D G"
  have ij: "0 \<le> i" "0 \<le> j" using assms(2) by (auto simp: stack_wf_def)
  have "nat (j + i) \<le> length G" using assms(3) list_all2_lengthD [OF G] by simp
  then have "sreverse (nat i) (nat j) (stack_of G s) = stack_of (reverse_range (nat j) (nat (j + i)) G) s" for s
    using ij by (simp add: stack_of_reverse nat_add_distrib)
  then show "\<exists>G'. list_all2 (holds M mul) (reverse_range (nat j) (nat (j + i)) D) G' \<and>
      (\<forall>s. sreverse (nat i) (nat j) (stack_of G s) = stack_of G' s)"
    using G by (intro exI [of _ "reverse_range (nat j) (nat (j + i)) G"]) (simp add: list_all2_reverse_range)
qed

lemma pushed_xchg:
  assumes "pushed M mul pre D" "stack_wf XCHG i j k" "i < int (length D)" "j < int (length D)"
  shows "pushed M mul (pre @ [Stack XCHG i j k]) (swap_at (nat i) (nat j) D)"
proof (rule pushed_stk [OF assms(1) stk_is_wf(3) [OF assms(2)]])
  fix G
  assume G: "list_all2 (holds M mul) D G"
  have ij: "nat i < length G" "nat j < length G" using assms(2-4) list_all2_lengthD [OF G] by (auto simp: stack_wf_def)
  then show "\<exists>G'. list_all2 (holds M mul) (swap_at (nat i) (nat j) D) G' \<and>
      (\<forall>s. sxchg (nat i) (nat j) (stack_of G s) = stack_of G' s)"
    using G list_all2_lengthD [OF G]
    by (intro exI [of _ "swap_at (nat i) (nat j) G"]) (simp add: list_all2_swap_at stack_of_swap)
qed

lemma pushed_push:
  assumes "pushed M mul pre D" "stack_wf PUSH_S i j k" "int (length D) \<le> i"
  shows "pushed M mul (pre @ [Stack PUSH_S i j k]) ((Stack PUSH_S i j k, int (length D)) # D)"
proof (rule pushed_stk [OF assms(1) stk_is_wf(4) [OF assms(2)]])
  fix G
  assume G: "list_all2 (holds M mul) D G"
  let ?g = "\<lambda>s. stk s (nat (i - int (length D)))"
  have "nat i - length G = nat (i - int (length D))" "\<not> nat i < length G"
    using assms(3) list_all2_lengthD [OF G] by auto
  then have "spushs (nat i) (stack_of G s) = stack_of (?g # G) s" for s
    unfolding stack_of_Cons by (simp add: spushs_def stack_of_def)
  then show "\<exists>G'. list_all2 (holds M mul) ((Stack PUSH_S i j k, int (length D)) # D) G' \<and>
      (\<forall>s. spushs (nat i) (stack_of G s) = stack_of G' s)"
    using G assms(3) by (intro exI [of _ "?g # G"]) (simp add: holds_def)
qed

lemma perm_step:
  assumes "perm_scan (c # cs) D removed cnt = R" "wfn M mul c" "pushed M mul pre D"
  shows "R = (D, removed, cnt) \<or> (\<exists>D1 rem1. perm_scan cs D1 rem1 (cnt + 1) = R \<and> pushed M mul (pre @ [c]) D1)"
proof (cases "isPureGen01 c")
  case True
  then show ?thesis
    using assms(1) pushed_pure [OF assms(3) True assms(2), of "int (length D)"] by (simp add: Let_def) blast
next
  case False
  show ?thesis
  proof (cases c)
    case (Stack p i j k)
    have wf: "stack_wf p i j k" using assms(2) by (simp add: Stack)
    note P = pushed_blkswap [OF assms(3)] pushed_reverse [OF assms(3)] pushed_xchg [OF assms(3)] pushed_push [OF assms(3)]
    show ?thesis
      using assms(1) False wf unfolding Stack
      by (cases p) (auto simp: Let_def intro: P split: if_splits)
  qed (use assms(1) False in \<open>simp_all add: Let_def\<close>)
qed

lemma perm_scan_pushed:
  assumes "perm_scan cs D removed (int (length pre)) = (D', removed', cnt')" "wf_list M mul cs" "pushed M mul pre D"
  shows "\<exists>m. m \<le> length cs \<and> cnt' = int (length pre + m) \<and> pushed M mul (pre @ take m cs) D' \<and> (removed' \<longrightarrow> removed \<or> 1 \<le> m)"
  using assms
proof (induction cs arbitrary: D removed pre)
  case (Cons c cs)
  from perm_step [OF Cons.prems(1) _ Cons.prems(3)] Cons.prems(2)
  consider "(D', removed', cnt') = (D, removed, int (length pre))"
    | D1 rem1 where "perm_scan cs D1 rem1 (int (length (pre @ [c]))) = (D', removed', cnt')" "pushed M mul (pre @ [c]) D1"
    by (auto simp: add.commute)
  then show ?case
  proof cases
    case 1
    then show ?thesis using Cons.prems(3) by (intro exI [of _ 0]) auto
  next
    case (2 D1 rem1)
    then obtain m where "m \<le> length cs" "cnt' = int (length (pre @ [c]) + m)" "pushed M mul ((pre @ [c]) @ take m cs) D'"
      using Cons.IH [OF 2(1) _ 2(2)] Cons.prems(2) by auto
    then show ?thesis by (intro exI [of _ "Suc m"]) auto
  qed
qed auto

lemma perm_emit_run:
  assumes "perm_emit (int k) E = Some res" "list_all2 (holds M mul) E H" "length G = k"
  shows "wf_list M mul res \<and>
    (\<forall>d s r. run M (res @ d) (set_stk s (stack_of G s)) r \<longleftrightarrow> run M d (set_stk s (stack_of (rev H @ G) s)) r)"
  using assms
proof (induction E arbitrary: k res H G)
  case (Cons e E)
  obtain c sz where e: "e = (c, sz)" by (cases e)
  obtain h H' where H: "H = h # H'" "holds M mul (c, sz) h" "list_all2 (holds M mul) E H'"
    using Cons.prems(2) by (auto simp: list_all2_Cons1 e)
  obtain g rest where g: "(case isPUSH c of Some index \<Rightarrow> makePUSH (index - sz + int k) | None \<Rightarrow> Some c) = Some g"
    and rest: "perm_emit (int (Suc k)) E = Some rest" "res = g # rest"
    using Cons.prems(1) by (auto simp: e bind_eq_Some_conv add.commute)
  have step: "wfn M mul g \<and> (\<forall>d s r. run M (g # d) (set_stk s (stack_of G s)) r \<longleftrightarrow> run M d (set_stk s (stack_of (h # G) s)) r)"
  proof (cases "isPUSH c")
    case None
    then show ?thesis using H(2) g by (simp add: holds_def stack_of_Cons)
  next
    case (Some index)
    then have h: "sz \<le> index" "h = (\<lambda>s. stk s (nat (index - sz)))" using H(2) by (simp_all add: holds_def)
    obtain d where d: "index - sz + int k = int d" "stk_is g (spushs d)" "stk_wfn g"
      using g Some makePUSH_view by auto
    have "d - k = nat (index - sz)" "\<not> d < k" using d(1) h(1) by auto
    then have "spushs d (stack_of G s) = stack_of (h # G) s" for s
      unfolding stack_of_Cons using Cons.prems(3) by (simp add: spushs_def stack_of_def h)
    then show ?thesis using stk_wfn_wfn [OF d(3)] by (simp add: run_stk_is [OF d(2)])
  qed
  have "wf_list M mul rest \<and> (\<forall>d s r. run M (rest @ d) (set_stk s (stack_of (h # G) s)) r \<longleftrightarrow>
      run M d (set_stk s (stack_of (rev H' @ h # G) s)) r)"
    using Cons.IH [OF rest(1) H(3), of "h # G"] Cons.prems(3) by simp
  then show ?case using step by (simp add: rest(2) H(1))
qed simp

lemma inf_perm_sound:
  assumes "inf_perm cs = Some (Some res)" "wf_list M mul cs"
  shows "sound M mul cs res"
proof -
  obtain D cnt c where s: "perm_scan cs [] False (int (length ([] :: node list))) = (D, True, cnt)" and c: "perm_emit (int 0) (rev D) = Some c"
    and res: "res = Result cnt c"
    using assms(1) by (auto simp: inf_perm_def bind_eq_Some_conv split: prod.splits if_splits)
  have "pushed M mul [] []" by (auto simp: pushed_def)
  from perm_scan_pushed [OF s assms(2) this] obtain m where m: "m \<le> length cs" "cnt = int m" "1 \<le> m"
    and p: "pushed M mul (take m cs) D" by auto
  from p obtain G where G: "list_all2 (holds M mul) D G"
    "\<And>d s r. run M (take m cs @ d) s r \<longleftrightarrow> run M d (set_stk s (stack_of G s)) r"
    by (auto simp: pushed_def)
  have "wf_list M mul c \<and> (\<forall>d s r. run M (c @ d) (set_stk s (stack_of [] s)) r \<longleftrightarrow>
      run M d (set_stk s (stack_of (rev (rev G) @ []) s)) r)"
    using G(1) by (intro perm_emit_run [OF c]) simp_all
  then have "wf_list M mul c" "refines M (take m cs) c"
    using G(2) [where d = "[]"] by (auto simp: refines_def dest: spec [of _ "[]"])
  then show ?thesis unfolding res using m by (intro sound_take [of _ m]) auto
qed

section \<open>The chain\<close>

context tvm
begin

lemma optimizeAtInf_sound_at:
  assumes "optimizeAtInf T l i = Some (Some res)" "wf_list M mul l" "at_cmd l i" "tables_ok T"
  shows "sound_tail M mul (commandsFrom l i) res"
proof -
  let ?cs = "commandsFrom l i"
  have wf: "wf_list M mul ?cs" using assms(2) by (auto simp: commandsFrom_def wf_unloc wf_list_take_drop)
  have ne: "?cs \<noteq> []" using next_step(2) [OF assms(3)] .
  note S = inf_store_sound [OF _ wf] inf_drops_sound [OF _ wf] inf_blkswap_cycle_sound [OF _ assms(2,3)]
    inf_pops_sound [OF _ wf ne] inf_reverse_pops_sound [OF _ wf ne] inf_rolls_sound [OF _ wf ne]
    inf_squash_sound [OF _ wf assms(4)] inf_perm_sound [OF _ wf]
  have "\<exists>r \<in> set [inf_last_ret ?cs, inf_ifnotjmp ?cs, inf_store ?cs, inf_drops ?cs, inf_blkswap_cycle l i, inf_pops ?cs,
        inf_reverse_pops ?cs, inf_rolls ?cs, inf_squash T ?cs, inf_perm ?cs]. r = Some (Some res)"
    using first_of_SomeD [OF assms(1) [unfolded optimizeAtInf_def Let_def]] by auto
  then show ?thesis
    unfolding bex_list
    by (elim disjE FalseE) (erule inf_last_ret_sound inf_ifnotjmp_sound [OF _ wf] S [THEN sound_imp_tail])+
qed

end

end
