(* ===== verification/PeepholeDriver.thy ===== *)
theory PeepholeDriver
  imports PeepholeInfStore
begin

text \<open>
  The driver of the peephole optimiser: \<open>optimizeAt\<close>, the passes \<open>unsquash\<close> and \<open>squashPush\<close>, the
  replacement of a window of commands (\<open>updateLinesAndIndex\<close>), the loop \<open>optimize\<close> that moves over
  a list of instructions, and \<open>endVisit\<close> of a block.

  The loops of \<open>optimize\<close> and \<open>endVisit\<close> need not end for every set of rules. They are functions into
  \<open>'a exc option\<close>: \<open>None\<close> is a run that does not end, \<open>Some None\<close> one that ends in an exception of the
  compiler. The two locales state what the driver relies on: rules that are sound, and rules that
  decrease a weight of the instructions.
\<close>

section \<open>The passes\<close>

definition optimizeSliceAt :: "node list \<Rightarrow> int \<Rightarrow> result option exc" where
  "optimizeSliceAt l idx1 = do {
     cmd1 \<leftarrow> get l idx1;
     optimizeSlice cmd1 (get l (nextCommandLine l idx1)) }"

definition optimizeAt :: "squasher \<Rightarrow> bool \<Rightarrow> bool \<Rightarrow> node list \<Rightarrow> int \<Rightarrow> result option exc" where
  "optimizeAt T withUnpackOpaque slice l idx1 =
     (if slice then optimizeSliceAt l idx1
      else
        let idx2 = nextCommandLine l idx1; idx3 = nextCommandLine l idx2; idx4 = nextCommandLine l idx3;
            idx5 = nextCommandLine l idx4; idx6 = nextCommandLine l idx5
        in do {
          c1 \<leftarrow> get l idx1;
          first_of ([optimizeAt1 c1 withUnpackOpaque, optimizeAtInf T l idx1] @
            (case get l idx2 of None \<Rightarrow> [] | Some c2 \<Rightarrow> optimizeAt2 c1 c2 #
            (case get l idx3 of None \<Rightarrow> [] | Some c3 \<Rightarrow> optimizeAt3 c1 c2 c3 #
            (case get l idx4 of None \<Rightarrow> [] | Some c4 \<Rightarrow> optimizeAt4 c1 c2 c3 c4 #
            (case get l idx5 of None \<Rightarrow> [] | Some c5 \<Rightarrow> optimizeAt5 c1 c2 c3 c4 c5 #
            (case get l idx6 of None \<Rightarrow> [] | Some c6 \<Rightarrow> [optimizeAt6 c1 c2 c3 c4 c5 c6])))))) })"

definition unsquash :: "bool \<Rightarrow> node list \<Rightarrow> int \<Rightarrow> result option exc" where
  "unsquash withUnpackOpaque l idx1 = do {
     c \<leftarrow> get l idx1;
     case c of
       Stack p i j k \<Rightarrow>
         if p = PUSH2_S then do { g \<leftarrow> makePUSH i; h \<leftarrow> makePUSH (j + 1); ret 1 [g, h] } else noResult
     | ReturnOrBreakOrCont _ b \<Rightarrow> if withUnpackOpaque then ret 1 (instructions b) else noResult
     | Opaque b _ _ _ \<Rightarrow> if withUnpackOpaque then ret 1 (instructions b) else noResult
     | _ \<Rightarrow> noResult }"

text \<open>The rules of \<open>squashPush\<close>, on the commands from the current one on.\<close>

definition sq_same :: "node list \<Rightarrow> result option exc" where
  "sq_same cs =
     (case cs of
        c1 # c2 # _ \<Rightarrow>
          (case (isPUSH c1, isPUSH c2) of
             (Some i, Some _) \<Rightarrow>
               let n = int (length (takeWhile (\<lambda>c. isPUSH c = Some i) cs))
               in if n \<ge> 2 \<and> i \<le> 15 then do { g \<leftarrow> makeBLKPUSH n i; ret n [g] } else noResult
           | _ \<Rightarrow> noResult)
      | _ \<Rightarrow> noResult)"

definition sq_push3 :: "node list \<Rightarrow> result option exc" where
  "sq_push3 cs =
     (case cs of
        c1 # c2 # c3 # _ \<Rightarrow>
          (case (isPUSH c1, isPUSH c2, isPUSH c3) of
             (Some si, Some p2, Some p3) \<Rightarrow>
               let sj = (if p2 - 1 = -1 then si else p2 - 1);
                   sk = (if p3 - 2 = -1 then si else if p3 - 2 = -2 then sj else p3 - 2)
               in if si \<le> 15 \<and> sj \<le> 15 \<and> sk \<le> 15 then do { g \<leftarrow> makePUSH3 si sj sk; ret 3 [g] } else noResult
           | _ \<Rightarrow> noResult)
      | _ \<Rightarrow> noResult)"

definition sq_push2 :: "node list \<Rightarrow> result option exc" where
  "sq_push2 cs =
     (case cs of
        c1 # c2 # _ \<Rightarrow>
          (case (isPUSH c1, isPUSH c2) of
             (Some si, Some p2) \<Rightarrow>
               let sj = (if p2 - 1 = -1 then si else p2 - 1)
               in if si \<le> 15 \<and> sj \<le> 15 then do { g \<leftarrow> makePUSH2 si sj; ret 2 [g] } else noResult
           | _ \<Rightarrow> noResult)
      | _ \<Rightarrow> noResult)"

definition sq_pure :: "node list \<Rightarrow> result option exc" where
  "sq_pure cs =
     (case cs of
        c1 # _ \<Rightarrow>
          if isPureGen01 c1 then
            let n = int (length (takeWhile (\<lambda>c. gen_info c \<noteq> None \<and> node_eq c1 c) cs))
            in if n \<ge> 2 then do { g \<leftarrow> makeBLKPUSH (n - 1) 0; ret n [c1, g] } else noResult
          else noResult
      | _ \<Rightarrow> noResult)"

definition sq_cell :: "node list \<Rightarrow> result option exc" where
  "sq_cell cs =
     (case cs of
        PushCellOrSlice x # _ \<Rightarrow>
          let n = int (length (takeWhile (\<lambda>c. case c of PushCellOrSlice y \<Rightarrow> push_cell_equal x y | _ \<Rightarrow> False) cs))
          in if n \<ge> 2 then do { g \<leftarrow> makeBLKPUSH (n - 1) 0; ret n [PushCellOrSlice x, g] } else noResult
      | _ \<Rightarrow> noResult)"

definition sq_tuck :: "node list \<Rightarrow> result option exc" where
  "sq_tuck cs =
     (case cs of
        c1 # c2 # _ \<Rightarrow> if isXCHG_S0 c1 = Some 1 \<and> isPUSH c2 = Some 1 then ret 2 [makeTUCK] else noResult
      | _ \<Rightarrow> noResult)"

definition sq_puxc :: "node list \<Rightarrow> result option exc" where
  "sq_puxc cs =
     (case cs of
        c1 # c2 # _ \<Rightarrow>
          (case isPUSH c1 of
             Some i \<Rightarrow>
               if isXCHG_S0 c2 = Some 1 \<and> 0 \<le> i \<and> i \<le> 15 then do { g \<leftarrow> makePUXC i (-1); ret 2 [g] } else noResult
           | None \<Rightarrow> noResult)
      | _ \<Rightarrow> noResult)"

definition sq_rules :: "(node list \<Rightarrow> result option exc) list" where
  "sq_rules = [sq_same, sq_push3, sq_push2, sq_pure, sq_cell, sq_tuck, sq_puxc]"

definition squashPush :: "node list \<Rightarrow> int \<Rightarrow> result option exc" where
  "squashPush l idx1 = first_of (map (\<lambda>r. r (commandsFrom l idx1)) sq_rules)"

section \<open>Replacing a window\<close>

text \<open>The position \<open>k\<close> commands further, with the assertions of the loop.\<close>

fun advance :: "nat \<Rightarrow> node list \<Rightarrow> int \<Rightarrow> int exc" where
  "advance 0 l lastInx = Some lastInx"
| "advance (Suc k) l lastInx =
     (let i = nextCommandLine l lastInx
      in do { _ \<leftarrow> solAssert (valid l i); _ \<leftarrow> solAssert (\<not> isLoc (l ! nat i)); advance k l i })"

definition updateLinesAndIndex :: "node list \<Rightarrow> int \<Rightarrow> result \<Rightarrow> node list exc" where
  "updateLinesAndIndex l idx1 res =
     (if removeQty res > 0 then do {
        _ \<leftarrow> solAssert (valid l idx1);
        _ \<leftarrow> solAssert (\<not> isLoc (l ! nat idx1));
        lastInx \<leftarrow> advance (nat (removeQty res - 1)) l idx1;
        let locs = filter isLoc (drop (nat idx1) (take (nat lastInx + 1) l));
        Some (take (nat idx1) l @ commands res @ (if locs = [] then [] else [last locs]) @ drop (nat lastInx + 1) l) }
      else Some l)"

section \<open>The loop\<close>

definition skipLoc :: "nat \<Rightarrow> node list \<Rightarrow> nat" where
  "skipLoc idx l = idx + length (takeWhile isLoc (drop idx l))"

text \<open>Back over \<open>cnt\<close> commands, or to the start.\<close>

fun stepBack :: "node list \<Rightarrow> nat \<Rightarrow> nat \<Rightarrow> nat" where
  "stepBack l cnt 0 = 0"
| "stepBack l 0 (Suc idx) = Suc idx"
| "stepBack l (Suc cnt) (Suc idx) = stepBack l (if isLoc (l ! idx) then Suc cnt else cnt) idx"

definition restart :: "node list \<Rightarrow> int \<Rightarrow> int" where
  "restart l idx1 = int (skipLoc (stepBack l 10 (nat (max (min idx1 (int (length l) - 1)) 0))) l)"

partial_function (option) optimize_loop ::
    "(node list \<Rightarrow> int \<Rightarrow> result option exc) \<Rightarrow> node list \<Rightarrow> int \<Rightarrow> bool \<Rightarrow> (node list \<times> bool) exc option" where
  "optimize_loop f l idx1 did =
     (if valid l idx1 then
        if isLoc (l ! nat idx1) then Some None
        else case f l idx1 of
          None \<Rightarrow> Some None
        | Some None \<Rightarrow> optimize_loop f l (nextCommandLine l idx1) did
        | Some (Some res) \<Rightarrow>
            (case updateLinesAndIndex l idx1 res of
               None \<Rightarrow> Some None
             | Some l' \<Rightarrow> optimize_loop f l' (restart l' idx1) True)
      else Some (Some (l, did)))"

definition optimize :: "(node list \<Rightarrow> int \<Rightarrow> result option exc) \<Rightarrow> node list \<Rightarrow> (node list \<times> bool) exc option" where
  "optimize f l = optimize_loop f l (int (skipLoc 0 l)) False"

text \<open>The loop of \<open>endVisit\<close>: again, as long as something has changed.\<close>

partial_function (option) optimize_while ::
    "(node list \<Rightarrow> int \<Rightarrow> result option exc) \<Rightarrow> node list \<Rightarrow> node list exc option" where
  "optimize_while f l =
     (case optimize f l of
        None \<Rightarrow> None
      | Some None \<Rightarrow> Some None
      | Some (Some (l', did)) \<Rightarrow> if did then optimize_while f l' else Some (Some l'))"

definition then_pass :: "'a exc option \<Rightarrow> ('a \<Rightarrow> 'b exc option) \<Rightarrow> 'b exc option" where
  "then_pass x g = (case x of None \<Rightarrow> None | Some None \<Rightarrow> Some None | Some (Some y) \<Rightarrow> g y)"

definition block_passes :: "squasher \<Rightarrow> bool \<Rightarrow> bool \<Rightarrow> node list \<Rightarrow> node list exc option" where
  "block_passes T withUnpackOpaque slice l =
     then_pass (optimize (unsquash withUnpackOpaque) l) (\<lambda>(l1, _).
     then_pass (optimize_while (optimizeAt T withUnpackOpaque slice) l1) (\<lambda>l2.
     then_pass (optimize squashPush l2) (\<lambda>(l3, _). Some (Some l3))))"

definition endVisit :: "squasher \<Rightarrow> bool \<Rightarrow> bool \<Rightarrow> code_block \<Rightarrow> code_block exc option" where
  "endVisit T withUnpackOpaque slice b =
     (case optimizeAt1 (BlockNode b) withUnpackOpaque of
        None \<Rightarrow> Some None
      | Some r \<Rightarrow>
          let b1 = (case r of Some (Result _ [BlockNode newBlock]) \<Rightarrow> newBlock | _ \<Rightarrow> b)
          in then_pass (block_passes T withUnpackOpaque slice (instructions b1)) (\<lambda>l. Some (Some (CodeBlock (btype b1) l))))"

declare optimize_loop.simps [code] optimize_while.simps [code]

end
