(* ===== verification/DriverLoop.thy ===== *)
theory DriverLoop
  imports PeepholeDriver
begin

text \<open>
  What the loop of the driver guarantees for any set of rules that keeps one of the two contracts:
  sound rules give a list that may replace the original one, with no assertion of the driver failing;
  rules that decrease a weight let the loop end.
\<close>

section \<open>Replacing a window\<close>

lemma advance_at:
  "at_cmd l i \<Longrightarrow> k < length (commandsFrom l i) \<Longrightarrow>
   \<exists>j. advance k l i = Some j \<and> at_cmd l j \<and> i \<le> j \<and> commandsFrom l j = drop k (commandsFrom l i)"
proof (induction k arbitrary: i)
  case (Suc k)
  note n = next_step [OF Suc.prems(1)]
  have "tl (commandsFrom l i) \<noteq> []" using Suc.prems(2) by (cases "commandsFrom l i") auto
  then have j: "at_cmd l (nextCommandLine l i)" "i < nextCommandLine l i"
    "commandsFrom l (nextCommandLine l i) = tl (commandsFrom l i)" using n(3,4) by auto
  then obtain j' where "advance k l (nextCommandLine l i) = Some j'" "at_cmd l j'" "nextCommandLine l i \<le> j'"
    "commandsFrom l j' = drop k (tl (commandsFrom l i))"
    using Suc.IH [OF j(1)] Suc.prems(2) by (auto simp: j(3) less_diff_conv)
  then show ?case using j by (auto simp: Let_def at_cmd_def drop_Suc)
qed simp

lemma unloc_locs: "list_all isLoc locs \<Longrightarrow> unloc locs = []"
  by (simp add: unloc_def list_all_iff filter_empty_conv)

lemma update_view:
  assumes "at_cmd l i" "removeQty res = int n" "1 \<le> n" "n \<le> length (commandsFrom l i)"
  shows "\<exists>l' locs. updateLinesAndIndex l i res = Some l' \<and> list_all isLoc locs \<and>
    unloc l' = unloc (take (nat i) l) @ unloc (commands res) @ drop n (commandsFrom l i) \<and>
    (\<exists>d. l' = take (nat i) l @ commands res @ locs @ d \<and> set d \<subseteq> set l)"
proof -
  obtain j where j: "advance (n - 1) l i = Some j" "at_cmd l j" "commandsFrom l j = drop (n - 1) (commandsFrom l i)"
  proof -
    have "n - 1 < length (commandsFrom l i)" using assms(3,4) by linarith
    from advance_at [OF assms(1) this] show thesis using that by blast
  qed
  let ?locs = "filter isLoc (drop (nat i) (take (nat j + 1) l))"
  let ?ll = "if ?locs = [] then [] else [last ?locs]"
  have q: "nat (removeQty res - 1) = n - 1" "removeQty res > 0" using assms(2,3) by auto
  have u: "updateLinesAndIndex l i res =
      Some (take (nat i) l @ commands res @ ?ll @ drop (nat j + 1) l)"
    unfolding updateLinesAndIndex_def q(1) using assms(1) q(2) j(1) by (simp add: at_cmd_def Let_def)
  have ll: "list_all isLoc ?ll" using last_in_set [of ?locs] by auto
  then have "unloc ?ll = []" by (rule unloc_locs)
  moreover have "unloc (drop (nat j + 1) l) = drop n (commandsFrom l i)"
  proof -
    have "unloc (drop (nat j + 1) l) = tl (commandsFrom l j)" using commandsFrom_at [OF j(2)] by simp
    also have "\<dots> = drop n (commandsFrom l i)" using assms(3) by (cases n) (simp_all add: j(3) drop_Suc tl_drop)
    finally show ?thesis .
  qed
  ultimately have "unloc (take (nat i) l @ commands res @ ?ll @ drop (nat j + 1) l) =
      unloc (take (nat i) l) @ unloc (commands res) @ drop n (commandsFrom l i)" by (simp only: unloc_simps append.simps)
  note v = this
  show ?thesis
    by (rule exI, rule exI [of _ ?ll], intro conjI, rule u, rule ll, rule v,
      rule exI [of _ "drop (nat j + 1) l"], rule conjI, rule refl, rule set_drop_subset)
qed

lemma unloc_split: "unloc l = unloc (take (nat i) l) @ commandsFrom l i"
  unfolding commandsFrom_def unloc_simps(2) [symmetric] by simp

lemma restart_at: "valid l (restart l i) \<Longrightarrow> at_cmd l (restart l i)"
proof -
  have "k < length l \<Longrightarrow> skipLoc k l < length l \<Longrightarrow> \<not> isLoc (l ! skipLoc k l)" for k
    using nth_length_takeWhile [of isLoc "drop k l"] by (simp add: skipLoc_def)
  moreover have "length l \<le> k \<Longrightarrow> \<not> skipLoc k l < length l" for k by (simp add: skipLoc_def)
  ultimately show "valid l (restart l i) \<Longrightarrow> at_cmd l (restart l i)"
    by (auto simp: restart_def at_cmd_def valid_def) (meson not_less)
qed

text \<open>The restart is ten commands back, or at the first one.\<close>

lemma stepBack_commands:
  "k \<le> length l \<Longrightarrow> stepBack l cnt k \<le> k \<and>
   length (unloc (take k l)) = length (unloc (take (stepBack l cnt k) l)) + min cnt (length (unloc (take k l)))"
proof (induction l cnt k rule: stepBack.induct)
  case (3 l cnt k)
  have "length (unloc (take (Suc k) l)) = length (unloc (take k l)) + (if isLoc (l ! k) then 0 else 1)"
    using 3(2) by (simp add: take_Suc_conv_app_nth)
  then show ?case using 3 by (auto split: if_splits)
qed simp_all

lemma skipLoc_before:
  assumes "j \<le> i" "i < length l" "\<not> isLoc (l ! i)"
  shows "skipLoc j l \<le> i" "unloc (take (skipLoc j l) l) = unloc (take j l)"
proof -
  let ?k = "length (takeWhile isLoc (drop j l))"
  have "?k \<le> i - j"
  proof (rule ccontr)
    assume "\<not> ?k \<le> i - j"
    then have "i - j < ?k" by simp
    then have "takeWhile isLoc (drop j l) ! (i - j) = drop j l ! (i - j)" "isLoc (takeWhile isLoc (drop j l) ! (i - j))"
      using takeWhile_nth nth_mem set_takeWhileD by metis+
    then show False using assms by simp
  qed
  then show "skipLoc j l \<le> i" using assms(1) by (simp add: skipLoc_def)
  have "take (j + ?k) l = take j l @ takeWhile isLoc (drop j l)"
    by (simp add: take_add takeWhile_eq_take [symmetric])
  moreover have "unloc (takeWhile isLoc (drop j l)) = []"
    by (intro unloc_locs) (auto simp: list_all_iff dest: set_takeWhileD)
  ultimately show "unloc (take (skipLoc j l) l) = unloc (take j l)" by (simp add: skipLoc_def)
qed

lemma restart_back:
  assumes "at_cmd l i"
  shows "at_cmd l (restart l i)" "restart l i \<le> i"
    "length (unloc (take (nat i) l)) =
      length (unloc (take (nat (restart l i)) l)) + min 10 (length (unloc (take (nat i) l)))"
proof -
  have i: "0 \<le> i" "nat i < length l" "\<not> isLoc (l ! nat i)" using assms by (auto simp: at_cmd_def valid_def)
  let ?j = "stepBack l 10 (nat i)"
  have r: "restart l i = int (skipLoc ?j l)"
  proof -
    have "nat (max (min i (int (length l) - 1)) 0) = nat i" using i by simp
    then show ?thesis unfolding restart_def by simp
  qed
  have j: "?j \<le> nat i" using stepBack_commands [of "nat i" l 10] i(2) by simp
  note s = skipLoc_before [OF j i(2,3)]
  then show "restart l i \<le> i" using r i(1) by simp
  then have "valid l (restart l i)" using i r by (simp add: valid_def)
  then show "at_cmd l (restart l i)" by (rule restart_at)
  show "length (unloc (take (nat i) l)) =
      length (unloc (take (nat (restart l i)) l)) + min 10 (length (unloc (take (nat i) l)))"
    using stepBack_commands [of "nat i" l 10] i(2) s(2) r by simp
qed

lemma start_at: "valid l (int (skipLoc 0 l)) \<Longrightarrow> at_cmd l (int (skipLoc 0 l))"
  using nth_length_takeWhile [of isLoc l] by (simp add: at_cmd_def valid_def skipLoc_def)

lemma next_at: "at_cmd l i \<Longrightarrow> valid l (nextCommandLine l i) \<Longrightarrow> at_cmd l (nextCommandLine l i)"
  using next_step(4) [of l i] by (auto simp: valid_def)

section \<open>Sound rules\<close>

text \<open>
  The contract of a set of rules: at a command of a well-formed list whose nodes satisfy \<open>ok\<close>, a result
  is sound and its nodes satisfy \<open>ok\<close> again. The client is the loop: what it makes of a list may replace it.
\<close>

definition keeps :: "'w machine \<Rightarrow> (node \<Rightarrow> bool) \<Rightarrow> bool \<Rightarrow> node list \<Rightarrow> node list \<Rightarrow> bool" where
  "keeps M ok mul l l' = (refines_tail M l l' \<and> wf_list M mul l' \<and> list_all ok l')"

lemma keeps_trans: "keeps M ok mul a b \<Longrightarrow> keeps M ok mul b c \<Longrightarrow> keeps M ok mul a c"
  using refines_tail_trans by (auto simp: keeps_def)

lemma keeps_refl: "wf_list M mul l \<Longrightarrow> list_all ok l \<Longrightarrow> keeps M ok mul l l"
  by (simp add: keeps_def)

locale sound_pass =
  fixes M :: "'w machine" and f :: "node list \<Rightarrow> int \<Rightarrow> result option exc" and ok :: "node \<Rightarrow> bool"
  assumes sound: "f l i = Some (Some res) \<Longrightarrow> wf_list M mul l \<Longrightarrow> list_all ok l \<Longrightarrow> at_cmd l i \<Longrightarrow>
      sound_tail M mul (commandsFrom l i) res"
    and ok_result: "f l i = Some (Some res) \<Longrightarrow> list_all ok l \<Longrightarrow> at_cmd l i \<Longrightarrow> list_all ok (commands res)"
    and ok_loc: "isLoc n \<Longrightarrow> ok n"
begin

lemma update_refines:
  assumes "f l i = Some (Some res)" "wf_list M mul l" "list_all ok l" "at_cmd l i"
  shows "\<exists>l'. updateLinesAndIndex l i res = Some l' \<and> keeps M ok mul l l'"
proof -
  obtain n where n: "removeQty res = int n" "1 \<le> n" "n \<le> length (commandsFrom l i)"
    "refines_tail M (commandsFrom l i) (commands res @ drop n (commandsFrom l i))" "wf_list M mul (commands res)"
    using sound [OF assms] by (auto simp: sound_tail_def)
  obtain l' locs d where l': "updateLinesAndIndex l i res = Some l'" "list_all isLoc locs"
    "unloc l' = unloc (take (nat i) l) @ unloc (commands res) @ drop n (commandsFrom l i)"
    "l' = take (nat i) l @ commands res @ locs @ d" "set d \<subseteq> set l"
    using update_view [OF assms(4) n(1-3)] by blast
  have "unloc (drop n (commandsFrom l i)) = drop n (commandsFrom l i)"
    by (auto simp: commandsFrom_def unloc_def filter_id_conv dest: in_set_dropD)
  then have "refines_tail M (commandsFrom l i) (unloc (commands res) @ drop n (commandsFrom l i))"
    using n(4) refines_tail_unloc [of M "commandsFrom l i" "commands res @ drop n (commandsFrom l i)"]
    by (simp add: commandsFrom_def unloc_def)
  then have "refines_tail M (unloc l) (unloc l')"
    unfolding l'(3) unloc_split [of l i] by (rule refines_tail_append)
  moreover have "wf_list M mul l'"
    using assms(2) n(5) l'(2,4,5)
    by (auto simp: wf_list_iff list_all_iff wfn_isLoc dest: in_set_takeD)
  moreover have "list_all ok l'"
    using assms(3) ok_result [OF assms(1,3,4)] l'(2,4,5)
    by (auto simp: list_all_iff ok_loc dest: in_set_takeD)
  ultimately show ?thesis using l'(1) refines_tail_unloc unfolding keeps_def by blast
qed

lemma optimize_loop_keeps:
  assumes "optimize_loop f l i did = Some (Some (l', did'))" "wf_list M mul l" "list_all ok l" "valid l i \<Longrightarrow> at_cmd l i"
  shows "keeps M ok mul l l'"
proof -
  let ?P = "\<lambda>g l i did r. g = f \<longrightarrow> wf_list M mul l \<longrightarrow> list_all ok l \<longrightarrow> (valid l i \<longrightarrow> at_cmd l i) \<longrightarrow>
    (\<forall>l' did'. r = Some (l', did') \<longrightarrow> keeps M ok mul l l')"
  have "?P f l i did (Some (l', did'))"
  proof (rule optimize_loop.raw_induct [where P = ?P, OF _ assms(1)], intro impI allI)
    fix loop and g :: "node list \<Rightarrow> int \<Rightarrow> result option exc" and l i did r l' did'
    assume ih: "\<And>g l i did r. loop g l i did = Some r \<Longrightarrow> ?P g l i did r"
      and body: "(if valid l i then
        if isLoc (l ! nat i) then Some None
        else case g l i of
          None \<Rightarrow> Some None
        | Some None \<Rightarrow> loop g l (nextCommandLine l i) did
        | Some (Some res) \<Rightarrow>
            (case updateLinesAndIndex l i res of
               None \<Rightarrow> Some None
             | Some l' \<Rightarrow> loop g l' (restart l' i) True)
      else Some (Some (l, did))) = Some r"
      and g: "g = f" and wf: "wf_list M mul l" "list_all ok l" and at: "valid l i \<longrightarrow> at_cmd l i" and r: "r = Some (l', did')"
    show "keeps M ok mul l l'"
    proof (cases "valid l i")
      case False
      then show ?thesis using body r wf by (simp add: keeps_def)
    next
      case True
      then have i: "at_cmd l i" using at by simp
      consider "f l i = Some None" "loop f l (nextCommandLine l i) did = Some (Some (l', did'))"
        | res l1 where "f l i = Some (Some res)" "updateLinesAndIndex l i res = Some l1"
            "loop f l1 (restart l1 i) True = Some (Some (l', did'))"
        using body g r True i by (auto simp: at_cmd_def split: option.splits)
      then show ?thesis
      proof cases
        case 1
        then show ?thesis using ih [OF 1(2)] next_at [OF i] wf by simp
      next
        case (2 res l1)
        then have l1: "keeps M ok mul l l1" using update_refines [OF 2(1) wf i] by auto
        then have "keeps M ok mul l1 l'" using ih [OF 2(3)] restart_at by (simp add: keeps_def)
        then show ?thesis using l1 keeps_trans by blast
      qed
    qed
  qed
  then show ?thesis using assms(2-) by simp
qed

lemma optimize_keeps:
  assumes "optimize f l = Some (Some (l', did))" "wf_list M mul l" "list_all ok l"
  shows "keeps M ok mul l l'"
  using optimize_loop_keeps [OF assms(1) [unfolded optimize_def] assms(2,3) start_at] .

lemma optimize_while_keeps:
  assumes "optimize_while f l = Some (Some l')" "wf_list M mul l" "list_all ok l"
  shows "keeps M ok mul l l'"
proof -
  let ?P = "\<lambda>g l r. g = f \<longrightarrow> wf_list M mul l \<longrightarrow> list_all ok l \<longrightarrow> (\<forall>l'. r = Some l' \<longrightarrow> keeps M ok mul l l')"
  have "?P f l (Some l')"
  proof (rule optimize_while.raw_induct [where P = ?P, OF _ assms(1)], intro impI allI)
    fix loop and g :: "node list \<Rightarrow> int \<Rightarrow> result option exc" and l r l'
    assume ih: "\<And>g l r. loop g l = Some r \<Longrightarrow> ?P g l r"
      and body: "(case optimize g l of
        None \<Rightarrow> None
      | Some None \<Rightarrow> Some None
      | Some (Some (l', did)) \<Rightarrow> if did then loop g l' else Some (Some l')) = Some r"
      and g: "g = f" and wf: "wf_list M mul l" "list_all ok l" and r: "r = Some l'"
    obtain l1 did where l1: "optimize f l = Some (Some (l1, did))" "if did then loop f l1 = Some (Some l') else l1 = l'"
      using body g r by (auto split: option.splits prod.splits if_splits)
    have k: "keeps M ok mul l l1" using optimize_keeps [OF l1(1) wf] .
    show "keeps M ok mul l l'"
    proof (cases did)
      case True
      then have "keeps M ok mul l1 l'" using l1(2) ih k by (simp add: keeps_def)
      then show ?thesis using k keeps_trans by blast
    qed (use l1(2) k in simp)
  qed
  then show ?thesis using assms(2,3) by simp
qed

text \<open>No assertion of the driver fails: an exception comes from a rule.\<close>

lemma optimize_loop_exception:
  assumes "optimize_loop f l i did = Some None" "wf_list M mul l" "list_all ok l" "valid l i \<Longrightarrow> at_cmd l i"
  shows "\<exists>l' i'. keeps M ok mul l l' \<and> at_cmd l' i' \<and> f l' i' = None"
proof -
  let ?Q = "\<lambda>l. \<exists>l' i'. keeps M ok mul l l' \<and> at_cmd l' i' \<and> f l' i' = None"
  let ?P = "\<lambda>g l i did (r :: (node list \<times> bool) option). g = f \<longrightarrow> wf_list M mul l \<longrightarrow> list_all ok l \<longrightarrow>
    (valid l i \<longrightarrow> at_cmd l i) \<longrightarrow> r = None \<longrightarrow> ?Q l"
  have "?P f l i did None"
  proof (rule optimize_loop.raw_induct [where P = ?P, OF _ assms(1)], intro impI)
    fix loop and g :: "node list \<Rightarrow> int \<Rightarrow> result option exc" and l i did r
    assume ih: "\<And>g l i did r. loop g l i did = Some r \<Longrightarrow> ?P g l i did r"
      and body: "(if valid l i then
        if isLoc (l ! nat i) then Some None
        else case g l i of
          None \<Rightarrow> Some None
        | Some None \<Rightarrow> loop g l (nextCommandLine l i) did
        | Some (Some res) \<Rightarrow>
            (case updateLinesAndIndex l i res of
               None \<Rightarrow> Some None
             | Some l' \<Rightarrow> loop g l' (restart l' i) True)
      else Some (Some (l, did))) = Some r"
      and g: "g = f" and wf: "wf_list M mul l" "list_all ok l" and at: "valid l i \<longrightarrow> at_cmd l i" and r: "r = None"
    have i: "at_cmd l i" using body r at by (auto split: if_splits)
    consider "f l i = None" | "f l i = Some None" "loop f l (nextCommandLine l i) did = Some None"
      | res l1 where "f l i = Some (Some res)" "updateLinesAndIndex l i res = Some l1" "loop f l1 (restart l1 i) True = Some None"
      using body g r i update_refines [OF _ wf i] by (auto simp: at_cmd_def split: option.splits)
    then show "?Q l"
    proof cases
      case 1
      then show ?thesis using i wf keeps_refl by blast
    next
      case 2
      then show ?thesis using ih [OF 2(2)] next_at [OF i] wf by simp
    next
      case (3 res l1)
      then have l1: "keeps M ok mul l l1" using update_refines [OF 3(1) wf i] by auto
      then have "?Q l1" using ih [OF 3(3)] restart_at by (simp add: keeps_def)
      then show ?thesis using l1 keeps_trans by blast
    qed
  qed
  then show ?thesis using assms(2-) by simp
qed

lemma optimize_exception:
  assumes "optimize f l = Some None" "wf_list M mul l" "list_all ok l"
  shows "\<exists>l' i'. keeps M ok mul l l' \<and> at_cmd l' i' \<and> f l' i' = None"
  using optimize_loop_exception [OF assms(1) [unfolded optimize_def] assms(2,3) start_at] .

end

section \<open>Rules that decrease a weight\<close>

locale decreasing_pass =
  fixes f :: "node list \<Rightarrow> int \<Rightarrow> result option exc" and weight :: "node \<Rightarrow> nat"
  assumes loc: "isLoc n \<Longrightarrow> weight n = 0"
    and decrease: "f l i = Some (Some res) \<Longrightarrow> at_cmd l i \<Longrightarrow>
      \<exists>n. removeQty res = int n \<and> 1 \<le> n \<and> n \<le> length (commandsFrom l i) \<and>
        sum_list (map weight (commands res)) < sum_list (map weight (take n (commandsFrom l i)))"
begin

definition total :: "node list \<Rightarrow> nat" where
  "total l = sum_list (map weight l)"

lemma total_unloc: "total (unloc l) = total l"
  by (induction l) (auto simp: total_def loc)

lemma total_append: "total (a @ b) = total a + total b"
  by (simp add: total_def)

lemma update_decreases:
  assumes "f l i = Some (Some res)" "at_cmd l i"
  shows "\<exists>l'. updateLinesAndIndex l i res = Some l' \<and> total l' < total l"
proof -
  obtain n where n: "removeQty res = int n" "1 \<le> n" "n \<le> length (commandsFrom l i)"
    "total (commands res) < total (take n (commandsFrom l i))"
    using decrease [OF assms] by (auto simp: total_def)
  obtain l' where l': "updateLinesAndIndex l i res = Some l'"
    "unloc l' = unloc (take (nat i) l) @ unloc (commands res) @ drop n (commandsFrom l i)"
    using update_view [OF assms(2) n(1-3)] by blast
  have "total (unloc l') < total (unloc l)"
    using n(4) total_append [of "take n (commandsFrom l i)" "drop n (commandsFrom l i)"]
    unfolding l'(2) unloc_split [of l i] by (simp add: total_append total_unloc)
  then show ?thesis using l'(1) by (simp add: total_unloc)
qed

definition ended :: "node list \<Rightarrow> bool \<Rightarrow> (node list \<times> bool) exc \<Rightarrow> bool" where
  "ended l did y = (\<forall>l' d. y = Some (l', d) \<longrightarrow> total l' \<le> total l \<and> (d \<and> \<not> did \<longrightarrow> total l' < total l))"

lemma optimize_loop_ends:
  assumes "valid l i \<Longrightarrow> at_cmd l i"
  shows "\<exists>y. optimize_loop f l i did = Some y \<and> ended l did y"
  using assms
proof (induction "(total l, if valid l i then length (commandsFrom l i) else 0)" arbitrary: l i did
    rule: wf_induct_rule [OF wf_lex_prod [OF wf_less_than wf_less_than]])
  case 1
  show ?case
  proof (cases "valid l i")
    case False
    then show ?thesis by (simp add: optimize_loop.simps ended_def)
  next
    case True
    then have i: "at_cmd l i" "\<not> isLoc (l ! nat i)" using 1(2) by (auto simp: at_cmd_def)
    consider "f l i = None" | "f l i = Some None" | res where "f l i = Some (Some res)" by (metis option.exhaust)
    then show ?thesis
    proof cases
      case 1
      then show ?thesis using True i by (simp add: optimize_loop.simps [of f l] ended_def)
    next
      case 2
      let ?j = "nextCommandLine l i"
      have "valid l ?j \<Longrightarrow> length (commandsFrom l ?j) < length (commandsFrom l i)"
        using next_step [OF i(1)] by (cases "commandsFrom l i") (auto simp: valid_def)
      moreover have "length (commandsFrom l i) > 0" using next_step(2) [OF i(1)] by simp
      ultimately have "\<exists>y. optimize_loop f l ?j did = Some y \<and> ended l did y"
        using "1.hyps" [of l ?j did] next_at [OF i(1)] True by auto
      then show ?thesis using 2 True i(2) by (simp add: optimize_loop.simps [of f l i])
    next
      case (3 res)
      obtain l1 where l1: "updateLinesAndIndex l i res = Some l1" "total l1 < total l"
        using update_decreases [OF 3 i(1)] by blast
      obtain y where y: "optimize_loop f l1 (restart l1 i) True = Some y" "ended l1 True y"
        using "1.hyps" [of l1 "restart l1 i" True] restart_at l1(2) by auto
      have "optimize_loop f l i did = Some y" using 3 l1(1) y(1) True i(2) by (simp add: optimize_loop.simps [of f l i])
      then show ?thesis using y(2) l1(2) by (fastforce simp: ended_def)
    qed
  qed
qed

lemma optimize_ends: "\<exists>y. optimize f l = Some y \<and> ended l False y"
  unfolding optimize_def by (rule optimize_loop_ends) (rule start_at)

lemma optimize_while_ends: "\<exists>y. optimize_while f l = Some y"
proof (induction "total l" arbitrary: l rule: less_induct)
  case less
  obtain y where y: "optimize f l = Some y" "ended l False y" using optimize_ends by blast
  show ?case
  proof (cases y)
    case None
    then show ?thesis using y(1) by (simp add: optimize_while.simps [of f l])
  next
    case (Some a)
    obtain l' d where a: "a = (l', d)" by (cases a)
    show ?thesis
    proof (cases d)
      case True
      then have "total l' < total l" using y(2) Some a unfolding ended_def by blast
      from less.hyps [OF this] show ?thesis using y(1) Some a True by (simp add: optimize_while.simps [of f l])
    qed (use y(1) Some a in \<open>simp add: optimize_while.simps [of f l]\<close>)
  qed
qed

end

end
