(* ===== verification/DriverPasses.thy ===== *)
theory DriverPasses
  imports DriverLoop
begin

text \<open>
  The passes of the driver keep the contracts of the loop: \<open>unsquash\<close>, \<open>optimizeAt\<close> and \<open>squashPush\<close>
  are sound on every machine that behaves as documented, and \<open>unsquash\<close>, \<open>squashPush\<close> and the slice
  pass decrease a weight, so that they end on every input.
\<close>

section \<open>Copies of a push\<close>

lemma iterated_pushes:
  assumes "\<And>n s r c. n \<in> set ds \<Longrightarrow> run M (n # c) s r \<longleftrightarrow> run M c (set_stk s (spush (g (glb s) (wld s)) (stk s))) r"
  shows "run M (ds @ c) s r \<longleftrightarrow> run M c (set_stk s ((spush (g (glb s) (wld s)) ^^ length ds) (stk s))) r"
  using assms
proof (induction ds arbitrary: s)
  case (Cons n ds)
  then show ?case by (simp add: funpow_swap1)
qed simp

lemma pushes_closed: "(spush v ^^ n) t k = (if k < n then v else t (k - n))"
  by (induction n arbitrary: k) (auto simp: spush_def)

lemma push_dup: "1 \<le> n \<Longrightarrow> sblkpush (n - 1) 0 (spush v t) = (spush v ^^ n) t"
  by (rule ext) (auto simp: sblkpush_dup pushes_closed spush_def simp del: sblkpush.simps intro!: stack_cong)

lemma same_pushes: "comp_all (replicate n (spushs j)) t = sblkpush n j t"
  by (induction n arbitrary: t) simp_all

lemma takeWhile_prefix:
  "take (length (takeWhile P cs)) cs = takeWhile P cs" "length (takeWhile P cs) \<le> length cs"
  "x \<in> set (takeWhile P cs) \<Longrightarrow> P x \<and> x \<in> set cs"
proof -
  show "take (length (takeWhile P cs)) cs = takeWhile P cs" by (rule takeWhile_eq_take [symmetric])
qed (auto simp: length_takeWhile_le dest: set_takeWhileD)

lemma sq_same_sound:
  assumes "sq_same cs = Some (Some res)" "wf_list M mul cs"
  shows "sound M mul cs res"
proof -
  obtain i g where n: "2 \<le> length (takeWhile (\<lambda>c. isPUSH c = Some i) cs)"
    and g: "makeBLKPUSH (int (length (takeWhile (\<lambda>c. isPUSH c = Some i) cs))) i = Some g"
    and res: "res = Result (int (length (takeWhile (\<lambda>c. isPUSH c = Some i) cs))) [g]"
    using assms(1) unfolding sq_same_def
    by (auto simp: Let_def bind_eq_Some_conv simp del: takeWhile.simps split: list.split_asm option.split_asm if_split_asm)
  let ?ds = "takeWhile (\<lambda>c. isPUSH c = Some i) cs"
  note p = takeWhile_prefix [where P = "\<lambda>c. isPUSH c = Some i" and cs = cs]
  obtain a b where ab: "int (length ?ds) = int a" "i = int b" "stk_is g (sblkpush a b)" "stk_wfn g"
    using makeBLKPUSH_view [OF g] by blast
  have "stk_is x (spushs b)" if "x \<in> set ?ds" for x
    using isPUSH_view [of x i M mul] p(3) [OF that] assms(2) ab(2) by (auto simp: wf_list_iff)
  then have "list_all2 stk_is ?ds (replicate (length ?ds) (spushs b))" by (simp add: list_all2_conv_all_nth)
  then have "refines M ?ds [g]"
    by (rule refines_stk_all [of _ _ _ "[sblkpush a b]"]) (use ab in \<open>auto simp: fun_eq_iff same_pushes\<close>)
  then show ?thesis
    unfolding res using n p(1,2) stk_wfn_wfn [OF ab(4)] by (intro sound_take [of _ "length ?ds"]) auto
qed

lemma sound_first:
  assumes "refines M [a, b] c" "wf_list M mul c"
  shows "sound M mul (a # b # d) (Result 2 c)"
  using sound_prefix [OF assms, of 2 d] by simp

lemma sq_push2_sound:
  assumes "sq_push2 cs = Some (Some res)" "wf_list M mul cs"
  shows "sound M mul cs res"
proof -
  obtain c1 c2 d si p2 g where cs: "cs = c1 # c2 # d" "isPUSH c1 = Some si" "isPUSH c2 = Some p2"
    and g: "makePUSH2 si (if p2 - 1 = -1 then si else p2 - 1) = Some g" and res: "res = Result 2 [g]"
    using assms(1) unfolding sq_push2_def
    by (auto simp: Let_def bind_eq_Some_conv split: list.split_asm option.split_asm if_split_asm)
  obtain a b where ab: "si = int a" "stk_is c1 (spushs a)" "p2 = int b" "stk_is c2 (spushs b)"
    using isPUSH_view [OF cs(2), of M mul] isPUSH_view [OF cs(3), of M mul] assms(2) by (auto simp: cs(1))
  obtain a' b' where g': "si = int a'" "(if p2 - 1 = -1 then si else p2 - 1) = int b'"
    "stk_is g (\<lambda>t. spush (t b') (spush (t a') t))" "stk_wfn g" using makePUSH2_view [OF g] by blast
  have "a' = a" "b' = (if b = 0 then a else b - 1)" using g'(1,2) ab by (auto split: if_splits)
  then have "comp_all [spushs a, spushs b] = comp_all [\<lambda>t. spush (t b') (spush (t a') t)]"
    by (auto simp: fun_eq_iff spushs_def spush_def)
  then have "refines M [c1, c2] [g]"
    using ab g'(3) by (intro refines_stk_all [of "[c1, c2]" "[spushs a, spushs b]" "[g]"]) auto
  then show ?thesis unfolding res cs(1) using stk_wfn_wfn [OF g'(4)] by (intro sound_first) auto
qed

lemma sq_push3_sound:
  assumes "sq_push3 cs = Some (Some res)" "wf_list M mul cs"
  shows "sound M mul cs res"
proof -
  obtain c1 c2 c3 d si p2 p3 sj sk g where cs: "cs = c1 # c2 # c3 # d" "isPUSH c1 = Some si" "isPUSH c2 = Some p2" "isPUSH c3 = Some p3"
    and sj: "sj = (if p2 - 1 = -1 then si else p2 - 1)" and sk: "sk = (if p3 - 2 = -1 then si else if p3 - 2 = -2 then sj else p3 - 2)"
    and g: "makePUSH3 si sj sk = Some g" and res: "res = Result 3 [g]"
    using assms(1) unfolding sq_push3_def Let_def
    by (auto simp: bind_eq_Some_conv split: list.split_asm option.split_asm if_split_asm)
  obtain a b c where ab: "si = int a" "stk_is c1 (spushs a)" "p2 = int b" "stk_is c2 (spushs b)" "p3 = int c" "stk_is c3 (spushs c)"
    using isPUSH_view [OF cs(2), of M mul] isPUSH_view [OF cs(3), of M mul] isPUSH_view [OF cs(4), of M mul] assms(2) by (auto simp: cs(1))
  obtain a' b' c' where g': "si = int a'" "sj = int b'" "sk = int c'"
    "stk_is g (\<lambda>t. spush (t c') (spush (t b') (spush (t a') t)))" "stk_wfn g" using makePUSH3_view [OF g] by blast
  have "a' = a" "b' = (if b = 0 then a else b - 1)" "c' = (if c = 0 then b' else if c = 1 then a else c - 2)"
    using g'(1-3) ab sj sk by (auto split: if_splits)
  then have "comp_all [spushs a, spushs b, spushs c] = comp_all [\<lambda>t. spush (t c') (spush (t b') (spush (t a') t))]"
    by (auto simp: fun_eq_iff spushs_def spush_def numeral_2_eq_2)
  then have "refines M [c1, c2, c3] [g]"
    using ab g'(4) by (intro refines_stk_all [of "[c1, c2, c3]" "[spushs a, spushs b, spushs c]" "[g]"]) auto
  then show ?thesis
    unfolding res cs(1) using stk_wfn_wfn [OF g'(5)] sound_prefix [of M "[c1, c2, c3]" "[g]" mul 3 d] by auto
qed

lemma sq_tuck_sound:
  assumes "sq_tuck cs = Some (Some res)" "wf_list M mul cs"
  shows "sound M mul cs res"
proof -
  obtain c1 c2 d where cs: "cs = c1 # c2 # d" "isXCHG_S0 c1 = Some 1" "isPUSH c2 = Some 1" "res = Result 2 [makeTUCK]"
    using assms(1) unfolding sq_tuck_def by (auto split: list.split_asm if_split_asm)
  have v: "stk_is c1 (sxchg 0 1)" "stk_is c2 (spushs 1)"
    using isXCHG_S0_view [OF cs(2), of M mul] isPUSH_view [OF cs(3), of M mul] assms(2) by (auto simp: cs(1))
  have "refines M [c1, c2] [makeTUCK]"
    by (rule refines_stk_all [of _ "[sxchg 0 1, spushs 1]" _ "[\<lambda>t. spushs 1 (sxchg 0 1 t)]"])
      (use v makeTUCK_view in \<open>auto simp: fun_eq_iff\<close>)
  then show ?thesis unfolding cs(4) cs(1) using stk_wfn_wfn [of makeTUCK] makeTUCK_view by (intro sound_first) auto
qed

lemma sq_puxc_sound:
  assumes "sq_puxc cs = Some (Some res)" "wf_list M mul cs"
  shows "sound M mul cs res"
proof -
  obtain c1 c2 d i g where cs: "cs = c1 # c2 # d" "isPUSH c1 = Some i" "isXCHG_S0 c2 = Some 1"
    and g: "makePUXC i (-1) = Some g" "res = Result 2 [g]"
    using assms(1) unfolding sq_puxc_def by (auto simp: bind_eq_Some_conv split: list.split_asm option.split_asm if_split_asm)
  obtain a where v: "i = int a" "stk_is c1 (spushs a)" "stk_is c2 (sxchg 0 1)"
    using isPUSH_view [OF cs(2), of M mul] isXCHG_S0_view [OF cs(3), of M mul] assms(2) by (auto simp: cs(1))
  have g': "stk_is g (\<lambda>t. sxchg 0 1 (spushs a t))" "stk_wfn g" using makePUXC_view [OF g(1)] v(1) by auto
  have "refines M [c1, c2] [g]"
    by (rule refines_stk_all [of _ "[spushs a, sxchg 0 1]" _ "[\<lambda>t. sxchg 0 1 (spushs a t)]"])
      (use v g' in \<open>auto simp: fun_eq_iff\<close>)
  then show ?thesis unfolding g(2) cs(1) using stk_wfn_wfn [OF g'(2)] by (intro sound_first) auto
qed

lemma push_cell_equal_iff: "push_cell_equal c d \<longleftrightarrow> c = d"
  by (induction c d rule: push_cell_equal.induct) (auto split: option.splits)

text \<open>Equal constants: the first one, then copies of it.\<close>

lemma dup_sound:
  assumes "pushes M c1" "wfn M mul c1" "makeBLKPUSH (int (length ds) - 1) 0 = Some g" "2 \<le> length ds"
    and eq: "\<And>n s r. n \<in> set ds \<Longrightarrow> run1 M n s r \<longleftrightarrow> run1 M c1 s r"
  shows "sound M mul (ds @ d) (Result (int (length ds)) [c1, g])"
proof -
  obtain f where f: "\<And>s r c. run M (c1 # c) s r \<longleftrightarrow> run M c (set_stk s (spush (f (glb s) (wld s)) (stk s))) r"
    using pushes_run [OF assms(1)] by blast
  have "run M (n # c) s r \<longleftrightarrow> run M c (set_stk s (spush (f (glb s) (wld s)) (stk s))) r" if "n \<in> set ds" for n s r c
    using f [of c s r] eq [OF that] by (simp add: run_Cons_iff)
  note P = iterated_pushes [of ds M f, OF this]
  have "stk_is g (sblkpush (length ds - 1) 0)" "stk_wfn g"
  proof -
    obtain a b where a: "int (length ds) - 1 = int a" "0 = int b" "stk_is g (sblkpush a b)" "stk_wfn g"
      using makeBLKPUSH_view [OF assms(3)] by blast
    then have "a = length ds - 1" "b = 0" by linarith+
    then show "stk_is g (sblkpush (length ds - 1) 0)" "stk_wfn g" using a by simp_all
  qed
  moreover from this have "refines M ds [c1, g]"
    using push_dup [of "length ds"] assms(4) P [of "[]"]
    by (auto simp: refines_def f run_stk_is)
  ultimately show ?thesis
    using assms(2,4) stk_wfn_wfn by (intro sound_prefix) auto
qed

context tvm
begin

lemma sq_pure_sound:
  assumes "sq_pure cs = Some (Some res)" "wf_list M mul cs"
  shows "sound M mul cs res"
proof -
  obtain c1 d g where cs: "cs = c1 # d" and pure: "isPureGen01 c1"
    and n: "2 \<le> length (takeWhile (\<lambda>c. gen_info c \<noteq> None \<and> node_eq c1 c) cs)"
    and g: "makeBLKPUSH (int (length (takeWhile (\<lambda>c. gen_info c \<noteq> None \<and> node_eq c1 c) cs)) - 1) 0 = Some g"
    and res: "res = Result (int (length (takeWhile (\<lambda>c. gen_info c \<noteq> None \<and> node_eq c1 c) cs))) [c1, g]"
    using assms(1) unfolding sq_pure_def
    by (auto simp: Let_def bind_eq_Some_conv simp del: takeWhile.simps split: list.split_asm if_split_asm)
  let ?ds = "takeWhile (\<lambda>c. gen_info c \<noteq> None \<and> node_eq c1 c) cs"
  have wf: "wfn M mul c1" using assms(2) by (simp add: cs)
  have "run1 M x s r \<longleftrightarrow> run1 M c1 s r" if "x \<in> set ?ds" for x s r
    using takeWhile_prefix(3) [OF that] node_eq_run(1) [of c1 x mul] assms(2) wf by (auto simp: wf_list_iff)
  from dup_sound [OF pure_pushes [OF pure wf] wf g n this]
  have "sound M mul (?ds @ dropWhile (\<lambda>c. gen_info c \<noteq> None \<and> node_eq c1 c) cs) res" unfolding res .
  then show ?thesis by simp
qed

lemma sq_cell_sound:
  assumes "sq_cell cs = Some (Some res)" "wf_list M mul cs"
  shows "sound M mul cs res"
proof -
  let ?P = "\<lambda>x c. case c of PushCellOrSlice y \<Rightarrow> push_cell_equal x y | _ \<Rightarrow> False"
  obtain x d g where cs: "cs = PushCellOrSlice x # d"
    and n: "2 \<le> length (takeWhile (?P x) cs)"
    and g: "makeBLKPUSH (int (length (takeWhile (?P x) cs)) - 1) 0 = Some g"
    and res: "res = Result (int (length (takeWhile (?P x) cs))) [PushCellOrSlice x, g]"
    using assms(1) unfolding sq_cell_def
    by (auto simp: Let_def bind_eq_Some_conv simp del: takeWhile.simps split: list.split_asm node.split_asm if_split_asm)
  have wf: "wfn M mul (PushCellOrSlice x)" using assms(2) by (simp add: cs)
  have "pushes M (PushCellOrSlice x)" using wf by (intro pure_pushes) (simp_all add: isPureGen01_def)
  moreover have "c = PushCellOrSlice x" if "c \<in> set (takeWhile (?P x) cs)" for c
    using takeWhile_prefix(3) [OF that] push_cell_equal_iff by (cases c) auto
  ultimately have "sound M mul (takeWhile (?P x) cs @ dropWhile (?P x) cs) res"
    unfolding res using wf g n by (intro dup_sound) auto
  then show ?thesis by simp
qed

lemmas sq_sound =
  sq_same_sound sq_push3_sound sq_push2_sound sq_pure_sound sq_cell_sound sq_tuck_sound sq_puxc_sound

lemma squashPush_sound_at:
  assumes "squashPush l i = Some (Some res)" "wf_list M mul l" "at_cmd l i"
  shows "sound_tail M mul (commandsFrom l i) res"
proof -
  have wf: "wf_list M mul (commandsFrom l i)" using assms(2) by (auto simp: commandsFrom_def wf_unloc wf_list_take_drop)
  have "\<exists>r \<in> set sq_rules. r (commandsFrom l i) = Some (Some res)"
    using first_of_SomeD [OF assms(1) [unfolded squashPush_def]] by auto
  then show ?thesis
    unfolding sq_rules_def bex_list by (elim disjE FalseE) (erule sq_sound [OF _ wf, THEN sound_imp_tail])+
qed

text \<open>Unpacking keeps the instructions as they are.\<close>

lemma sound_unpack:
  assumes "wf_list M mul c" "\<And>s r. run1 M n s r \<longleftrightarrow> run M c s r"
  shows "sound M mul (n # d) (Result 1 c)"
proof -
  have "refines M [n] c" by (simp add: refines_def run_single assms(2))
  from sound_prefix [OF this assms(1), of 1 d] show ?thesis by simp
qed

lemma unsquash_sound_at:
  assumes "unsquash u l i = Some (Some res)" "wf_list M mul l" "at_cmd l i"
  shows "sound_tail M mul (commandsFrom l i) res"
proof (rule sound_imp_tail)
  obtain c d where cd: "commandsFrom l i = c # d" "get l i = Some c"
    using next_step(1,2) [OF assms(3)] by (cases "commandsFrom l i") auto
  have wf: "wfn M mul c"
    using assms(2) cd(1) wf_unloc wf_list_take_drop by (metis commandsFrom_def wf_list.simps(2))
  consider p j k g h where "c = Stack PUSH2_S p j k" "makePUSH p = Some g" "makePUSH (j + 1) = Some h" "res = Result 1 [g, h]"
    | t b where "c = ReturnOrBreakOrCont t b" "res = Result 1 (instructions b)"
    | b t r p where "c = Opaque b t r p" "res = Result 1 (instructions b)"
    using assms(1) cd(2) by (auto simp: unsquash_def bind_eq_Some_conv split: node.splits if_splits)
  then show "sound M mul (commandsFrom l i) res"
  proof cases
    case (1 p j k g h)
    have pj: "0 \<le> p" "0 \<le> j" using wf 1(1) by (auto simp: stack_wf_def)
    have c: "stk_is c (\<lambda>t. spush (t (nat j)) (spush (t (nat p)) t))"
      unfolding 1(1) using pj by (intro stk_isI) (auto simp: stack_ok_def stack_fun_def fun_eq_iff)
    obtain a b where g: "p = int a" "stk_is g (spushs a)" "stk_wfn g" and h: "j + 1 = int b" "stk_is h (spushs b)" "stk_wfn h"
      using makePUSH_view [OF 1(2)] makePUSH_view [OF 1(3)] by blast
    have "b = Suc (nat j)" using h(1) pj by linarith
    then have "refines M [c] [g, h]"
      using c g h by (intro refines_stk_all [of "[c]" "[\<lambda>t. spush (t (nat j)) (spush (t (nat p)) t)]" "[g, h]" "[spushs a, spushs b]"])
        (auto simp: fun_eq_iff spushs_def spush_def)
    then show ?thesis
      unfolding 1(4) cd(1) using stk_wfn_wfn [OF g(3), of M mul] stk_wfn_wfn [OF h(3), of M mul]
        sound_prefix [of M "[c]" "[g, h]" mul 1 d] by simp
  next
    case (2 t b)
    then show ?thesis unfolding cd(1) 2 using wf 2(1) by (intro sound_unpack) (auto simp: run1_ROBC wf_block_iff)
  next
    case (3 b t r p)
    then show ?thesis unfolding cd(1) 3 using wf 3(1) by (intro sound_unpack) (auto simp: run1_Opaque wf_block_iff)
  qed
qed

end

section \<open>The rules at a position\<close>

text \<open>The commands at the next positions are the next commands.\<close>

lemma window_last:
  assumes "at_cmd l i" "get l i = Some c"
  shows "\<exists>d. commandsFrom l i = c # d"
  using next_step(1,2) [OF assms(1)] assms(2) by (cases "commandsFrom l i") auto

lemma window_next:
  assumes "at_cmd l i" "get l i = Some c" "get l (nextCommandLine l i) = Some c'"
  shows "at_cmd l (nextCommandLine l i) \<and> commandsFrom l i = c # commandsFrom l (nextCommandLine l i)"
proof -
  have "nextCommandLine l i \<noteq> -1" using assms(3) by (auto simp: get_def valid_def)
  then show ?thesis
    using next_step(4) [OF assms(1)] window_last [OF assms(1,2)] by auto
qed

fun chain :: "node list \<Rightarrow> int \<Rightarrow> node list \<Rightarrow> bool" where
  "chain l i [] = True"
| "chain l i (c # w) = (get l i = Some c \<and> chain l (nextCommandLine l i) w)"

lemma chain_window:
  "at_cmd l i \<Longrightarrow> chain l i w \<Longrightarrow> w \<noteq> [] \<Longrightarrow> \<exists>d. commandsFrom l i = w @ d"
proof (induction w arbitrary: i)
  case (Cons c w)
  show ?case
  proof (cases w)
    case Nil
    then show ?thesis using window_last [OF Cons.prems(1)] Cons.prems(2) by simp
  next
    case (Cons c' w')
    then have "get l (nextCommandLine l i) = Some c'" "get l i = Some c" "chain l (nextCommandLine l i) w" using Cons.prems(2) by auto
    with window_next [OF Cons.prems(1)] Cons.IH [of "nextCommandLine l i"] Cons show ?thesis by auto
  qed
qed simp

lemma in_opt_case:
  "z \<in> set (case x of None \<Rightarrow> [] | Some y \<Rightarrow> F y # G y) \<longleftrightarrow> (\<exists>y. x = Some y \<and> (z = F y \<or> z \<in> set (G y)))"
  by (cases x) auto

locale peephole = tvm M for M :: "'w machine" +
  fixes T :: squasher
  assumes tables: "tables_ok T"
begin

lemma optimizeAt_sound_at:
  assumes "optimizeAt T u False l i = Some (Some res)" "wf_list M mul l" "at_cmd l i"
  shows "sound_tail M mul (commandsFrom l i) res"
proof -
  have wf: "wf_list M mul (commandsFrom l i)" using assms(2) by (auto simp: commandsFrom_def wf_unloc wf_list_take_drop)
  have win: ?thesis if w: "chain l i w" "w \<noteq> []" "wf_list M mul w \<Longrightarrow> sound M mul w res" for w
  proof -
    obtain d where d: "commandsFrom l i = w @ d" using chain_window [OF assms(3) w(1,2)] by blast
    then have "sound M mul w res" using wf w(3) by simp
    from sound_imp_tail [OF sound_extend [OF this]] show ?thesis by (simp add: d)
  qed
  consider (inf) "optimizeAtInf T l i = Some (Some res)"
    | (one) c1 where "chain l i [c1]" "optimizeAt1 c1 u = Some (Some res)"
    | (two) c1 c2 where "chain l i [c1, c2]" "optimizeAt2 c1 c2 = Some (Some res)"
    | (three) c1 c2 c3 where "chain l i [c1, c2, c3]" "optimizeAt3 c1 c2 c3 = Some (Some res)"
    | (four) c1 c2 c3 c4 where "chain l i [c1, c2, c3, c4]" "optimizeAt4 c1 c2 c3 c4 = Some (Some res)"
    | (five) c1 c2 c3 c4 c5 where "chain l i [c1, c2, c3, c4, c5]" "optimizeAt5 c1 c2 c3 c4 c5 = Some (Some res)"
    | (six) c1 c2 c3 c4 c5 c6 where "chain l i [c1, c2, c3, c4, c5, c6]" "optimizeAt6 c1 c2 c3 c4 c5 c6 = Some (Some res)"
  proof -
    have "\<exists>c1. get l i = Some c1 \<and> Some (Some res) \<in> set ([optimizeAt1 c1 u, optimizeAtInf T l i] @
        (case get l (nextCommandLine l i) of None \<Rightarrow> [] | Some c2 \<Rightarrow> optimizeAt2 c1 c2 #
        (case get l (nextCommandLine l (nextCommandLine l i)) of None \<Rightarrow> [] | Some c3 \<Rightarrow> optimizeAt3 c1 c2 c3 #
        (case get l (nextCommandLine l (nextCommandLine l (nextCommandLine l i))) of None \<Rightarrow> []
         | Some c4 \<Rightarrow> optimizeAt4 c1 c2 c3 c4 #
        (case get l (nextCommandLine l (nextCommandLine l (nextCommandLine l (nextCommandLine l i)))) of None \<Rightarrow> []
         | Some c5 \<Rightarrow> optimizeAt5 c1 c2 c3 c4 c5 #
        (case get l (nextCommandLine l (nextCommandLine l (nextCommandLine l (nextCommandLine l (nextCommandLine l i))))) of
           None \<Rightarrow> [] | Some c6 \<Rightarrow> [optimizeAt6 c1 c2 c3 c4 c5 c6]))))))"
      using assms(1) unfolding optimizeAt_def Let_def
      by (auto simp only: bind_eq_Some_conv if_False dest!: first_of_SomeD)
    then show thesis
      using that unfolding set_append Un_iff in_opt_case mem_list by (auto simp: eq_commute [of "Some (Some res)"])
  qed
  then show ?thesis
  proof cases
    case inf
    then show ?thesis using optimizeAtInf_sound_at assms(2,3) tables by blast
  next
    case (one c1)
    show ?thesis using one(2) by (intro win [OF one(1)]) (auto intro: optimizeAt1_sound_at)
  next
    case (two c1 c2)
    show ?thesis using two(2) by (intro win [OF two(1)]) (auto intro: optimizeAt2_sound_at)
  next
    case (three c1 c2 c3)
    show ?thesis using three(2) by (intro win [OF three(1)]) (auto intro: optimizeAt3_sound_at)
  next
    case (four c1 c2 c3 c4)
    show ?thesis using four(2) by (intro win [OF four(1)]) (auto intro: optimizeAt4_sound_at)
  next
    case (five c1 c2 c3 c4 c5)
    show ?thesis using five(2) by (intro win [OF five(1)]) (auto intro: optimizeAt5_sound_at)
  next
    case (six c1 c2 c3 c4 c5 c6)
    show ?thesis using six(2) by (intro win [OF six(1)]) (auto intro: optimizeAt6_sound_at)
  qed
qed

end

section \<open>The contracts\<close>

text \<open>
  The slice pass writes a constant of at most 256 bits as an integer and a longer one too, so that it is
  only sound on trees whose constant slices are short.
\<close>

fun short_node :: "node \<Rightarrow> bool" and short_block :: "code_block \<Rightarrow> bool" and short_list :: "node list \<Rightarrow> bool" where
  "short_node (PushCellOrSlice c) =
     (case isPlainPushSlice (PushCellOrSlice c) of
        Some b \<Rightarrow> (case sliceToBitString b of Some bits \<Rightarrow> length bits \<le> 256 | None \<Rightarrow> True)
      | None \<Rightarrow> True)"
| "short_node (Opaque b _ _ _) = short_block b"
| "short_node (ReturnOrBreakOrCont _ b) = short_block b"
| "short_node (SubProgram _ _ _ b _) = short_block b"
| "short_node _ = True"
| "short_block (CodeBlock _ c) = short_list c"
| "short_list [] = True"
| "short_list (n # c) = (short_node n \<and> short_list c)"

lemma short_block_iff: "short_block b = list_all short_node (instructions b)"
proof -
  have "short_list c = list_all short_node c" for c by (induction c) auto
  then show ?thesis by (cases b) simp
qed

lemma short_loc: "isLoc n \<Longrightarrow> short_node n"
  by (cases n) (auto simp: isLoc_def)

lemma short_stack: "is_stack n \<Longrightarrow> short_node n"
  by (auto simp: is_stack_def)

lemma stk_is_short: "stk_is n f \<Longrightarrow> short_node n"
  using short_stack by (simp add: stk_is_def)

lemma mkGen_form: "mkGenOpcode x t r p = Some n \<Longrightarrow> isGenOpcode n"
  by (auto simp: mkGenOpcode_def isGenOpcode_def Let_def bind_eq_Some_conv split: list.splits if_splits)

lemma gen_form: "gen x = Some n \<Longrightarrow> isGenOpcode n"
  unfolding gen_def Let_def
  by (auto simp: bind_eq_Some_conv dest!: mkGen_form split: if_splits option.splits prod.splits)

lemma unsquash_short:
  assumes "unsquash u l i = Some (Some res)" "list_all short_node l" "at_cmd l i"
  shows "list_all short_node (commands res)"
proof -
  obtain c where c: "get l i = Some c" "short_node c"
    using assms(2,3) by (auto simp: get_def at_cmd_def valid_def list_all_iff)
  then show ?thesis
    using assms(1) by (auto simp: unsquash_def bind_eq_Some_conv short_block_iff makePUSH_def split: node.splits if_splits)
qed

lemma slice_result:
  assumes "optimizeSlice c1 o2 = Some (Some res)"
  shows "\<exists>c2 b g h. o2 = Some c2 \<and> isPlainPushSlice c1 = Some b \<and> is_op c2 [''STSLICER''] \<and> res = Result 2 [g, h] \<and>
    (isGenOpcode g) \<and> (isGenOpcode h)"
  using assms unfolding optimizeSlice_def Let_def
  by (auto simp: bind_eq_Some_conv dest!: gen_form split: option.splits if_splits)

lemma make_stack:
  "makePUSH i = Some n \<Longrightarrow> is_stack n" "makeBLKPUSH q j = Some n \<Longrightarrow> is_stack n"
  "makePUSH2 i j = Some n \<Longrightarrow> is_stack n" "makePUSH3 i j k = Some n \<Longrightarrow> is_stack n"
  "makePUXC i (-1) = Some n \<Longrightarrow> is_stack n" "is_stack makeTUCK"
  using makePUSH_view [of i n] makeBLKPUSH_view [of q j n] makePUSH2_view [of i j n] makePUSH3_view [of i j k n]
    makePUXC_view [of i n] makeTUCK_view by (auto simp: stk_is_def)

lemma isPUSH_stack: "isPUSH c = Some i \<Longrightarrow> is_stack c"
  by (cases c) auto

text \<open>The weight that \<open>squashPush\<close> decreases.\<close>

fun push_weight :: "node \<Rightarrow> nat" where
  "push_weight (Loc _ _) = 0"
| "push_weight (Stack _ _ _ _) = 1"
| "push_weight _ = 2"

lemma push_weight_stack [simp]: "is_stack n \<Longrightarrow> push_weight n = 1"
  by (auto simp: is_stack_def)

lemma push_weight_gen: "gen_info c \<noteq> None \<Longrightarrow> push_weight c = 2"
  by (cases c) auto

definition shrinks :: "node list \<Rightarrow> result \<Rightarrow> bool" where
  "shrinks cs res =
     (\<exists>n. removeQty res = int n \<and> 1 \<le> n \<and> n \<le> length cs \<and>
        sum_list (map push_weight (commands res)) < sum_list (map push_weight (take n cs)) \<and>
        (\<forall>x \<in> set (commands res). is_stack x \<or> x \<in> set cs))"

lemma sum_const: "(\<And>x. x \<in> set xs \<Longrightarrow> push_weight x = k) \<Longrightarrow> sum_list (map push_weight xs) = k * length xs"
  by (induction xs) auto

lemma shrinks_takeWhile:
  assumes "2 \<le> length (takeWhile P cs)" "\<And>x. P x \<Longrightarrow> push_weight x = k" "sum_list (map push_weight c) < k * 2"
    "\<And>x. x \<in> set c \<Longrightarrow> is_stack x \<or> x \<in> set cs"
  shows "shrinks cs (Result (int (length (takeWhile P cs))) c)"
proof -
  have "sum_list (map push_weight (takeWhile P cs)) = k * length (takeWhile P cs)"
    using assms(2) by (intro sum_const) (auto dest: set_takeWhileD)
  moreover have "k * 2 \<le> k * length (takeWhile P cs)" using assms(1) by simp
  ultimately have "sum_list (map push_weight c) < sum_list (map push_weight (take (length (takeWhile P cs)) cs))"
    using assms(3) unfolding takeWhile_prefix(1) by linarith
  then show ?thesis unfolding shrinks_def
    using assms(1,4) takeWhile_prefix(2) [of P cs] by (intro exI [of _ "length (takeWhile P cs)"]) auto
qed

lemma sq_shrinks:
  assumes "r \<in> set sq_rules" "r cs = Some (Some res)"
  shows "shrinks cs res"
proof -
  have same: "shrinks cs res" if r: "sq_same cs = Some (Some res)"
  proof -
    obtain i g where n: "2 \<le> length (takeWhile (\<lambda>c. isPUSH c = Some i) cs)" "is_stack g"
      "res = Result (int (length (takeWhile (\<lambda>c. isPUSH c = Some i) cs))) [g]"
      using r unfolding sq_same_def
      by (auto simp: Let_def bind_eq_Some_conv make_stack simp del: takeWhile.simps split: list.split_asm option.split_asm if_split_asm)
    show ?thesis unfolding n(3) using n(1,2) isPUSH_stack by (intro shrinks_takeWhile [where k = 1]) auto
  qed
  have pure: "shrinks cs res" if r: "sq_pure cs = Some (Some res)"
  proof -
    obtain c1 d g where n: "cs = c1 # d" "2 \<le> length (takeWhile (\<lambda>c. gen_info c \<noteq> None \<and> node_eq c1 c) cs)" "is_stack g"
      "isPureGen01 c1" "res = Result (int (length (takeWhile (\<lambda>c. gen_info c \<noteq> None \<and> node_eq c1 c) cs))) [c1, g]"
      using r unfolding sq_pure_def
      by (auto simp: Let_def bind_eq_Some_conv simp del: takeWhile.simps dest!: make_stack(2) split: list.split_asm if_split_asm)
    have "push_weight c1 = 2" using n(4) by (intro push_weight_gen) (simp add: isPureGen01_def)
    then show ?thesis unfolding n(5) using n(1-3) push_weight_gen by (intro shrinks_takeWhile [where k = 2]) auto
  qed
  have cell: "shrinks cs res" if r: "sq_cell cs = Some (Some res)"
  proof -
    let ?P = "\<lambda>x c. case c of PushCellOrSlice y \<Rightarrow> push_cell_equal x y | _ \<Rightarrow> False"
    obtain x d g where n: "cs = PushCellOrSlice x # d" "2 \<le> length (takeWhile (?P x) cs)" "is_stack g"
      "res = Result (int (length (takeWhile (?P x) cs))) [PushCellOrSlice x, g]"
      using r unfolding sq_cell_def
      by (auto simp: Let_def bind_eq_Some_conv simp del: takeWhile.simps dest!: make_stack(2)
        split: list.split_asm node.split_asm if_split_asm)
    show ?thesis unfolding n(4) using n(1-3) by (intro shrinks_takeWhile [where k = 2]) (auto split: node.splits)
  qed
  have win: "shrinks (c1 # c2 # d) (Result 2 [g])" if "is_stack c1" "is_stack c2" "is_stack g" for c1 c2 d g
    using that unfolding shrinks_def by (intro exI [of _ 2]) auto
  have push2: "shrinks cs res" if "sq_push2 cs = Some (Some res)"
    using that unfolding sq_push2_def Let_def
    by (auto simp: bind_eq_Some_conv intro!: win intro: make_stack isPUSH_stack split: list.split_asm option.split_asm if_split_asm)
  have push3: "shrinks cs res" if r: "sq_push3 cs = Some (Some res)"
  proof -
    obtain c1 c2 c3 d g where n: "cs = c1 # c2 # c3 # d" "is_stack c1" "is_stack c2" "is_stack c3" "is_stack g" "res = Result 3 [g]"
      using r unfolding sq_push3_def Let_def
      by (auto simp: bind_eq_Some_conv dest!: make_stack(4) isPUSH_stack split: list.split_asm option.split_asm if_split_asm)
    then show ?thesis unfolding shrinks_def by (intro exI [of _ 3]) auto
  qed
  have tuck: "shrinks cs res" if "sq_tuck cs = Some (Some res)"
  proof -
    have "isXCHG_S0 c = Some j \<Longrightarrow> is_stack c" for c j by (cases c) auto
    then show ?thesis using that unfolding sq_tuck_def
      by (auto intro!: win intro: make_stack isPUSH_stack split: list.split_asm if_split_asm)
  qed
  have puxc: "shrinks cs res" if "sq_puxc cs = Some (Some res)"
  proof -
    have "isXCHG_S0 c = Some j \<Longrightarrow> is_stack c" for c j by (cases c) auto
    then show ?thesis using that unfolding sq_puxc_def
      by (auto simp: bind_eq_Some_conv intro!: win intro: make_stack isPUSH_stack split: list.split_asm option.split_asm if_split_asm)
  qed
  show ?thesis
    using assms unfolding sq_rules_def mem_list by (elim disjE FalseE) (use same push3 push2 pure cell tuck puxc in auto)
qed

lemma squashPush_shrinks: "squashPush l i = Some (Some res) \<Longrightarrow> shrinks (commandsFrom l i) res"
  using first_of_SomeD [of "map (\<lambda>r. r (commandsFrom l i)) sq_rules" res] sq_shrinks by (auto simp: squashPush_def)

lemma commandsFrom_subset: "set (commandsFrom l i) \<subseteq> set l"
  by (auto simp: commandsFrom_def unloc_def dest: in_set_dropD)

lemma squashPush_ok:
  assumes "squashPush l i = Some (Some res)" "list_all ok l" "\<And>n. is_stack n \<Longrightarrow> ok n"
  shows "list_all ok (commands res)"
  using squashPush_shrinks [OF assms(1)] commandsFrom_subset [of l i] assms(2,3)
  by (auto simp: shrinks_def list_all_iff)

text \<open>The weights that \<open>unsquash\<close> and the slice pass decrease.\<close>

fun unpack_weight :: "node \<Rightarrow> nat" and unpack_block :: "code_block \<Rightarrow> nat" and unpack_list :: "node list \<Rightarrow> nat" where
  "unpack_weight (Loc _ _) = 0"
| "unpack_weight (Stack p _ _ _) = (if p = PUSH2_S then 3 else 1)"
| "unpack_weight (Opaque b _ _ _) = Suc (unpack_block b)"
| "unpack_weight (ReturnOrBreakOrCont _ b) = Suc (unpack_block b)"
| "unpack_weight _ = 1"
| "unpack_block (CodeBlock _ c) = unpack_list c"
| "unpack_list [] = 0"
| "unpack_list (n # c) = unpack_weight n + unpack_list c"

lemma unpack_block_sum: "unpack_block b = sum_list (map unpack_weight (instructions b))"
proof -
  have "unpack_list c = sum_list (map unpack_weight c)" for c by (induction c) auto
  then show ?thesis by (cases b) simp
qed

fun slice_weight :: "node \<Rightarrow> nat" where
  "slice_weight (Loc _ _) = 0"
| "slice_weight (PushCellOrSlice _) = 2"
| "slice_weight _ = 1"

interpretation unsquash_ends: decreasing_pass "unsquash u" unpack_weight for u
proof
  fix n
  show "isLoc n \<Longrightarrow> unpack_weight n = 0" by (cases n) (auto simp: isLoc_def)
next
  fix l i res
  assume r: "unsquash u l i = Some (Some res)" and at: "at_cmd l i"
  obtain c d where cd: "commandsFrom l i = c # d" "get l i = Some c"
    using next_step(1,2) [OF at] by (cases "commandsFrom l i") auto
  have push: "makePUSH j = Some g \<Longrightarrow> unpack_weight g = 1" for j g
    by (auto simp: makePUSH_def bind_eq_Some_conv split: if_splits)
  show "\<exists>n. removeQty res = int n \<and> 1 \<le> n \<and> n \<le> length (commandsFrom l i) \<and>
      sum_list (map unpack_weight (commands res)) < sum_list (map unpack_weight (take n (commandsFrom l i)))"
    using r cd by (intro exI [of _ 1])
      (auto simp: unsquash_def bind_eq_Some_conv unpack_block_sum push split: node.splits if_splits)
qed

interpretation squash_ends: decreasing_pass squashPush push_weight
proof
  fix n
  show "isLoc n \<Longrightarrow> push_weight n = 0" by (cases n) (auto simp: isLoc_def)
next
  fix l i res
  assume "squashPush l i = Some (Some res)"
  from squashPush_shrinks [OF this] show "\<exists>n. removeQty res = int n \<and> 1 \<le> n \<and> n \<le> length (commandsFrom l i) \<and>
      sum_list (map push_weight (commands res)) < sum_list (map push_weight (take n (commandsFrom l i)))"
    unfolding shrinks_def by blast
qed

lemma slice_chain:
  assumes "optimizeAt T u True l i = Some (Some res)" "at_cmd l i"
  obtains c1 c2 b g h d where "commandsFrom l i = [c1, c2] @ d" "isPlainPushSlice c1 = Some b" "is_op c2 [''STSLICER'']"
    "optimizeSlice c1 (Some c2) = Some (Some res)" "res = Result 2 [g, h]"
    "isGenOpcode g" "isGenOpcode h"
proof -
  obtain c1 where c1: "get l i = Some c1" "optimizeSlice c1 (get l (nextCommandLine l i)) = Some (Some res)"
    using assms(1) by (auto simp: optimizeAt_def optimizeSliceAt_def bind_eq_Some_conv)
  obtain c2 b g h where c2: "get l (nextCommandLine l i) = Some c2" and r: "isPlainPushSlice c1 = Some b"
    "is_op c2 [''STSLICER'']" "res = Result 2 [g, h]" "isGenOpcode g"
    "isGenOpcode h"
    using slice_result [OF c1(2)] by blast
  obtain d where d: "commandsFrom l i = [c1, c2] @ d" using chain_window [OF assms(2), of "[c1, c2]"] c1(1) c2 by auto
  show thesis by (rule that [OF d r(1,2) _ r(3-5)]) (use c1(2) c2 in simp)
qed

interpretation slice_ends: decreasing_pass "optimizeAt T u True" slice_weight for T u
proof
  fix n
  show "isLoc n \<Longrightarrow> slice_weight n = 0" by (cases n) (auto simp: isLoc_def)
next
  fix l i res
  assume r: "optimizeAt T u True l i = Some (Some res)" "at_cmd l i"
  show "\<exists>n. removeQty res = int n \<and> 1 \<le> n \<and> n \<le> length (commandsFrom l i) \<and>
      sum_list (map slice_weight (commands res)) < sum_list (map slice_weight (take n (commandsFrom l i)))"
  proof (rule slice_chain [OF r])
    fix c1 c2 b g h d
    assume c: "commandsFrom l i = [c1, c2] @ d" "isPlainPushSlice c1 = Some b" "is_op c2 [''STSLICER'']"
      "res = Result 2 [g, h]" "isGenOpcode g" "isGenOpcode h"
    have "slice_weight c1 = 2" using c(2) by (cases c1) auto
    moreover have "slice_weight c2 = 1" using c(3) by (cases c2) auto
    moreover have "slice_weight g = 1" "slice_weight h = 1" using c(5,6) by (cases g; cases h; auto simp: isGenOpcode_def)+
    ultimately show ?thesis using c(1,4) by (intro exI [of _ 2]) auto
  qed
qed

context tvm
begin

lemma unsquash_pass: "sound_pass M (unsquash u) (\<lambda>_. True)"
  by unfold_locales (auto simp: list.pred_True intro: unsquash_sound_at)

lemma squash_pass: "sound_pass M squashPush (\<lambda>_. True)"
  by unfold_locales (auto simp: list.pred_True intro: squashPush_sound_at)

lemma unsquash_short_pass: "sound_pass M (unsquash u) short_node"
  by unfold_locales (auto intro: unsquash_sound_at unsquash_short short_loc)

lemma squash_short_pass: "sound_pass M squashPush short_node"
  by unfold_locales (auto intro: squashPush_sound_at squashPush_ok short_loc short_stack)

lemma slice_pass: "sound_pass M (optimizeAt T u True) short_node"
proof
  fix l i res mul
  assume r: "optimizeAt T u True l i = Some (Some res)" and at: "at_cmd l i" and ok: "list_all short_node l"
  have short: "short_node n" if "n \<in> set (commandsFrom l i)" for n
    using that ok commandsFrom_subset by (auto simp: list_all_iff)
  have gen: "isGenOpcode n \<Longrightarrow> short_node n" for n by (cases n) (auto simp: isGenOpcode_def)
  show "list_all short_node (commands res)" by (rule slice_chain [OF r at]) (simp add: gen)
  assume wf: "wf_list M mul l"
  have wf': "wf_list M mul (commandsFrom l i)" using wf commandsFrom_subset by (auto simp: wf_list_iff)
  show "sound_tail M mul (commandsFrom l i) res"
  proof (rule slice_chain [OF r at])
    fix c1 c2 b g h d
    assume c: "commandsFrom l i = [c1, c2] @ d" and s: "optimizeSlice c1 (Some c2) = Some (Some res)"
    have "length bits \<le> 256" if "isPlainPushSlice c1 = Some b" "sliceToBitString b = Some bits" for b bits
      using short [of c1] that c by (cases c1) auto
    with s wf' c have "sound M mul [c1, c2] res" by (intro optimizeSlice_sound_at) auto
    from sound_imp_tail [OF sound_extend [OF this]] show ?thesis by (simp add: c)
  qed
qed (rule short_loc)

end

context peephole
begin

lemma optimizeAt_pass: "sound_pass M (optimizeAt T u False) (\<lambda>_. True)"
  by unfold_locales (auto simp: list.pred_True intro: optimizeAt_sound_at)

end

sublocale tvm \<subseteq> unsq: sound_pass M "unsquash u" "\<lambda>_. True" for u
  by (rule unsquash_pass)

sublocale tvm \<subseteq> sq: sound_pass M squashPush "\<lambda>_. True"
  by (rule squash_pass)

sublocale tvm \<subseteq> slice: sound_pass M "optimizeAt T u True" short_node for T u
  by (rule slice_pass)

sublocale peephole \<subseteq> opt: sound_pass M "optimizeAt T u False" "\<lambda>_. True" for u
  by (rule optimizeAt_pass)

section \<open>The passes of a block\<close>

lemma then_pass_Some:
  "then_pass x g = Some (Some z) \<longleftrightarrow> (\<exists>y. x = Some (Some y) \<and> g y = Some (Some z))"
  by (auto simp: then_pass_def split: option.splits)

lemma block_passes_keeps:
  assumes "sound_pass M (unsquash u) ok" "sound_pass M (optimizeAt T u sl) ok" "sound_pass M squashPush ok"
    and "block_passes T u sl l = Some (Some l')" "wf_list M mul l" "list_all ok l"
  shows "keeps M ok mul l l'"
proof -
  obtain l1 d1 l2 d3 where p: "optimize (unsquash u) l = Some (Some (l1, d1))"
    "optimize_while (optimizeAt T u sl) l1 = Some (Some l2)" "optimize squashPush l2 = Some (Some (l', d3))"
    using assms(4) by (auto simp: block_passes_def then_pass_Some)
  note k1 = sound_pass.optimize_keeps [OF assms(1) p(1) assms(5,6)]
  then have k2: "keeps M ok mul l1 l2" using sound_pass.optimize_while_keeps [OF assms(2) p(2), of mul] by (simp add: keeps_def)
  then have "keeps M ok mul l2 l'" using sound_pass.optimize_keeps [OF assms(3) p(3), of mul] by (simp add: keeps_def)
  then show ?thesis using k1 k2 keeps_trans by blast
qed

text \<open>The slice pass ends on every block.\<close>

lemma block_passes_ends: "\<exists>y. block_passes T u True l = Some y"
proof -
  obtain y where y: "optimize (unsquash u) l = Some y" using unsquash_ends.optimize_ends by blast
  show ?thesis
  proof (cases y)
    case (Some a)
    obtain l1 d where a: "a = (l1, d)" by (cases a)
    obtain z where z: "optimize_while (optimizeAt T u True) l1 = Some z" using slice_ends.optimize_while_ends by blast
    show ?thesis
    proof (cases z)
      case (Some l2)
      obtain v where v: "optimize squashPush l2 = Some v" using squash_ends.optimize_ends by blast
      then show ?thesis
        using y \<open>y = Some a\<close> a z Some by (cases v) (auto simp: block_passes_def then_pass_def)
    qed (use y Some a z in \<open>simp add: block_passes_def then_pass_def\<close>)
  qed (use y in \<open>simp add: block_passes_def then_pass_def\<close>)
qed

text \<open>A block that is a single call of a block is that block.\<close>

lemma block_rule:
  assumes "optimizeAt1 (BlockNode b) u = Some (Some res)"
  shows "r1_block (BlockNode b) = Some (Some res)"
proof -
  have "\<exists>r \<in> set (rules1 u). r (BlockNode b) = Some (Some res)"
    using first_of_SomeD [OF assms [unfolded optimizeAt1_def]] by auto
  moreover have "r1_align u (BlockNode b) = noResult" by (simp add: r1_align_def r1_align_at_def orelse_def)
  ultimately show ?thesis
    unfolding rules1_def list.set bex_simps Set.bex_empty insert_iff
    by (elim disjE FalseE)
      (simp_all add: r1_const_def r1_if_empty_def r1_if_throw_def r1_if_retalt_def r1_sub_retalt_def r1_ifelse_same_def
        r1_ifelse_tail_def r1_ifelse_nofalse_def r1_ifelse_notrue_def r1_condsel_def r1_while_true_def r1_inline_def)
qed

lemma unloc_single:
  assumes "qtyWithoutLoc c = 1" "get c (nextFrom 0 c) = Some n"
  shows "unloc c = [n]"
proof -
  have len: "length (unloc c) = 1" using assms(1) by (simp add: qtyWithoutLoc_def unloc_def)
  have "nextFrom 0 c \<noteq> -1" using nextFrom_None [of 0 c] len by auto
  from nextFrom_Some [OF this] obtain k where k: "nextFrom 0 c = int k" "k < length c"
    "unloc c = c ! k # unloc (drop (k + 1) c)" by auto
  then have "c ! k = n" using assms(2) by (simp add: get_def valid_def)
  then show ?thesis using k(3) len by simp
qed

lemma block_rule_view:
  assumes "r1_block (BlockNode b) = Some (Some res)"
  obtains t r jm sub p where "btype b = PUSHCONT" "unloc (instructions b) = [SubProgram t r jm sub p]"
    "res = Result 1 [BlockNode (CodeBlock (btype sub) (instructions sub))]"
proof -
  obtain t r jm sub p where s: "btype b = PUSHCONT" "qtyWithoutLoc (instructions b) = 1"
    "get (instructions b) (nextFrom 0 (instructions b)) = Some (SubProgram t r jm sub p)"
    "res = Result 1 [BlockNode (CodeBlock (btype sub) (instructions sub))]"
    using assms unfolding r1_block_def by (auto split: if_splits option.splits node.splits)
  show thesis by (rule that [OF s(1) unloc_single [OF s(2,3)] s(4)])
qed

text \<open>
  What a block may become: for the body of a continuation falling off its end and \<open>RET\<close> are the same
  in both directions.
\<close>

definition refines_body :: "'w machine \<Rightarrow> node list \<Rightarrow> node list \<Rightarrow> bool" where
  "refines_body M c c' = (\<forall>s r. visible r \<longrightarrow> run M c s r \<longrightarrow> (\<exists>r'. run M c' s r' \<and> call_out r' = call_out r))"

lemma tail_body: "refines_tail M c c' \<Longrightarrow> refines_body M c c'"
  unfolding refines_tail_def refines_body_def by (metis call_out_idem)

lemma refines_body_tail: "refines_body M a b \<Longrightarrow> refines_tail M b c \<Longrightarrow> refines_body M a c"
  unfolding refines_tail_def refines_body_def by (metis call_out_idem visible_out(1))

lemma sub_body: "refines_body M [SubProgram t r jm sub p] (instructions sub)"
  unfolding refines_body_def
proof (intro allI impI)
  fix s q
  assume "run M [SubProgram t r jm sub p] s q"
  then obtain q' where "run M (instructions sub) s q'" "q = (if jm then jump_out q' else call_out q')"
    unfolding run_single run1_Sub by auto
  then show "\<exists>r'. run M (instructions sub) s r' \<and> call_out r' = call_out q"
    by (intro exI [of _ q']) (cases q'; simp)
qed

definition block_ok :: "'w machine \<Rightarrow> bool \<Rightarrow> code_block \<Rightarrow> code_block \<Rightarrow> bool" where
  "block_ok M mul b b' =
     (wf_block M mul b' \<and>
      (if btype b = PUSHCONT then refines_body M (instructions b) (instructions b')
       else refines_tail M (instructions b) (instructions b') \<and> btype b' = btype b))"

lemma endVisit_ok:
  assumes passes: "\<And>l l'. block_passes T u sl l = Some (Some l') \<Longrightarrow> wf_list M mul l \<Longrightarrow> list_all ok l \<Longrightarrow> keeps M ok mul l l'"
    and "endVisit T u sl b = Some (Some b')" "wf_block M mul b" "\<And>n. n \<in> set (instructions b) \<Longrightarrow> ok n"
    and "\<And>t r jm sub p. SubProgram t r jm sub p \<in> set (instructions b) \<Longrightarrow> list_all ok (instructions sub)"
  shows "block_ok M mul b b'"
proof -
  obtain r where r: "optimizeAt1 (BlockNode b) u = Some r"
    using assms(2) by (auto simp: endVisit_def split: option.splits)
  show ?thesis
  proof (cases r)
    case None
    then obtain l where l: "block_passes T u sl (instructions b) = Some (Some l)" "b' = CodeBlock (btype b) l"
      using assms(2) r by (auto simp: endVisit_def Let_def then_pass_Some)
    then have "keeps M ok mul (instructions b) l" using passes assms(3,4) by (auto simp: wf_block_iff list_all_iff)
    then show ?thesis using l(2) by (auto simp: block_ok_def keeps_def wf_block_iff intro: tail_body)
  next
    case (Some res)
    then have "r1_block (BlockNode b) = Some (Some res)" using r block_rule by simp
    then obtain t k jm sub p where s: "btype b = PUSHCONT" "unloc (instructions b) = [SubProgram t k jm sub p]"
      "res = Result 1 [BlockNode (CodeBlock (btype sub) (instructions sub))]" by (rule block_rule_view)
    then obtain l where l: "block_passes T u sl (instructions sub) = Some (Some l)" "b' = CodeBlock (btype sub) l"
      using assms(2) r Some by (auto simp: endVisit_def Let_def then_pass_Some)
    have mem: "SubProgram t k jm sub p \<in> set (instructions b)" using arg_cong [OF s(2), of set] by (auto simp: unloc_def)
    then have "wf_list M mul (instructions sub)" using assms(3) by (auto simp: wf_block_iff wf_list_iff)
    then have k: "keeps M ok mul (instructions sub) l" using passes [OF l(1)] assms(5) [OF mem] by simp
    have "refines_body M (instructions b) (instructions sub)"
      using sub_body [of M t k jm sub p] unfolding refines_body_def s(2) [symmetric] run_unloc .
    then show ?thesis
      using s(1) l(2) k refines_body_tail by (auto simp: block_ok_def keeps_def wf_block_iff)
  qed
qed

definition squash_tables :: squasher where
  "squash_tables = the squash_init"

interpretation ref_peephole: peephole ref_machine squash_tables
proof
  show "tables_ok squash_tables" using squash_init_total unfolding squash_tables_def by (metis option.sel)
qed

end
