(* ===== verification/Texts.thy ===== *)
theory Texts
  imports DriverPasses
begin

text \<open>
  More on the texts of \<open>StrUtils\<close>: joining two slices, and the encoding of an amount of coins by
  \<open>tonsToBinaryString\<close> (four bits with the number of bytes, then the bytes).
\<close>

section \<open>Joining slices\<close>

lemma unit_total:
  assumes "bitstring x" "bitstring y" "length (x @ y) \<le> CellBitLength"
  obtains h where "unitBitStringToHex x y = Some (Some h)" "sliceToBitString h = Some (x @ y)"
proof -
  obtain d where "binaryStringToSlice (x @ y) = Some d"
    using slice_roundtrip_aux [of "x @ y"] assms(1,2) by auto
  then have "unitBitStringToHex x y = Some (Some (CHR ''x'' # d))"
    using assms(3) by (simp add: unitBitStringToHex_def Let_def)
  from that [OF this unit_roundtrip(1) [OF this assms(1,2)]] show thesis .
qed

section \<open>Amounts\<close>

lemma bin_digits_0 [simp]: "bin_digits 0 = []"
  by (simp add: bin_digits.simps)

lemma tons_bits_eq: "0 \<le> v \<Longrightarrow> v < 2 ^ n \<Longrightarrow> tons_bits v n = bin_digits v"
proof (induction v n rule: tons_bits.induct)
  case (2 v n)
  show ?case
  proof (cases "v = 0")
    case False
    have "half v < 2 ^ n" "0 \<le> half v" using 2(2,3) by (auto simp: half_nonneg)
    then show ?thesis using 2 False by (simp add: bin_digits.simps [of v])
  qed simp
qed (simp add: bin_digits.simps)

lemma length_bin_digits: "0 \<le> v \<Longrightarrow> length (bin_digits v) \<le> n \<longleftrightarrow> v < 2 ^ n"
proof (induction v arbitrary: n rule: bin_digits.induct)
  case (1 v)
  show ?case
  proof (cases "v = 0 \<or> n = 0")
    case True
    then show ?thesis using 1(2) by (auto simp: bin_digits.simps [of v])
  next
    case False
    then obtain m where n: "n = Suc m" by (cases n) auto
    have "length (bin_digits (half v)) \<le> m \<longleftrightarrow> half v < 2 ^ m"
      using False 1 by (simp add: half_nonneg)
    moreover have "half v < 2 ^ m \<longleftrightarrow> v < 2 ^ n" using 1(2) by (auto simp: half_nonneg n)
    ultimately show ?thesis using False 1(2) by (simp add: bin_digits.simps [of v] n)
  qed
qed

lemma length_tons_bits: "0 \<le> v \<Longrightarrow> length (tons_bits v n) = min n (length (bin_digits v))"
proof (induction v n rule: tons_bits.induct)
  case (2 v n)
  then show ?case by (cases "v = 0") (simp_all add: bin_digits.simps [of v] half_nonneg)
qed simp

lemma toBigint_pad: "toBigint (replicate n (CHR ''0'') @ s) = toBigint s"
proof (induction s rule: rev_induct)
  case Nil
  then show ?case by (induction n) (simp_all add: toBigint_def)
next
  case (snoc c s)
  then show ?case by (simp add: toBigint_snoc append_assoc [symmetric] del: append_assoc)
qed

lemma pad_to_bytes: "n + (8 - n mod 8) mod 8 = 8 * ((n + 7) div (8::nat))"
proof -
  obtain q r where n: "n = 8 * q + r" "r < 8"
    using mult_div_mod_eq [of 8 n] mod_less_divisor [of 8 n] by (metis zero_less_numeral)
  show ?thesis
  proof (cases "r = 0")
    case False
    then have "(8 * q + r + 7) div 8 = q + 1" using n(2) by (intro div_nat_eqI) auto
    then show ?thesis using n False by simp
  qed (simp add: n(1))
qed

lemma tons_encode:
  assumes "0 \<le> v" "v < 2 ^ 119"
  obtains k b where "tonsToBinaryString v = Some (rev (low_bits (int k) 4) @ b)" "k < 16" "length b = 8 * k"
    "toBigint b = v" "k = (length (bin_digits v) + 7) div 8"
proof -
  let ?n = "length (bin_digits v)"
  let ?b = "rev (bin_digits v @ replicate ((8 - ?n mod 8) mod 8) (CHR ''0''))"
  have n: "?n \<le> 119" using length_bin_digits [OF assms(1), of 119] assms(2) by simp
  have t: "tons_bits v 256 = bin_digits v"
    by (rule tons_bits_eq [OF assms(1) less_trans [OF assms(2)]]) (simp add: power_strict_increasing_iff)
  have len: "length ?b = 8 * ((?n + 7) div 8)" using pad_to_bytes [of ?n] by simp
  have "tonsToBinaryString v = Some (rev (low_bits (int ((?n + 7) div 8)) 4) @ ?b)"
    using n pad_to_bytes [of ?n] by (simp add: tonsToBinaryString_def Let_def t solAssert_def)
  moreover have "(?n + 7) div 8 < 16" using n by linarith
  moreover have "toBigint ?b = v" by (simp add: toBigint_pad toBigint_bin_digits assms(1))
  ultimately show thesis using that [OF _ _ len] by blast
qed

lemma tons_too_big: "2 ^ 119 \<le> v \<Longrightarrow> tonsToBinaryString v = None"
proof -
  assume v: "2 ^ 119 \<le> v"
  have "0 \<le> v" using v order_trans [of 0 "2 ^ 119" v] by simp
  then have "\<not> length (tons_bits v 256) < 120"
    using length_bin_digits [of v 119] length_tons_bits [of v 256] v by simp
  then show ?thesis by (simp add: tonsToBinaryString_def solAssert_def Let_def)
qed

end
