(* ===== verification/Tree.thy ===== *)
theory Tree
  imports Texts
begin

text \<open>
  Passes over whole trees. A visitor that changes blocks in \<open>endVisit(CodeBlock&)\<close> works from the
  leaves to the root (\<open>accept\<close> of the nodes in \<open>TvmAst.cpp\<close>); \<open>visit_block\<close> is that walk, for a change of
  blocks that may raise an exception or not end. The locale \<open>outcome_filter\<close> collects what makes a set of
  outcomes fit for replacing bodies inside loops, calls and conditionals; a pass that is sound on every
  block is sound on every tree in which returns stand at the end of their block.
\<close>

section \<open>The walk\<close>

fun visit_node :: "(code_block \<Rightarrow> code_block exc option) \<Rightarrow> node \<Rightarrow> node exc option"
and visit_block :: "(code_block \<Rightarrow> code_block exc option) \<Rightarrow> code_block \<Rightarrow> code_block exc option"
and visit_list :: "(code_block \<Rightarrow> code_block exc option) \<Rightarrow> node list \<Rightarrow> node list exc option" where
  "visit_node f (Opaque b t r p) = then_pass (visit_block f b) (\<lambda>b. Some (Some (Opaque b t r p)))"
| "visit_node f (ReturnOrBreakOrCont t b) = then_pass (visit_block f b) (\<lambda>b. Some (Some (ReturnOrBreakOrCont t b)))"
| "visit_node f (BlockNode b) = then_pass (visit_block f b) (\<lambda>b. Some (Some (BlockNode b)))"
| "visit_node f (SubProgram t r jm b p) = then_pass (visit_block f b) (\<lambda>b. Some (Some (SubProgram t r jm b p)))"
| "visit_node f (LogCircuit t b) = then_pass (visit_block f b) (\<lambda>b. Some (Some (LogCircuit t b)))"
| "visit_node f (TvmIfElse w jm t None r) = then_pass (visit_block f t) (\<lambda>t. Some (Some (TvmIfElse w jm t None r)))"
| "visit_node f (TvmIfElse w jm t (Some e) r) =
     then_pass (visit_block f t) (\<lambda>t. then_pass (visit_block f e) (\<lambda>e. Some (Some (TvmIfElse w jm t (Some e) r))))"
| "visit_node f (TvmRepeat bk b) = then_pass (visit_block f b) (\<lambda>b. Some (Some (TvmRepeat bk b)))"
| "visit_node f (TvmUntil bk b) = then_pass (visit_block f b) (\<lambda>b. Some (Some (TvmUntil bk b)))"
| "visit_node f (While ag bk c b) =
     then_pass (visit_block f c) (\<lambda>c. then_pass (visit_block f b) (\<lambda>b. Some (Some (While ag bk c b))))"
| "visit_node f n = Some (Some n)"
| "visit_block f (CodeBlock t c) = then_pass (visit_list f c) (\<lambda>c. f (CodeBlock t c))"
| "visit_list f [] = Some (Some [])"
| "visit_list f (n # c) = then_pass (visit_node f n) (\<lambda>n. then_pass (visit_list f c) (\<lambda>c. Some (Some (n # c))))"

text \<open>\<open>Function::accept\<close> and \<open>Contract::accept\<close>.\<close>

definition visit_function :: "(code_block \<Rightarrow> code_block exc option) \<Rightarrow> tvm_function \<Rightarrow> tvm_function exc option" where
  "visit_function f x = then_pass (visit_block f (f_block x)) (\<lambda>b. Some (Some (x\<lparr>f_block := b\<rparr>)))"

fun visit_functions ::
    "(tvm_function \<Rightarrow> tvm_function exc option) \<Rightarrow> tvm_function list \<Rightarrow> tvm_function list exc option" where
  "visit_functions g [] = Some (Some [])"
| "visit_functions g (x # xs) = then_pass (g x) (\<lambda>y. then_pass (visit_functions g xs) (\<lambda>ys. Some (Some (y # ys))))"

definition visit_contract :: "(tvm_function \<Rightarrow> tvm_function exc option) \<Rightarrow> contract \<Rightarrow> contract exc option" where
  "visit_contract g c = then_pass (visit_functions g (contract_functions c)) (\<lambda>fs. Some (Some (c\<lparr>contract_functions := fs\<rparr>)))"

section \<open>Replacing the bodies of loops and calls\<close>

text \<open>
  \<open>P\<close> are the outcomes that a replacement has to keep: all of them, or the visible ones. For the body of a
  continuation \<open>RET\<close> and falling off the end are the same.
\<close>

definition body_le :: "('w outcome \<Rightarrow> bool) \<Rightarrow> 'w machine \<Rightarrow> node list \<Rightarrow> node list \<Rightarrow> bool" where
  "body_le P M c c' = (\<forall>s r. P r \<longrightarrow> run M c s r \<longrightarrow> (\<exists>r'. run M c' s r' \<and> call_out r' = call_out r))"

definition code_le :: "('w outcome \<Rightarrow> bool) \<Rightarrow> 'w machine \<Rightarrow> node list \<Rightarrow> node list \<Rightarrow> bool" where
  "code_le P M c c' = (\<forall>s r. P r \<longrightarrow> run M c s r \<longrightarrow> run M c' s r)"

lemma body_le_visible: "body_le visible M c c' = refines_body M c c'"
  by (simp add: body_le_def refines_body_def)

lemma code_le_visible: "code_le visible M c c' = refines M c c'"
  by (simp add: code_le_def refines_def)

lemma code_le_body: "code_le P M c c' \<Longrightarrow> body_le P M c c'"
  by (auto simp: code_le_def body_le_def)

lemma code_le_refl [simp]: "code_le P M c c"
  by (simp add: code_le_def)

lemma code_le_trans: "code_le P M a b \<Longrightarrow> code_le P M b c \<Longrightarrow> code_le P M a c"
  by (simp add: code_le_def)

text \<open>What stops a loop stops it in the same way.\<close>

lemma call_out_stop: "\<not> is_norm (call_out r) \<Longrightarrow> call_out r' = call_out r \<Longrightarrow> r' = r"
  by (cases r; cases r') auto

lemma call_out_jump: "call_out r' = call_out r \<Longrightarrow> jump_out r' = jump_out r"
  by (cases r; cases r') auto

locale outcome_filter =
  fixes P :: "'w outcome \<Rightarrow> bool"
  assumes keeps_norm: "P (Norm s)"
    and keeps_call: "P (call_out r) = P r"
    and keeps_jump: "P (jump_out r) = P r"
    and keeps_brk: "P (brk_out bk r) = P r"
begin

lemma body_norm:
  assumes "body_le P M c c'" "run M c s r" "call_out r = Norm t"
  obtains r' where "run M c' s r'" "call_out r' = Norm t"
  using assms keeps_call [of r] keeps_norm unfolding body_le_def by metis

lemma body_stop:
  assumes "body_le P M c c'" "P (brk_out bk r)" "run M c s r" "\<not> is_norm (call_out r)"
  shows "run M c' s r"
  using assms keeps_brk call_out_stop unfolding body_le_def by metis

lemma loops_le:
  "run1 M n s r \<Longrightarrow> True" "run M c s r \<Longrightarrow> True"
  "rep M bk c k s r \<Longrightarrow> body_le P M c c' \<Longrightarrow> P r \<Longrightarrow> rep M bk c' k s r"
  "unt M bk c s r \<Longrightarrow> body_le P M c c' \<Longrightarrow> P r \<Longrightarrow> unt M bk c' s r"
  "whl M ag bk c b s r \<Longrightarrow> body_le P M c c' \<Longrightarrow> body_le P M b b' \<Longrightarrow> P r \<Longrightarrow> whl M ag bk c' b' s r"
proof (induction arbitrary: and and c' and c' and c' b' rule: run1_run_rep_unt_whl.inducts)
  case (rep_0 bk c s)
  show ?case by (rule run1_run_rep_unt_whl.rep_0)
next
  case (rep_Suc c s r0 t bk n r)
  then show ?case by (meson body_norm run1_run_rep_unt_whl.rep_Suc)
next
  case (rep_stop c s r bk n)
  then show ?case by (meson body_stop run1_run_rep_unt_whl.rep_stop)
next
  case (unt_end c s r0 t bk)
  then show ?case by (meson body_norm run1_run_rep_unt_whl.unt_end)
next
  case (unt_next c s r0 t bk r)
  then show ?case by (meson body_norm run1_run_rep_unt_whl.unt_next)
next
  case (unt_stop c s r bk)
  then show ?case by (meson body_stop run1_run_rep_unt_whl.unt_stop)
next
  case (whl_cond_stop ag c s r bk b)
  then show ?case by (meson body_stop run1_run_rep_unt_whl.whl_cond_stop)
next
  case (whl_end ag c s r0 t bk b)
  then show ?case by (meson body_norm run1_run_rep_unt_whl.whl_end)
next
  case (whl_next ag c s r0 t b r1 u bk r)
  obtain q0 where "run M c' s q0" "call_out q0 = Norm t" using body_norm whl_next by blast
  moreover obtain q1 where "run M b' (pop1 t) q1" "call_out q1 = Norm u" using body_norm whl_next by blast
  ultimately show ?case using whl_next run1_run_rep_unt_whl.whl_next by blast
next
  case (whl_stop ag c s r0 t b r bk)
  obtain q0 where "run M c' s q0" "call_out q0 = Norm t" using body_norm whl_stop by blast
  moreover have "run M b' (pop1 t) r" using body_stop whl_stop by blast
  ultimately show ?case using whl_stop run1_run_rep_unt_whl.whl_stop by blast
next
  case (again_next ag b s r0 t bk c r)
  then show ?case by (meson body_norm run1_run_rep_unt_whl.again_next)
next
  case (again_stop ag b s r bk c)
  then show ?case by (meson body_stop run1_run_rep_unt_whl.again_stop)
qed simp_all

text \<open>The nodes that call a body.\<close>

lemma call_le: "body_le P M c c' \<Longrightarrow> P r \<Longrightarrow> run M c s r \<Longrightarrow> \<exists>r'. run M c' s r' \<and> call_out r' = call_out r \<and> jump_out r' = jump_out r"
  unfolding body_le_def using call_out_jump by blast

lemma Sub_le:
  assumes "body_le P M (instructions b) (instructions b')" "P r" "run1 M (SubProgram t k jm b p) s r"
  shows "run1 M (SubProgram t k jm b' p) s r"
  using assms call_le keeps_call keeps_jump unfolding run1_Sub by (metis (full_types))

lemma Log_le:
  assumes "body_le P M (instructions b) (instructions b')" "P r" "run1 M (LogCircuit t b) s r"
  shows "run1 M (LogCircuit t b') s r"
  using assms call_le [of M "instructions b" "instructions b'"] keeps_call unfolding run1_Log by metis

lemma If_le:
  assumes "body_le P M (instructions b) (instructions b')" "P r" "run1 M (TvmIfElse w jm b None k) s r"
  shows "run1 M (TvmIfElse w jm b' None k) s r"
  using assms call_le [of M "instructions b" "instructions b'"] keeps_call keeps_jump unfolding run1_If by (metis (full_types))

lemma IfElse_le:
  assumes "body_le P M (instructions b) (instructions b')" "body_le P M (instructions e) (instructions e')" "P r"
    "run1 M (TvmIfElse w jm b (Some e) k) s r"
  shows "run1 M (TvmIfElse w jm b' (Some e') k) s r"
  using assms call_le [of M "instructions b" "instructions b'"] call_le [of M "instructions e" "instructions e'"] keeps_call
  unfolding run1_IfElse by (metis (full_types))

lemma Repeat_le:
  "body_le P M (instructions b) (instructions b') \<Longrightarrow> P r \<Longrightarrow> run1 M (TvmRepeat bk b) s r \<Longrightarrow> run1 M (TvmRepeat bk b') s r"
  unfolding run1_Repeat using loops_le(3) by fastforce

lemma Until_le:
  "body_le P M (instructions b) (instructions b') \<Longrightarrow> P r \<Longrightarrow> run1 M (TvmUntil bk b) s r \<Longrightarrow> run1 M (TvmUntil bk b') s r"
  unfolding run1_Until using loops_le(4) by fastforce

lemma While_le:
  "body_le P M (instructions c) (instructions c') \<Longrightarrow> body_le P M (instructions b) (instructions b') \<Longrightarrow> P r \<Longrightarrow>
   run1 M (While ag bk c b) s r \<Longrightarrow> run1 M (While ag bk c' b') s r"
  unfolding run1_While using loops_le(5) by fastforce

lemmas node_le = Sub_le Log_le If_le IfElse_le Repeat_le Until_le While_le

end

interpretation all_outcomes: outcome_filter "\<lambda>_ :: 'w outcome. True"
  by unfold_locales simp_all

interpretation visible_outcomes: outcome_filter "visible :: 'w outcome \<Rightarrow> bool"
  by unfold_locales simp_all

section \<open>Sound on every block, sound on every tree\<close>

text \<open>
  The trees for which this holds: a return stands last in its block, code marked as opaque does not return, and
  the nodes with a body declare no signature from which the rules draw conclusions about the values.
\<close>

fun isROBC :: "node \<Rightarrow> bool" where
  "isROBC (ReturnOrBreakOrCont _ _) = True"
| "isROBC _ = False"

fun placed_node :: "node \<Rightarrow> bool" and placed_block :: "code_block \<Rightarrow> bool" and placed_list :: "node list \<Rightarrow> bool" where
  "placed_node (Opaque b t r p) =
     (btype b \<noteq> PUSHCONT \<and> \<not> blockHasRetOrJmp b \<and> \<not> (t = 0 \<and> r = 1) \<and> \<not> (t = 1 \<and> r = 1 \<and> p) \<and> placed_block b)"
| "placed_node (ReturnOrBreakOrCont t b) = (btype b \<noteq> PUSHCONT \<and> placed_block b)"
| "placed_node (SubProgram t r jm b p) = (\<not> (p \<and> r = 1 \<and> (t = 0 \<or> t = 1)) \<and> placed_block b)"
| "placed_node (LogCircuit t b) = placed_block b"
| "placed_node (TvmIfElse w jm t None r) = placed_block t"
| "placed_node (TvmIfElse w jm t (Some e) r) = (placed_block t \<and> placed_block e)"
| "placed_node (TvmRepeat bk b) = placed_block b"
| "placed_node (TvmUntil bk b) = placed_block b"
| "placed_node (While ag bk c b) = (placed_block c \<and> placed_block b)"
| "placed_node n = True"
| "placed_block (CodeBlock t c) = placed_list c"
| "placed_list [] = True"
| "placed_list (n # c) = (placed_node n \<and> (isROBC n \<longrightarrow> unloc c = []) \<and> placed_list c)"

lemma refines_singleI: "(\<And>s r. visible r \<Longrightarrow> run1 M n s r \<Longrightarrow> run1 M n' s r) \<Longrightarrow> refines M [n] [n']"
  by (auto simp: refines_def run_single)

lemma block_ok_body: "block_ok M mul b b' \<Longrightarrow> body_le visible M (instructions b) (instructions b')"
  by (auto simp: block_ok_def body_le_visible intro: tail_body split: if_splits)

lemma block_ok_wf: "block_ok M mul b b' \<Longrightarrow> wf_block M mul b'"
  by (simp add: block_ok_def)

lemma block_ok_tail: "block_ok M mul b b' \<Longrightarrow> btype b \<noteq> PUSHCONT \<Longrightarrow> refines_tail M (instructions b) (instructions b')"
  by (simp add: block_ok_def)

lemma refines_then_tail: "refines M a a' \<Longrightarrow> refines_tail M b b' \<Longrightarrow> refines_tail M (a @ b) (a' @ b')"
  by (meson refines_append refines_imp_tail refines_refl refines_tail_append refines_tail_trans)

lemma refines_tail_body: "refines_tail M a b \<Longrightarrow> refines_body M b c \<Longrightarrow> refines_body M a c"
  unfolding refines_tail_def refines_body_def by (metis call_out_idem visible_out(1))

lemma block_ok_trans:
  assumes "refines_tail M c c'" "block_ok M mul (CodeBlock t c') b'"
  shows "block_ok M mul (CodeBlock t c) b'"
  using assms by (auto simp: block_ok_def intro: refines_tail_body refines_tail_trans)

lemma Opaque_tail:
  assumes "refines_tail M (instructions b) (instructions b')" "\<not> blockHasRetOrJmp b" "wf_block M mul b"
  shows "refines M [Opaque b t r p] [Opaque b' t r p]"
proof -
  have "\<not> run M (instructions b) s (Ret u)" for s u using no_ret(2) [OF assms(2,3)] by fastforce
  from refines_tail_no_ret [OF assms(1) this] show ?thesis
    by (intro refines_singleI) (simp add: run1_Opaque refines_def)
qed

lemma ROBC_tail:
  "refines_tail M (instructions b) (instructions b') \<Longrightarrow> refines_tail M [ReturnOrBreakOrCont t b] [ReturnOrBreakOrCont t b']"
  by (simp add: refines_tail_def run_single run1_ROBC)

lemma visit_loc: "visit_node f n = Some (Some n') \<Longrightarrow> isLoc n' = isLoc n \<and> isROBC n' = isROBC n"
  by (cases "(f, n)" rule: visit_node.cases) (auto simp: then_pass_Some isLoc_def)

lemma visit_unloc: "visit_list f c = Some (Some c') \<Longrightarrow> unloc c = [] \<Longrightarrow> c' = c"
proof (induction c arbitrary: c')
  case (Cons n c)
  then show ?case by (cases n) (auto simp: then_pass_Some isLoc_def split: if_splits)
qed simp

text \<open>The walk with a pass that is sound on every block.\<close>

definition block_pass :: "'w machine \<Rightarrow> bool \<Rightarrow> (code_block \<Rightarrow> code_block exc option) \<Rightarrow> bool" where
  "block_pass M mul f = (\<forall>b b'. f b = Some (Some b') \<longrightarrow> wf_block M mul b \<longrightarrow> block_ok M mul b b')"

lemma visit_sound:
  "block_pass M mul f \<Longrightarrow> visit_node f n = Some (Some n') \<Longrightarrow> wfn M mul n \<Longrightarrow> placed_node n \<Longrightarrow>
      wfn M mul n' \<and> (if isROBC n then refines_tail M [n] [n'] else refines M [n] [n'])"
  "block_pass M mul f \<Longrightarrow> visit_block f b = Some (Some b') \<Longrightarrow> wf_block M mul b \<Longrightarrow> placed_block b \<Longrightarrow> block_ok M mul b b'"
  "block_pass M mul f \<Longrightarrow> visit_list f c = Some (Some c') \<Longrightarrow> wf_list M mul c \<Longrightarrow> placed_list c \<Longrightarrow> wf_list M mul c' \<and> refines_tail M c c'"
proof (induction f n and f b and f c arbitrary: n' and b' and c' rule: visit_node_visit_block_visit_list.induct)
  case (1 f b t r p)
  then obtain b1 where b: "visit_block f b = Some (Some b1)" "n' = Opaque b1 t r p" by (auto simp: then_pass_Some)
  then have ok: "block_ok M mul b b1" using 1 by auto
  have "refines M [Opaque b t r p] [n']"
    unfolding b(2) using 1(4,5) by (intro Opaque_tail [OF block_ok_tail [OF ok]]) auto
  then show ?case using block_ok_wf [OF ok] 1(5) by (auto simp: b(2) declared_def)
next
  case (2 f t b)
  then show ?case by (auto simp: then_pass_Some block_ok_wf block_ok_tail ROBC_tail)
next
  case (4 f t r jm b p)
  then obtain b1 where b: "visit_block f b = Some (Some b1)" "n' = SubProgram t r jm b1 p" by (auto simp: then_pass_Some)
  then have ok: "block_ok M mul b b1" using 4 by auto
  then show ?case
    using 4(5) block_ok_wf [OF ok] visible_outcomes.Sub_le [OF block_ok_body [OF ok]]
    by (auto simp: b(2) declared_def intro: refines_singleI)
next
  case (5 f t b)
  then show ?case
    by (auto simp: then_pass_Some block_ok_wf intro!: refines_singleI intro: visible_outcomes.Log_le block_ok_body)
next
  case (6 f w jm t r)
  then show ?case
    by (auto simp: then_pass_Some block_ok_wf intro!: refines_singleI intro: visible_outcomes.If_le block_ok_body)
next
  case (7 f w jm t e r)
  then show ?case
    by (auto simp: then_pass_Some block_ok_wf intro!: refines_singleI intro: visible_outcomes.IfElse_le block_ok_body)
next
  case (8 f bk b)
  then show ?case
    by (auto simp: then_pass_Some block_ok_wf intro!: refines_singleI intro: visible_outcomes.Repeat_le block_ok_body)
next
  case (9 f bk b)
  then show ?case
    by (auto simp: then_pass_Some block_ok_wf intro!: refines_singleI intro: visible_outcomes.Until_le block_ok_body)
next
  case (10 f ag bk c b)
  then show ?case
    by (auto simp: then_pass_Some block_ok_wf intro!: refines_singleI intro: visible_outcomes.While_le block_ok_body)
next
  case (12 f t c)
  then obtain c1 where c: "visit_list f c = Some (Some c1)" "f (CodeBlock t c1) = Some (Some b')" by (auto simp: then_pass_Some)
  then have "wf_list M mul c1" "refines_tail M c c1" using 12 by auto
  moreover from this have "block_ok M mul (CodeBlock t c1) b'" using c(2) 12(2) by (simp add: block_pass_def)
  ultimately show ?case using block_ok_trans by blast
next
  case (14 f n c)
  then obtain n1 c1 where c: "visit_node f n = Some (Some n1)" "visit_list f c = Some (Some c1)" "c' = n1 # c1"
    by (auto simp: then_pass_Some)
  then have n: "wfn M mul n1" "if isROBC n then refines_tail M [n] [n1] else refines M [n] [n1]"
    and r: "wf_list M mul c1" "refines_tail M c c1"
    using 14 by auto
  have "refines_tail M ([n] @ c) ([n1] @ c1)"
  proof (cases "isROBC n")
    case True
    then have "unloc c = []" "c1 = c" using 14(6) visit_unloc [OF c(2)] by auto
    moreover have "\<not> isLoc n" using True by (cases n) (auto simp: isLoc_def)
    ultimately show ?thesis
      using n(2) True visit_loc [OF c(1)] refines_tail_unloc [of M "[n] @ c" "[n1] @ c1"]
        refines_tail_unloc [of M "[n]" "[n1]"] by simp
  qed (use n(2) r(2) in \<open>simp only: if_False refines_then_tail\<close>)
  then show ?case using n r c(3) by simp
qed auto

end
