(* ===== verification/Passes.thy ===== *)
theory Passes
  imports Tree
begin

text \<open>
  The small passes of \<open>TvmAstVisitor.cpp\<close>: \<open>LocSquasher\<close> removes superfluous line marks,
  \<open>DeleterAfterRet\<close> removes the code after a return, a jump on both branches or a throw, \<open>DeleterCallX\<close>
  unpacks a function whose body is a single call.
\<close>

section \<open>LocSquasher\<close>

text \<open>Of adjacent line marks the last one stays; then a mark that repeats the previous mark goes.\<close>

definition keep_last_loc :: "node list \<Rightarrow> node list" where
  "keep_last_loc a =
     foldl (\<lambda>b n. (if b \<noteq> [] \<and> isLoc (last b) \<and> isLoc n then butlast b else b) @ [n]) [] a"

fun drop_same_loc :: "(string \<times> int) option \<Rightarrow> node list \<Rightarrow> node list" where
  "drop_same_loc lastLoc [] = []"
| "drop_same_loc lastLoc (n # c) =
     (case n of
        Loc f l \<Rightarrow>
          if lastLoc = None \<or> lastLoc \<noteq> Some (f, l) then n # drop_same_loc (Some (f, l)) c
          else drop_same_loc (Some (f, l)) c
      | _ \<Rightarrow> n # drop_same_loc lastLoc c)"

definition squashLocs :: "node list \<Rightarrow> node list" where
  "squashLocs c = drop_same_loc None (keep_last_loc c)"

lemma keep_last_snoc:
  "keep_last_loc [] = []"
  "keep_last_loc (a @ [n]) =
     (if keep_last_loc a \<noteq> [] \<and> isLoc (last (keep_last_loc a)) \<and> isLoc n then butlast (keep_last_loc a)
      else keep_last_loc a) @ [n]"
  by (simp_all add: keep_last_loc_def)

lemma unloc_butlast: "b \<noteq> [] \<Longrightarrow> isLoc (last b) \<Longrightarrow> unloc (butlast b) = unloc b"
  by (cases b rule: rev_cases) auto

lemma unloc_keep_last: "unloc (keep_last_loc a) = unloc a"
  by (induction a rule: rev_induct) (auto simp: keep_last_snoc unloc_butlast)

lemma set_keep_last: "set (keep_last_loc a) \<subseteq> set a"
  by (induction a rule: rev_induct) (auto simp: keep_last_snoc dest: in_set_butlastD)

lemma unloc_drop_same: "unloc (drop_same_loc q c) = unloc c"
  by (induction q c rule: drop_same_loc.induct) (auto simp: isLoc_def split: node.splits)

lemma set_drop_same: "set (drop_same_loc q c) \<subseteq> set c"
  by (induction q c rule: drop_same_loc.induct) (auto split: node.splits if_splits)

lemma unloc_squashLocs: "unloc (squashLocs c) = unloc c"
  by (simp add: squashLocs_def unloc_drop_same unloc_keep_last)

lemma set_squashLocs: "n \<in> set (squashLocs c) \<Longrightarrow> n \<in> set c"
  using set_drop_same set_keep_last unfolding squashLocs_def by blast

text \<open>\<open>LocSquasher\<close> changes a block before it goes on to the nodes of the changed block.\<close>

function (sequential) loc_node :: "node \<Rightarrow> node" and loc_block :: "code_block \<Rightarrow> code_block" where
  "loc_node (Opaque b t r p) = Opaque (loc_block b) t r p"
| "loc_node (ReturnOrBreakOrCont t b) = ReturnOrBreakOrCont t (loc_block b)"
| "loc_node (BlockNode b) = BlockNode (loc_block b)"
| "loc_node (SubProgram t r jm b p) = SubProgram t r jm (loc_block b) p"
| "loc_node (LogCircuit t b) = LogCircuit t (loc_block b)"
| "loc_node (TvmIfElse w jm t e r) = TvmIfElse w jm (loc_block t) (map_option loc_block e) r"
| "loc_node (TvmRepeat bk b) = TvmRepeat bk (loc_block b)"
| "loc_node (TvmUntil bk b) = TvmUntil bk (loc_block b)"
| "loc_node (While ag bk c b) = While ag bk (loc_block c) (loc_block b)"
| "loc_node n = n"
| "loc_block (CodeBlock t c) = CodeBlock t (map loc_node (squashLocs c))"
  by pat_completeness auto
termination
proof (relation "measure (\<lambda>x. case x of Inl n \<Rightarrow> size n | Inr b \<Rightarrow> size b)", goal_cases)
  case (13 t c n)
  then have "size n < Suc (size_list size c)" using set_squashLocs size_list_estimation' [of n c "size n" size] by auto
  then show ?case by simp
qed auto

lemma isLoc_loc_node: "isLoc (loc_node n) = isLoc n"
  by (cases n) (simp_all add: isLoc_def)

lemma unloc_loc_node: "unloc (map loc_node c) = map loc_node (unloc c)"
  by (induction c) (simp_all add: isLoc_loc_node)

lemma run_pointwise:
  assumes "\<And>n s r. n \<in> set c \<Longrightarrow> run1 M (h n) s r \<longleftrightarrow> run1 M n s r"
  shows "run M (map h c) s r \<longleftrightarrow> run M c s r"
  using assms by (induction c arbitrary: s) (simp_all add: run_Cons_iff)

text \<open>Two bodies with the same runs.\<close>

definition same_runs :: "'w machine \<Rightarrow> code_block \<Rightarrow> code_block \<Rightarrow> bool" where
  "same_runs M b b' = (\<forall>s r. run M (instructions b') s r \<longleftrightarrow> run M (instructions b) s r)"

lemma same_body:
  "same_runs M b b' \<Longrightarrow>
     body_le (\<lambda>_. True) M (instructions b) (instructions b') \<and> body_le (\<lambda>_. True) M (instructions b') (instructions b)"
  by (auto simp: same_runs_def body_le_def)

lemma same_node:
  "same_runs M b b' \<Longrightarrow> run1 M (Opaque b' t k p) s r \<longleftrightarrow> run1 M (Opaque b t k p) s r"
  "same_runs M b b' \<Longrightarrow> run1 M (ReturnOrBreakOrCont t b') s r \<longleftrightarrow> run1 M (ReturnOrBreakOrCont t b) s r"
  "same_runs M b b' \<Longrightarrow> run1 M (SubProgram t k jm b' p) s r \<longleftrightarrow> run1 M (SubProgram t k jm b p) s r"
  "same_runs M b b' \<Longrightarrow> run1 M (LogCircuit lt b') s r \<longleftrightarrow> run1 M (LogCircuit lt b) s r"
  "same_runs M b b' \<Longrightarrow> run1 M (TvmIfElse w jm b' None k) s r \<longleftrightarrow> run1 M (TvmIfElse w jm b None k) s r"
  "same_runs M b b' \<Longrightarrow> same_runs M e e' \<Longrightarrow>
     run1 M (TvmIfElse w jm b' (Some e') k) s r \<longleftrightarrow> run1 M (TvmIfElse w jm b (Some e) k) s r"
  "same_runs M b b' \<Longrightarrow> run1 M (TvmRepeat bk b') s r \<longleftrightarrow> run1 M (TvmRepeat bk b) s r"
  "same_runs M b b' \<Longrightarrow> run1 M (TvmUntil bk b') s r \<longleftrightarrow> run1 M (TvmUntil bk b) s r"
  "same_runs M b b' \<Longrightarrow> same_runs M e e' \<Longrightarrow> run1 M (While ag bk b' e') s r \<longleftrightarrow> run1 M (While ag bk b e) s r"
  by (simp_all add: same_runs_def run1_Opaque run1_ROBC)
    (meson all_outcomes.node_le same_body [unfolded same_runs_def])+

lemma loc_runs:
  "wfn M mul n \<Longrightarrow> \<forall>s r. run1 M (loc_node n) s r \<longleftrightarrow> run1 M n s r"
  "wf_block M mul b \<Longrightarrow> same_runs M b (loc_block b)"
proof (induction n and b rule: loc_node_loc_block.induct)
  case (6 w jm t e r)
  then show ?case by (cases e) (auto simp: same_node)
next
  case (11 t c)
  have "run M (map loc_node (squashLocs c)) s r \<longleftrightarrow> run M c s r" for s r
  proof -
    have "run M (map loc_node (squashLocs c)) s r \<longleftrightarrow> run M (squashLocs c) s r"
      using 11 set_squashLocs by (intro run_pointwise) (auto simp: wf_list_iff)
    also have "\<dots> \<longleftrightarrow> run M c s r" using run_unloc unloc_squashLocs by metis
    finally show ?thesis .
  qed
  then show ?case by (simp add: same_runs_def)
qed (auto simp: same_node)

text \<open>No two adjacent marks are left.\<close>

fun adjacent_locs :: "node list \<Rightarrow> bool" where
  "adjacent_locs (x # y # c) = (isLoc x \<and> isLoc y \<or> adjacent_locs (y # c))"
| "adjacent_locs _ = False"

lemma adjacent_snoc: "adjacent_locs (c @ [n]) = (adjacent_locs c \<or> c \<noteq> [] \<and> isLoc (last c) \<and> isLoc n)"
  by (induction c rule: adjacent_locs.induct) auto

lemma adjacent_butlast: "\<not> adjacent_locs c \<Longrightarrow> c \<noteq> [] \<Longrightarrow> isLoc (last c) \<Longrightarrow> butlast c \<noteq> [] \<Longrightarrow> \<not> isLoc (last (butlast c))"
  by (cases c rule: rev_cases) (auto simp: adjacent_snoc)

lemma keep_last_tidy: "\<not> adjacent_locs (keep_last_loc a)"
proof (induction a rule: rev_induct)
  case (snoc n a)
  let ?b = "keep_last_loc a"
  have "\<not> adjacent_locs (butlast ?b)"
    using snoc by (cases ?b rule: rev_cases) (auto simp: adjacent_snoc)
  then show ?case using snoc adjacent_butlast by (auto simp: keep_last_snoc adjacent_snoc)
qed (simp add: keep_last_snoc)

lemma adjacent_Cons: "adjacent_locs (n # c) = (isLoc n \<and> c \<noteq> [] \<and> isLoc (hd c) \<or> adjacent_locs c)"
  by (cases c) auto

lemma drop_same_tidy:
  "\<not> adjacent_locs c \<Longrightarrow>
   \<not> adjacent_locs (drop_same_loc q c) \<and>
   (c \<noteq> [] \<and> isLoc (hd c) \<or> drop_same_loc q c = [] \<or> \<not> isLoc (hd (drop_same_loc q c)))"
proof (induction q c rule: drop_same_loc.induct)
  case (2 q n c)
  then show ?case
    by (cases n) (auto simp: adjacent_Cons isLoc_def)
qed simp

lemma squashLocs_tidy: "\<not> adjacent_locs (squashLocs c)"
  using drop_same_tidy keep_last_tidy by (simp add: squashLocs_def)

lemma adjacent_map: "adjacent_locs (map loc_node c) = adjacent_locs c"
  by (induction c rule: adjacent_locs.induct) (simp_all add: isLoc_loc_node)

section \<open>DeleterAfterRet\<close>

text \<open>A return, a conditional that jumps on both branches, a throw without condition.\<close>

fun leaves :: "node \<Rightarrow> bool" where
  "leaves (ReturnOrBreakOrCont _ _) = True"
| "leaves (TvmIfElse _ jm _ e _) = (e \<noteq> None \<and> jm)"
| "leaves (TvmException _ _ i _ _) = (\<not> i)"
| "leaves _ = False"

fun deleteAfterRet :: "bool \<Rightarrow> node list \<Rightarrow> node list" where
  "deleteAfterRet didFind [] = []"
| "deleteAfterRet didFind (n # c) =
     (if \<not> didFind \<and> leaves n then n # deleteAfterRet True c
      else if \<not> didFind \<or> isLoc n then n # deleteAfterRet didFind c
      else deleteAfterRet didFind c)"

definition deleterAfterRet :: "code_block \<Rightarrow> code_block exc option" where
  "deleterAfterRet b = Some (Some (CodeBlock (btype b) (deleteAfterRet False (instructions b))))"

lemma delete_found: "unloc (deleteAfterRet True c) = []"
  by (induction c) auto

lemma deleteAfterRet_runs:
  assumes "\<And>n s t. n \<in> set c \<Longrightarrow> leaves n \<Longrightarrow> \<not> run1 M n s (Norm t)"
  shows "run M (deleteAfterRet False c) s r \<longleftrightarrow> run M c s r"
  using assms
proof (induction c arbitrary: s)
  case (Cons n c)
  then show ?case by (cases "leaves n") (auto simp: run_Cons_iff)
qed simp

lemma throw_stops: "leaves (TvmException a y i m p) \<Longrightarrow> \<not> run1 M (TvmException a y i m p) s (Norm t)"
  by (auto simp: run1_TvmException exc_prim_def Let_def)

text \<open>Nothing but line marks after such a node, in all blocks of the tree.\<close>

fun ends_node :: "node \<Rightarrow> bool" and ends_block :: "code_block \<Rightarrow> bool" and ends_list :: "node list \<Rightarrow> bool" where
  "ends_node (Opaque b t r p) = ends_block b"
| "ends_node (ReturnOrBreakOrCont t b) = ends_block b"
| "ends_node (BlockNode b) = ends_block b"
| "ends_node (SubProgram t r jm b p) = ends_block b"
| "ends_node (LogCircuit t b) = ends_block b"
| "ends_node (TvmIfElse w jm t None r) = ends_block t"
| "ends_node (TvmIfElse w jm t (Some e) r) = (ends_block t \<and> ends_block e)"
| "ends_node (TvmRepeat bk b) = ends_block b"
| "ends_node (TvmUntil bk b) = ends_block b"
| "ends_node (While ag bk c b) = (ends_block c \<and> ends_block b)"
| "ends_node n = True"
| "ends_block (CodeBlock t c) = ends_list c"
| "ends_list [] = True"
| "ends_list (n # c) = (ends_node n \<and> (leaves n \<longrightarrow> unloc c = []) \<and> ends_list c)"

lemma ends_found: "list_all ends_node c \<Longrightarrow> ends_list (deleteAfterRet True c)"
  by (induction c) (auto simp: isLoc_def split: node.splits)

lemma ends_delete: "list_all ends_node c \<Longrightarrow> ends_list (deleteAfterRet False c)"
  by (induction c) (auto simp: ends_found delete_found)

lemma visit_ends:
  "f = deleterAfterRet \<Longrightarrow> visit_node f n = Some (Some n') \<Longrightarrow> ends_node n'"
  "f = deleterAfterRet \<Longrightarrow> visit_block f b = Some (Some b') \<Longrightarrow> ends_block b'"
  "f = deleterAfterRet \<Longrightarrow> visit_list f c = Some (Some c') \<Longrightarrow> list_all ends_node c'"
proof (induction f n and f b and f c arbitrary: n' and b' and c' rule: visit_node_visit_block_visit_list.induct)
  case (12 f t c)
  then show ?case by (auto simp: then_pass_Some deleterAfterRet_def ends_delete)
qed (auto simp: then_pass_Some)

lemma visit_total:
  "f = deleterAfterRet \<Longrightarrow> \<exists>n'. visit_node f n = Some (Some n')"
  "f = deleterAfterRet \<Longrightarrow> \<exists>b'. visit_block f b = Some (Some b')"
  "f = deleterAfterRet \<Longrightarrow> \<exists>c'. visit_list f c = Some (Some c')"
proof (induction f n and f b and f c rule: visit_node_visit_block_visit_list.induct)
  case (12 f t c)
  then show ?case by (auto simp: then_pass_Some deleterAfterRet_def)
qed (auto simp: then_pass_Some)

section \<open>DeleterCallX\<close>

fun unpack_call :: "node list \<Rightarrow> node list option" where
  "unpack_call [] = Some []"
| "unpack_call (n # c) =
     (case n of
        Loc _ _ \<Rightarrow> map_option ((#) n) (unpack_call c)
      | SubProgram _ _ _ b _ \<Rightarrow> map_option ((@) (instructions b)) (unpack_call c)
      | _ \<Rightarrow> None)"

definition deleterCallX :: "tvm_function \<Rightarrow> tvm_function" where
  "deleterCallX f =
     (let block = f_block f; inst = instructions block
      in if qtyWithoutLoc inst = 1 then
           (case unpack_call inst of
              Some newCmds \<Rightarrow> f\<lparr>f_block := CodeBlock (btype block) newCmds\<rparr>
            | None \<Rightarrow> f)
         else f)"

lemma unpack_loc: "unloc c = [] \<Longrightarrow> unpack_call c = Some c"
  by (induction c) (auto simp: isLoc_def split: if_splits node.splits)

lemma unpack_single:
  assumes "length (unloc c) = 1" "unpack_call c = Some d"
  obtains t r jm b p where "unloc c = [SubProgram t r jm b p]" "unloc d = unloc (instructions b)"
  using assms
proof (induction c arbitrary: d thesis)
  case (Cons n c)
  show ?case
  proof (cases "isLoc n")
    case True
    then obtain e where "unpack_call c = Some e" "d = n # e" using Cons(4) by (auto simp: isLoc_def split: node.splits)
    then show ?thesis using Cons True by auto
  next
    case False
    then have "unloc c = []" using Cons(3) by simp
    then show ?thesis using Cons(2,4) False unpack_loc [of c] by (auto simp: isLoc_def split: node.splits)
  qed
qed simp

end
