(* ===== verification/Shift.thy ===== *)
theory Shift
  imports Passes
begin

text \<open>
  Values that a piece of code does not touch. \<open>ins p xs t\<close> is the stack \<open>t\<close> with the values \<open>xs\<close> inserted
  below its first \<open>p\<close> values. \<open>shifts M xs p q c c'\<close> says that \<open>c\<close> does on the stack with \<open>xs\<close> at depth \<open>p\<close> what
  \<open>c'\<close> does on the stack without, and leaves \<open>xs\<close> at depth \<open>q\<close>; \<open>discards\<close> says that \<open>c\<close> removes \<open>xs\<close>. These
  are the relations that the simulator of the stack optimiser and the expansion of logical circuits rest on.
\<close>

section \<open>Inserted values\<close>

definition ins :: "nat \<Rightarrow> val list \<Rightarrow> stack \<Rightarrow> stack" where
  "ins p xs t = (\<lambda>k. if k < p then t k else if k < p + length xs then xs ! (k - p) else t (k - length xs))"

lemma ins_spush: "ins (Suc p) xs (spush v t) = spush v (ins p xs t)"
  by (rule ext) (auto simp: ins_def spush_def Suc_diff_Suc intro!: stack_cong arg_cong [where f = "(!) xs"])

lemma ins_read: "k < p \<Longrightarrow> ins p xs t k = t k" "p + length xs \<le> k \<Longrightarrow> ins p xs t k = t (k - length xs)"
  by (simp_all add: ins_def)

lemma ins_drop: "n \<le> p \<Longrightarrow> sdrop n (ins p xs t) = ins (p - n) xs (sdrop n t)"
  by (rule ext) (auto simp: ins_def sdrop_def intro!: stack_cong arg_cong [where f = "(!) xs"])

lemma ins_drop_all: "p + length xs \<le> n \<Longrightarrow> sdrop n (ins p xs t) = sdrop (n - length xs) t"
  by (rule ext) (auto simp: ins_def sdrop_def intro!: stack_cong)

lemma ins_push:
  "i < p \<Longrightarrow> spushs i (ins p xs t) = ins (Suc p) xs (spushs i t)"
  "p + length xs \<le> i \<Longrightarrow> spushs i (ins p xs t) = ins (Suc p) xs (spushs (i - length xs) t)"
  by (simp_all add: spushs_def ins_spush ins_read)

lemma ins_pop:
  "1 \<le> i \<Longrightarrow> i < p \<Longrightarrow> spop i (ins p xs t) = ins (p - 1) xs (spop i t)"
  "1 \<le> p \<Longrightarrow> p + length xs \<le> i \<Longrightarrow> spop i (ins p xs t) = ins (p - 1) xs (spop (i - length xs) t)"
  "spop 1 (ins 1 [x] t) = t"
  by (rule ext; auto simp: ins_def spop_closed intro!: stack_cong arg_cong [where f = "(!) xs"])+

lemma ins_pop_set: "1 \<le> p \<Longrightarrow> spop p (ins p [x] t) = spop p (ins p [y] t)"
  by (rule ext) (auto simp: ins_def spop_closed)

lemma ins_blkdrop2:
  "p + length xs \<le> r \<Longrightarrow> sblkdrop2 d r (ins p xs t) = ins p xs (sblkdrop2 d (r - length xs) t)"
  "r \<le> p \<Longrightarrow> p + length xs \<le> r + d \<Longrightarrow> sblkdrop2 d r (ins p xs t) = sblkdrop2 (d - length xs) r t"
  "r + d \<le> p \<Longrightarrow> sblkdrop2 d r (ins p xs t) = ins (p - d) xs (sblkdrop2 d r t)"
  by (rule ext; auto simp: ins_def sblkdrop2_def intro!: stack_cong arg_cong [where f = "(!) xs"])+

lemma ins_reverse:
  "p + length xs \<le> j \<Longrightarrow> sreverse n j (ins p xs t) = ins p xs (sreverse n (j - length xs) t)"
  "j + n \<le> p \<Longrightarrow> sreverse n j (ins p xs t) = ins p xs (sreverse n j t)"
proof -
  have "sreverse n (i + length xs) (ins p xs t) = ins p xs (sreverse n i t)" if "p \<le> i" for i
    using that by (intro ext) (auto simp: ins_def sreverse_def intro!: stack_cong)
  then show "p + length xs \<le> j \<Longrightarrow> sreverse n j (ins p xs t) = ins p xs (sreverse n (j - length xs) t)"
    by (metis add_le_imp_le_diff le_add_diff_inverse2 trans_le_add2 add.commute le_add1 le_trans)
  show "j + n \<le> p \<Longrightarrow> sreverse n j (ins p xs t) = ins p xs (sreverse n j t)"
    by (rule ext) (auto simp: ins_def sreverse_def intro!: stack_cong)
qed

lemma ins_blkswap:
  "i + j \<le> p \<Longrightarrow> sblkswap i j (ins p xs t) = ins p xs (sblkswap i j t)"
  "p + length xs \<le> j \<Longrightarrow> sblkswap i j (ins p xs t) = ins (p + i) xs (sblkswap i (j - length xs) t)"
  by (rule ext; auto simp: ins_def sblkswap_def intro!: stack_cong arg_cong [where f = "(!) xs"])+

lemma ins_blkpush:
  "j < p \<Longrightarrow> sblkpush n j (ins p xs t) = ins (p + n) xs (sblkpush n j t)"
  "p + length xs + n \<le> j + 1 \<Longrightarrow> sblkpush n j (ins p xs t) = ins (p + n) xs (sblkpush n (j - length xs) t)"
proof -
  show "j < p \<Longrightarrow> sblkpush n j (ins p xs t) = ins (p + n) xs (sblkpush n j t)"
    by (induction n arbitrary: p t) (simp_all add: ins_push)
  show "p + length xs + n \<le> j + 1 \<Longrightarrow> sblkpush n j (ins p xs t) = ins (p + n) xs (sblkpush n (j - length xs) t)"
    by (induction n arbitrary: p t) (simp_all add: ins_push)
qed

text \<open>The place of an index that avoids the inserted values.\<close>

definition outside :: "nat \<Rightarrow> nat \<Rightarrow> nat \<Rightarrow> bool" where
  "outside p m i = (i < p \<or> p + m \<le> i)"

definition place :: "nat \<Rightarrow> nat \<Rightarrow> nat \<Rightarrow> nat" where
  "place p m i = (if i < p then i else i - m)"

lemma ins_place: "outside p (length xs) i \<Longrightarrow> ins p xs t i = t (place p (length xs) i)"
  by (auto simp: outside_def place_def ins_read)

lemma ins_upd: "outside p (length xs) i \<Longrightarrow> (ins p xs t)(i := v) = ins p xs (t(place p (length xs) i := v))"
  by (rule ext) (auto simp: outside_def place_def ins_def)

lemma ins_xchg:
  "outside p (length xs) i \<Longrightarrow> outside p (length xs) j \<Longrightarrow>
   sxchg i j (ins p xs t) = ins p xs (sxchg (place p (length xs) i) (place p (length xs) j) t)"
  by (simp add: sxchg_def ins_upd ins_place)

lemma place_Suc: "place (Suc p) m (Suc i) = (if i < p then Suc i else Suc i - m)"
  by (simp add: place_def)

section \<open>Code that leaves the inserted values alone\<close>

definition shift_st :: "nat \<Rightarrow> val list \<Rightarrow> 'w st \<Rightarrow> 'w st" where
  "shift_st p xs s = set_stk s (ins p xs (stk s))"

fun shift_out :: "nat \<Rightarrow> val list \<Rightarrow> 'w outcome \<Rightarrow> 'w outcome" where
  "shift_out p xs (Norm s) = Norm (shift_st p xs s)"
| "shift_out p xs r = r"

fun stays :: "'w outcome \<Rightarrow> bool" where
  "stays (Norm s) = True"
| "stays (Exc e x w) = True"
| "stays _ = False"

definition shifts :: "'w machine \<Rightarrow> val list \<Rightarrow> nat \<Rightarrow> nat \<Rightarrow> node list \<Rightarrow> node list \<Rightarrow> bool" where
  "shifts M xs p q c c' =
     (\<forall>s. (\<forall>r'. run M c' s r' \<longrightarrow> stays r') \<and>
        (\<forall>r. run M c (shift_st p xs s) r \<longleftrightarrow> (\<exists>r'. run M c' s r' \<and> r = shift_out q xs r')))"

definition discards :: "'w machine \<Rightarrow> val list \<Rightarrow> nat \<Rightarrow> node list \<Rightarrow> node list \<Rightarrow> bool" where
  "discards M xs p c c' = (\<forall>s r. run M c (shift_st p xs s) r \<longleftrightarrow> run M c' s r)"

lemma shift_st_simps [simp]:
  "stk (shift_st p xs s) = ins p xs (stk s)" "glb (shift_st p xs s) = glb s" "wld (shift_st p xs s) = wld s"
  by (simp_all add: shift_st_def)

lemma shift_st_set [simp]: "set_stk (shift_st p xs s) t = set_stk s t"
  by (simp add: shift_st_def)

lemma shift_set [simp]: "shift_st p xs (set_stk s t) = set_stk s (ins p xs t)"
  by (simp add: shift_st_def)

lemma shift_out_norm: "is_norm (shift_out p xs r) = is_norm r"
  by (cases r) (auto simp: is_norm_def)

lemma shift_out_eq_Norm: "shift_out p xs r = Norm t \<longleftrightarrow> (\<exists>s. r = Norm s \<and> t = shift_st p xs s)"
  by (cases r) auto

lemma shift_out_other: "\<not> is_norm r \<Longrightarrow> shift_out p xs r = r"
  by (cases r) (auto simp: is_norm_def)

lemma shiftsD: "shifts M xs p q c c' \<Longrightarrow> run M c (shift_st p xs s) r \<longleftrightarrow> (\<exists>r'. run M c' s r' \<and> r = shift_out q xs r')"
  by (simp add: shifts_def)

lemma shifts_stays: "shifts M xs p q c c' \<Longrightarrow> run M c' s r \<Longrightarrow> stays r"
  by (simp add: shifts_def)

lemma shifts_Nil [simp]: "shifts M xs p p [] []"
  by (simp add: shifts_def)

lemma shifts_append:
  assumes "shifts M xs p q a a'" "shifts M xs q k b b'"
  shows "shifts M xs p k (a @ b) (a' @ b')"
  unfolding shifts_def
proof (intro allI conjI)
  fix s r'
  show "run M (a' @ b') s r' \<longrightarrow> stays r'"
    using shifts_stays [OF assms(1)] shifts_stays [OF assms(2)] by (auto simp: run_append)
next
  fix s r
  have "run M (a @ b) (shift_st p xs s) r \<longleftrightarrow>
      (\<exists>t. run M a' s (Norm t) \<and> run M b (shift_st q xs t) r) \<or> (\<exists>r'. run M a' s r' \<and> r = shift_out q xs r' \<and> \<not> is_norm r)"
    unfolding run_append shiftsD [OF assms(1)] by (metis shift_out.simps(1) shift_out_eq_Norm)
  also have "\<dots> \<longleftrightarrow> (\<exists>r'. run M (a' @ b') s r' \<and> r = shift_out k xs r')"
    unfolding run_append shiftsD [OF assms(2)] by (metis shift_out_norm shift_out_other)
  finally show "run M (a @ b) (shift_st p xs s) r \<longleftrightarrow> (\<exists>r'. run M (a' @ b') s r' \<and> r = shift_out k xs r')" .
qed

lemma shifts_discards:
  assumes "shifts M xs p q a a'" "discards M xs q b b'"
  shows "discards M xs p (a @ b) (a' @ b')"
  unfolding discards_def
proof (intro allI)
  fix s r
  have "run M (a @ b) (shift_st p xs s) r \<longleftrightarrow>
      (\<exists>t. run M a' s (Norm t) \<and> run M b (shift_st q xs t) r) \<or> (\<exists>r'. run M a' s r' \<and> r = shift_out q xs r' \<and> \<not> is_norm r)"
    unfolding run_append shiftsD [OF assms(1)] by (metis shift_out.simps(1) shift_out_eq_Norm)
  also have "\<dots> \<longleftrightarrow> run M (a' @ b') s r"
    using assms(2) unfolding run_append discards_def by (metis shift_out_norm shift_out_other)
  finally show "run M (a @ b) (shift_st p xs s) r \<longleftrightarrow> run M (a' @ b') s r" .
qed

lemma discards_append: "discards M xs p a a' \<Longrightarrow> discards M xs p (a @ b) (a' @ b)"
  by (simp add: discards_def run_append)

lemma discards_same: "discards M xs p c c' \<Longrightarrow> discards M ys p c c' \<Longrightarrow>
  run M c (shift_st p xs s) r \<longleftrightarrow> run M c (shift_st p ys s) r"
  by (simp add: discards_def)

section \<open>Stack instructions\<close>

lemma run_stk_single: "stk_is n f \<Longrightarrow> run M [n] s r \<longleftrightarrow> r = Norm (set_stk s (f (stk s)))"
  by (simp add: run_stk_is)

lemma shifts_stk:
  "stk_is n f \<Longrightarrow> stk_is n' f' \<Longrightarrow> (\<And>t. f (ins p xs t) = ins q xs (f' t)) \<Longrightarrow> shifts M xs p q [n] [n']"
  by (simp add: shifts_def run_stk_single)

lemma shifts_stk_gone: "stk_is n f \<Longrightarrow> (\<And>t. f (ins p xs t) = ins q xs t) \<Longrightarrow> shifts M xs p q [n] []"
  by (simp add: shifts_def run_stk_single shift_st_def)

lemma discards_stk: "stk_is n f \<Longrightarrow> stk_is n' f' \<Longrightarrow> (\<And>t. f (ins p xs t) = f' t) \<Longrightarrow> discards M xs p [n] [n']"
  by (simp add: discards_def run_stk_single)

lemma discards_stk_gone: "stk_is n f \<Longrightarrow> (\<And>t. f (ins p xs t) = t) \<Longrightarrow> discards M xs p [n] []"
  by (simp add: discards_def run_stk_single)

section \<open>Conditionals and loops\<close>

lemma stays_call: "stays r \<Longrightarrow> call_out r = r \<and> brk_out bk r = r"
  by (cases r; cases bk) simp_all

lemma pop_shift: "pop1 (shift_st (Suc p) xs s) = shift_st p xs (pop1 s)" "ins (Suc p) xs t 0 = t 0"
  by (simp_all add: pop1_def shift_st_def ins_drop ins_read del: pop1_fold)

lemma shifts_norm:
  assumes "shifts M xs p q c c'" "run M c (shift_st p xs u) r" "call_out r = Norm t"
  obtains r' v where "run M c' u r'" "call_out r' = Norm v" "t = shift_st q xs v"
proof -
  obtain r' where r: "run M c' u r'" "r = shift_out q xs r'" using shiftsD [OF assms(1)] assms(2) by blast
  then have "stays r'" using shifts_stays [OF assms(1)] by blast
  then show thesis using that r assms(3) by (cases r') auto
qed

lemma shifts_stop:
  assumes "shifts M xs p q c c'" "run M c (shift_st p xs u) r" "\<not> is_norm (call_out r)"
  obtains e x w where "run M c' u (Exc e x w)" "r = Exc e x w"
proof -
  obtain r' where r: "run M c' u r'" "r = shift_out q xs r'" using shiftsD [OF assms(1)] assms(2) by blast
  then have "stays r'" using shifts_stays [OF assms(1)] by blast
  then show thesis using that r assms(3) by (cases r') (auto simp: is_norm_def)
qed

lemma norm_back:
  assumes "shifts M xs p q c c'" "run M c' u r'" "call_out r' = Norm v"
  obtains r where "run M c (shift_st p xs u) r" "call_out r = Norm (shift_st q xs v)"
proof -
  have "stays r'" using shifts_stays [OF assms(1,2)] .
  then have "r' = Norm v" using assms(3) by (cases r') auto
  moreover have "run M c (shift_st p xs u) (shift_out q xs r')" using shiftsD [OF assms(1)] assms(2) by blast
  ultimately show thesis using that by simp
qed

lemma stop_back:
  assumes "shifts M xs p q c c'" "run M c' u r" "\<not> is_norm (call_out r)"
  obtains e x w where "run M c (shift_st p xs u) (Exc e x w)" "r = Exc e x w"
proof -
  have "stays r" using shifts_stays [OF assms(1,2)] .
  moreover have "run M c (shift_st p xs u) (shift_out q xs r)" using shiftsD [OF assms(1)] assms(2) by blast
  ultimately show thesis using that assms(3) by (cases r) (auto simp: is_norm_def)
qed

lemma loops_fwd:
  "run1 M n s r \<Longrightarrow> True" "run M c s r \<Longrightarrow> True"
  "rep M bk c k s r \<Longrightarrow> s = shift_st p xs u \<Longrightarrow> shifts M xs p p c c' \<Longrightarrow> \<exists>r'. rep M bk c' k u r' \<and> r = shift_out p xs r'"
  "unt M bk c s r \<Longrightarrow> s = shift_st p xs u \<Longrightarrow> shifts M xs p (Suc p) c c' \<Longrightarrow> \<exists>r'. unt M bk c' u r' \<and> r = shift_out p xs r'"
  "whl M ag bk c b s r \<Longrightarrow> s = shift_st p xs u \<Longrightarrow> shifts M xs p (Suc p) c c' \<Longrightarrow> shifts M xs p p b b' \<Longrightarrow>
     \<exists>r'. whl M ag bk c' b' u r' \<and> r = shift_out p xs r'"
proof (induction arbitrary: and and u and u and u rule: run1_run_rep_unt_whl.inducts)
  case (rep_0 bk c s)
  then show ?case using run1_run_rep_unt_whl.rep_0 by (intro exI [of _ "Norm u"]) auto
next
  case (rep_Suc c s r0 t bk n r)
  then obtain q v where "run M c' u q" "call_out q = Norm v" "t = shift_st p xs v" using shifts_norm by metis
  moreover from this obtain r' where "rep M bk c' n v r'" "r = shift_out p xs r'" using rep_Suc by blast
  ultimately show ?case using run1_run_rep_unt_whl.rep_Suc by blast
next
  case (rep_stop c s r bk n)
  then obtain e x w where "run M c' u (Exc e x w)" "r = Exc e x w" using shifts_stop by metis
  then show ?case using run1_run_rep_unt_whl.rep_stop [of M c' u "Exc e x w" bk n]
    by (intro exI [of _ "Exc e x w"]) (simp add: is_norm_def)
next
  case (unt_end c s r0 t bk)
  then obtain q v where "run M c' u q" "call_out q = Norm v" "t = shift_st (Suc p) xs v" using shifts_norm by metis
  then show ?case using unt_end run1_run_rep_unt_whl.unt_end [of M c' u q v bk]
    by (intro exI [of _ "Norm (pop1 v)"]) (simp add: pop_shift)
next
  case (unt_next c s r0 t bk r)
  then obtain q v where "run M c' u q" "call_out q = Norm v" "t = shift_st (Suc p) xs v" using shifts_norm by metis
  then show ?case using unt_next run1_run_rep_unt_whl.unt_next [of M c' u q v bk]
    by (simp add: pop_shift) blast
next
  case (unt_stop c s r bk)
  then obtain e x w where "run M c' u (Exc e x w)" "r = Exc e x w" using shifts_stop by metis
  then show ?case using run1_run_rep_unt_whl.unt_stop [of M c' u "Exc e x w" bk]
    by (intro exI [of _ "Exc e x w"]) (simp add: is_norm_def)
next
  case (whl_cond_stop ag c s r bk b)
  then obtain e x w where "run M c' u (Exc e x w)" "r = Exc e x w" using shifts_stop by metis
  then show ?case using run1_run_rep_unt_whl.whl_cond_stop [of ag M c' u "Exc e x w" bk b'] whl_cond_stop
    by (intro exI [of _ "Exc e x w"]) (simp add: is_norm_def)
next
  case (whl_end ag c s r0 t bk b)
  then obtain q v where "run M c' u q" "call_out q = Norm v" "t = shift_st (Suc p) xs v" using shifts_norm by metis
  then show ?case using whl_end run1_run_rep_unt_whl.whl_end [of ag M c' u q v bk b']
    by (intro exI [of _ "Norm (pop1 v)"]) (simp add: pop_shift)
next
  case (whl_next ag c s r0 t b r1 v' bk r)
  then obtain q v where q: "run M c' u q" "call_out q = Norm v" "t = shift_st (Suc p) xs v" using shifts_norm by metis
  then obtain q1 v1 where "run M b' (pop1 v) q1" "call_out q1 = Norm v1" "v' = shift_st p xs v1"
    using whl_next pop_shift(1) shifts_norm by metis
  then show ?case using whl_next q run1_run_rep_unt_whl.whl_next [of ag M c' u q v b' q1 v1 bk] by (simp add: pop_shift) blast
next
  case (whl_stop ag c s r0 t b r bk)
  then obtain q v where q: "run M c' u q" "call_out q = Norm v" "t = shift_st (Suc p) xs v" using shifts_norm by metis
  then obtain e x w where "run M b' (pop1 v) (Exc e x w)" "r = Exc e x w"
    using whl_stop pop_shift(1) shifts_stop by metis
  then show ?case using whl_stop q run1_run_rep_unt_whl.whl_stop [of ag M c' u q v b' "Exc e x w" bk]
    by (intro exI [of _ "Exc e x w"]) (simp add: is_norm_def pop_shift)
next
  case (again_next ag b s r0 t bk c r)
  then obtain q v where "run M b' u q" "call_out q = Norm v" "t = shift_st p xs v" using shifts_norm by metis
  then show ?case using again_next run1_run_rep_unt_whl.again_next [of ag M b' u q v bk c'] by blast
next
  case (again_stop ag b s r bk c)
  then obtain e x w where "run M b' u (Exc e x w)" "r = Exc e x w" using shifts_stop by metis
  then show ?case using run1_run_rep_unt_whl.again_stop [of ag M b' u "Exc e x w" bk c'] again_stop
    by (intro exI [of _ "Exc e x w"]) (simp add: is_norm_def)
qed simp_all

lemma loops_back:
  "run1 M n u r \<Longrightarrow> True" "run M c' u r \<Longrightarrow> True"
  "rep M bk c' k u r \<Longrightarrow> shifts M xs p p c c' \<Longrightarrow> rep M bk c k (shift_st p xs u) (shift_out p xs r) \<and> stays r"
  "unt M bk c' u r \<Longrightarrow> shifts M xs p (Suc p) c c' \<Longrightarrow> unt M bk c (shift_st p xs u) (shift_out p xs r) \<and> stays r"
  "whl M ag bk c' b' u r \<Longrightarrow> shifts M xs p (Suc p) c c' \<Longrightarrow> shifts M xs p p b b' \<Longrightarrow>
     whl M ag bk c b (shift_st p xs u) (shift_out p xs r) \<and> stays r"
proof (induction rule: run1_run_rep_unt_whl.inducts)
  case (rep_0 bk c s)
  then show ?case using run1_run_rep_unt_whl.rep_0 by auto
next
  case (rep_Suc c' s r0 t bk n r)
  obtain q where "run M c (shift_st p xs s) q" "call_out q = Norm (shift_st p xs t)"
    using rep_Suc norm_back by metis
  then show ?case using rep_Suc run1_run_rep_unt_whl.rep_Suc by blast
next
  case (rep_stop c' s r bk n)
  obtain e x w where "run M c (shift_st p xs s) (Exc e x w)" "r = Exc e x w"
    using rep_stop stop_back by metis
  then show ?case using run1_run_rep_unt_whl.rep_stop [of M c "shift_st p xs s" r bk n] by (simp add: is_norm_def)
next
  case (unt_end c' s r0 t bk)
  obtain q where "run M c (shift_st p xs s) q" "call_out q = Norm (shift_st (Suc p) xs t)"
    using unt_end norm_back by metis
  then show ?case using unt_end run1_run_rep_unt_whl.unt_end [of M c "shift_st p xs s" q "shift_st (Suc p) xs t" bk]
    by (simp add: pop_shift)
next
  case (unt_next c' s r0 t bk r)
  obtain q where "run M c (shift_st p xs s) q" "call_out q = Norm (shift_st (Suc p) xs t)"
    using unt_next norm_back by metis
  then show ?case using unt_next run1_run_rep_unt_whl.unt_next [of M c "shift_st p xs s" q "shift_st (Suc p) xs t" bk]
    by (simp add: pop_shift)
next
  case (unt_stop c' s r bk)
  obtain e x w where "run M c (shift_st p xs s) (Exc e x w)" "r = Exc e x w"
    using unt_stop stop_back by metis
  then show ?case using run1_run_rep_unt_whl.unt_stop [of M c "shift_st p xs s" r bk] by (simp add: is_norm_def)
next
  case (whl_cond_stop ag c' s r bk b')
  obtain e x w where "run M c (shift_st p xs s) (Exc e x w)" "r = Exc e x w"
    using whl_cond_stop stop_back by metis
  then show ?case using whl_cond_stop run1_run_rep_unt_whl.whl_cond_stop [of ag M c "shift_st p xs s" r bk b]
    by (simp add: is_norm_def)
next
  case (whl_end ag c' s r0 t bk b')
  obtain q where "run M c (shift_st p xs s) q" "call_out q = Norm (shift_st (Suc p) xs t)"
    using whl_end norm_back by metis
  then show ?case
    using whl_end run1_run_rep_unt_whl.whl_end [of ag M c "shift_st p xs s" q "shift_st (Suc p) xs t" bk b]
    by (simp add: pop_shift)
next
  case (whl_next ag c' s r0 t b' r1 v bk r)
  obtain q where "run M c (shift_st p xs s) q" "call_out q = Norm (shift_st (Suc p) xs t)"
    using whl_next norm_back by metis
  moreover obtain q1 where "run M b (shift_st p xs (pop1 t)) q1" "call_out q1 = Norm (shift_st p xs v)"
    using whl_next norm_back by metis
  ultimately show ?case
    using whl_next run1_run_rep_unt_whl.whl_next [of ag M c "shift_st p xs s" q "shift_st (Suc p) xs t" b q1 "shift_st p xs v" bk]
    by (simp add: pop_shift)
next
  case (whl_stop ag c' s r0 t b' r bk)
  obtain q where "run M c (shift_st p xs s) q" "call_out q = Norm (shift_st (Suc p) xs t)"
    using whl_stop norm_back by metis
  moreover obtain e x w where "run M b (shift_st p xs (pop1 t)) (Exc e x w)" "r = Exc e x w"
    using whl_stop stop_back by metis
  ultimately show ?case
    using whl_stop run1_run_rep_unt_whl.whl_stop [of ag M c "shift_st p xs s" q "shift_st (Suc p) xs t" b r bk]
    by (simp add: pop_shift is_norm_def)
next
  case (again_next ag b' s r0 t bk c' r)
  obtain q where "run M b (shift_st p xs s) q" "call_out q = Norm (shift_st p xs t)"
    using again_next norm_back by metis
  then show ?case using again_next run1_run_rep_unt_whl.again_next by blast
next
  case (again_stop ag b' s r bk c')
  obtain e x w where "run M b (shift_st p xs s) (Exc e x w)" "r = Exc e x w"
    using again_stop stop_back by metis
  then show ?case using again_stop run1_run_rep_unt_whl.again_stop [of ag M b "shift_st p xs s" r bk c]
    by (simp add: is_norm_def)
qed simp_all

lemma shifts_singleI:
  assumes "\<And>s r. run1 M n (shift_st p xs s) r \<longleftrightarrow> (\<exists>r'. run1 M n' s r' \<and> r = shift_out q xs r')"
    and "\<And>s r'. run1 M n' s r' \<Longrightarrow> stays r'"
  shows "shifts M xs p q [n] [n']"
  using assms unfolding shifts_def run_single by blast

text \<open>A body that is called.\<close>

definition called :: "'w machine \<Rightarrow> node list \<Rightarrow> 'w st \<Rightarrow> 'w outcome \<Rightarrow> bool" where
  "called M c s r = (\<exists>r0. run M c s r0 \<and> r = call_out r0)"

lemma shifts_called:
  assumes "shifts M xs p q c c'"
  shows "called M c (shift_st p xs s) r \<longleftrightarrow> (\<exists>r'. called M c' s r' \<and> r = shift_out q xs r')"
    and "called M c' s r' \<Longrightarrow> stays r'"
proof -
  have st: "stays r0 \<and> call_out r0 = r0 \<and> call_out (shift_out q xs r0) = shift_out q xs r0" if "run M c' s r0" for r0
    using shifts_stays [OF assms that] by (cases r0) simp_all
  then have c: "called M c' s r' \<longleftrightarrow> run M c' s r'" for r' unfolding called_def by metis
  show "called M c' s r' \<Longrightarrow> stays r'" using c st by blast
  show "called M c (shift_st p xs s) r \<longleftrightarrow> (\<exists>r'. called M c' s r' \<and> r = shift_out q xs r')"
    unfolding c unfolding called_def shiftsD [OF assms] using st by metis
qed

lemma run1_called:
  "run1 M (SubProgram t k False b pu) s r \<longleftrightarrow> called M (instructions b) s r"
  "run1 M (LogCircuit lt b) s r \<longleftrightarrow> is_bool (stk s 0) \<and>
     (cond (lt = LogOR) (stk s 0) = Some False \<and> r = Norm (pop1 s) \<or>
      cond (lt = LogOR) (stk s 0) = Some True \<and> called M (instructions b) (pop1 s) r)"
  "run1 M (TvmIfElse w False b None k) s r \<longleftrightarrow>
     cond w (stk s 0) = Some False \<and> r = Norm (pop1 s) \<or> cond w (stk s 0) = Some True \<and> called M (instructions b) (pop1 s) r"
  "run1 M (TvmIfElse w jm b (Some e) k) s r \<longleftrightarrow>
     (\<exists>x. cond w (stk s 0) = Some x \<and> called M (instructions (if x then b else e)) (pop1 s) r)"
  by (auto simp: run1_Sub run1_Log run1_If run1_IfElse called_def)

lemma shifts_Sub:
  assumes "shifts M xs p q (instructions b) (instructions b')"
  shows "shifts M xs p q [SubProgram t k False b pu] [SubProgram t k False b' pu]"
  by (rule shifts_singleI) (use shifts_called [OF assms] in \<open>simp_all add: run1_called\<close>)

lemma shifts_Log:
  assumes "shifts M xs p p (instructions b) (instructions b')"
  shows "shifts M xs (Suc p) p [LogCircuit t b] [LogCircuit t b']"
  by (rule shifts_singleI) (use shifts_called [OF assms] in \<open>auto simp: run1_called pop_shift\<close>)

lemma shifts_If:
  assumes "shifts M xs p p (instructions b) (instructions b')"
  shows "shifts M xs (Suc p) p [TvmIfElse w False b None k] [TvmIfElse w False b' None k]"
  by (rule shifts_singleI) (use shifts_called [OF assms] in \<open>auto simp: run1_called pop_shift\<close>)

lemma shifts_IfElse:
  assumes "shifts M xs p q (instructions b) (instructions b')" "shifts M xs p q (instructions e) (instructions e')"
  shows "shifts M xs (Suc p) q [TvmIfElse w jm b (Some e) k] [TvmIfElse w jm b' (Some e') k]"
  by (rule shifts_singleI)
    (use shifts_called [OF assms(1)] shifts_called [OF assms(2)] in \<open>auto simp: run1_called pop_shift split: if_splits\<close>)

lemma shifts_Repeat:
  assumes "shifts M xs p p (instructions b) (instructions b')"
  shows "shifts M xs (Suc p) p [TvmRepeat bk b] [TvmRepeat bk b']"
  by (rule shifts_singleI; use loops_fwd(3) [OF _ refl assms] loops_back(3) [OF _ assms] in
      \<open>simp add: run1_Repeat pop_shift; blast\<close>)

lemma shifts_Until:
  assumes "shifts M xs p (Suc p) (instructions b) (instructions b')"
  shows "shifts M xs p p [TvmUntil bk b] [TvmUntil bk b']"
  by (rule shifts_singleI) (use loops_fwd(4) [OF _ refl assms] loops_back(4) [OF _ assms] in \<open>auto simp: run1_Until\<close>)

lemma shifts_While:
  assumes "shifts M xs p (Suc p) (instructions c) (instructions c')" "shifts M xs p p (instructions b) (instructions b')"
  shows "shifts M xs p p [While ag bk c b] [While ag bk c' b']"
  by (rule shifts_singleI)
    (use loops_fwd(5) [OF _ refl assms] loops_back(5) [OF _ assms] in \<open>auto simp: run1_While\<close>)

lemma discards_ROBC:
  "discards M xs p (instructions b) (instructions b') \<Longrightarrow> discards M xs p [ReturnOrBreakOrCont t b] [ReturnOrBreakOrCont t' b']"
  by (simp add: discards_def run_single run1_ROBC)

section \<open>Single instructions\<close>

text \<open>What \<open>take\<close> and \<open>ret\<close> of an instruction promise about the stack: deeper values are not touched.\<close>

definition framed :: "'w machine \<Rightarrow> int \<Rightarrow> int \<Rightarrow> node \<Rightarrow> bool" where
  "framed M t r n = (0 \<le> t \<and> 0 \<le> r \<and> (\<forall>xs p. nat t \<le> p \<longrightarrow> shifts M xs p (p - nat t + nat r) [n] [n]))"

lemma shifts_framed:
  "framed M t r n \<Longrightarrow> t \<le> int p \<Longrightarrow> int q = int p - t + r \<Longrightarrow> shifts M xs p q [n] [n]"
proof -
  assume f: "framed M t r n" and p: "t \<le> int p" "int q = int p - t + r"
  then have "nat t \<le> p" "p - nat t + nat r = q" unfolding framed_def by linarith+
  then show ?thesis using f unfolding framed_def by metis
qed

lemma shifts_Loc: "isLoc n \<Longrightarrow> shifts M xs p p [n] [n]"
  by (rule shifts_singleI) (auto simp: run1_isLoc)

lemma framed_push: "(\<And>s r. run1 M n s r \<longleftrightarrow> r = Norm (set_stk s (spush (f (glb s) (wld s)) (stk s)))) \<Longrightarrow> framed M 0 1 n"
  unfolding framed_def by (auto intro!: shifts_singleI simp: ins_spush [simplified])

lemma framed_pushes: "pushes M n \<Longrightarrow> framed M 0 1 n"
  unfolding pushes_def using framed_push by blast

lemma framed_DeclRetFlag: "framed M 0 1 DeclRetFlag"
  by (rule framed_push [where f = "\<lambda>_ _. VInt 0"]) (auto simp: run1_DeclRetFlag norm_def app0_def)

lemma framed_GetGlob: "framed M 0 1 (Glob GetOrGetVar i)"
  by (rule framed_push [where f = "\<lambda>g _. g i"]) (auto simp: run1_Glob norm_def app0_def)

lemma framed_SetGlob: "framed M 1 0 (Glob SetOrSetVar i)"
proof -
  have "shifts M xs (Suc p) p [Glob SetOrSetVar i] [Glob SetOrSetVar i]" for xs p
    by (rule shifts_singleI) (auto simp: run1_Glob norm_def pop1_def set_stk_def shift_st_def ins_drop ins_read simp del: pop1_fold)
  then show ?thesis unfolding framed_def by (auto simp: Suc_le_eq gr0_conv_Suc)
qed

lemma framed_gen:
  assumes "opc \<noteq> ''NOT''"
  shows "m_gen M opc a = app0 v \<Longrightarrow> framed M 0 1 (GenOpcode opc a cm 0 1 pu)"
    and "m_gen M opc a = app1 f \<Longrightarrow> framed M 1 1 (GenOpcode opc a cm 1 1 pu)"
    and "m_gen M opc a = app2 g \<Longrightarrow> framed M 2 1 (GenOpcode opc a cm 2 1 pu)"
proof -
  note d = run1_GenOpcode norm_def assms ins_drop ins_read ins_spush [symmetric]
  show "m_gen M opc a = app0 v \<Longrightarrow> framed M 0 1 (GenOpcode opc a cm 0 1 pu)"
    by (rule framed_push [where f = "\<lambda>_ _. v"]) (auto simp: d app0_def)
  have 1: "shifts M xs (Suc p) (Suc p) [GenOpcode opc a cm 1 1 pu] [GenOpcode opc a cm 1 1 pu]" if "m_gen M opc a = app1 f" for xs p
    by (rule shifts_singleI) (auto simp: d that app1_def)
  then show "m_gen M opc a = app1 f \<Longrightarrow> framed M 1 1 (GenOpcode opc a cm 1 1 pu)"
    unfolding framed_def by (auto simp: Suc_le_eq gr0_conv_Suc)
  have 2: "shifts M xs (Suc (Suc p)) (Suc p) [GenOpcode opc a cm 2 1 pu] [GenOpcode opc a cm 2 1 pu]" if "m_gen M opc a = app2 g" for xs p
    by (rule shifts_singleI) (auto simp: d that app2_def)
  show "m_gen M opc a = app2 g \<Longrightarrow> framed M 2 1 (GenOpcode opc a cm 2 1 pu)"
    unfolding framed_def
  proof (intro conjI allI impI)
    fix xs p
    assume g: "m_gen M opc a = app2 g" and "nat 2 \<le> p"
    then obtain q where "p = Suc (Suc q)" by (metis nat_numeral numeral_2_eq_2 le_Suc_ex add_2_eq_Suc)
    then show "shifts M xs p (p - nat 2 + nat 1) [GenOpcode opc a cm 2 1 pu] [GenOpcode opc a cm 2 1 pu]"
      using 2 [OF g, of xs q] by simp
  qed simp_all
qed

lemma popn_shift: "n \<le> p \<Longrightarrow> popn n (shift_st p xs s) = shift_st (p - n) xs (popn n s)"
  by (simp add: popn_def shift_st_def ins_drop)

lemma exc_shift:
  assumes "nat (exc_take a y i) \<le> p"
  shows "exc_prim a y i m q (shift_st p xs s) = map_option (shift_out (p - nat (exc_take a y i)) xs) (exc_prim a y i m q s)"
  using assms
  by (cases a; cases y; cases i; cases "cond m (stk s 0)")
    (simp_all add: exc_prim_def exc_take_def popn_shift ins_read numeral_eq_Suc)

lemma exc_stays: "exc_prim a y i m q s = Some r \<Longrightarrow> stays r"
  by (auto simp: exc_prim_def Let_def split: if_splits)

lemma framed_exc: "framed M (exc_take a y i) 0 (TvmException a y i m q)"
  unfolding framed_def
proof (intro conjI allI impI)
  fix xs p
  assume "nat (exc_take a y i) \<le> p"
  then show "shifts M xs p (p - nat (exc_take a y i) + nat 0) [TvmException a y i m q] [TvmException a y i m q]"
    by (intro shifts_singleI) (auto simp: run1_TvmException exc_shift exc_stays)
qed (simp_all add: exc_take_def)

lemma discards_throw:
  assumes "nat (exc_take a y False) \<le> p"
  shows "discards M xs p [TvmException a y False m q] [TvmException a y False m q]"
  unfolding discards_def run_single run1_TvmException exc_shift [OF assms]
  by (auto simp: exc_prim_def Let_def)

end
