(* ===== verification/Simulator.thy ===== *)
theory Simulator
  imports Shift
begin

text \<open>
  \<open>libsolidity/codegen/TVMSimulator.cpp\<close>: the simulator that finds out whether code uses a segment of the stack.
  It walks over instructions with the segment \<open>m_segment\<close> values long and its deepest value at index
  \<open>m_stackSize - 1\<close>, and collects the instructions that do the same on the stack without the segment, until the
  segment is dropped or an instruction touches it. The members of the class are the fields of the record; the
  iterator \<open>m_iter\<close> is the list of the instructions that are left.
\<close>

record sim =
  m_wasSet :: bool
  m_wasMoved :: bool
  m_unable :: bool
  m_isDropped :: bool
  m_wasRBC :: bool
  m_stackSize :: int
  m_commands :: "node list"
  m_iter :: "node list"
  m_setGlobs :: "int set"
  m_wasCall :: bool

definition sim_new :: "int \<Rightarrow> sim" where
  "sim_new startSize = \<lparr> m_wasSet = False, m_wasMoved = False, m_unable = False, m_isDropped = False, m_wasRBC = False,
     m_stackSize = startSize, m_commands = [], m_iter = [], m_setGlobs = {}, m_wasCall = False \<rparr>"

definition success :: "sim \<Rightarrow> bool" where
  "success st = (\<not> m_unable st \<and> m_isDropped st \<and> \<not> m_wasSet st)"

definition rest :: "int \<Rightarrow> sim \<Rightarrow> int exc" where
  "rest seg st = do { let r = m_stackSize st - seg; _ \<leftarrow> solAssert (r \<ge> 0); Some r }"

definition unable :: "sim \<Rightarrow> sim" where
  "unable st = st\<lparr>m_unable := True\<rparr>"

definition emit :: "node \<Rightarrow> sim \<Rightarrow> sim" where
  "emit n st = st\<lparr>m_commands := m_commands st @ [n]\<rparr>"

definition grow :: "int \<Rightarrow> sim \<Rightarrow> sim" where
  "grow d st = st\<lparr>m_stackSize := m_stackSize st + d\<rparr>"

section \<open>Stack instructions\<close>

text \<open>\<open>newi\<close>, \<open>newj\<close>, \<open>newk\<close> of \<open>visit(Stack&)\<close>, and the test that an index lies in the segment.\<close>

definition new_index :: "int \<Rightarrow> sim \<Rightarrow> int \<Rightarrow> int" where
  "new_index seg st i = (if i < m_stackSize st - 1 then i else i - seg)"

definition hits :: "int \<Rightarrow> sim \<Rightarrow> int \<Rightarrow> bool" where
  "hits seg st i = (m_stackSize st - seg \<le> i \<and> i \<le> m_stackSize st - 1)"

definition sim_push :: "int \<Rightarrow> int \<Rightarrow> int \<Rightarrow> int \<Rightarrow> sim \<Rightarrow> sim exc" where
  "sim_push seg i j k st =
     (if hits seg st i then Some (unable st)
      else if i < m_stackSize st - 1 then Some (grow 1 (emit (Stack PUSH_S i j k) st))
      else if i > m_stackSize st - 1 then Some (grow 1 (emit (Stack PUSH_S (new_index seg st i) (-1) (-1)) st))
      else Some st)"

definition sim_pop :: "int \<Rightarrow> int \<Rightarrow> int \<Rightarrow> int \<Rightarrow> sim \<Rightarrow> sim exc" where
  "sim_pop seg i j k st =
     (if seg = 1 \<and> i = 1 \<and> m_stackSize st = 2 then Some (st\<lparr>m_isDropped := True\<rparr>)
      else do {
        r \<leftarrow> rest seg st;
        Some (if r = 0 then unable st
              else if i = m_stackSize st - 1 \<and> seg = 1 then grow (-1) (st\<lparr>m_wasSet := True\<rparr>)
              else if i < m_stackSize st - seg then emit (Stack POP_S i j k) (grow (-1) st)
              else if i > m_stackSize st - 1 then emit (Stack POP_S (new_index seg st i) (-1) (-1)) (grow (-1) st)
              else unable st) })"

definition sim_drop :: "int \<Rightarrow> int \<Rightarrow> sim \<Rightarrow> sim exc" where
  "sim_drop seg n st =
     (if m_stackSize st \<le> n then
        (if n - seg > 0 then do { d \<leftarrow> makeDROP (n - seg); Some (emit d (st\<lparr>m_isDropped := True\<rparr>)) }
         else Some (st\<lparr>m_isDropped := True\<rparr>))
      else do {
        r \<leftarrow> rest seg st;
        if r \<ge> n then do { d \<leftarrow> makeDROP n; Some (emit d (grow (- n) st)) } else Some (unable st) })"

definition sim_blkdrop2 :: "int \<Rightarrow> int \<Rightarrow> int \<Rightarrow> sim \<Rightarrow> sim exc" where
  "sim_blkdrop2 seg d left st =
     (if left \<ge> m_stackSize st then do { b \<leftarrow> makeBLKDROP2 d (left - seg); Some (emit b st) }
      else do {
        r \<leftarrow> rest seg st;
        if left \<le> r \<and> left + d \<ge> m_stackSize st then
          (if d - seg > 0 then do { b \<leftarrow> makeBLKDROP2 (d - seg) left; Some (emit b (st\<lparr>m_isDropped := True\<rparr>)) }
           else Some (st\<lparr>m_isDropped := True\<rparr>))
        else if left + d \<le> r then do { b \<leftarrow> makeBLKDROP2 d left; Some (grow (- d) (emit b st)) }
        else Some (unable st) })"

definition sim_blkpush :: "int \<Rightarrow> int \<Rightarrow> int \<Rightarrow> sim \<Rightarrow> sim exc" where
  "sim_blkpush seg n j st =
     (if max (m_stackSize st - seg) (j - n + 1) > min (m_stackSize st - 1) j
      then do { b \<leftarrow> makeBLKPUSH n (new_index seg st j); Some (grow n (emit b st)) }
      else Some (unable st))"

definition sim_reverse :: "int \<Rightarrow> int \<Rightarrow> int \<Rightarrow> int \<Rightarrow> sim \<Rightarrow> sim exc" where
  "sim_reverse seg n j k st =
     (if max (m_stackSize st - seg) j > min (m_stackSize st - 1) (j + n - 1) then
        (if m_stackSize st - 1 < j then do { b \<leftarrow> makeREVERSE n (j - seg); Some (emit b st) }
         else Some (emit (Stack REVERSE n j k) st))
      else Some (unable st))"

definition sim_blkswap :: "int \<Rightarrow> int \<Rightarrow> int \<Rightarrow> sim \<Rightarrow> sim exc" where
  "sim_blkswap seg i j st =
     (if i = 1 \<and> j + i = m_stackSize st then
        Some (let u = unable st in if seg = 1 then u\<lparr>m_wasMoved := True\<rparr> else u)
      else do {
        r \<leftarrow> rest seg st;
        if i + j \<le> r then do { b \<leftarrow> makeBLKSWAP i j; Some (emit b st) }
        else if j \<ge> m_stackSize st then
          (if j - seg \<ge> 1 then do { b \<leftarrow> makeBLKSWAP i (j - seg); Some (grow i (emit b st)) } else Some (grow i st))
        else Some (unable st) })"

definition sim_xchg :: "int \<Rightarrow> int \<Rightarrow> int \<Rightarrow> sim \<Rightarrow> sim exc" where
  "sim_xchg seg i j st =
     Some (if hits seg st i \<or> hits seg st j then unable st
           else emit (Stack XCHG (new_index seg st i) (new_index seg st j) (-1)) st)"

definition sim_push2 :: "int \<Rightarrow> int \<Rightarrow> int \<Rightarrow> sim \<Rightarrow> sim exc" where
  "sim_push2 seg i j st =
     Some (grow 2 (if hits seg st i \<or> hits seg st j then unable st
                   else emit (Stack PUSH2_S (new_index seg st i) (new_index seg st j) (-1)) st))"

definition sim_push3 :: "int \<Rightarrow> int \<Rightarrow> int \<Rightarrow> int \<Rightarrow> sim \<Rightarrow> sim exc" where
  "sim_push3 seg i j k st =
     Some (grow 3 (if hits seg st i \<or> hits seg st j \<or> hits seg st k then unable st
                   else emit (Stack PUSH3_S (new_index seg st i) (new_index seg st j) (new_index seg st k)) st))"

definition sim_tuck :: "int \<Rightarrow> int \<Rightarrow> int \<Rightarrow> int \<Rightarrow> sim \<Rightarrow> sim exc" where
  "sim_tuck seg i j k st = do {
     r \<leftarrow> rest seg st;
     Some (if r \<ge> 2 then grow 1 (emit (Stack TUCK i j k) st) else unable st) }"

definition sim_puxc :: "int \<Rightarrow> int \<Rightarrow> int \<Rightarrow> sim \<Rightarrow> sim exc" where
  "sim_puxc seg i j st =
     (if hits seg st i \<or> hits seg st j then Some (unable st)
      else do {
        r \<leftarrow> rest seg st;
        Some (if r = 0 then unable st
              else grow 1 (emit (Stack PUXC (new_index seg st i) (new_index seg st j) (-1)) st)) })"

definition sim_stack :: "int \<Rightarrow> stack_opcode \<Rightarrow> int \<Rightarrow> int \<Rightarrow> int \<Rightarrow> sim \<Rightarrow> sim exc" where
  "sim_stack seg p i j k st =
     (case p of
        PUSH_S \<Rightarrow> sim_push seg i j k st
      | POP_S \<Rightarrow> sim_pop seg i j k st
      | DROP \<Rightarrow> sim_drop seg i st
      | BLKDROP2 \<Rightarrow> sim_blkdrop2 seg i j st
      | BLKPUSH \<Rightarrow> sim_blkpush seg i j st
      | REVERSE \<Rightarrow> sim_reverse seg i j k st
      | BLKSWAP \<Rightarrow> sim_blkswap seg i j st
      | XCHG \<Rightarrow> sim_xchg seg i j st
      | PUSH2_S \<Rightarrow> sim_push2 seg i j st
      | PUSH3_S \<Rightarrow> sim_push3 seg i j k st
      | TUCK \<Rightarrow> sim_tuck seg i j k st
      | PUXC \<Rightarrow> sim_puxc seg i j st)"

section \<open>The other instructions\<close>

text \<open>An instruction with a declared effect.\<close>

definition sim_effect :: "int \<Rightarrow> int \<Rightarrow> int \<Rightarrow> node \<Rightarrow> sim \<Rightarrow> sim exc" where
  "sim_effect seg t r n st = do {
     q \<leftarrow> rest seg st;
     Some (if t > q then unable st else emit n (grow (r - t) st)) }"

definition sim_exception :: "int \<Rightarrow> int \<Rightarrow> bool \<Rightarrow> node \<Rightarrow> sim \<Rightarrow> sim exc" where
  "sim_exception seg t withIf n st = do {
     q \<leftarrow> rest seg st;
     Some (if t > q then unable st
           else let st = emit n (grow (- t) st) in if \<not> withIf then st\<lparr>m_isDropped := True\<rparr> else st) }"

definition sim_glob :: "int \<Rightarrow> glob_opcode \<Rightarrow> int \<Rightarrow> sim \<Rightarrow> sim exc" where
  "sim_glob seg p i st = do {
     st1 \<leftarrow> (if glob_is_push p then Some (grow 1 st)
             else do {
               let st = (if p = SetOrSetVar then st\<lparr>m_setGlobs := insert i (m_setGlobs st)\<rparr> else st);
               q \<leftarrow> rest seg st;
               Some (if q \<ge> 1 then grow (-1) st else unable st) });
     Some (emit (Glob p i) st1) }"

text \<open>\<open>isPopAndDrop\<close>: \<open>None\<close> when the two instructions are not of this form.\<close>

definition isPopAndDrop :: "int \<Rightarrow> node \<Rightarrow> node \<Rightarrow> sim \<Rightarrow> sim option exc" where
  "isPopAndDrop seg a b st =
     (case (isPOP a, isDrop b) of
        (Some pop, Some d) \<Rightarrow>
          if seg = 1 \<and> pop = m_stackSize st - 1 \<and> pop = d + 1
          then do { c \<leftarrow> makeBLKDROP2 d 1; Some (Some (emit c (st\<lparr>m_isDropped := True\<rparr>))) }
          else Some None
      | _ \<Rightarrow> Some None)"

text \<open>What \<open>trySimulate\<close> makes of the simulation of a body.\<close>

definition sim_body_ok :: "sim \<Rightarrow> bool" where
  "sim_body_ok s = (\<not> (m_unable s \<or> m_wasSet s) \<and> \<not> (m_isDropped s \<and> \<not> m_wasRBC s))"

definition sim_merge :: "sim \<Rightarrow> sim \<Rightarrow> sim" where
  "sim_merge s st = st\<lparr>m_setGlobs := m_setGlobs st \<union> m_setGlobs s, m_wasCall := m_wasCall st \<or> m_wasCall s\<rparr>"

definition sim_finish :: "sim \<Rightarrow> sim" where
  "sim_finish st = (if success st then st\<lparr>m_commands := m_commands st @ m_iter st, m_iter := []\<rparr> else st)"

fun sim_node :: "int \<Rightarrow> node \<Rightarrow> sim \<Rightarrow> sim exc"
and try_simulate :: "int \<Rightarrow> code_block \<Rightarrow> int \<Rightarrow> sim \<Rightarrow> (sim \<times> (code_block \<times> bool) option) exc"
and sim_loop :: "int \<Rightarrow> node list \<Rightarrow> sim \<Rightarrow> sim exc" where
  "sim_node seg (AsymGen t) st = None"
| "sim_node seg DeclRetFlag st = Some (emit DeclRetFlag (grow 1 st))"
| "sim_node seg (Opaque b t r p) st = sim_effect seg t r (Opaque b t r p) st"
| "sim_node seg (HardCode c t r p) st = sim_effect seg t r (HardCode c t r p) st"
| "sim_node seg (Loc f l) st = Some (emit (Loc f l) st)"
| "sim_node seg (TvmReturn i m a) st = (if i then None else Some (emit (TvmReturn i m a) st))"
| "sim_node seg (ReturnOrBreakOrCont t (CodeBlock bt c)) st = do {
     q \<leftarrow> rest seg st;
     if t > q then Some (unable st)
     else do {
       s \<leftarrow> sim_loop seg c (sim_new (m_stackSize st));
       let s = sim_finish s;
       let st = st\<lparr>m_wasRBC := True\<rparr>;
       Some (if m_unable s \<or> \<not> m_isDropped s then unable st
             else emit (ReturnOrBreakOrCont t (CodeBlock bt (m_commands s))) (st\<lparr>m_isDropped := True\<rparr>)) } }"
| "sim_node seg (TvmException a y i m p) st = sim_exception seg (exc_take a y i) i (TvmException a y i m p) st"
| "sim_node seg (GenOpcode opc a c t r p) st = do {
     st1 \<leftarrow> sim_effect seg t r (GenOpcode opc a c t r p) st;
     Some (st1\<lparr>m_wasCall := m_wasCall st1 \<or> opc = ''CALL''\<rparr>) }"
| "sim_node seg (PushCellOrSlice c) st = Some (emit (PushCellOrSlice c) (grow 1 st))"
| "sim_node seg (Glob p i) st = sim_glob seg p i st"
| "sim_node seg (Stack p i j k) st = sim_stack seg p i j k st"
| "sim_node seg (BlockNode b) st = None"
| "sim_node seg (SubProgram t r jm b p) st = do {
     q \<leftarrow> rest seg st;
     if t > q then Some (unable st)
     else do {
       let st = grow (- t) st;
       (st, res) \<leftarrow> try_simulate seg b (m_stackSize st + t) st;
       Some (case res of
               None \<Rightarrow> st
             | Some (b', _) \<Rightarrow> emit (SubProgram t r jm b' p) (grow r st)) } }"
| "sim_node seg (LogCircuit t b) st = do {
     q \<leftarrow> rest seg st;
     if q = 0 then Some (unable st)
     else do {
       let st = grow (-2) st;
       (st, res) \<leftarrow> try_simulate seg b (m_stackSize st + 1) st;
       Some (case res of
               None \<Rightarrow> st
             | Some (b', _) \<Rightarrow> emit (LogCircuit t b') (grow 1 st)) } }"
| "sim_node seg (TvmIfElse w jm t None r) st = do {
     q \<leftarrow> rest seg st;
     if q = 0 then Some (unable st)
     else do {
       let st = grow (-1) st;
       (st, res) \<leftarrow> try_simulate seg t (m_stackSize st) st;
       Some (case res of
               None \<Rightarrow> st
             | Some (t', _) \<Rightarrow> emit (TvmIfElse w jm t' None r) (grow r st)) } }"
| "sim_node seg (TvmIfElse w jm t (Some e) r) st = do {
     q \<leftarrow> rest seg st;
     if q = 0 then Some (unable st)
     else do {
       let st = grow (-1) st;
       (st, res) \<leftarrow> try_simulate seg t (m_stackSize st) st;
       case res of
         None \<Rightarrow> Some st
       | Some (t', d) \<Rightarrow> do {
           (st, res') \<leftarrow> try_simulate seg e (m_stackSize st) st;
           case res' of
             None \<Rightarrow> Some st
           | Some (e', d') \<Rightarrow> do {
               n \<leftarrow> mkIfElse w jm t' (Some e') r;
               Some (emit n (grow r (if d \<and> d' then st\<lparr>m_isDropped := True\<rparr> else st))) } } } }"
| "sim_node seg (TvmRepeat bk b) st = do {
     q \<leftarrow> rest seg st;
     if q = 0 then Some (unable st)
     else do {
       let st = grow (-1) st;
       (st, res) \<leftarrow> try_simulate seg b (m_stackSize st) st;
       Some (case res of None \<Rightarrow> st | Some (b', _) \<Rightarrow> emit (TvmRepeat bk b') st) } }"
| "sim_node seg (TvmUntil bk b) st = do {
     q \<leftarrow> rest seg st;
     if q = 0 then Some (unable st)
     else do {
       (st, res) \<leftarrow> try_simulate seg b (m_stackSize st) st;
       Some (case res of None \<Rightarrow> st | Some (b', _) \<Rightarrow> emit (TvmUntil bk b') st) } }"
| "sim_node seg (While ag bk c b) st = do {
     (st, res) \<leftarrow> try_simulate seg c (m_stackSize st) st;
     case res of
       None \<Rightarrow> Some st
     | Some (c', _) \<Rightarrow> do {
         (st, res') \<leftarrow> try_simulate seg b (m_stackSize st) st;
         Some (case res' of None \<Rightarrow> st | Some (b', _) \<Rightarrow> emit (While ag bk c' b') st) } }"
| "try_simulate seg (CodeBlock bt c) begStackSize st = do {
     s \<leftarrow> sim_loop seg c (sim_new begStackSize);
     let s = sim_finish s;
     Some (if sim_body_ok s then (sim_merge s st, Some (CodeBlock bt (m_commands s), m_isDropped s \<and> m_wasRBC s))
           else (unable st, None)) }"
| "sim_loop seg [] st = Some (st\<lparr>m_iter := []\<rparr>)"
| "sim_loop seg (n # c) st = do {
     pd \<leftarrow> (case c of [] \<Rightarrow> Some None | b # _ \<Rightarrow> isPopAndDrop seg n b st);
     case pd of
       Some st1 \<Rightarrow> do { _ \<leftarrow> solAssert (\<not> m_unable st1); Some (st1\<lparr>m_iter := tl c\<rparr>) }
     | None \<Rightarrow> do {
         st1 \<leftarrow> sim_node seg n st;
         if m_unable st1 \<or> m_isDropped st1 then Some (st1\<lparr>m_iter := c\<rparr>)
         else do { _ \<leftarrow> solAssert (m_stackSize st1 \<ge> seg); sim_loop seg c st1 } } }"

text \<open>The constructor of the class runs the simulation.\<close>

definition simulate :: "int \<Rightarrow> int \<Rightarrow> node list \<Rightarrow> sim exc" where
  "simulate startSize seg c = do { st \<leftarrow> sim_loop seg c (sim_new startSize); Some (sim_finish st) }"

end
