(* ===== verification/SimulatorSound.thy ===== *)
theory SimulatorSound
  imports Simulator
begin

text \<open>
  The simulator is right. As long as it goes on, the collected commands do without the segment what the
  instructions do with it (\<open>shifts\<close>); when it stops because the segment is dropped, the commands and the
  instructions have the same runs (\<open>discards\<close>). The instructions have to touch the stack as they declare,
  and nested bodies have to end at the depth that their node declares, which is the assertion at the end of
  \<open>trySimulate\<close> that is commented out in the source.
\<close>

section \<open>One instruction\<close>

definition step :: "'w machine \<Rightarrow> val list \<Rightarrow> nat \<Rightarrow> node \<Rightarrow> sim \<Rightarrow> sim \<Rightarrow> bool" where
  "step M xs p n st st' =
     (\<exists>cs. m_commands st' = m_commands st @ cs \<and>
        (if m_isDropped st' then discards M xs p [n] cs
         else \<forall>q. m_stackSize st' = int (q + length xs) \<longrightarrow> shifts M xs p q [n] cs))"

lemmas sim_ops = emit_def grow_def unable_def rest_def solAssert_def

lemma sim_op_simps [simp]:
  "m_commands (emit n st) = m_commands st @ [n]" "m_stackSize (emit n st) = m_stackSize st"
  "m_unable (emit n st) = m_unable st" "m_isDropped (emit n st) = m_isDropped st" "m_wasSet (emit n st) = m_wasSet st"
  "m_commands (grow d st) = m_commands st" "m_stackSize (grow d st) = m_stackSize st + d"
  "m_unable (grow d st) = m_unable st" "m_isDropped (grow d st) = m_isDropped st" "m_wasSet (grow d st) = m_wasSet st"
  "m_unable (unable st)" "m_wasSet (unable st) = m_wasSet st" "m_isDropped (unable st) = m_isDropped st"
  "m_wasMoved (emit n st) = m_wasMoved st" "m_wasMoved (grow d st) = m_wasMoved st" "m_wasMoved (unable st) = m_wasMoved st"
  by (simp_all add: sim_ops)

lemma rest_Some: "rest seg st = Some r \<longleftrightarrow> r = m_stackSize st - seg \<and> 0 \<le> r"
  by (auto simp: rest_def solAssert_def)

lemma step_shift:
  assumes "m_commands st' = m_commands st @ cs" "\<not> m_isDropped st'" "m_stackSize st' = int (q + length xs)" "shifts M xs p q [n] cs"
  shows "step M xs p n st st'"
  using assms by (auto simp: step_def)

lemma step_discard:
  "m_commands st' = m_commands st @ cs \<Longrightarrow> m_isDropped st' \<Longrightarrow> discards M xs p [n] cs \<Longrightarrow> step M xs p n st st'"
  by (auto simp: step_def)

lemma stk_is_Stack: "stack_ok p i j k \<Longrightarrow> stk_is (Stack p i j k) (stack_fun p (nat i) (nat j) (nat k) (nat (j + 1)))"
  by (rule stk_isI) simp_all

lemma shifts_Stack:
  assumes "stack_ok o1 i j k" "stack_ok o2 i' j' k'"
    "\<And>t. stack_fun o1 (nat i) (nat j) (nat k) (nat (j + 1)) (ins p xs t) =
       ins q xs (stack_fun o2 (nat i') (nat j') (nat k') (nat (j' + 1)) t)"
  shows "shifts M xs p q [Stack o1 i j k] [Stack o2 i' j' k']"
  by (rule shifts_stk [OF stk_is_Stack [OF assms(1)] stk_is_Stack [OF assms(2)] assms(3)])

lemma discards_Stack:
  assumes "stack_ok o1 i j k" "stack_ok o2 i' j' k'"
    "\<And>t. stack_fun o1 (nat i) (nat j) (nat k) (nat (j + 1)) (ins p xs t) = stack_fun o2 (nat i') (nat j') (nat k') (nat (j' + 1)) t"
  shows "discards M xs p [Stack o1 i j k] [Stack o2 i' j' k']"
  by (rule discards_stk [OF stk_is_Stack [OF assms(1)] stk_is_Stack [OF assms(2)] assms(3)])

lemma shifts_gone:
  assumes "stack_ok o1 i j k" "\<And>t. stack_fun o1 (nat i) (nat j) (nat k) (nat (j + 1)) (ins p xs t) = ins q xs t"
  shows "shifts M xs p q [Stack o1 i j k] []"
  by (rule shifts_stk_gone [OF stk_is_Stack [OF assms(1)] assms(2)])

lemma discards_gone:
  assumes "stack_ok o1 i j k" "\<And>t. stack_fun o1 (nat i) (nat j) (nat k) (nat (j + 1)) (ins p xs t) = t"
  shows "discards M xs p [Stack o1 i j k] []"
  by (rule discards_stk_gone [OF stk_is_Stack [OF assms(1)] assms(2)])

lemma drop_none: "sdrop 0 t = t" "sblkdrop2 0 r t = t"
  by (auto simp: sdrop_def sblkdrop2_def)

lemma push_step:
  assumes sz: "m_stackSize st = int (p + length xs)" "1 \<le> length xs" "\<not> m_isDropped st"
    and "sim_push (int (length xs)) i j k st = Some st'" "\<not> m_unable st'" "0 \<le> i"
  shows "step M xs p (Stack PUSH_S i j k) st st'"
proof -
  consider "i < int p" "st' = grow 1 (emit (Stack PUSH_S i j k) st)"
    | "i \<ge> int (p + length xs)" "st' = grow 1 (emit (Stack PUSH_S (i - int (length xs)) (-1) (-1)) st)"
    using assms(2,4,5) by (auto simp: sim_push_def hits_def new_index_def sz(1) split: if_splits)
  then show ?thesis
  proof cases
    case 1
    have "shifts M xs p (Suc p) [Stack PUSH_S i j k] [Stack PUSH_S i j k]"
      using 1 assms(6) by (intro shifts_Stack) (auto simp: stack_ok_def stack_fun_def ins_push)
    then show ?thesis using 1 sz by (intro step_shift [where q = "Suc p"]) auto
  next
    case 2
    have "shifts M xs p (Suc p) [Stack PUSH_S i j k] [Stack PUSH_S (i - int (length xs)) (-1) (-1)]"
      using 2 assms(6) by (intro shifts_Stack) (auto simp: stack_ok_def stack_fun_def ins_push nat_diff_distrib)
    then show ?thesis using 2 sz by (intro step_shift [where q = "Suc p"]) auto
  qed
qed

lemma pop_step:
  assumes sz: "m_stackSize st = int (p + length xs)" "1 \<le> length xs" "\<not> m_isDropped st"
    and "sim_pop (int (length xs)) i j k st = Some st'" "\<not> m_unable st'" "\<not> m_wasSet st'" "1 \<le> i"
  shows "step M xs p (Stack POP_S i j k) st st'"
proof -
  consider "length xs = 1" "i = 1" "p = 1" "st' = st\<lparr>m_isDropped := True\<rparr>"
    | "1 \<le> p" "i < int p" "st' = emit (Stack POP_S i j k) (grow (-1) st)"
    | "1 \<le> p" "i \<ge> int (p + length xs)" "st' = emit (Stack POP_S (i - int (length xs)) (-1) (-1)) (grow (-1) st)"
    using assms(2,4,5,6)
    by (auto simp: sim_pop_def bind_eq_Some_conv rest_Some new_index_def sz(1) split: if_splits)
  then show ?thesis
  proof cases
    case 1
    then obtain x where "xs = [x]" by (cases xs) auto
    then have "discards M xs p [Stack POP_S i j k] []"
      using 1 by (intro discards_gone) (auto simp: stack_ok_def stack_fun_def ins_pop(3) [simplified])
    then show ?thesis using 1 by (intro step_discard [where cs = "[]"]) auto
  next
    case 2
    have "shifts M xs p (p - 1) [Stack POP_S i j k] [Stack POP_S i j k]"
      using 2 assms(7) by (intro shifts_Stack) (auto simp: stack_ok_def stack_fun_def ins_pop)
    then show ?thesis using 2 sz by (intro step_shift [where q = "p - 1"]) auto
  next
    case 3
    have "shifts M xs p (p - 1) [Stack POP_S i j k] [Stack POP_S (i - int (length xs)) (-1) (-1)]"
      using 3 assms(7) by (intro shifts_Stack) (auto simp: stack_ok_def stack_fun_def ins_pop nat_diff_distrib)
    then show ?thesis using 3 sz by (intro step_shift [where q = "p - 1"]) auto
  qed
qed

lemma drop_step:
  assumes sz: "m_stackSize st = int (p + length xs)" "1 \<le> length xs" "\<not> m_isDropped st"
    and "sim_drop (int (length xs)) i st = Some st'" "\<not> m_unable st'" "1 \<le> i"
  shows "step M xs p (Stack DROP i j k) st st'"
proof -
  consider "i = int (length xs)" "p = 0" "st' = st\<lparr>m_isDropped := True\<rparr>"
    | "int (p + length xs) \<le> i" "st' = emit (Stack DROP (i - int (length xs)) (-1) (-1)) (st\<lparr>m_isDropped := True\<rparr>)" "i > int (length xs)"
    | "i \<le> int p" "st' = emit (Stack DROP i (-1) (-1)) (grow (- i) st)"
    using assms(2,4,5,6)
    by (auto simp: sim_drop_def bind_eq_Some_conv rest_Some makeDROP_def sz(1) split: if_splits)
  then show ?thesis
  proof cases
    case 1
    have "discards M xs p [Stack DROP i j k] []"
      using 1 by (intro discards_gone) (auto simp: stack_ok_def stack_fun_def ins_drop_all drop_none)
    then show ?thesis using 1 by (intro step_discard [where cs = "[]"]) auto
  next
    case 2
    have "discards M xs p [Stack DROP i j k] [Stack DROP (i - int (length xs)) (-1) (-1)]"
      using 2 by (intro discards_Stack) (auto simp: stack_ok_def stack_fun_def ins_drop_all nat_diff_distrib)
    then show ?thesis using 2 by (intro step_discard) auto
  next
    case 3
    have "shifts M xs p (p - nat i) [Stack DROP i j k] [Stack DROP i (-1) (-1)]"
      using 3 assms(6) by (intro shifts_Stack) (auto simp: stack_ok_def stack_fun_def ins_drop nat_le_iff)
    then show ?thesis using 3 sz assms(6) by (intro step_shift [where q = "p - nat i"]) auto
  qed
qed

text \<open>\<open>makeBLKDROP2\<close> may write another instruction with the same effect.\<close>

lemma blkdrop2_is:
  assumes "makeBLKDROP2 d l = Some b"
  shows "stk_is b (sblkdrop2 (nat d) (nat l))" "1 \<le> d" "0 \<le> l"
proof -
  show "1 \<le> d" "0 \<le> l" using assms by (auto simp: makeBLKDROP2_def split: if_splits)
  show "stk_is b (sblkdrop2 (nat d) (nat l))"
    using assms unfolding makeBLKDROP2_def makeDROP_def
    by (auto simp: stack_ok_def stack_fun_def spop_closed sblkdrop2_def sdrop_def fun_eq_iff intro!: stk_isI split: if_splits)
qed

lemma blkdrop2_step:
  assumes sz: "m_stackSize st = int (p + length xs)" "1 \<le> length xs" "\<not> m_isDropped st"
    and "sim_blkdrop2 (int (length xs)) d l st = Some st'" "\<not> m_unable st'" "1 \<le> d" "1 \<le> l"
  shows "step M xs p (Stack BLKDROP2 d l k) st st'"
proof -
  have self: "stk_is (Stack BLKDROP2 d l k) (sblkdrop2 (nat d) (nat l))"
    using assms(6,7) by (intro stk_isI) (auto simp: stack_ok_def stack_fun_def)
  consider b where "int (p + length xs) \<le> l" "makeBLKDROP2 d (l - int (length xs)) = Some b" "st' = emit b st"
    | b where "l \<le> int p" "int (p + length xs) \<le> l + d" "makeBLKDROP2 (d - int (length xs)) l = Some b"
        "st' = emit b (st\<lparr>m_isDropped := True\<rparr>)"
    | "l = int p" "d = int (length xs)" "st' = st\<lparr>m_isDropped := True\<rparr>"
    | b where "l + d \<le> int p" "makeBLKDROP2 d l = Some b" "st' = grow (- d) (emit b st)"
    using assms(2,4,5) by (auto simp: sim_blkdrop2_def bind_eq_Some_conv rest_Some sz(1) split: if_splits)
  then show ?thesis
  proof cases
    case (1 b)
    have "shifts M xs p p [Stack BLKDROP2 d l k] [b]"
      using 1(1) by (intro shifts_stk [OF self blkdrop2_is(1) [OF 1(2)]]) (auto simp: ins_blkdrop2 nat_diff_distrib)
    then show ?thesis using 1 sz by (intro step_shift [where q = p]) auto
  next
    case (2 b)
    have "discards M xs p [Stack BLKDROP2 d l k] [b]"
      using 2(1,2) assms(6,7) blkdrop2_is(2) [OF 2(3)]
      by (intro discards_stk [OF self blkdrop2_is(1) [OF 2(3)]]) (auto simp: ins_blkdrop2 nat_diff_distrib)
    then show ?thesis using 2 by (intro step_discard) auto
  next
    case 3
    have "discards M xs p [Stack BLKDROP2 d l k] []"
      using 3 by (intro discards_stk_gone [OF self]) (auto simp: ins_blkdrop2 drop_none)
    then show ?thesis using 3 by (intro step_discard [where cs = "[]"]) auto
  next
    case (4 b)
    have "shifts M xs p (p - nat d) [Stack BLKDROP2 d l k] [b]"
      using 4(1) assms(6,7) by (intro shifts_stk [OF self blkdrop2_is(1) [OF 4(2)]]) (auto simp: ins_blkdrop2)
    then show ?thesis using 4 sz assms(6,7) by (intro step_shift [where q = "p - nat d"]) auto
  qed
qed

lemma blkpush_is:
  assumes "makeBLKPUSH n j = Some b"
  shows "stk_is b (sblkpush (nat n) (nat j))" "1 \<le> n" "0 \<le> j"
proof -
  show "1 \<le> n" "0 \<le> j" using assms by (auto simp: makeBLKPUSH_def split: if_splits)
  have one: "sblkpush (Suc 0) j' = spushs j'" for j' by (simp add: fun_eq_iff)
  show "stk_is b (sblkpush (nat n) (nat j))"
    using assms unfolding makeBLKPUSH_def makePUSH_def
    by (auto simp: stack_ok_def stack_fun_def one intro!: stk_isI split: if_splits)
qed

lemma blkpush_step:
  assumes sz: "m_stackSize st = int (p + length xs)" "1 \<le> length xs" "\<not> m_isDropped st"
    and "sim_blkpush (int (length xs)) n j st = Some st'" "\<not> m_unable st'" "1 \<le> n" "0 \<le> j"
  shows "step M xs p (Stack BLKPUSH n j k) st st'"
proof -
  have self: "stk_is (Stack BLKPUSH n j k) (sblkpush (nat n) (nat j))"
    using assms(6,7) by (intro stk_isI) (auto simp: stack_ok_def stack_fun_def)
  consider b where "j < int p" "makeBLKPUSH n j = Some b" "st' = grow n (emit b st)"
    | b where "int (p + length xs) + n \<le> j + 1" "makeBLKPUSH n (j - int (length xs)) = Some b" "st' = grow n (emit b st)"
    using assms(2,4,5,6) by (auto simp: sim_blkpush_def new_index_def bind_eq_Some_conv sz(1) split: if_splits)
  then show ?thesis
  proof cases
    case (1 b)
    have "shifts M xs p (p + nat n) [Stack BLKPUSH n j k] [b]"
      using 1(1) assms(7) by (intro shifts_stk [OF self blkpush_is(1) [OF 1(2)]]) (auto simp: ins_blkpush)
    then show ?thesis using 1 sz assms(6) by (intro step_shift [where q = "p + nat n"]) auto
  next
    case (2 b)
    have "p + length xs + nat n \<le> nat j + 1" using 2(1) assms(6) by linarith
    then have "shifts M xs p (p + nat n) [Stack BLKPUSH n j k] [b]"
      using 2(1) assms(6,7)
      by (intro shifts_stk [OF self blkpush_is(1) [OF 2(2)]]) (simp add: ins_blkpush(2) nat_diff_distrib)
    then show ?thesis using 2 sz assms(6) by (intro step_shift [where q = "p + nat n"]) auto
  qed
qed

lemma reverse_step:
  assumes sz: "m_stackSize st = int (p + length xs)" "1 \<le> length xs" "\<not> m_isDropped st"
    and "sim_reverse (int (length xs)) n j k st = Some st'" "\<not> m_unable st'" "2 \<le> n" "0 \<le> j"
  shows "step M xs p (Stack REVERSE n j k) st st'"
proof -
  consider "int (p + length xs) \<le> j" "st' = emit (Stack REVERSE n (j - int (length xs)) (-1)) st"
    | "j + n \<le> int p" "st' = emit (Stack REVERSE n j k) st"
    using assms(2,4,5,6)
    by (auto simp: sim_reverse_def makeREVERSE_def bind_eq_Some_conv sz(1) split: if_splits)
  then show ?thesis
  proof cases
    case 1
    have "shifts M xs p p [Stack REVERSE n j k] [Stack REVERSE n (j - int (length xs)) (-1)]"
      using 1 assms(6,7) by (intro shifts_Stack) (auto simp: stack_ok_def stack_fun_def ins_reverse nat_diff_distrib)
    then show ?thesis using 1 sz by (intro step_shift [where q = p]) auto
  next
    case 2
    have "nat j + nat n \<le> p" using 2 assms(6,7) by linarith
    then have "shifts M xs p p [Stack REVERSE n j k] [Stack REVERSE n j k]"
      using assms(6,7) by (intro shifts_Stack) (auto simp: stack_ok_def stack_fun_def ins_reverse)
    then show ?thesis using 2 sz by (intro step_shift [where q = p]) auto
  qed
qed

lemma swap_none: "sblkswap i 0 t = t"
  by (auto simp: sblkswap_def)

lemma blkswap_step:
  assumes sz: "m_stackSize st = int (p + length xs)" "1 \<le> length xs" "\<not> m_isDropped st"
    and "sim_blkswap (int (length xs)) i j st = Some st'" "\<not> m_unable st'" "1 \<le> i" "1 \<le> j"
  shows "step M xs p (Stack BLKSWAP i j k) st st'"
proof -
  consider "i + j \<le> int p" "st' = emit (Stack BLKSWAP i j (-1)) st"
    | "int (p + length xs) \<le> j" "st' = grow i (emit (Stack BLKSWAP i (j - int (length xs)) (-1)) st)"
    | "p = 0" "j = int (length xs)" "st' = grow i st"
    using assms(2,4,5,6)
    by (auto simp: sim_blkswap_def makeBLKSWAP_def bind_eq_Some_conv rest_Some sz(1) Let_def split: if_splits)
  then show ?thesis
  proof cases
    case 1
    have "nat i + nat j \<le> p" using 1 assms(6,7) by linarith
    then have "shifts M xs p p [Stack BLKSWAP i j k] [Stack BLKSWAP i j (-1)]"
      using assms(6,7) by (intro shifts_Stack) (auto simp: stack_ok_def stack_fun_def ins_blkswap)
    then show ?thesis using 1 sz by (intro step_shift [where q = p]) auto
  next
    case 2
    have "shifts M xs p (p + nat i) [Stack BLKSWAP i j k] [Stack BLKSWAP i (j - int (length xs)) (-1)]"
      using 2 assms(6,7) by (intro shifts_Stack) (auto simp: stack_ok_def stack_fun_def ins_blkswap nat_diff_distrib)
    then show ?thesis using 2 sz assms(6) by (intro step_shift [where q = "p + nat i"]) auto
  next
    case 3
    have "shifts M xs p (nat i) [Stack BLKSWAP i j k] []"
      using 3 assms(6,7) by (intro shifts_gone) (auto simp: stack_ok_def stack_fun_def ins_blkswap swap_none)
    then show ?thesis using 3 sz assms(6) by (intro step_shift [where q = "nat i" and cs = "[]"]) auto
  qed
qed

text \<open>Indices that avoid the segment.\<close>

lemma index_place:
  assumes "m_stackSize st = int (p + length xs)" "1 \<le> length xs" "\<not> hits (int (length xs)) st i" "0 \<le> i"
  shows "outside p (length xs) (nat i)" "new_index (int (length xs)) st i = int (place p (length xs) (nat i))"
  using assms by (auto simp: hits_def outside_def new_index_def place_def)

lemma xchg_step:
  assumes sz: "m_stackSize st = int (p + length xs)" "1 \<le> length xs" "\<not> m_isDropped st"
    and "sim_xchg (int (length xs)) i j st = Some st'" "\<not> m_unable st'" "0 \<le> i" "0 \<le> j"
  shows "step M xs p (Stack XCHG i j k) st st'"
proof -
  have h: "\<not> hits (int (length xs)) st i" "\<not> hits (int (length xs)) st j"
    "st' = emit (Stack XCHG (new_index (int (length xs)) st i) (new_index (int (length xs)) st j) (-1)) st"
    using assms(4,5) by (auto simp: sim_xchg_def split: if_splits)
  note i = index_place [OF sz(1,2) h(1) assms(6)] and j = index_place [OF sz(1,2) h(2) assms(7)]
  have "shifts M xs p p [Stack XCHG i j k] [Stack XCHG (int (place p (length xs) (nat i))) (int (place p (length xs) (nat j))) (-1)]"
    using i(1) j(1) assms(6,7) by (intro shifts_Stack) (auto simp: stack_ok_def stack_fun_def ins_xchg)
  then show ?thesis using h(3) sz unfolding i(2) j(2) by (intro step_shift [where q = p]) auto
qed

lemma ins_spush2: "spush v (spush w (ins p xs t)) = ins (Suc (Suc p)) xs (spush v (spush w t))"
  by (simp add: ins_spush)

lemma push2_step:
  assumes sz: "m_stackSize st = int (p + length xs)" "1 \<le> length xs" "\<not> m_isDropped st"
    and "sim_push2 (int (length xs)) i j st = Some st'" "\<not> m_unable st'" "0 \<le> i" "0 \<le> j"
  shows "step M xs p (Stack PUSH2_S i j k) st st'"
proof -
  have h: "\<not> hits (int (length xs)) st i" "\<not> hits (int (length xs)) st j"
    "st' = grow 2 (emit (Stack PUSH2_S (new_index (int (length xs)) st i) (new_index (int (length xs)) st j) (-1)) st)"
    using assms(4,5) by (auto simp: sim_push2_def split: if_splits)
  note i = index_place [OF sz(1,2) h(1) assms(6)] and j = index_place [OF sz(1,2) h(2) assms(7)]
  have "shifts M xs p (Suc (Suc p)) [Stack PUSH2_S i j k]
      [Stack PUSH2_S (int (place p (length xs) (nat i))) (int (place p (length xs) (nat j))) (-1)]"
    using i(1) j(1) assms(6,7) by (intro shifts_Stack) (auto simp: stack_ok_def stack_fun_def ins_place ins_spush2)
  then show ?thesis using h(3) sz unfolding i(2) j(2) by (intro step_shift [where q = "Suc (Suc p)"]) auto
qed

lemma push3_step:
  assumes sz: "m_stackSize st = int (p + length xs)" "1 \<le> length xs" "\<not> m_isDropped st"
    and "sim_push3 (int (length xs)) i j k st = Some st'" "\<not> m_unable st'" "0 \<le> i" "0 \<le> j" "0 \<le> k"
  shows "step M xs p (Stack PUSH3_S i j k) st st'"
proof -
  let ?n = "new_index (int (length xs)) st"
  have h: "\<not> hits (int (length xs)) st i" "\<not> hits (int (length xs)) st j" "\<not> hits (int (length xs)) st k"
    "st' = grow 3 (emit (Stack PUSH3_S (?n i) (?n j) (?n k)) st)"
    using assms(4,5) by (auto simp: sim_push3_def split: if_splits)
  note i = index_place [OF sz(1,2) h(1) assms(6)] and j = index_place [OF sz(1,2) h(2) assms(7)]
    and k = index_place [OF sz(1,2) h(3) assms(8)]
  have "shifts M xs p (Suc (Suc (Suc p))) [Stack PUSH3_S i j k] [Stack PUSH3_S (int (place p (length xs) (nat i)))
      (int (place p (length xs) (nat j))) (int (place p (length xs) (nat k)))]"
    using i(1) j(1) k(1) assms(6-8) by (intro shifts_Stack) (auto simp: stack_ok_def stack_fun_def ins_place ins_spush)
  then show ?thesis using h(4) sz unfolding i(2) j(2) k(2) by (intro step_shift [where q = "Suc (Suc (Suc p))"]) auto
qed

lemma tuck_step:
  assumes sz: "m_stackSize st = int (p + length xs)" "1 \<le> length xs" "\<not> m_isDropped st"
    and "sim_tuck (int (length xs)) i j k st = Some st'" "\<not> m_unable st'"
  shows "step M xs p (Stack TUCK i j k) st st'"
proof -
  have h: "2 \<le> p" "st' = grow 1 (emit (Stack TUCK i j k) st)"
    using assms(4,5) by (auto simp: sim_tuck_def bind_eq_Some_conv rest_Some sz(1) split: if_splits)
  have "shifts M xs p (Suc p) [Stack TUCK i j k] [Stack TUCK i j k]"
    using h(1) by (intro shifts_Stack) (auto simp: stack_ok_def stack_fun_def ins_xchg ins_push outside_def place_def)
  then show ?thesis using h(2) sz by (intro step_shift [where q = "Suc p"]) auto
qed

lemma puxc_step:
  assumes sz: "m_stackSize st = int (p + length xs)" "1 \<le> length xs" "\<not> m_isDropped st"
    and "sim_puxc (int (length xs)) i j st = Some st'" "\<not> m_unable st'" "0 \<le> i" "-1 \<le> j"
  shows "step M xs p (Stack PUXC i j k) st st'"
proof -
  let ?n = "new_index (int (length xs)) st" and ?m = "length xs"
  have h: "\<not> hits (int ?m) st i" "\<not> hits (int ?m) st j" "1 \<le> p" "st' = grow 1 (emit (Stack PUXC (?n i) (?n j) (-1)) st)"
    using assms(4,5) by (auto simp: sim_puxc_def bind_eq_Some_conv rest_Some sz(1) split: if_splits)
  note i = index_place [OF sz(1,2) h(1) assms(6)]
  have j: "outside (Suc p) ?m (nat (j + 1))" "-1 \<le> ?n j" "nat (?n j + 1) = place (Suc p) ?m (nat (j + 1))"
    using h(2) sz(1,2) assms(7) by (auto simp: hits_def outside_def new_index_def place_def)
  have push: "spushs (nat i) (ins p xs t) = ins (Suc p) xs (spushs (place p ?m (nat i)) t)" for t
    using i(1) by (auto simp: outside_def place_def ins_push)
  have swap: "sxchg 0 (Suc 0) (ins (Suc p) xs t) = ins (Suc p) xs (sxchg 0 (Suc 0) t)" for t
    using h(3) by (simp add: ins_xchg outside_def place_def)
  have far: "sxchg 0 (nat (j + 1)) (ins (Suc p) xs t) = ins (Suc p) xs (sxchg 0 (place (Suc p) ?m (nat (j + 1))) t)" for t
    using ins_xchg [of "Suc p" xs 0 "nat (j + 1)" t] j(1) by (simp add: outside_def place_def)
  have "shifts M xs p (Suc p) [Stack PUXC i j k] [Stack PUXC (?n i) (?n j) (-1)]"
    using i j assms(6,7)
    by (intro shifts_Stack) (simp_all add: stack_ok_def stack_fun_def push swap far)
  then show ?thesis using h(4) sz by (intro step_shift [where q = "Suc p"]) auto
qed

lemma stack_step:
  assumes "m_stackSize st = int (p + length xs)" "1 \<le> length xs" "\<not> m_isDropped st"
    and "sim_stack (int (length xs)) opc i j k st = Some st'" "\<not> m_unable st'" "\<not> m_wasSet st'" "stack_wf opc i j k"
  shows "step M xs p (Stack opc i j k) st st'"
  using assms(4-7) unfolding sim_stack_def stack_wf_def
  by (cases opc) (simp_all add: push_step [OF assms(1-3)] pop_step [OF assms(1-3)] drop_step [OF assms(1-3)]
      blkdrop2_step [OF assms(1-3)] blkpush_step [OF assms(1-3)] reverse_step [OF assms(1-3)] blkswap_step [OF assms(1-3)]
      xchg_step [OF assms(1-3)] push2_step [OF assms(1-3)] push3_step [OF assms(1-3)] tuck_step [OF assms(1-3)]
      puxc_step [OF assms(1-3)])

text \<open>The other instructions without a body.\<close>

lemma effect_step:
  assumes sz: "m_stackSize st = int (p + length xs)" "\<not> m_isDropped st"
    and "sim_effect (int (length xs)) t r n st = Some st'" "\<not> m_unable st'" "framed M t r n"
  shows "step M xs p n st st'"
proof -
  have h: "t \<le> int p" "st' = emit n (grow (r - t) st)"
    using assms(3,4) by (auto simp: sim_effect_def bind_eq_Some_conv rest_Some sz(1) split: if_splits)
  have "shifts M xs p q [n] [n]" if "m_stackSize st' = int (q + length xs)" for q
    using shifts_framed [OF assms(5) h(1), of q xs] that by (simp add: h(2) sz(1))
  then show ?thesis using h(2) sz(2) by (auto simp: step_def)
qed

lemma step_wasCall: "step M xs p n st st' \<Longrightarrow> step M xs p n st (st'\<lparr>m_wasCall := x\<rparr>)"
  by (auto simp: step_def)

lemma exception_step:
  assumes sz: "m_stackSize st = int (p + length xs)" "\<not> m_isDropped st"
    and "sim_exception (int (length xs)) (exc_take a y i) i (TvmException a y i m q) st = Some st'" "\<not> m_unable st'"
  shows "step M xs p (TvmException a y i m q) st st'"
proof -
  let ?n = "TvmException a y i m q"
  have h: "exc_take a y i \<le> int p" "st' = (let st = emit ?n (grow (- exc_take a y i) st) in if \<not> i then st\<lparr>m_isDropped := True\<rparr> else st)"
    using assms(3,4) by (auto simp: sim_exception_def bind_eq_Some_conv rest_Some sz(1) Let_def split: if_splits)
  show ?thesis
  proof (cases i)
    case True
    have "shifts M xs p k [?n] [?n]" if "m_stackSize st' = int (k + length xs)" for k
      using shifts_framed [OF framed_exc h(1), of k] that True by (simp add: h(2) sz(1))
    then show ?thesis using h(2) sz(2) True by (auto simp: step_def)
  next
    case False
    then have "discards M xs p [?n] [?n]" using discards_throw [of a y p M xs m q] h(1) by simp
    then show ?thesis using h(2) False by (intro step_discard) auto
  qed
qed

lemma glob_step:
  assumes sz: "m_stackSize st = int (p + length xs)" "\<not> m_isDropped st"
    and "sim_glob (int (length xs)) g i st = Some st'" "\<not> m_unable st'" "framed M (glob_take g) (glob_ret g) (Glob g i)"
  shows "step M xs p (Glob g i) st st'"
proof -
  have "glob_take g \<le> int p" "m_stackSize st' = m_stackSize st - glob_take g + glob_ret g"
    "m_commands st' = m_commands st @ [Glob g i]" "\<not> m_isDropped st'"
    using assms(3,4) sz by (auto simp: sim_glob_def bind_eq_Some_conv rest_Some glob_take_def glob_ret_def Let_def split: if_splits)
  then show ?thesis
    using shifts_framed [OF assms(5)] by (auto simp: step_def sz(1))
qed

section \<open>Code that fits its declarations\<close>

text \<open>
  \<open>fit_list M seg st c\<close>: up to where the simulation that stands at \<open>st\<close> stops, the instructions of \<open>c\<close> touch the stack
  as they declare, there is no bare return, and the bodies of nodes end at the depth the node declares.
\<close>

definition ends_at :: "int \<Rightarrow> int \<Rightarrow> node list \<Rightarrow> int \<Rightarrow> bool" where
  "ends_at seg sz c e =
     (case sim_loop seg c (sim_new sz) of
        None \<Rightarrow> True
      | Some s \<Rightarrow> sim_body_ok s \<longrightarrow> \<not> m_isDropped s \<and> m_stackSize s = e)"

text \<open>The body of a return is simulated without the test for an overwritten value.\<close>

definition sets_in :: "int \<Rightarrow> int \<Rightarrow> node list \<Rightarrow> bool" where
  "sets_in seg sz c = (case sim_loop seg c (sim_new sz) of None \<Rightarrow> False | Some s \<Rightarrow> m_wasSet s)"

fun fit_node :: "'w machine \<Rightarrow> int \<Rightarrow> int \<Rightarrow> node \<Rightarrow> bool"
and fit_block :: "'w machine \<Rightarrow> int \<Rightarrow> int \<Rightarrow> code_block \<Rightarrow> int \<Rightarrow> bool"
and fit_list :: "'w machine \<Rightarrow> int \<Rightarrow> sim \<Rightarrow> node list \<Rightarrow> bool" where
  "fit_node M seg sz (Opaque b t r p) = framed M t r (Opaque b t r p)"
| "fit_node M seg sz (HardCode c t r p) = framed M t r (HardCode c t r p)"
| "fit_node M seg sz (GenOpcode opc a c t r p) = framed M t r (GenOpcode opc a c t r p)"
| "fit_node M seg sz (PushCellOrSlice c) = framed M 0 1 (PushCellOrSlice c)"
| "fit_node M seg sz (Glob p i) = framed M (glob_take p) (glob_ret p) (Glob p i)"
| "fit_node M seg sz (Stack p i j k) = stack_wf p i j k"
| "fit_node M seg sz (TvmReturn i m a) = False"
| "fit_node M seg sz (ReturnOrBreakOrCont t (CodeBlock bt c)) =
     (fit_list M seg (sim_new sz) c \<and> \<not> sets_in seg sz c)"
| "fit_node M seg sz (SubProgram t r jm b p) = (\<not> jm \<and> fit_block M seg sz b (sz - t + r))"
| "fit_node M seg sz (LogCircuit t b) = fit_block M seg (sz - 1) b (sz - 1)"
| "fit_node M seg sz (TvmIfElse w jm t None r) = (\<not> jm \<and> r = 0 \<and> fit_block M seg (sz - 1) t (sz - 1))"
| "fit_node M seg sz (TvmIfElse w jm t (Some e) r) =
     (fit_block M seg (sz - 1) t (sz - 1 + r) \<and> fit_block M seg (sz - 1) e (sz - 1 + r))"
| "fit_node M seg sz (TvmRepeat bk b) = fit_block M seg (sz - 1) b (sz - 1)"
| "fit_node M seg sz (TvmUntil bk b) = fit_block M seg sz b (sz + 1)"
| "fit_node M seg sz (While ag bk c b) = (fit_block M seg sz c (sz + 1) \<and> fit_block M seg sz b sz)"
| "fit_node M seg sz n = True"
| "fit_block M seg sz (CodeBlock bt c) e = (fit_list M seg (sim_new sz) c \<and> ends_at seg sz c e)"
| "fit_list M seg st [] = True"
| "fit_list M seg st (n # c) =
     (fit_node M seg (m_stackSize st) n \<and>
      (case sim_node seg n st of
         None \<Rightarrow> True
       | Some st' \<Rightarrow> m_unable st' \<or> m_isDropped st' \<or> fit_list M seg st' c))"

lemma sim_new_simps [simp]:
  "m_stackSize (sim_new sz) = sz" "\<not> m_isDropped (sim_new sz)" "\<not> m_unable (sim_new sz)" "\<not> m_wasSet (sim_new sz)"
  "m_commands (sim_new sz) = []" "\<not> m_wasMoved (sim_new sz)"
  by (simp_all add: sim_new_def)

lemma finish_simps [simp]:
  "m_unable (sim_finish s) = m_unable s" "m_wasSet (sim_finish s) = m_wasSet s" "m_isDropped (sim_finish s) = m_isDropped s"
  "m_wasRBC (sim_finish s) = m_wasRBC s" "m_stackSize (sim_finish s) = m_stackSize s"
  "sim_body_ok (sim_finish s) = sim_body_ok s"
  by (simp_all add: sim_finish_def sim_body_ok_def)

lemma merge_simps [simp]:
  "m_unable (sim_merge s st) = m_unable st" "m_wasSet (sim_merge s st) = m_wasSet st" "m_isDropped (sim_merge s st) = m_isDropped st"
  "m_wasMoved (sim_merge s st) = m_wasMoved st" "m_stackSize (sim_merge s st) = m_stackSize st" "m_commands (sim_merge s st) = m_commands st"
  by (simp_all add: sim_merge_def)

text \<open>Only \<open>POP\<close> overwrites the value and only \<open>BLKSWAP\<close> moves it.\<close>

abbreviation flags :: "sim \<Rightarrow> bool \<times> bool" where
  "flags st \<equiv> (m_wasSet st, m_wasMoved st)"

lemma stack_flags: "sim_stack seg opc i j k st = Some st' \<Longrightarrow> opc \<noteq> POP_S \<Longrightarrow> opc \<noteq> BLKSWAP \<Longrightarrow> flags st' = flags st"
  by (cases opc)
    (auto simp: sim_stack_def sim_push_def sim_drop_def sim_blkdrop2_def sim_blkpush_def sim_reverse_def
      sim_xchg_def sim_push2_def sim_push3_def sim_tuck_def sim_puxc_def bind_eq_Some_conv Let_def split: if_splits)

lemma blkswap_flags:
  assumes "sim_blkswap seg i j st = Some st'"
  shows "m_wasSet st' = m_wasSet st"
    and "m_wasMoved st' \<Longrightarrow> m_wasMoved st \<or> seg = 1 \<and> i = 1 \<and> j = m_stackSize st - 1 \<and> m_commands st' = m_commands st \<and> m_unable st'"
  using assms by (auto simp: sim_blkswap_def bind_eq_Some_conv rest_Some Let_def unable_def split: if_splits)

lemma pop_wasSet:
  assumes "sim_pop seg i j k st = Some st'"
  shows "m_wasSet st \<Longrightarrow> m_wasSet st'" "m_wasMoved st' = m_wasMoved st"
    and "m_wasSet st' \<Longrightarrow> m_wasSet st \<or> seg = 1 \<and> i = m_stackSize st - 1 \<and> 2 \<le> m_stackSize st"
  using assms by (auto simp: sim_pop_def bind_eq_Some_conv rest_Some split: if_splits)

lemma try_frame:
  assumes "try_simulate seg b sz st = Some (st', res)"
  shows "flags st' = flags st" "m_isDropped st' = m_isDropped st" "m_stackSize st' = m_stackSize st"
    "res = None \<Longrightarrow> m_unable st'" "res \<noteq> None \<Longrightarrow> m_unable st' = m_unable st" "m_commands st' = m_commands st"
  using assms by (cases b; auto simp: bind_eq_Some_conv Let_def unable_def split: if_splits)+

lemma try_flags:
  "try_simulate seg b sz st = Some x \<Longrightarrow> \<exists>st' res. x = (st', res) \<and> flags st' = flags st"
  using try_frame(1) by (cases x) auto

lemma effect_flags:
  "sim_effect seg t r n st = Some st' \<Longrightarrow> flags st' = flags st"
  "sim_exception seg t i n st = Some st' \<Longrightarrow> flags st' = flags st"
  "sim_glob seg g j st = Some st' \<Longrightarrow> flags st' = flags st"
  by (auto simp: sim_effect_def sim_exception_def sim_glob_def bind_eq_Some_conv Let_def split: if_splits)

lemma ifelse_inv:
  assumes "sim_node seg (TvmIfElse w jm t (Some e) r) st = Some st'"
  obtains "st' = unable st"
    | "try_simulate seg t (m_stackSize st - 1) (grow (-1) st) = Some (st', None)"
    | st1 t' d where "try_simulate seg t (m_stackSize st - 1) (grow (-1) st) = Some (st1, Some (t', d))"
        "try_simulate seg e (m_stackSize st1) st1 = Some (st', None)"
    | st1 t' d st2 e' d' n where "try_simulate seg t (m_stackSize st - 1) (grow (-1) st) = Some (st1, Some (t', d))"
        "try_simulate seg e (m_stackSize st1) st1 = Some (st2, Some (e', d'))" "mkIfElse w jm t' (Some e') r = Some n"
        "m_stackSize st - seg > 0"
        "st' = emit n (grow r (if d \<and> d' then st2\<lparr>m_isDropped := True\<rparr> else st2))"
proof (cases "m_stackSize st - seg > 0")
  case False
  then show thesis using assms that(1) by (auto simp: bind_eq_Some_conv rest_Some split: if_splits)
next
  case True
  then have q: "rest seg st = Some (m_stackSize st - seg)" "m_stackSize st - seg \<noteq> 0" by (auto simp: rest_Some)
  obtain st1 res where t: "try_simulate seg t (m_stackSize st - 1) (grow (-1) st) = Some (st1, res)"
    using assms q by (auto simp: bind_eq_Some_conv)
  show thesis
  proof (cases res)
    case None
    then show thesis using assms q t that(2) by simp
  next
    case (Some td)
    obtain t' d where td: "td = (t', d)" by (cases td)
    obtain st2 res' where e: "try_simulate seg e (m_stackSize st1) st1 = Some (st2, res')"
      using assms q t Some td by (auto simp: bind_eq_Some_conv)
    show thesis
    proof (cases res')
      case None
      then show thesis using assms q t Some td e that(3) by simp
    next
      case (Some ed)
      obtain e' d' where ed: "ed = (e', d')" by (cases ed)
      show thesis using assms q t \<open>res = Some td\<close> td e Some ed True that(4) by (auto simp: bind_eq_Some_conv)
    qed
  qed
qed

lemma while_inv:
  assumes "sim_node seg (While ag bk c b) st = Some st'"
  obtains "try_simulate seg c (m_stackSize st) st = Some (st', None)"
    | st1 c' d where "try_simulate seg c (m_stackSize st) st = Some (st1, Some (c', d))"
        "try_simulate seg b (m_stackSize st1) st1 = Some (st', None)"
    | st1 c' d st2 b' d' where "try_simulate seg c (m_stackSize st) st = Some (st1, Some (c', d))"
        "try_simulate seg b (m_stackSize st1) st1 = Some (st2, Some (b', d'))" "st' = emit (While ag bk c' b') st2"
proof -
  obtain st1 res where c: "try_simulate seg c (m_stackSize st) st = Some (st1, res)"
    using assms by (auto simp: bind_eq_Some_conv)
  show thesis
  proof (cases res)
    case None
    then show thesis using assms c that(1) by simp
  next
    case (Some cd)
    obtain c' d where cd: "cd = (c', d)" by (cases cd)
    obtain st2 res' where b: "try_simulate seg b (m_stackSize st1) st1 = Some (st2, res')"
      using assms c Some cd by (auto simp: bind_eq_Some_conv)
    then show thesis using assms c Some cd that(2,3) by (cases res') auto
  qed
qed

lemma node_flags:
  assumes "sim_node seg n st = Some st'" "\<And>i j k. n \<noteq> Stack POP_S i j k" "\<And>i j k. n \<noteq> Stack BLKSWAP i j k"
  shows "flags st' = flags st"
proof (cases n)
  case (Stack opc i j k)
  then have "opc \<noteq> POP_S" "opc \<noteq> BLKSWAP" using assms(2,3) by blast+
  then show ?thesis using assms(1) stack_flags Stack by simp
next
  case (ReturnOrBreakOrCont t b)
  then show ?thesis using assms by (cases b) (auto simp: bind_eq_Some_conv Let_def split: if_splits)
next
  case (SubProgram t r jm b p)
  then show ?thesis
    using assms by (auto simp: bind_eq_Some_conv Let_def dest!: try_flags split: if_splits option.splits)
next
  case (LogCircuit t b)
  then show ?thesis
    using assms by (auto simp: bind_eq_Some_conv Let_def dest!: try_flags split: if_splits option.splits)
next
  case (TvmIfElse w jm t e r)
  show ?thesis
  proof (cases e)
    case None
    then show ?thesis
      using assms TvmIfElse by (auto simp: bind_eq_Some_conv Let_def dest!: try_flags split: if_splits option.splits)
  next
    case (Some e)
    from assms(1) [unfolded TvmIfElse Some] show ?thesis by (rule ifelse_inv) (auto dest!: try_flags)
  qed
next
  case (TvmRepeat bk b)
  then show ?thesis
    using assms by (auto simp: bind_eq_Some_conv Let_def dest!: try_flags split: if_splits option.splits)
next
  case (TvmUntil bk b)
  then show ?thesis
    using assms by (auto simp: bind_eq_Some_conv Let_def dest!: try_flags split: if_splits option.splits)
next
  case (While ag bk c b)
  from assms(1) [unfolded While] show ?thesis by (rule while_inv) (auto dest!: try_flags)
qed (use assms in \<open>auto simp: bind_eq_Some_conv dest: effect_flags split: if_splits\<close>)

lemma node_sets:
  assumes "sim_node seg n st = Some st'"
  shows "m_wasSet st \<Longrightarrow> m_wasSet st'"
    and "m_wasSet st' \<Longrightarrow> \<not> m_wasSet st \<Longrightarrow>
      \<exists>j k. n = Stack POP_S (m_stackSize st - 1) j k \<and> seg = 1 \<and> 2 \<le> m_stackSize st"
    and "m_wasMoved st' \<Longrightarrow> \<not> m_wasMoved st \<Longrightarrow>
      \<exists>k. n = Stack BLKSWAP 1 (m_stackSize st - 1) k \<and> seg = 1 \<and> m_commands st' = m_commands st \<and> m_unable st'"
proof -
  have pop: "sim_pop seg i j k st = Some st'" if "n = Stack POP_S i j k" for i j k
    using assms that by (simp add: sim_stack_def)
  have swap: "sim_blkswap seg i j st = Some st'" if "n = Stack BLKSWAP i j k" for i j k
    using assms that by (simp add: sim_stack_def)
  consider (pop) i j k where "n = Stack POP_S i j k" | (swap) i j k where "n = Stack BLKSWAP i j k" | (other) "flags st' = flags st"
    using node_flags [OF assms] by blast
  note kinds = this
  show "m_wasSet st \<Longrightarrow> m_wasSet st'"
    using kinds by cases (use pop_wasSet(1) [OF pop] blkswap_flags(1) [OF swap] in auto)
  show "m_wasSet st' \<Longrightarrow> \<not> m_wasSet st \<Longrightarrow>
      \<exists>j k. n = Stack POP_S (m_stackSize st - 1) j k \<and> seg = 1 \<and> 2 \<le> m_stackSize st"
    using kinds by cases (use pop_wasSet(3) [OF pop] blkswap_flags(1) [OF swap] in auto)
  show "m_wasMoved st' \<Longrightarrow> \<not> m_wasMoved st \<Longrightarrow>
      \<exists>k. n = Stack BLKSWAP 1 (m_stackSize st - 1) k \<and> seg = 1 \<and> m_commands st' = m_commands st \<and> m_unable st'"
    using kinds by cases (use pop_wasSet(2) [OF pop] blkswap_flags(2) [OF swap] in auto)
qed

lemma popdrop_Some:
  assumes "isPopAndDrop seg a b st = Some (Some st')"
  obtains pop d c where "isPOP a = Some pop" "isDrop b = Some d" "seg = 1" "pop = m_stackSize st - 1" "pop = d + 1"
    "makeBLKDROP2 d 1 = Some c" "st' = emit c (st\<lparr>m_isDropped := True\<rparr>)"
  using assms by (auto simp: isPopAndDrop_def bind_eq_Some_conv split: if_splits option.splits)

text \<open>One turn of the loop.\<close>

lemma loop_Cons:
  assumes "sim_loop seg (n # c) st = Some st'"
  obtains (pair) b c' st1 where "c = b # c'" "isPopAndDrop seg n b st = Some (Some st1)" "st' = st1\<lparr>m_iter := c'\<rparr>"
    | (stop) st1 where "sim_node seg n st = Some st1" "m_unable st1 \<or> m_isDropped st1" "st' = st1\<lparr>m_iter := c\<rparr>"
    | (turn) st1 where "sim_node seg n st = Some st1" "\<not> m_unable st1" "\<not> m_isDropped st1" "seg \<le> m_stackSize st1"
        "sim_loop seg c st1 = Some st'"
proof -
  obtain pd where pd: "(case c of [] \<Rightarrow> Some None | b # _ \<Rightarrow> isPopAndDrop seg n b st) = Some pd"
    using assms by (auto simp: bind_eq_Some_conv simp del: sim_node.simps)
  show thesis
  proof (cases pd)
    case (Some st1)
    then obtain b c' where "c = b # c'" "isPopAndDrop seg n b st = Some (Some st1)" using pd by (cases c) auto
    then show thesis using assms Some pair by (simp add: bind_eq_Some_conv solAssert_def split: if_splits)
  next
    case None
    then obtain st1 where st1: "sim_node seg n st = Some st1"
        "(if m_unable st1 \<or> m_isDropped st1 then Some (st1\<lparr>m_iter := c\<rparr>)
         else do { _ \<leftarrow> solAssert (m_stackSize st1 \<ge> seg); sim_loop seg c st1 }) = Some st'"
      using assms pd by (auto simp: bind_eq_Some_conv simp del: sim_node.simps)
    then show thesis using stop [OF st1(1)] turn [OF st1(1)] by (simp add: bind_eq_Some_conv solAssert_def split: if_splits)
  qed
qed

lemma loop_wasSet: "sim_loop seg c st = Some st' \<Longrightarrow> m_wasSet st \<Longrightarrow> m_wasSet st'"
proof (induction c arbitrary: st)
  case (Cons n c)
  from Cons.prems(1) show ?case
  proof (cases rule: loop_Cons)
    case pair
    then show ?thesis using Cons.prems(2) by (auto elim!: popdrop_Some)
  qed (use Cons node_sets(1) in \<open>auto simp del: sim_node.simps\<close>)
qed auto

section \<open>The simulation\<close>

definition node_ok :: "'w machine \<Rightarrow> val list \<Rightarrow> node \<Rightarrow> bool" where
  "node_ok M xs n =
     (\<forall>p st st'. sim_node (int (length xs)) n st = Some st' \<longrightarrow> fit_node M (int (length xs)) (m_stackSize st) n \<longrightarrow>
        m_stackSize st = int (p + length xs) \<longrightarrow> \<not> m_isDropped st \<longrightarrow> \<not> m_unable st' \<longrightarrow> \<not> m_wasSet st' \<longrightarrow>
        step M xs p n st st')"

definition loop_ok :: "'w machine \<Rightarrow> val list \<Rightarrow> node list \<Rightarrow> bool" where
  "loop_ok M xs c =
     (\<forall>p st st'. sim_loop (int (length xs)) c st = Some st' \<longrightarrow> fit_list M (int (length xs)) st c \<longrightarrow>
        m_stackSize st = int (p + length xs) \<longrightarrow> \<not> m_isDropped st \<longrightarrow> \<not> m_unable st' \<longrightarrow> \<not> m_wasSet st' \<longrightarrow>
        (\<exists>cs. m_commands st' = m_commands st @ cs \<and>
          (if m_isDropped st' then \<exists>a. c = a @ m_iter st' \<and> discards M xs p a cs
           else m_iter st' = [] \<and> (\<exists>q. m_stackSize st' = int (q + length xs) \<and> shifts M xs p q c cs))))"

lemma node_okD:
  "node_ok M xs n \<Longrightarrow> sim_node (int (length xs)) n st = Some st' \<Longrightarrow> fit_node M (int (length xs)) (m_stackSize st) n \<Longrightarrow>
   m_stackSize st = int (p + length xs) \<Longrightarrow> \<not> m_isDropped st \<Longrightarrow> \<not> m_unable st' \<Longrightarrow> \<not> m_wasSet st' \<Longrightarrow> step M xs p n st st'"
  unfolding node_ok_def by metis

lemma pop_and_drop:
  assumes "isPOP a = Some pop" "isDrop b = Some d" "pop = int p" "pop = d + 1" "makeBLKDROP2 d 1 = Some c"
  shows "discards M [x] p [a, b] [c]"
proof -
  have d: "1 \<le> d" using blkdrop2_is(2) [OF assms(5)] .
  have "\<exists>j k. a = Stack POP_S pop j k" using assms(1,4) d by (auto elim!: isPOP.elims split: if_splits stack_opcode.splits)
  then have a: "stk_is a (spop p)" using assms(3,4) d by (auto intro!: stk_isI simp: stack_ok_def stack_fun_def)
  have "\<exists>j k. b = Stack DROP d j k" using assms(2) by (auto elim!: isDrop.elims split: if_splits)
  then have b: "stk_is b (sdrop (nat d))" using d by (auto intro!: stk_isI simp: stack_ok_def stack_fun_def)
  have c: "stk_is c (sblkdrop2 (nat d) 1)" using blkdrop2_is(1) [OF assms(5)] by simp
  have "sdrop (nat d) (spop p (ins p [x] t)) = sblkdrop2 (nat d) 1 t" for t
    using assms(3,4) d by (intro ext) (auto simp: ins_def spop_closed sdrop_def sblkdrop2_def intro!: stack_cong)
  then show ?thesis unfolding discards_def by (simp add: run_stk_is [OF a] run_stk_is [OF b] run_stk_is [OF c])
qed

text \<open>The loop, from its instructions.\<close>

lemma loop_from_nodes:
  assumes "\<And>n. n \<in> set c \<Longrightarrow> node_ok M xs n" "1 \<le> length xs"
  shows "loop_ok M xs c"
  unfolding loop_ok_def
proof (intro allI impI)
  fix p and st st' :: sim
  show "\<exists>cs. m_commands st' = m_commands st @ cs \<and>
          (if m_isDropped st' then \<exists>a. c = a @ m_iter st' \<and> discards M xs p a cs
           else m_iter st' = [] \<and> (\<exists>q. m_stackSize st' = int (q + length xs) \<and> shifts M xs p q c cs))"
    if "sim_loop (int (length xs)) c st = Some st'" "fit_list M (int (length xs)) st c" "m_stackSize st = int (p + length xs)"
      "\<not> m_isDropped st" "\<not> m_unable st'" "\<not> m_wasSet st'"
    using that assms(1)
  proof (induction c arbitrary: p st)
    case Nil
    then show ?case by (auto intro!: exI [of _ "[]"])
  next
    case (Cons n c)
    from Cons.prems(1) show ?case
    proof (cases rule: loop_Cons)
      case (pair b c' st1)
      from pair(2) obtain pop d k where k: "isPOP n = Some pop" "isDrop b = Some d" "int (length xs) = 1"
          "pop = m_stackSize st - 1" "pop = d + 1" "makeBLKDROP2 d 1 = Some k" "st1 = emit k (st\<lparr>m_isDropped := True\<rparr>)"
        by (rule popdrop_Some)
      then obtain x where "xs = [x]" by (cases xs) auto
      then have "discards M xs p [n, b] [k]" using k Cons.prems(3) by (auto intro!: pop_and_drop)
      then show ?thesis using pair k by (auto intro!: exI [of _ "[k]"] exI [of _ "[n, b]"])
    next
      case (stop st1)
      then have s: "step M xs p n st st1"
        using node_okD [of M xs n st st1 p] Cons.prems by (auto simp del: sim_node.simps)
      then show ?thesis using stop Cons.prems(5) by (auto simp: step_def intro!: exI [of _ "[n]"])
    next
      case (turn st1)
      have ws: "\<not> m_wasSet st1" using turn(5) Cons.prems(6) loop_wasSet by blast
      have s: "step M xs p n st st1"
        using node_okD [of M xs n st st1 p] Cons.prems turn ws by (auto simp del: sim_node.simps)
      define q where "q = nat (m_stackSize st1) - length xs"
      have q: "m_stackSize st1 = int (q + length xs)" using turn(4) by (simp add: q_def)
      have fit: "fit_list M (int (length xs)) st1 c" using Cons.prems(2) turn by (simp del: sim_node.simps)
      obtain cs1 where cs1: "m_commands st1 = m_commands st @ cs1" "shifts M xs p q [n] cs1"
        using s turn(3) q by (auto simp: step_def)
      obtain cs where cs: "m_commands st' = m_commands st1 @ cs"
          "if m_isDropped st' then \<exists>a. c = a @ m_iter st' \<and> discards M xs q a cs
           else m_iter st' = [] \<and> (\<exists>k. m_stackSize st' = int (k + length xs) \<and> shifts M xs q k c cs)"
        using Cons.IH [OF turn(5) fit q turn(3) Cons.prems(5,6)] Cons.prems(7) by auto
      show ?thesis
      proof (cases "m_isDropped st'")
        case True
        then obtain a where "c = a @ m_iter st'" "discards M xs q a cs" using cs(2) by auto
        then show ?thesis
          using True cs(1) cs1 shifts_discards [OF cs1(2)] by (auto intro!: exI [of _ "cs1 @ cs"] exI [of _ "n # a"])
      next
        case False
        then obtain k where "m_iter st' = []" "m_stackSize st' = int (k + length xs)" "shifts M xs q k c cs" using cs(2) by auto
        then show ?thesis
          using False cs(1) cs1 shifts_append [OF cs1(2)] by (fastforce intro!: exI [of _ "cs1 @ cs"])
      qed
    qed
  qed
qed

text \<open>Instructions with a body.\<close>

lemma try_shifts:
  assumes "loop_ok M xs (instructions b)" "try_simulate (int (length xs)) b sz st = Some (st', Some (b', d))"
    and "fit_block M (int (length xs)) sz b e" "sz = int (p + length xs)"
  shows "\<not> d" "e = int (q + length xs) \<Longrightarrow> shifts M xs p q (instructions b) (instructions b')"
proof -
  obtain bt c where b: "b = CodeBlock bt c" by (cases b)
  obtain s where s: "sim_loop (int (length xs)) c (sim_new sz) = Some s" "sim_body_ok s"
      "b' = CodeBlock bt (m_commands (sim_finish s))" "d = (m_isDropped s \<and> m_wasRBC s)"
    using assms(2) by (auto simp: b bind_eq_Some_conv Let_def split: if_splits)
  have e: "\<not> m_isDropped s" "m_stackSize s = e" and fit: "fit_list M (int (length xs)) (sim_new sz) c"
    using assms(3) s(1,2) by (auto simp: b ends_at_def)
  show "\<not> d" using e(1) s(4) by simp
  assume q: "e = int (q + length xs)"
  have "\<not> m_unable s" "\<not> m_wasSet s" using s(2) by (auto simp: sim_body_ok_def)
  then have "shifts M xs p q c (m_commands s)"
    using assms(1) s(1) fit e q unfolding loop_ok_def b by (fastforce simp: assms(4))
  then show "shifts M xs p q (instructions b) (instructions b')"
    using e(1) by (simp add: b s(3) sim_finish_def success_def)
qed

lemma robc_ok: "loop_ok M xs c \<Longrightarrow> node_ok M xs (ReturnOrBreakOrCont t (CodeBlock bt c))"
  unfolding node_ok_def
proof (intro allI impI)
  fix p and st st' :: sim
  let ?n = "ReturnOrBreakOrCont t (CodeBlock bt c)"
  assume ok: "loop_ok M xs c" and sim: "sim_node (int (length xs)) ?n st = Some st'"
    and fit: "fit_node M (int (length xs)) (m_stackSize st) ?n" and sz: "m_stackSize st = int (p + length xs)"
    and "\<not> m_unable st'"
  then obtain s where s: "sim_loop (int (length xs)) c (sim_new (m_stackSize st)) = Some s" "\<not> m_unable s" "m_isDropped s"
      "st' = emit (ReturnOrBreakOrCont t (CodeBlock bt (m_commands (sim_finish s)))) (st\<lparr>m_wasRBC := True, m_isDropped := True\<rparr>)"
    by (auto simp: bind_eq_Some_conv Let_def split: if_splits)
  then have set: "\<not> m_wasSet s" using fit by (simp add: sets_in_def)
  then obtain a where "c = a @ m_iter s" "discards M xs p a (m_commands s)"
    using ok s fit sz unfolding loop_ok_def by (fastforce simp: sz)
  then have "discards M xs p c (m_commands (sim_finish s))"
    using s set discards_append [of M xs p a "m_commands s" "m_iter s"] by (simp add: sim_finish_def success_def)
  then show "step M xs p ?n st st'"
    using s(4) discards_ROBC [of M xs p "CodeBlock bt c" "CodeBlock bt (m_commands (sim_finish s))" t t]
    by (intro step_discard) auto
qed

lemma try_inv:
  assumes "(try_simulate seg b sz st \<bind> (\<lambda>(st, res). Some (case res of None \<Rightarrow> st | Some (b', _) \<Rightarrow> f b' st))) = Some st'"
    and "\<not> m_unable st'"
  obtains st1 b' d where "try_simulate seg b sz st = Some (st1, Some (b', d))" "st' = f b' st1"
proof -
  obtain st1 res where t: "try_simulate seg b sz st = Some (st1, res)" using assms(1) by (auto simp: bind_eq_Some_conv)
  have "res \<noteq> None" using assms t try_frame(4) [OF t] by (cases res) auto
  then show thesis using assms(1) t that by auto
qed

lemma node_okI:
  assumes "\<And>p st st'. sim_node (int (length xs)) n st = Some st' \<Longrightarrow> fit_node M (int (length xs)) (m_stackSize st) n \<Longrightarrow>
      m_stackSize st = int (p + length xs) \<Longrightarrow> \<not> m_isDropped st \<Longrightarrow> \<not> m_unable st' \<Longrightarrow> \<not> m_wasSet st' \<Longrightarrow> step M xs p n st st'"
  shows "node_ok M xs n"
  using assms unfolding node_ok_def by blast

lemma rest_inv:
  assumes "m_stackSize st = int (p + length xs)"
    and "(rest (int (length xs)) st \<bind> (\<lambda>q. if t q then Some (unable st) else g q)) = Some st'" "\<not> m_unable st'"
  shows "\<not> t (int p)" "g (int p) = Some st'"
proof -
  have "rest (int (length xs)) st = Some (int p)" using assms(1) by (simp add: rest_Some)
  then show "\<not> t (int p)" "g (int p) = Some st'" using assms(2,3) by (auto split: if_splits)
qed

lemma sub_ok:
  assumes "loop_ok M xs (instructions b)"
  shows "node_ok M xs (SubProgram t r jm b pu)"
proof (rule node_okI)
  fix p and st st' :: sim
  assume sim: "sim_node (int (length xs)) (SubProgram t r jm b pu) st = Some st'"
    and fit: "fit_node M (int (length xs)) (m_stackSize st) (SubProgram t r jm b pu)"
    and sz: "m_stackSize st = int (p + length xs)" and d: "\<not> m_isDropped st" and u: "\<not> m_unable st'"
  from rest_inv(2) [OF sz sim [unfolded sim_node.simps] u]
  obtain st1 b' d where t: "try_simulate (int (length xs)) b (m_stackSize st) (grow (- t) st) = Some (st1, Some (b', d))"
      "st' = emit (SubProgram t r jm b' pu) (grow r st1)"
    by (auto simp: Let_def elim: try_inv [OF _ u])
  have "shifts M xs p q (instructions b) (instructions b')" if "m_stackSize st - t + r = int (q + length xs)" for q
    using try_shifts(2) [OF assms t(1) _ sz that] fit by simp
  then show "step M xs p (SubProgram t r jm b pu) st st'"
    using t(2) try_frame [OF t(1)] d fit shifts_Sub by (auto simp: step_def)
qed

lemma log_ok:
  assumes "loop_ok M xs (instructions b)"
  shows "node_ok M xs (LogCircuit t b)"
proof (rule node_okI)
  fix p and st st' :: sim
  assume sim: "sim_node (int (length xs)) (LogCircuit t b) st = Some st'"
    and fit: "fit_node M (int (length xs)) (m_stackSize st) (LogCircuit t b)"
    and sz: "m_stackSize st = int (p + length xs)" and d: "\<not> m_isDropped st" and u: "\<not> m_unable st'"
  note r = rest_inv [OF sz sim [unfolded sim_node.simps] u]
  then obtain k where k: "p = Suc k" by (cases p) auto
  from r(2) obtain st1 b' d where t: "try_simulate (int (length xs)) b (m_stackSize st - 1) (grow (- 2) st) = Some (st1, Some (b', d))"
      "st' = emit (LogCircuit t b') (grow 1 st1)"
    by (auto simp: Let_def elim: try_inv [OF _ u])
  have "shifts M xs k k (instructions b) (instructions b')"
    using try_shifts(2) [OF assms t(1), of "m_stackSize st - 1" k k] fit sz k by simp
  then show "step M xs p (LogCircuit t b) st st'"
    using t(2) try_frame [OF t(1)] d sz k shifts_Log by (intro step_shift [where q = k]) auto
qed

lemma if_ok:
  assumes "loop_ok M xs (instructions b)"
  shows "node_ok M xs (TvmIfElse w jm b None r)"
proof (rule node_okI)
  fix p and st st' :: sim
  assume sim: "sim_node (int (length xs)) (TvmIfElse w jm b None r) st = Some st'"
    and fit: "fit_node M (int (length xs)) (m_stackSize st) (TvmIfElse w jm b None r)"
    and sz: "m_stackSize st = int (p + length xs)" and d: "\<not> m_isDropped st" and u: "\<not> m_unable st'"
  note q = rest_inv [OF sz sim [unfolded sim_node.simps] u]
  then obtain k where k: "p = Suc k" by (cases p) auto
  from q(2) obtain st1 b' d where t: "try_simulate (int (length xs)) b (m_stackSize st - 1) (grow (- 1) st) = Some (st1, Some (b', d))"
      "st' = emit (TvmIfElse w jm b' None r) (grow r st1)"
    by (auto simp: Let_def elim: try_inv [OF _ u])
  have "shifts M xs k k (instructions b) (instructions b')"
    using try_shifts(2) [OF assms t(1), of "m_stackSize st - 1" k k] fit sz k by simp
  then show "step M xs p (TvmIfElse w jm b None r) st st'"
    using t(2) try_frame [OF t(1)] d fit sz k shifts_If by (intro step_shift [where q = k]) auto
qed

lemma ifelse_ok:
  assumes "loop_ok M xs (instructions b)" "loop_ok M xs (instructions e)"
  shows "node_ok M xs (TvmIfElse w jm b (Some e) r)"
proof (rule node_okI)
  fix p and st st' :: sim
  assume sim: "sim_node (int (length xs)) (TvmIfElse w jm b (Some e) r) st = Some st'"
    and fit: "fit_node M (int (length xs)) (m_stackSize st) (TvmIfElse w jm b (Some e) r)"
    and sz: "m_stackSize st = int (p + length xs)" and d: "\<not> m_isDropped st" and u: "\<not> m_unable st'"
  from sim show "step M xs p (TvmIfElse w jm b (Some e) r) st st'"
  proof (rule ifelse_inv)
    fix st1 t' d1 st2 e' d2 n
    assume b: "try_simulate (int (length xs)) b (m_stackSize st - 1) (grow (- 1) st) = Some (st1, Some (t', d1))"
      and e: "try_simulate (int (length xs)) e (m_stackSize st1) st1 = Some (st2, Some (e', d2))"
      and n: "mkIfElse w jm t' (Some e') r = Some n" and pos: "0 < m_stackSize st - int (length xs)"
      and st': "st' = emit n (grow r (if d1 \<and> d2 then st2\<lparr>m_isDropped := True\<rparr> else st2))"
    obtain k where k: "p = Suc k" using pos sz by (cases p) auto
    have sz1: "m_stackSize st - 1 = int (k + length xs)" using sz k by simp
    have sz2: "m_stackSize st1 = int (k + length xs)" using try_frame(3) [OF b] sz1 by simp
    have fb: "fit_block M (int (length xs)) (m_stackSize st - 1) b (m_stackSize st - 1 + r)"
      and fe: "fit_block M (int (length xs)) (m_stackSize st1) e (m_stackSize st - 1 + r)"
      using fit sz1 sz2 by simp_all
    have "shifts M xs p q [TvmIfElse w jm b (Some e) r] [TvmIfElse w jm t' (Some e') r]"
      if "m_stackSize st - 1 + r = int (q + length xs)" for q
      unfolding k by (rule shifts_IfElse [OF try_shifts(2) [OF assms(1) b fb sz1 that] try_shifts(2) [OF assms(2) e fe sz2 that]])
    moreover have "n = TvmIfElse w jm t' (Some e') r" using n by (simp add: mkIfElse_def split: if_splits)
    ultimately show ?thesis
      using st' d try_shifts(1) [OF assms(1) b fb sz1] try_frame [OF b] try_frame [OF e] by (auto simp: step_def)
  qed (use u in \<open>auto dest: try_frame(4)\<close>)
qed

lemma repeat_ok:
  assumes "loop_ok M xs (instructions b)"
  shows "node_ok M xs (TvmRepeat bk b)"
proof (rule node_okI)
  fix p and st st' :: sim
  assume sim: "sim_node (int (length xs)) (TvmRepeat bk b) st = Some st'"
    and fit: "fit_node M (int (length xs)) (m_stackSize st) (TvmRepeat bk b)"
    and sz: "m_stackSize st = int (p + length xs)" and d: "\<not> m_isDropped st" and u: "\<not> m_unable st'"
  note q = rest_inv [OF sz sim [unfolded sim_node.simps] u]
  then obtain k where k: "p = Suc k" by (cases p) auto
  from q(2) obtain st1 b' d where t: "try_simulate (int (length xs)) b (m_stackSize st - 1) (grow (- 1) st) = Some (st1, Some (b', d))"
      "st' = emit (TvmRepeat bk b') st1"
    by (auto simp: Let_def elim: try_inv [OF _ u])
  have "shifts M xs k k (instructions b) (instructions b')"
    using try_shifts(2) [OF assms t(1), of "m_stackSize st - 1" k k] fit sz k by simp
  then show "step M xs p (TvmRepeat bk b) st st'"
    using t(2) try_frame [OF t(1)] d sz k shifts_Repeat by (intro step_shift [where q = k]) auto
qed

lemma until_ok:
  assumes "loop_ok M xs (instructions b)"
  shows "node_ok M xs (TvmUntil bk b)"
proof (rule node_okI)
  fix p and st st' :: sim
  assume sim: "sim_node (int (length xs)) (TvmUntil bk b) st = Some st'"
    and fit: "fit_node M (int (length xs)) (m_stackSize st) (TvmUntil bk b)"
    and sz: "m_stackSize st = int (p + length xs)" and d: "\<not> m_isDropped st" and u: "\<not> m_unable st'"
  from rest_inv(2) [OF sz sim [unfolded sim_node.simps] u]
  obtain st1 b' d where t: "try_simulate (int (length xs)) b (m_stackSize st) st = Some (st1, Some (b', d))"
      "st' = emit (TvmUntil bk b') st1"
    by (auto simp: Let_def elim: try_inv [OF _ u])
  have "shifts M xs p (Suc p) (instructions b) (instructions b')"
    using try_shifts(2) [OF assms t(1), of "m_stackSize st + 1" p "Suc p"] fit sz by simp
  then show "step M xs p (TvmUntil bk b) st st'"
    using t(2) try_frame [OF t(1)] d sz shifts_Until by (intro step_shift [where q = p]) auto
qed

lemma while_ok:
  assumes "loop_ok M xs (instructions c)" "loop_ok M xs (instructions b)"
  shows "node_ok M xs (While ag bk c b)"
proof (rule node_okI)
  fix p and st st' :: sim
  assume sim: "sim_node (int (length xs)) (While ag bk c b) st = Some st'"
    and fit: "fit_node M (int (length xs)) (m_stackSize st) (While ag bk c b)"
    and sz: "m_stackSize st = int (p + length xs)" and d: "\<not> m_isDropped st" and u: "\<not> m_unable st'"
  from sim show "step M xs p (While ag bk c b) st st'"
  proof (rule while_inv)
    fix st1 c' d1 st2 b' d2
    assume c: "try_simulate (int (length xs)) c (m_stackSize st) st = Some (st1, Some (c', d1))"
      and b: "try_simulate (int (length xs)) b (m_stackSize st1) st1 = Some (st2, Some (b', d2))"
      and st': "st' = emit (While ag bk c' b') st2"
    have "shifts M xs p (Suc p) (instructions c) (instructions c')"
      using try_shifts(2) [OF assms(1) c, of "m_stackSize st + 1" p "Suc p"] fit sz by simp
    moreover have "shifts M xs p p (instructions b) (instructions b')"
      using try_shifts(2) [OF assms(2) b, of "m_stackSize st" p p] fit sz try_frame(3) [OF c] by simp
    ultimately show ?thesis
      using st' try_frame [OF c] try_frame [OF b] d sz shifts_While by (intro step_shift [where q = p]) auto
  qed (use u in \<open>auto dest: try_frame(4)\<close>)
qed

text \<open>Instructions without a body.\<close>

lemma stack_ok_sim: "1 \<le> length xs \<Longrightarrow> node_ok M xs (Stack opc i j k)"
  by (rule node_okI) (auto intro: stack_step simp del: int_ops of_nat_add)

lemma effect_ok:
  "node_ok M xs (Opaque b t r pu)" "node_ok M xs (HardCode c t r pu)"
  by (rule node_okI; auto intro: effect_step)+

lemma gen_ok: "node_ok M xs (GenOpcode opc a c t r pu)"
  by (rule node_okI) (auto simp: bind_eq_Some_conv intro!: step_wasCall effect_step)

lemma glob_ok: "node_ok M xs (Glob g i)"
  by (rule node_okI) (auto intro: glob_step)

lemma exc_ok: "node_ok M xs (TvmException a y i m q)"
  by (rule node_okI) (auto intro: exception_step)

lemma one_push_ok:
  assumes "framed M 0 1 n" "\<And>st. sim_node (int (length xs)) n st = Some (emit n (grow 1 st))"
  shows "node_ok M xs n"
proof (rule node_okI)
  fix p and st st' :: sim
  assume "sim_node (int (length xs)) n st = Some st'" "m_stackSize st = int (p + length xs)" "\<not> m_isDropped st"
  then show "step M xs p n st st'"
    using shifts_framed [OF assms(1), of p "Suc p" xs] by (intro step_shift [where q = "Suc p"]) (auto simp: assms(2))
qed

lemma cell_ok: "node_ok M xs (PushCellOrSlice c)"
proof (cases "framed M 0 1 (PushCellOrSlice c)")
  case True
  then show ?thesis by (rule one_push_ok) simp
next
  case False
  then show ?thesis by (intro node_okI) simp
qed

lemma decl_ok: "node_ok M xs DeclRetFlag"
  by (rule one_push_ok [OF framed_DeclRetFlag]) simp

lemma loc_ok: "node_ok M xs (Loc f l)"
  by (rule node_okI) (auto simp: isLoc_def intro!: step_shift shifts_Loc)

lemma refused_ok: "node_ok M xs (AsymGen t)" "node_ok M xs (TvmReturn i m a)" "node_ok M xs (BlockNode b)"
  by (rule node_okI; simp)+

text \<open>All instructions.\<close>

lemma sim_ok:
  assumes "1 \<le> length xs"
  shows node_sim_ok: "node_ok M xs n" and loop_sim_ok: "loop_ok M xs (instructions b)"
proof (induction n and b)
  case (ReturnOrBreakOrCont t b)
  then show ?case by (cases b) (simp add: robc_ok)
next
  case (TvmIfElse w jm t e r)
  then show ?case by (cases e) (simp_all add: if_ok ifelse_ok)
next
  case (CodeBlock bt c)
  then show ?case using assms by (simp add: loop_from_nodes)
qed (simp_all add: stack_ok_sim [OF assms] effect_ok gen_ok glob_ok exc_ok cell_ok decl_ok loc_ok refused_ok sub_ok log_ok repeat_ok until_ok while_ok)

section \<open>What a simulation shows\<close>

lemma loop_ok_list: "1 \<le> length xs \<Longrightarrow> loop_ok M xs c"
  using loop_sim_ok [of xs M "CodeBlock BlockNone c"] by simp

lemma simulate_success:
  assumes "simulate (int (p + length xs)) (int (length xs)) c = Some st" "success st" "1 \<le> length xs"
    and "fit_list M (int (length xs)) (sim_new (int (p + length xs))) c"
  shows "discards M xs p c (m_commands st)"
proof -
  obtain s where s: "sim_loop (int (length xs)) c (sim_new (int (p + length xs))) = Some s" "st = sim_finish s"
    using assms(1) by (auto simp: simulate_def bind_eq_Some_conv)
  then have ok: "\<not> m_unable s" "m_isDropped s" "\<not> m_wasSet s" using assms(2) by (auto simp: success_def)
  then obtain a where "c = a @ m_iter s" "discards M xs p a (m_commands s)"
    using loop_ok_list [OF assms(3), of M c] s(1) assms(4) unfolding loop_ok_def by fastforce
  then show ?thesis
    using ok s(2) discards_append [of M xs p a "m_commands s" "m_iter s"] by (simp add: sim_finish_def success_def)
qed

text \<open>A value that is overwritten before it is read does not matter.\<close>

definition ignores :: "'w machine \<Rightarrow> nat \<Rightarrow> node list \<Rightarrow> bool" where
  "ignores M p c = (\<forall>x y s r. run M c (shift_st p [x] s) r \<longleftrightarrow> run M c (shift_st p [y] s) r)"

lemma run_shifted:
  assumes "shifts M xs p q a cs"
  shows "run M (a @ b) (shift_st p xs s) r \<longleftrightarrow>
    (\<exists>t. run M cs s (Norm t) \<and> run M b (shift_st q xs t) r) \<or> (run M cs s r \<and> \<not> is_norm r)"
proof -
  have "run M (a @ b) (shift_st p xs s) r \<longleftrightarrow>
      (\<exists>t. run M a (shift_st p xs s) (Norm t) \<and> run M b t r) \<or> (run M a (shift_st p xs s) r \<and> \<not> is_norm r)"
    by (rule run_append)
  also have "\<dots> \<longleftrightarrow> (\<exists>t. run M cs s (Norm t) \<and> run M b (shift_st q xs t) r) \<or> (run M cs s r \<and> \<not> is_norm r)"
    unfolding shiftsD [OF assms] by (metis shift_out.simps(1) shift_out_eq_Norm shift_out_norm shift_out_other)
  finally show ?thesis .
qed

lemma ignores_Cons:
  assumes "\<And>x. shifts M [x] p q [n] cs" "ignores M q c"
  shows "ignores M p (n # c)"
  unfolding ignores_def
proof (intro allI)
  fix x y s r
  have same: "run M c (shift_st q [x] t) r \<longleftrightarrow> run M c (shift_st q [y] t) r" for t
    using assms(2) unfolding ignores_def by blast
  show "run M (n # c) (shift_st p [x] s) r \<longleftrightarrow> run M (n # c) (shift_st p [y] s) r"
    using run_shifted [OF assms(1), where b = c] same by simp
qed

lemma ignores_pop:
  assumes "1 \<le> p"
  shows "ignores M p (Stack POP_S (int p) j k # c)"
proof -
  have self: "stk_is (Stack POP_S (int p) j k) (spop p)" using assms by (intro stk_isI) (auto simp: stack_ok_def stack_fun_def)
  show ?thesis
    unfolding ignores_def run_stk_is [OF self] shift_st_simps shift_st_set using ins_pop_set [OF assms] by metis
qed

text \<open>The loop keeps its flags until one of the two instructions.\<close>

lemma node_shifts:
  assumes "sim_node 1 n st = Some st1" "fit_node M 1 (m_stackSize st) n" "m_stackSize st = int (p + 1)" "\<not> m_isDropped st"
    and "\<not> m_unable st1" "\<not> m_isDropped st1" "\<not> m_wasSet st1" "1 \<le> m_stackSize st1"
  obtains q cs where "m_stackSize st1 = int (q + 1)" "m_commands st1 = m_commands st @ cs" "\<And>x. shifts M [x] p q [n] cs"
proof -
  define q where "q = nat (m_stackSize st1) - 1"
  have q: "m_stackSize st1 = int (q + 1)" using assms(8) by (simp add: q_def)
  have "step M [x] p n st st1" for x
    using node_okD [OF node_sim_ok, of "[x]" n st st1 M p] assms by simp
  then have "\<exists>cs. m_commands st1 = m_commands st @ cs \<and> shifts M [x] p q [n] cs" for x
    using assms(6) q by (fastforce simp: step_def)
  then show thesis using that [OF q] by (metis same_append_eq)
qed

lemma loop_ignores:
  "sim_loop 1 c st = Some st' \<Longrightarrow> m_wasSet st' \<Longrightarrow> \<not> m_wasSet st \<Longrightarrow> fit_list M 1 st c \<Longrightarrow> m_stackSize st = int (p + 1) \<Longrightarrow>
   \<not> m_isDropped st \<Longrightarrow> ignores M p c"
proof (induction c arbitrary: st p)
  case Nil
  then show ?case by auto
next
  case (Cons n c)
  have popped: "ignores M p (n # c)" if st1: "sim_node 1 n st = Some st1" "m_wasSet st1" for st1
  proof -
    obtain j k where "n = Stack POP_S (m_stackSize st - 1) j k" "2 \<le> m_stackSize st"
      using node_sets(2) [OF st1] Cons.prems(3) by blast
    then show ?thesis using ignores_pop [of p] Cons.prems(5) by simp
  qed
  from Cons.prems(1) show ?case
  proof (cases rule: loop_Cons)
    case (pair b c' st1)
    then show ?thesis using Cons.prems by (auto elim!: popdrop_Some)
  next
    case (stop st1)
    then show ?thesis using popped Cons.prems by simp
  next
    case (turn st1)
    show ?thesis
    proof (cases "m_wasSet st1")
      case True
      then show ?thesis using popped turn by blast
    next
      case False
      have fn: "fit_node M 1 (m_stackSize st) n" using Cons.prems(4) by simp
      obtain q cs where q: "m_stackSize st1 = int (q + 1)" "m_commands st1 = m_commands st @ cs" "\<And>x. shifts M [x] p q [n] cs"
        by (rule node_shifts [OF turn(1) fn Cons.prems(5,6) turn(2,3) False turn(4)]) blast
      have "ignores M q c" using Cons.IH [OF turn(5) Cons.prems(2) False _ q(1) turn(3)] Cons.prems(4) turn by (simp del: sim_node.simps)
      then show ?thesis using ignores_Cons q(3) by blast
    qed
  qed
qed

lemma loop_moved:
  "sim_loop 1 c st = Some st' \<Longrightarrow> m_wasMoved st' \<Longrightarrow> \<not> m_wasMoved st \<Longrightarrow> \<not> m_wasSet st' \<Longrightarrow> fit_list M 1 st c \<Longrightarrow>
   m_stackSize st = int (p + 1) \<Longrightarrow> \<not> m_isDropped st \<Longrightarrow>
   \<exists>a j k cs. c = a @ Stack BLKSWAP 1 (int j) k # m_iter st' \<and> 1 \<le> j \<and> m_commands st' = m_commands st @ cs \<and> m_unable st' \<and>
     (\<forall>x. shifts M [x] p j a cs)"
proof (induction c arbitrary: st p)
  case Nil
  then show ?case by auto
next
  case (Cons n c)
  have moved: "\<exists>k. n = Stack BLKSWAP 1 (int p) k \<and> 1 \<le> p \<and> m_commands st1 = m_commands st \<and> m_unable st1"
    if st1: "sim_node 1 n st = Some st1" "m_wasMoved st1" for st1
  proof -
    obtain k where n: "n = Stack BLKSWAP 1 (m_stackSize st - 1) k" "m_commands st1 = m_commands st" "m_unable st1"
      using node_sets(3) [OF st1] Cons.prems(3) by blast
    then have "1 \<le> p" using Cons.prems(5,6) by (simp add: stack_wf_def)
    then show ?thesis using n Cons.prems(6) by simp
  qed
  from Cons.prems(1) show ?case
  proof (cases rule: loop_Cons)
    case (pair b c' st1)
    then show ?thesis using Cons.prems by (auto elim!: popdrop_Some)
  next
    case (stop st1)
    then have m: "m_wasMoved st1" using Cons.prems(2) by simp
    obtain k where "n = Stack BLKSWAP 1 (int p) k" "1 \<le> p" "m_commands st1 = m_commands st" "m_unable st1"
      using moved [OF stop(1) m] by blast
    then show ?thesis using stop(3) by (intro exI [of _ "[]"] exI [of _ p] exI [of _ k]) auto
  next
    case (turn st1)
    have ws: "\<not> m_wasSet st1" using turn(5) Cons.prems(4) loop_wasSet by blast
    have wm: "\<not> m_wasMoved st1" using moved [OF turn(1)] turn(2) by blast
    have fn: "fit_node M 1 (m_stackSize st) n" using Cons.prems(5) by simp
    obtain q cs1 where q: "m_stackSize st1 = int (q + 1)" "m_commands st1 = m_commands st @ cs1" "\<And>x. shifts M [x] p q [n] cs1"
      by (rule node_shifts [OF turn(1) fn Cons.prems(6,7) turn(2,3) ws turn(4)]) blast
    obtain a j k cs where "c = a @ Stack BLKSWAP 1 (int j) k # m_iter st'" "1 \<le> j" "m_commands st' = m_commands st1 @ cs" "m_unable st'"
        "\<forall>x. shifts M [x] q j a cs"
      using Cons.IH [OF turn(5) Cons.prems(2) wm Cons.prems(4) _ q(1) turn(3)] Cons.prems(5) turn by (auto simp del: sim_node.simps)
    then show ?thesis
      using q(2) shifts_append [OF q(3)] by (intro exI [of _ "n # a"] exI [of _ j] exI [of _ k] exI [of _ "cs1 @ cs"]) auto
  qed
qed

end
