(* ===== verification/StackOptimizer.thy ===== *)
theory StackOptimizer
  imports SimulatorSound
begin

text \<open>
  \<open>libsolidity/codegen/StackOptimizer.cpp\<close>: the pass that removes values nobody uses. It walks over a function with
  the depth of the stack in each open scope (\<open>m_stackSize\<close>, innermost first here) and asks the simulator at every
  instruction whether a value is dropped before it is used (\<open>successfullyUpdate\<close>).
\<close>

section \<open>The depth of the stack\<close>

record so =
  m_didSome :: bool
  scopes :: "int list" \<comment> \<open>\<open>m_stackSize\<close>, its back first\<close>

definition initStack :: "int \<Rightarrow> so \<Rightarrow> so exc" where
  "initStack sz st = do { _ \<leftarrow> solAssert (scopes st = []); Some (st\<lparr>scopes := [sz]\<rparr>) }"

definition delta :: "int \<Rightarrow> so \<Rightarrow> so exc" where
  "delta d st =
     (case scopes st of
        [] \<Rightarrow> None
      | b # r \<Rightarrow> do { _ \<leftarrow> solAssert (b + d \<ge> 0); Some (st\<lparr>scopes := (b + d) # r\<rparr>) })"

definition so_size :: "so \<Rightarrow> int exc" where
  "so_size st = (case scopes st of [] \<Rightarrow> None | b # _ \<Rightarrow> Some b)"

definition scopeSize :: "so \<Rightarrow> int exc" where
  "scopeSize st = (case scopes st of [] \<Rightarrow> None | [b] \<Rightarrow> Some b | b # o1 # _ \<Rightarrow> Some (b - o1))"

definition startScope :: "so \<Rightarrow> so exc" where
  "startScope st = (case scopes st of [] \<Rightarrow> None | b # r \<Rightarrow> Some (st\<lparr>scopes := b # b # r\<rparr>))"

definition endScope :: "so \<Rightarrow> so exc" where
  "endScope st = (case scopes st of b # o1 # r \<Rightarrow> Some (st\<lparr>scopes := o1 # r\<rparr>) | _ \<Rightarrow> None)"

definition stack_delta :: "stack_opcode \<Rightarrow> int \<Rightarrow> int" where
  "stack_delta p i =
     (case p of
        DROP \<Rightarrow> - i | BLKDROP2 \<Rightarrow> - i | POP_S \<Rightarrow> -1 | BLKPUSH \<Rightarrow> i | PUSH2_S \<Rightarrow> 2 | PUSH3_S \<Rightarrow> 3 | PUSH_S \<Rightarrow> 1
      | BLKSWAP \<Rightarrow> 0 | REVERSE \<Rightarrow> 0 | XCHG \<Rightarrow> 0 | TUCK \<Rightarrow> 1 | PUXC \<Rightarrow> 1)"

section \<open>One update\<close>

text \<open>
  The blocks of \<open>successfullyUpdate\<close>, each on the instruction \<open>op\<close> and the instructions \<open>c\<close> after it. The result is
  \<open>None\<close> when the block does not apply, and otherwise the instructions that replace \<open>op # c\<close>.
\<close>

type_synonym update = "node list option exc"

definition upd_move :: "node \<Rightarrow> node list \<Rightarrow> update" where
  "upd_move op c =
     (if isPureGen01 op then do {
        sim \<leftarrow> simulate 1 1 c;
        let good = (case op of Glob p i \<Rightarrow> p = GetOrGetVar \<and> i \<notin> m_setGlobs sim \<and> \<not> m_wasCall sim | _ \<Rightarrow> True);
        Some (if good \<and> m_wasMoved sim \<and> \<not> m_wasSet sim then Some (m_commands sim @ [op] @ m_iter sim) else None) }
      else Some None)"

definition upd_pop :: "node \<Rightarrow> node list \<Rightarrow> update" where
  "upd_pop op c =
     (case isPOP op of
        None \<Rightarrow> Some None
      | Some startStackSize \<Rightarrow> do {
          sim \<leftarrow> simulate startStackSize 1 c;
          if m_wasSet sim \<or> success sim then do { d \<leftarrow> makeDROP 1; Some (Some (d # c)) } else Some None })"

definition swap_len :: "node \<Rightarrow> int option" where
  "swap_len op =
     (case isREVERSE op of
        Some (n, i) \<Rightarrow> Some (i + n)
      | None \<Rightarrow> (case isBLKSWAP op of
          Some (down, up) \<Rightarrow> Some (down + up)
        | None \<Rightarrow> (case isXCHG_S0 op of Some si \<Rightarrow> Some (si + 1) | None \<Rightarrow> None)))"

definition upd_ignore :: "node \<Rightarrow> node list \<Rightarrow> update" where
  "upd_ignore op c =
     (case swap_len op of
        None \<Rightarrow> Some None
      | Some len \<Rightarrow> do { sim \<leftarrow> simulate len len c; Some (if success sim then Some c else None) })"

definition upd_swap :: "node \<Rightarrow> node list \<Rightarrow> update" where
  "upd_swap op c =
     (if swap_len op \<noteq> None \<and> isSWAP op then do {
        sim \<leftarrow> simulate 2 1 c;
        if success sim then do { d \<leftarrow> makeDROP 1; Some (Some (d # m_commands sim)) } else Some None }
      else Some None)"

definition isPush :: "node \<Rightarrow> int option" where
  "isPush op = (case op of Stack PUSH_S i _ _ \<Rightarrow> Some i | _ \<Rightarrow> None)"

definition upd_delete :: "so \<Rightarrow> node \<Rightarrow> node list \<Rightarrow> update" where
  "upd_delete st op c =
     (case isPush op of
        None \<Rightarrow> Some None
      | Some si \<Rightarrow> do {
          sc \<leftarrow> scopeSize st;
          if si \<le> sc \<and> si > 0 then do {
            sim \<leftarrow> simulate (si + 1) si c;
            if success sim
            then do { d \<leftarrow> makeDROP si; p \<leftarrow> makePUSH 0; Some (Some (d # p # m_commands sim)) }
            else Some None }
          else Some None })"

definition upd_roll :: "node \<Rightarrow> node list \<Rightarrow> update" where
  "upd_roll op c =
     (case isPush op of
        None \<Rightarrow> Some None
      | Some si \<Rightarrow> do {
          sim \<leftarrow> simulate (si + 2) 1 c;
          if success sim
          then (if si \<ge> 1 then do { b \<leftarrow> makeBLKSWAP 1 si; Some (Some (b # m_commands sim)) }
                else Some (Some (m_commands sim)))
          else Some None })"

definition upd_gen :: "node \<Rightarrow> node list \<Rightarrow> update" where
  "upd_gen op c =
     (if isPureGen01 op
      then do { sim \<leftarrow> simulate 1 1 c; Some (if success sim then Some (m_commands sim) else None) }
      else Some None)"

definition upd_front :: "so \<Rightarrow> node option \<Rightarrow> node \<Rightarrow> node list \<Rightarrow> update" where
  "upd_front st prev op c =
     (if isDrop op = None then do {
        sc \<leftarrow> scopeSize st;
        if sc \<ge> 1 \<and> prev \<noteq> Some DeclRetFlag then do {
          sim \<leftarrow> simulate 1 1 (op # c);
          if success sim then do { d \<leftarrow> makeDROP 1; Some (Some (d # m_commands sim)) } else Some None }
        else Some None }
      else Some None)"

definition upd_drop :: "so \<Rightarrow> node \<Rightarrow> node list \<Rightarrow> update" where
  "upd_drop st op c =
     (case isDrop op of
        None \<Rightarrow> Some None
      | Some n \<Rightarrow>
          if c = [] then Some None
          else do {
            sc \<leftarrow> scopeSize st;
            if sc \<ge> n + 1 then do {
              sim \<leftarrow> simulate 1 1 c;
              if success sim then do { d \<leftarrow> makeDROP (n + 1); Some (Some (d # m_commands sim)) } else Some None }
            else Some None })"

text \<open>\<open>if (!ok && ...)\<close>: the first block that applies.\<close>

fun first_update :: "(unit \<Rightarrow> update) list \<Rightarrow> update" where
  "first_update [] = Some None"
| "first_update (u # us) = do { r \<leftarrow> u (); case r of Some c \<Rightarrow> Some (Some c) | None \<Rightarrow> first_update us }"

definition successfullyUpdate :: "so \<Rightarrow> node option \<Rightarrow> node \<Rightarrow> node list \<Rightarrow> update" where
  "successfullyUpdate st prev op c =
     (if isLoc op then Some None
      else first_update
        [\<lambda>_. upd_move op c, \<lambda>_. upd_pop op c, \<lambda>_. upd_ignore op c, \<lambda>_. upd_swap op c, \<lambda>_. upd_delete st op c,
         \<lambda>_. upd_roll op c, \<lambda>_. upd_gen op c, \<lambda>_. upd_front st prev op c, \<lambda>_. upd_drop st op c])"

section \<open>The walk\<close>

text \<open>
  The loop over a block goes on as long as updates apply, so the functions have fuel: \<open>None\<close> is fuel that ran out,
  \<open>Some None\<close> an assertion that failed.
\<close>

definition lift_exc :: "'a exc \<Rightarrow> 'a exc option" where
  "lift_exc x = Some x"

definition check :: "bool \<Rightarrow> 'a \<Rightarrow> 'a exc option" where
  "check b a = Some (if b then Some a else None)"

definition leaf_delta :: "node \<Rightarrow> so \<Rightarrow> int exc" where
  "leaf_delta n st =
     (case n of
        DeclRetFlag \<Rightarrow> Some 1
      | Opaque _ t r _ \<Rightarrow> Some (- t + r)
      | HardCode _ t r _ \<Rightarrow> Some (- t + r)
      | TvmReturn i _ _ \<Rightarrow> Some (if i then -1 else 0)
      | ReturnOrBreakOrCont _ _ \<Rightarrow> do { ss \<leftarrow> scopeSize st; Some (- ss) }
      | TvmException a y i _ _ \<Rightarrow> Some (- exc_take a y i)
      | GenOpcode _ _ _ t r _ \<Rightarrow> Some (- t + r)
      | PushCellOrSlice _ \<Rightarrow> Some 1
      | Glob p _ \<Rightarrow> Some (- glob_take p + glob_ret p)
      | Stack p i _ _ \<Rightarrow> Some (stack_delta p i)
      | _ \<Rightarrow> None)"

fun so_node :: "nat \<Rightarrow> node \<Rightarrow> so \<Rightarrow> (so \<times> node) exc option"
and so_scope :: "nat \<Rightarrow> code_block \<Rightarrow> int \<Rightarrow> int \<Rightarrow> so \<Rightarrow> (so \<times> code_block) exc option"
and so_block :: "nat \<Rightarrow> code_block \<Rightarrow> so \<Rightarrow> (so \<times> code_block) exc option"
and so_loop :: "nat \<Rightarrow> node list \<Rightarrow> node list \<Rightarrow> so \<Rightarrow> (so \<times> node list) exc option" where
  "so_node 0 n st = None"
| "so_node (Suc k) n st =
     (case n of
        Loc _ _ \<Rightarrow> Some (Some (st, n))
      | BlockNode b \<Rightarrow> then_pass (so_block k b st) (\<lambda>(st1, b'). Some (Some (st1, BlockNode b')))
      | SubProgram t r jm b p \<Rightarrow>
          then_pass (lift_exc (delta (- t) st)) (\<lambda>st1.
          then_pass (lift_exc (startScope st1)) (\<lambda>st2.
          then_pass (lift_exc (delta t st2)) (\<lambda>st3.
          then_pass (so_block k b st3) (\<lambda>(st4, b').
          then_pass (lift_exc (endScope st4)) (\<lambda>st5.
          then_pass (lift_exc (delta r st5)) (\<lambda>st6. check (so_size st6 = map_option (\<lambda>s. s - t + r) (so_size st)) (st6, SubProgram t r jm b' p)))))))
      | LogCircuit t b \<Rightarrow>
          then_pass (lift_exc (delta (-2) st)) (\<lambda>st1.
          then_pass (lift_exc (startScope st1)) (\<lambda>st2.
          then_pass (lift_exc (delta 1 st2)) (\<lambda>st3.
          then_pass (so_block k b st3) (\<lambda>(st4, b').
          then_pass (check (so_size st4 = map_option (\<lambda>s. s - 1) (so_size st)) st4) (\<lambda>st4.
          then_pass (lift_exc (endScope st4)) (\<lambda>st5.
          then_pass (lift_exc (delta 1 st5)) (\<lambda>st6. check (so_size st6 = map_option (\<lambda>s. s - 1) (so_size st)) (st6, LogCircuit t b'))))))))
      | TvmIfElse w jm t e r \<Rightarrow>
          then_pass (lift_exc (delta (-1) st)) (\<lambda>st1.
          then_pass (so_scope k t 0 0 st1) (\<lambda>(st2, t').
          then_pass (case e of None \<Rightarrow> Some (Some (st2, None))
                   | Some e \<Rightarrow> then_pass (so_scope k e 0 0 st2) (\<lambda>(st3, e'). Some (Some (st3, Some e')))) (\<lambda>(st3, e').
          then_pass (lift_exc (delta r st3)) (\<lambda>st4. Some (Some (st4, TvmIfElse w jm t' e' r))))))
      | TvmRepeat bk b \<Rightarrow>
          then_pass (lift_exc (delta (-1) st)) (\<lambda>st1.
          then_pass (so_scope k b 0 1 st1) (\<lambda>(st2, b'). check (so_size st2 = map_option (\<lambda>s. s - 1) (so_size st)) (st2, TvmRepeat bk b')))
      | TvmUntil bk b \<Rightarrow>
          then_pass (so_scope k b 1 1 st) (\<lambda>(st1, b'). Some (Some (st1, TvmUntil bk b')))
      | While ag bk c b \<Rightarrow>
          then_pass (so_scope k c 1 1 st) (\<lambda>(st1, c').
          then_pass (so_scope k b 0 1 st1) (\<lambda>(st2, b'). Some (Some (st2, While ag bk c' b'))))
      | _ \<Rightarrow>
          then_pass (lift_exc (leaf_delta n st)) (\<lambda>d.
          then_pass (lift_exc (delta d st)) (\<lambda>st1. Some (Some (st1, n)))))"
| "so_scope 0 b grown tested st = None"
| "so_scope (Suc k) b grown tested st =
     then_pass (lift_exc (startScope st)) (\<lambda>st1.
     then_pass (so_block k b st1) (\<lambda>(st2, b').
     then_pass (check (tested = 0 \<or> so_size st2 = map_option (\<lambda>s. s + grown) (so_size st)) st2) (\<lambda>st2.
     then_pass (lift_exc (endScope st2)) (\<lambda>st3. check (so_size st3 = so_size st) (st3, b')))))"
| "so_block 0 b st = None"
| "so_block (Suc k) (CodeBlock bt c) st = then_pass (so_loop k [] c st) (\<lambda>(st1, c'). Some (Some (st1, CodeBlock bt c')))"
| "so_loop 0 done1 c st = None"
| "so_loop (Suc k) done1 [] st = Some (Some (st, done1))"
| "so_loop (Suc k) done1 (n # c) st =
     then_pass (lift_exc (successfullyUpdate st (if done1 = [] then None else Some (last done1)) n c)) (\<lambda>u.
       case u of
         Some c' \<Rightarrow> so_loop k done1 c' (st\<lparr>m_didSome := True\<rparr>)
       | None \<Rightarrow> then_pass (so_node k n st) (\<lambda>(st1, n'). so_loop k (done1 @ [n']) c st1))"

text \<open>\<open>visit(Function&)\<close>: at most \<open>IterStackOptQty\<close> rounds.\<close>

definition IterStackOptQty :: nat where "IterStackOptQty = 10"

fun so_rounds :: "nat \<Rightarrow> nat \<Rightarrow> int \<Rightarrow> code_block \<Rightarrow> so \<Rightarrow> (so \<times> code_block) exc option" where
  "so_rounds fuel 0 take1 b st = Some (Some (st, b))"
| "so_rounds fuel (Suc i) take1 b st =
     then_pass (lift_exc (initStack take1 \<lparr>m_didSome = False, scopes = []\<rparr>)) (\<lambda>st1.
     then_pass (so_block fuel b st1) (\<lambda>(st2, b'). if m_didSome st2 then so_rounds fuel i take1 b' st2 else Some (Some (st2, b'))))"

definition so_function :: "nat \<Rightarrow> tvm_function \<Rightarrow> so \<Rightarrow> (so \<times> tvm_function) exc option" where
  "so_function fuel f st =
     (if f_type f \<in> {PrivateFunction, Macro, OnCodeUpgrade, OnTickTock} \<and> f_name f \<noteq> ''c7_to_c4_for_await''
      then then_pass (so_rounds fuel IterStackOptQty (f_take f) (f_block f) st) (\<lambda>(st1, b). Some (Some (st1, f\<lparr>f_block := b\<rparr>)))
      else Some (Some (st, f)))"

fun so_functions :: "nat \<Rightarrow> tvm_function list \<Rightarrow> so \<Rightarrow> (so \<times> tvm_function list) exc option" where
  "so_functions fuel [] st = Some (Some (st, []))"
| "so_functions fuel (f # fs) st =
     then_pass (so_function fuel f st) (\<lambda>(st1, f'). then_pass (so_functions fuel fs st1) (\<lambda>(st2, fs'). Some (Some (st2, f' # fs'))))"

definition so_contract :: "nat \<Rightarrow> contract \<Rightarrow> contract exc option" where
  "so_contract fuel c =
     then_pass (so_functions fuel (contract_functions c) \<lparr>m_didSome = False, scopes = []\<rparr>)
       (\<lambda>(_, fs). Some (Some (c\<lparr>contract_functions := fs\<rparr>)))"

end
