(* ===== verification/StackOptimizerSound.thy ===== *)
theory StackOptimizerSound
  imports StackOptimizer
begin

text \<open>
  The updates of the stack optimiser are right: the instructions that \<open>successfullyUpdate\<close> writes have the runs of
  the instructions they replace. Values of pure instructions have to survive the move of the first rule, which is
  what the tests for globals and calls are for.
\<close>

section \<open>Lists with the same runs\<close>

definition alike :: "'w machine \<Rightarrow> node list \<Rightarrow> node list \<Rightarrow> bool" where
  "alike M c c' = (\<forall>s r. run M c' s r \<longleftrightarrow> run M c s r)"

lemma alikeI: "(\<And>s r. run M c' s r \<longleftrightarrow> run M c s r) \<Longrightarrow> alike M c c'"
  by (simp add: alike_def)

lemma alike_refl [simp]: "alike M c c"
  by (simp add: alike_def)

lemma alike_trans: "alike M a b \<Longrightarrow> alike M b c \<Longrightarrow> alike M a c"
  by (simp add: alike_def)

lemma alike_append: "alike M c c' \<Longrightarrow> alike M (a @ c) (a @ c')"
  by (simp add: alike_def run_append)

text \<open>Code that every simulation can go through.\<close>

definition fits :: "'w machine \<Rightarrow> node list \<Rightarrow> bool" where
  "fits M c = (\<forall>seg sz. 1 \<le> seg \<longrightarrow> seg \<le> sz \<longrightarrow> fit_list M seg (sim_new sz) c)"

lemma simulated:
  assumes "simulate sz seg c = Some sim" "success sim" "fits M c" "sz = int (p + length xs)" "seg = int (length xs)" "1 \<le> length xs"
  shows "discards M xs p c (m_commands sim)"
  using assms by (intro simulate_success) (auto simp: fits_def)

lemma simulated_set:
  assumes "simulate sz 1 c = Some sim" "m_wasSet sim" "fits M c" "sz = int (p + 1)"
  shows "ignores M p c"
proof -
  obtain s where s: "sim_loop 1 c (sim_new sz) = Some s" "m_wasSet s"
    using assms(1,2) by (auto simp: simulate_def bind_eq_Some_conv)
  have fit: "fit_list M 1 (sim_new sz) c" using assms(3,4) by (simp add: fits_def)
  show ?thesis by (rule loop_ignores [OF s _ fit]) (simp_all add: assms(4))
qed

lemma run_discards: "discards M xs p c cs \<Longrightarrow> t = ins p xs t' \<Longrightarrow> run M c (set_stk s t) r \<longleftrightarrow> run M cs (set_stk s t') r"
  unfolding discards_def by (metis shift_set)

lemma alike_discards:
  fixes M :: "'w machine"
  assumes op: "stk_is op f" and new: "stk_is op' f'"
    and d: "\<And>t. \<exists>xs. length xs = m \<and> f t = ins p xs (f' t)" and cs: "\<And>xs. length xs = m \<Longrightarrow> discards M xs p c cs"
  shows "alike M (op # c) (op' # cs)"
proof (rule alikeI)
  fix s :: "'w st" and r
  obtain xs where "length xs = m" "f (stk s) = ins p xs (f' (stk s))" using d by blast
  then show "run M (op' # cs) s r \<longleftrightarrow> run M (op # c) s r"
    using run_discards [OF cs] by (simp add: run_stk_is [OF op] run_stk_is [OF new])
qed

section \<open>The blocks of the update\<close>

lemma top_ins: "t = ins 0 (map t [0..<n]) (sdrop n t)"
  by (rule ext) (auto simp: ins_def sdrop_def)

lemma keeps_below:
  assumes "\<And>k. n \<le> k \<Longrightarrow> u k = t k"
  shows "\<exists>xs. length xs = n \<and> u = ins 0 xs (sdrop n t)"
  by (rule exI [of _ "map u [0..<n]"]) (auto simp: ins_def sdrop_def assms)

lemma swap_len_view:
  assumes "swap_len op = Some len" "wfn M mul op"
  obtains n f where "len = int n" "1 \<le> n" "stk_is op f" "\<forall>t k. n \<le> k \<longrightarrow> f t k = t k"
proof -
  have rev: "sreverse a b t k = t k" if "b + a \<le> k" for a b t k using that by (simp add: sreverse_def)
  have swap: "sblkswap a b t k = t k" if "a + b \<le> k" for a b t k using that by (simp add: sblkswap_def)
  have xchg: "sxchg 0 a t k = t k" if "a + 1 \<le> k" for a t k using that by (simp add: sxchg_closed)
  consider q i where "isREVERSE op = Some (q, i)" "len = i + q"
    | d u where "isBLKSWAP op = Some (d, u)" "len = d + u" | si where "isXCHG_S0 op = Some si" "len = si + 1"
    using assms(1) unfolding swap_len_def by (auto split: option.split_asm prod.split_asm)
  then show thesis
  proof cases
    case (1 q i)
    then obtain a b where "q = int a" "i = int b" "2 \<le> a" "stk_is op (sreverse a b)"
      using isREVERSE_view [OF _ assms(2)] by blast
    then show thesis using that [of "b + a" "sreverse a b"] rev 1(2) by simp
  next
    case (2 d u)
    then obtain a b where "d = int a" "u = int b" "1 \<le> a" "stk_is op (sblkswap a b)"
      using isBLKSWAP_view [OF _ assms(2)] by blast
    then show thesis using that [of "a + b" "sblkswap a b"] swap 2(2) by simp
  next
    case (3 si)
    then obtain a where "si = int a" "stk_is op (sxchg 0 a)" using isXCHG_S0_view [OF _ assms(2)] by blast
    then show thesis using that [of "a + 1" "sxchg 0 a"] xchg 3(2) by simp
  qed
qed

lemma upd_ignore_alike:
  assumes "upd_ignore op c = Some (Some c')" "fits M c" "wfn M mul op"
  shows "alike M (op # c) c'"
proof -
  obtain len where len: "swap_len op = Some len" using assms(1) by (cases "swap_len op") (auto simp: upd_ignore_def)
  then obtain sim where sim: "simulate len len c = Some sim" "(if success sim then Some c else None) = Some c'"
    using assms(1) unfolding upd_ignore_def by (simp add: bind_eq_Some_conv) metis
  have u: "success sim" "c' = c" using sim(2) by (simp_all split: if_split_asm)
  obtain n f where n: "len = int n" "1 \<le> n" "stk_is op f" "\<forall>t k. n \<le> k \<longrightarrow> f t k = t k"
    by (rule swap_len_view [OF len assms(3)])
  have d: "discards M xs 0 c (m_commands sim)" if "length xs = n" for xs
    using simulated [OF sim(1) u(1) assms(2)] n(1,2) that by simp
  have "run M (op # c) s r \<longleftrightarrow> run M c s r" for s r
  proof -
    obtain xs where xs: "length xs = n" "f (stk s) = ins 0 xs (sdrop n (stk s))" using keeps_below [of n "f (stk s)" "stk s"] n(4) by blast
    have "run M c s r \<longleftrightarrow> run M c (set_stk s (stk s)) r" by simp
    also have "\<dots> \<longleftrightarrow> run M (m_commands sim) (set_stk s (sdrop n (stk s))) r"
      using top_ins [of "stk s" n] by (intro run_discards [OF d [of "map (stk s) [0..<n]"]]) auto
    also have "\<dots> \<longleftrightarrow> run M (op # c) s r"
      using run_discards [OF d [OF xs(1)] xs(2)] by (simp add: run_stk_is [OF n(3)])
    finally show ?thesis by simp
  qed
  then show ?thesis using u(2) by (simp add: alike_def)
qed

lemma makeDROP_is: "makeDROP n = Some d \<Longrightarrow> stk_is d (sdrop (nat n)) \<and> 1 \<le> n"
  using makeDROP_view by fastforce

lemma upd_swap_alike:
  assumes "upd_swap op c = Some (Some c')" "fits M c" "wfn M mul op"
  shows "alike M (op # c) c'"
proof -
  obtain sim d where u: "isSWAP op" "simulate 2 1 c = Some sim" "success sim" "makeDROP 1 = Some d" "c' = d # m_commands sim"
    using assms(1) by (auto simp: upd_swap_def bind_eq_Some_conv split: if_splits)
  have "sxchg 0 1 t = ins 1 [t 0] (sdrop 1 t)" for t by (rule ext) (auto simp: ins_def closed_forms)
  then show ?thesis
    unfolding u(5) using simulated [OF u(2,3) assms(2), of 1] makeDROP_is [OF u(4)]
    by (intro alike_discards [where m = 1 and p = 1, OF isSWAP_view [OF u(1) assms(3)]]) force+
qed

lemma upd_pop_alike:
  assumes "upd_pop op c = Some (Some c')" "fits M c" "wfn M mul op"
  shows "alike M (op # c) c'"
proof -
  obtain i sim d where u: "isPOP op = Some i" "simulate i 1 c = Some sim" "m_wasSet sim \<or> success sim" "makeDROP 1 = Some d" "c' = d # c"
    using assms(1) by (auto simp: upd_pop_def bind_eq_Some_conv split: option.splits if_splits)
  obtain p where p: "i = int (p + 1)" "stk_is op (spop (p + 1))"
  proof -
    obtain q where "i = int q" "1 \<le> q" "stk_is op (spop q)" using isPOP_view [OF u(1) assms(3)] by blast
    then show thesis using that [of "q - 1"] by simp
  qed
  have same: "run M c (shift_st p [x] s) r \<longleftrightarrow> run M c (shift_st p [y] s) r" for x y s r
    using u(3) simulated_set [OF u(2) _ assms(2) p(1)] discards_same [of M "[x]" p c "m_commands sim" "[y]"]
      simulated [OF u(2) _ assms(2), of p "[x]"] simulated [OF u(2) _ assms(2), of p "[y]"] p(1)
    by (auto simp: ignores_def)
  have st: "set_stk s (spop (p + 1) (stk s)) = shift_st p [stk s 0] (set_stk s (sblkdrop2 1 p (sdrop 1 (stk s))))"
    "set_stk s (sdrop 1 (stk s)) = shift_st p [stk s (p + 1)] (set_stk s (sblkdrop2 1 p (sdrop 1 (stk s))))" for s
    by (auto simp: ins_def closed_forms intro!: arg_cong [where f = "set_stk s"] stack_cong ext)
  have d: "stk_is d (sdrop 1)" using makeDROP_is [OF u(4)] by simp
  show ?thesis unfolding alike_def u(5) run_stk_is [OF p(2)] run_stk_is [OF d] st using same by blast
qed

lemma upd_delete_alike:
  assumes "upd_delete st op c = Some (Some c')" "fits M c"
  shows "alike M (op # c) c'"
proof -
  obtain i sim d q where u: "isPush op = Some i" "1 \<le> i" "simulate (i + 1) i c = Some sim" "success sim"
      "makeDROP i = Some d" "makePUSH 0 = Some q" "c' = d # q # m_commands sim"
    using assms(1) by (auto simp: upd_delete_def bind_eq_Some_conv split: option.split_asm if_split_asm)
  obtain n where n: "i = int n" "1 \<le> n" using u(2) by (metis nat_0_le nat_mono nat_one_as_int zero_le_one order_trans)
  have op: "stk_is op (spushs n)"
    using u(1) n by (auto simp: isPush_def stack_ok_def stack_fun_def intro!: stk_isI split: node.split_asm stack_opcode.split_asm)
  have d: "stk_is d (sdrop n)" using makeDROP_is [OF u(5)] n by simp
  have q: "stk_is q (spushs 0)" using makePUSH_view [OF u(6)] by auto
  have t: "spushs n t = ins 1 (map t [0..<n]) (spushs 0 (sdrop n t))" for t
    by (rule ext) (auto simp: ins_def closed_forms)
  have ds: "discards M xs 1 c (m_commands sim)" if "length xs = n" for xs
    using simulated [OF u(3,4) assms(2), of 1 xs] that n by simp
  have "run M c (set_stk s (spushs n (stk s))) r \<longleftrightarrow> run M (m_commands sim) (set_stk s (spushs 0 (sdrop n (stk s)))) r" for s r
    by (rule run_discards [OF ds t]) simp
  then show ?thesis by (simp add: alike_def u(7) run_stk_is [OF op] run_stk_is [OF d] run_stk_is [OF q])
qed

lemma upd_roll_alike:
  assumes "upd_roll op c = Some (Some c')" "fits M c" "wfn M mul op"
  shows "alike M (op # c) c'"
proof -
  obtain i sim where u: "isPush op = Some i" "simulate (i + 2) 1 c = Some sim" "success sim"
      "c' = m_commands sim \<and> i < 1 \<or> (\<exists>b. makeBLKSWAP 1 i = Some b \<and> c' = b # m_commands sim)"
    using assms(1) by (auto simp: upd_roll_def bind_eq_Some_conv split: option.split_asm if_split_asm)
  obtain n where n: "i = int n" "stk_is op (spushs n)"
    using u(1) assms(3)
    by (auto simp: isPush_def stack_ok_def stack_wf_def stack_fun_def intro!: that [of "nat i"] stk_isI
        split: node.split_asm stack_opcode.split_asm)
  have t: "spushs n t = ins (Suc n) [t n] (sblkswap 1 n t)" for t
    by (rule ext) (auto simp: ins_def closed_forms intro: stack_cong)
  have ds: "discards M [x] (Suc n) c (m_commands sim)" for x
    using simulated [OF u(2,3) assms(2), of "Suc n" "[x]"] n by simp
  have run: "run M (op # c) s r \<longleftrightarrow> run M (m_commands sim) (set_stk s (sblkswap 1 n (stk s))) r" for s r
    unfolding run_stk_is [OF n(2)] by (rule run_discards [OF ds t])
  from u(4) show ?thesis
  proof (elim disjE conjE exE)
    assume c': "c' = m_commands sim" "i < 1"
    then have "n = 0" using n(1) by simp
    then show ?thesis unfolding alike_def c' run by (simp add: swap_none)
  next
    fix b assume b: "makeBLKSWAP 1 i = Some b" "c' = b # m_commands sim"
    then have "stk_is b (sblkswap 1 n)" using makeBLKSWAP_view [OF b(1)] n(1) by auto
    then show ?thesis unfolding alike_def b(2) run by (simp add: run_stk_is)
  qed
qed

text \<open>A pure instruction whose value nobody uses, and code that does not use the top value.\<close>

lemma pushes_run_after:
  assumes "pushes M n"
  obtains f where "\<And>s r. run1 M n s r \<longleftrightarrow> r = Norm (set_stk s (spush (f (glb s) (wld s)) (stk s)))"
  using assms unfolding pushes_def by blast

lemma spush_ins: "spush v t = ins 0 [v] t"
  by (rule ext) (auto simp: spush_def ins_def)

lemma upd_gen_alike:
  assumes "upd_gen op c = Some (Some c')" "fits M c" "wfn M mul op"
  shows "alike M (op # c) c'"
proof -
  obtain sim where u: "isPureGen01 op" "simulate 1 1 c = Some sim" "success sim" "c' = m_commands sim"
    using assms(1) by (auto simp: upd_gen_def bind_eq_Some_conv split: if_split_asm)
  obtain f where f: "run1 M op s r \<longleftrightarrow> r = Norm (set_stk s (spush (f (glb s) (wld s)) (stk s)))" for s r
    using pushes_run_after [OF pure_pushes [OF u(1) assms(3)]] by blast
  have ds: "discards M [x] 0 c c'" for x using simulated [OF u(2,3) assms(2), of 0 "[x]"] u(4) by simp
  have "run M (op # c) s r \<longleftrightarrow> run M c (set_stk s (spush (f (glb s) (wld s)) (stk s))) r" for s r
    by (auto simp: run_Cons_iff f is_norm_def)
  also have "\<dots> s r \<longleftrightarrow> run M c' s r" for s r
    using run_discards [OF ds spush_ins, of s "f (glb s) (wld s)" "stk s" r] by simp
  finally show ?thesis by (simp add: alike_def)
qed

lemma upd_front_alike:
  assumes "upd_front st prev op c = Some (Some c')" "fits M (op # c)"
  shows "alike M (op # c) c'"
proof -
  obtain sim d where u: "simulate 1 1 (op # c) = Some sim" "success sim" "makeDROP 1 = Some d" "c' = d # m_commands sim"
    using assms(1) by (auto simp: upd_front_def bind_eq_Some_conv split: if_split_asm)
  have d: "stk_is d (sdrop 1)" using makeDROP_is [OF u(3)] by simp
  have ds: "discards M [x] 0 (op # c) (m_commands sim)" for x using simulated [OF u(1,2) assms(2), of 0 "[x]"] by simp
  have t: "t = ins 0 [t 0] (sdrop 1 t)" for t by (rule ext) (auto simp: ins_def sdrop_def)
  have "run M (op # c) s r \<longleftrightarrow> run M (m_commands sim) (set_stk s (sdrop 1 (stk s))) r" for s r
    using run_discards [OF ds t, of s "stk s" r] by simp
  then show ?thesis by (simp add: alike_def u(4) run_stk_is [OF d])
qed

lemma upd_drop_alike:
  assumes "upd_drop st op c = Some (Some c')" "fits M c" "wfn M mul op"
  shows "alike M (op # c) c'"
proof -
  obtain n sim d where u: "isDrop op = Some n" "simulate 1 1 c = Some sim" "success sim" "makeDROP (n + 1) = Some d"
      "c' = d # m_commands sim"
    using assms(1) by (auto simp: upd_drop_def bind_eq_Some_conv split: option.split_asm if_split_asm)
  obtain k where k: "n = int k" "stk_is op (sdrop k)" using isDrop_view [OF u(1) assms(3)] by blast
  then have d: "stk_is d (sdrop (k + 1))" using makeDROP_is [OF u(4)] by (simp add: nat_add_distrib)
  have ds: "discards M [x] 0 c (m_commands sim)" for x using simulated [OF u(2,3) assms(2), of 0 "[x]"] by simp
  have t: "sdrop k t = ins 0 [t k] (sdrop (k + 1) t)" for t by (rule ext) (auto simp: ins_def sdrop_def intro: stack_cong)
  have "run M c (set_stk s (sdrop k (stk s))) r \<longleftrightarrow> run M (m_commands sim) (set_stk s (sdrop (k + 1) (stk s))) r" for s r
    by (rule run_discards [OF ds t])
  then show ?thesis by (simp add: alike_def u(5) run_stk_is [OF d] run_stk_is [OF k(2)])
qed

text \<open>
  The moved instruction. Its value must be the same after the instructions it moves over.
\<close>

definition steady :: "'w machine \<Rightarrow> node \<Rightarrow> node list \<Rightarrow> bool" where
  "steady M n c =
     (\<forall>s t v. run M c s (Norm t) \<longrightarrow> run1 M n s (Norm (set_stk s (spush v (stk s)))) \<longrightarrow>
        run1 M n t (Norm (set_stk t (spush v (stk t)))))"

definition steady_after :: "'w machine \<Rightarrow> node \<Rightarrow> node list \<Rightarrow> bool" where
  "steady_after M n c =
     (\<forall>sim. simulate 1 1 c = Some sim \<longrightarrow> upd_move n c \<noteq> Some None \<longrightarrow> steady M n (m_commands sim))"

lemma spush_inj: "spush v t = spush w t \<Longrightarrow> v = w"
  by (drule fun_cong [of _ _ 0]) (simp add: spush_def)

lemma steady_const:
  assumes "\<And>s r. run1 M n s r \<longleftrightarrow> r = Norm (set_stk s (spush v (stk s)))"
  shows "steady_after M n c"
proof -
  show ?thesis unfolding steady_after_def steady_def assms by (auto dest: spush_inj)
qed

lemma upd_move_alike:
  assumes "upd_move op c = Some (Some c')" "fits M c" "wfn M mul op" "steady_after M op c"
  shows "alike M (op # c) c'"
proof -
  obtain sim where u: "isPureGen01 op" "simulate 1 1 c = Some sim" "m_wasMoved sim" "\<not> m_wasSet sim" "c' = m_commands sim @ op # m_iter sim"
    using assms(1) by (auto simp: upd_move_def bind_eq_Some_conv Let_def split: if_split_asm)
  obtain st where st: "sim_loop 1 c (sim_new 1) = Some st" "sim = sim_finish st"
    using u(2) by (auto simp: simulate_def bind_eq_Some_conv)
  have fit: "fit_list M 1 (sim_new 1) c" using assms(2) by (simp add: fits_def)
  have w: "m_wasMoved st" "\<not> m_wasSet st" using u(3,4) st(2) by (auto simp: sim_finish_def split: if_split_asm)
  obtain a j k cs where m: "c = a @ Stack BLKSWAP 1 (int j) k # m_iter st" "1 \<le> j" "m_commands st = cs" "m_unable st"
      "\<And>x. shifts M [x] 0 j a cs"
    using loop_moved [OF st(1) w(1) _ w(2) fit, of 0] by auto
  then have c': "c' = cs @ op # m_iter st" "sim = st" using u(5) st(2) by (auto simp: sim_finish_def success_def)
  obtain f where f: "run1 M op s r \<longleftrightarrow> r = Norm (set_stk s (spush (f (glb s) (wld s)) (stk s)))" for s r
    using pushes_run_after [OF pure_pushes [OF u(1) assms(3)]] by blast
  then have op: "run M (op # b) s r \<longleftrightarrow> run M b (set_stk s (spush (f (glb s) (wld s)) (stk s))) r" for b s r
    by (auto simp: run_Cons_iff is_norm_def)
  have still: "f (glb t) (wld t) = f (glb s) (wld s)" if "run M cs s (Norm t)" for s t
  proof -
    have "steady M op cs" using assms(1,4) u(2) m(3) c'(2) by (auto simp: steady_after_def)
    then have "set_stk t (spush (f (glb t) (wld t)) (stk t)) = set_stk t (spush (f (glb s) (wld s)) (stk t))"
      using that unfolding steady_def f by (metis outcome.inject(1))
    then have "spush (f (glb t) (wld t)) (stk t) 0 = spush (f (glb s) (wld s)) (stk t) 0" by simp
    then show ?thesis by (simp add: spush_def)
  qed
  have swap: "stk_is (Stack BLKSWAP 1 (int j) k) (sblkswap 1 j)" using m(2) by (intro stk_isI) (auto simp: stack_ok_def stack_fun_def)
  have up: "sblkswap 1 j (ins j [v] t) = spush v t" for v t
    by (rule ext) (auto simp: ins_def closed_forms intro: stack_cong)
  have "run M (op # c) s r \<longleftrightarrow> run M c' s r" for s r
  proof -
    let ?v = "f (glb s) (wld s)"
    have "run M (op # c) s r \<longleftrightarrow> run M (a @ Stack BLKSWAP 1 (int j) k # m_iter st) (shift_st 0 [?v] s) r"
      unfolding op m(1) by (simp add: shift_st_def spush_ins)
    also have "\<dots> \<longleftrightarrow> (\<exists>t. run M cs s (Norm t) \<and> run M (m_iter st) (set_stk t (spush ?v (stk t))) r) \<or> (run M cs s r \<and> \<not> is_norm r)"
      unfolding run_shifted [OF m(5)] run_stk_is [OF swap] shift_st_simps shift_st_set up ..
    also have "\<dots> \<longleftrightarrow> run M c' s r"
      unfolding c'(1) run_append op using still by metis
    finally show ?thesis .
  qed
  then show ?thesis by (simp add: alike_def)
qed

section \<open>The update\<close>

lemma first_update_Some: "first_update us = Some (Some c) \<Longrightarrow> \<exists>u \<in> set us. u () = Some (Some c)"
  by (induction us) (auto simp: bind_eq_Some_conv split: option.split_asm)

lemma update_alike:
  assumes "successfullyUpdate st prev op c = Some (Some c')" "fits M c" "fits M (op # c)" "wfn M mul op" "steady_after M op c"
  shows "alike M (op # c) c'"
proof -
  consider "upd_move op c = Some (Some c')" | "upd_pop op c = Some (Some c')" | "upd_ignore op c = Some (Some c')"
    | "upd_swap op c = Some (Some c')" | "upd_delete st op c = Some (Some c')" | "upd_roll op c = Some (Some c')"
    | "upd_gen op c = Some (Some c')" | "upd_front st prev op c = Some (Some c')" | "upd_drop st op c = Some (Some c')"
    using assms(1) by (auto simp: successfullyUpdate_def split: if_split_asm dest!: first_update_Some simp del: first_update.simps)
  then show ?thesis
    using assms(2-5) upd_move_alike upd_pop_alike upd_ignore_alike upd_swap_alike upd_delete_alike upd_roll_alike upd_gen_alike
      upd_front_alike upd_drop_alike by cases blast+
qed

section \<open>Straight-line code\<close>

text \<open>
  Instructions without nested code that touch the stack as they declare, write only the globals that \<open>SETGLOB\<close>
  names, and push a constant if they are pure and no \<open>Glob\<close>.
\<close>

fun leaf :: "node \<Rightarrow> bool" where
  "leaf (Loc f l) = True"
| "leaf (Stack p i j k) = True"
| "leaf (Glob p i) = True"
| "leaf DeclRetFlag = True"
| "leaf (Opaque b t r p) = True"
| "leaf (HardCode c t r p) = True"
| "leaf (GenOpcode opc a c t r p) = True"
| "leaf (TvmException a y i m p) = True"
| "leaf (PushCellOrSlice c) = True"
| "leaf n = False"

definition isCall :: "node \<Rightarrow> bool" where
  "isCall n = (case n of GenOpcode opc _ _ _ _ _ \<Rightarrow> opc = ''CALL'' | _ \<Rightarrow> False)"

definition globals_kept :: "'w machine \<Rightarrow> node \<Rightarrow> bool" where
  "globals_kept M n =
     (\<forall>s t j. run1 M n s (Norm t) \<longrightarrow> n \<noteq> Glob SetOrSetVar j \<longrightarrow> \<not> isCall n \<longrightarrow> glb t j = glb s j)"

definition const_value :: "'w machine \<Rightarrow> node \<Rightarrow> bool" where
  "const_value M n = (\<exists>v. \<forall>s r. run1 M n s r \<longleftrightarrow> r = Norm (set_stk s (spush v (stk s))))"

definition straight :: "'w machine \<Rightarrow> bool \<Rightarrow> node \<Rightarrow> bool" where
  "straight M mul n =
     (leaf n \<and> wfn M mul n \<and> fit_node M 1 1 n \<and> globals_kept M n \<and>
      (isPureGen01 n \<longrightarrow> (\<exists>p i. n = Glob p i) \<or> const_value M n))"

lemma fit_leaf: "leaf n \<Longrightarrow> fit_node M seg sz n = fit_node M 1 1 n"
  by (cases n) auto

lemma fits_leaves: "\<forall>n \<in> set c. leaf n \<and> fit_node M 1 1 n \<Longrightarrow> fits M c"
  unfolding fits_def
proof (intro allI impI)
  fix seg sz :: int
  assume c: "\<forall>n \<in> set c. leaf n \<and> fit_node M 1 1 n"
  have "fit_list M seg st c" for st
    using c
  proof (induction c arbitrary: st)
    case (Cons n c)
    have "fit_node M seg (m_stackSize st) n" using fit_leaf [of n M seg "m_stackSize st"] Cons.prems by simp
    then show ?case using Cons by (simp del: sim_node.simps fit_node.simps split: option.split)
  qed simp
  then show "fit_list M seg (sim_new sz) c" .
qed

lemma straight_fits: "\<forall>n \<in> set c. straight M mul n \<Longrightarrow> fits M c"
  by (rule fits_leaves) (auto simp: straight_def)

text \<open>The simulator writes straight-line code for straight-line code, and knows the globals it sets.\<close>

lemma straight_Stack: "stack_wf p i j k \<Longrightarrow> straight M mul (Stack p i j k)"
  by (auto simp: straight_def globals_kept_def run1_Stack isPureGen01_def isCall_def norm_def)

definition tracked :: "'w machine \<Rightarrow> bool \<Rightarrow> sim \<Rightarrow> bool" where
  "tracked M mul st =
     (\<forall>n \<in> set (m_commands st). straight M mul n \<and> (\<forall>i. n = Glob SetOrSetVar i \<longrightarrow> i \<in> m_setGlobs st) \<and> (isCall n \<longrightarrow> m_wasCall st))"

definition grown :: "sim \<Rightarrow> sim \<Rightarrow> bool" where
  "grown st st' =
     (m_setGlobs st' = m_setGlobs st \<and> m_wasCall st' = m_wasCall st \<and>
      (m_commands st' = m_commands st \<or>
       (\<exists>p i j k. m_commands st' = m_commands st @ [Stack p i j k] \<and> stack_wf p i j k)))"

lemma grown_simps [simp]:
  "m_setGlobs (emit n st) = m_setGlobs st" "m_wasCall (emit n st) = m_wasCall st"
  "m_setGlobs (grow d st) = m_setGlobs st" "m_wasCall (grow d st) = m_wasCall st"
  "m_setGlobs (unable st) = m_setGlobs st" "m_wasCall (unable st) = m_wasCall st" "m_commands (unable st) = m_commands st"
  by (simp_all add: sim_ops)

lemma make_wf:
  "makeDROP n = Some d \<Longrightarrow> \<exists>p i j k. d = Stack p i j k \<and> stack_wf p i j k"
  "makeBLKDROP2 n l = Some d \<Longrightarrow> \<exists>p i j k. d = Stack p i j k \<and> stack_wf p i j k"
  "makeBLKPUSH n l = Some d \<Longrightarrow> \<exists>p i j k. d = Stack p i j k \<and> stack_wf p i j k"
  "makeREVERSE n l = Some d \<Longrightarrow> \<exists>p i j k. d = Stack p i j k \<and> stack_wf p i j k"
  "makeBLKSWAP n l = Some d \<Longrightarrow> \<exists>p i j k. d = Stack p i j k \<and> stack_wf p i j k"
  "makePUSH n = Some d \<Longrightarrow> \<exists>p i j k. d = Stack p i j k \<and> stack_wf p i j k"
  by (auto simp: makeDROP_def makeBLKDROP2_def makeBLKPUSH_def makeREVERSE_def makeBLKSWAP_def makePUSH_def stack_wf_def split: if_split_asm)

lemma grown_stack:
  assumes "sim_stack seg opc i j k st = Some st'" "stack_wf opc i j k" "1 \<le> seg" "seg \<le> m_stackSize st"
  shows "grown st st'"
  using assms
  by (cases opc)
    (auto simp: grown_def sim_stack_def sim_push_def sim_pop_def sim_drop_def sim_blkdrop2_def sim_blkpush_def sim_reverse_def sim_blkswap_def
      sim_xchg_def sim_push2_def sim_push3_def sim_tuck_def sim_puxc_def bind_eq_Some_conv rest_Some Let_def new_index_def hits_def stack_wf_def
      split: if_split_asm dest!: make_wf)

lemma tracked_grown: "tracked M mul st \<Longrightarrow> grown st st' \<Longrightarrow> tracked M mul st'"
  unfolding grown_def tracked_def by (auto simp: straight_Stack isCall_def)

lemma tracked_emit:
  "tracked M mul st \<Longrightarrow> straight M mul n \<Longrightarrow> m_setGlobs st \<subseteq> m_setGlobs st' \<Longrightarrow> m_wasCall st \<longrightarrow> m_wasCall st' \<Longrightarrow>
   m_commands st' = m_commands st \<or> m_commands st' = m_commands st @ [n] \<and>
     (\<forall>i. n = Glob SetOrSetVar i \<longrightarrow> i \<in> m_setGlobs st') \<and> (isCall n \<longrightarrow> m_wasCall st') \<Longrightarrow> tracked M mul st'"
  unfolding tracked_def by (elim disjE conjE) (simp; blast)+

lemma node_tracked:
  assumes "sim_node seg n st = Some st'" "straight M mul n" "tracked M mul st" "1 \<le> seg" "seg \<le> m_stackSize st"
  shows "tracked M mul st'"
proof (cases n)
  case (Stack opc i j k)
  then have "stack_wf opc i j k" using assms(2) by (simp add: straight_def)
  then show ?thesis using grown_stack [of seg opc i j k st st'] assms tracked_grown by (simp add: Stack)
next
  case (Glob p i)
  then show ?thesis
    using assms(1) by (intro tracked_emit [OF assms(3,2)])
      (auto simp: sim_glob_def glob_is_push_def bind_eq_Some_conv isCall_def Let_def split: if_split_asm)
qed (use assms in \<open>auto simp: straight_def sim_effect_def sim_exception_def bind_eq_Some_conv isCall_def Let_def
    intro!: tracked_emit [OF assms(3,2)] split: if_split_asm\<close>)

lemma tracked_iter: "tracked M mul (st\<lparr>m_iter := x\<rparr>) = tracked M mul st"
  by (simp add: tracked_def)

lemma loop_tracked:
  "sim_loop seg c st = Some st' \<Longrightarrow> \<forall>n \<in> set c. straight M mul n \<Longrightarrow> tracked M mul st \<Longrightarrow> 1 \<le> seg \<Longrightarrow> seg \<le> m_stackSize st \<Longrightarrow>
   tracked M mul st' \<and> (\<forall>n \<in> set (m_iter st'). straight M mul n)"
proof (induction c arbitrary: st)
  case Nil
  then show ?case by (auto simp: tracked_iter)
next
  case (Cons n c)
  from Cons.prems(1) show ?case
  proof (cases rule: loop_Cons)
    case (pair b c' st1)
    from pair(2) obtain d k where k: "makeBLKDROP2 d 1 = Some k" "st1 = emit k (st\<lparr>m_isDropped := True\<rparr>)"
      by (rule popdrop_Some) blast
    then have "grown st st1" using make_wf(2) [OF k(1)] by (auto simp: grown_def)
    then show ?thesis using tracked_grown [OF Cons.prems(3)] pair Cons.prems(2) by (simp add: tracked_iter)
  next
    case (stop st1)
    then show ?thesis using node_tracked [OF stop(1) _ Cons.prems(3-5)] Cons.prems(2) by (simp add: tracked_iter)
  next
    case (turn st1)
    then show ?thesis using node_tracked [OF turn(1) _ Cons.prems(3-5)] Cons.IH [OF turn(5)] Cons.prems(2,4) by simp
  qed
qed

lemma simulate_straight:
  assumes "simulate sz seg c = Some sim" "\<forall>n \<in> set c. straight M mul n" "1 \<le> seg" "seg \<le> sz"
  shows "\<forall>n \<in> set (m_commands sim) \<union> set (m_iter sim). straight M mul n" and "m_unable sim \<Longrightarrow> tracked M mul sim"
proof -
  obtain st where st: "sim_loop seg c (sim_new sz) = Some st" "sim = sim_finish st"
    using assms(1) by (auto simp: simulate_def bind_eq_Some_conv)
  have "tracked M mul (sim_new sz)" by (simp add: tracked_def)
  then have t: "tracked M mul st" "\<forall>n \<in> set (m_iter st). straight M mul n" using loop_tracked [OF st(1) assms(2)] assms(3,4) by auto
  then show "\<forall>n \<in> set (m_commands sim) \<union> set (m_iter sim). straight M mul n"
    unfolding st(2) by (auto simp: sim_finish_def tracked_def)
  show "m_unable sim \<Longrightarrow> tracked M mul sim" using t(1) unfolding st(2) by (auto simp: sim_finish_def success_def split: if_split_asm)
qed

lemma run_keeps_global:
  "run M c s (Norm t) \<Longrightarrow> \<forall>n \<in> set c. globals_kept M n \<and> n \<noteq> Glob SetOrSetVar j \<and> \<not> isCall n \<Longrightarrow> glb t j = glb s j"
proof (induction c arbitrary: s)
  case (Cons n c)
  then obtain u where u: "run1 M n s (Norm u)" "run M c u (Norm t)" by (auto simp: run_Cons_iff is_norm_def)
  then have "glb u j = glb s j" using Cons.prems(2) unfolding globals_kept_def by (metis list.set_intros(1))
  then show ?case using Cons.IH [OF u(2)] Cons.prems(2) by simp
qed simp

lemma straight_steady:
  assumes "straight M mul op" "\<forall>n \<in> set c. straight M mul n"
  shows "steady_after M op c"
proof (cases "const_value M op")
  case True
  then obtain v where "\<forall>s r. run1 M op s r \<longleftrightarrow> r = Norm (set_stk s (spush v (stk s)))" unfolding const_value_def by blast
  then show ?thesis using steady_const [of M op v c] by simp
next
  case False
  show ?thesis
    unfolding steady_after_def
  proof (intro allI impI)
    fix sim assume sim: "simulate 1 1 c = Some sim" "upd_move op c \<noteq> Some None"
    then have pure: "isPureGen01 op" by (auto simp: upd_move_def split: if_split_asm)
    then obtain p i where op: "op = Glob p i" using assms(1) False by (auto simp: straight_def)
    then have g: "p = GetOrGetVar" "i \<notin> m_setGlobs sim" "\<not> m_wasCall sim" "m_wasMoved sim" "\<not> m_wasSet sim"
      using sim pure by (auto simp: upd_move_def Let_def split: if_split_asm)
    obtain st where st: "sim_loop 1 c (sim_new 1) = Some st" "sim = sim_finish st"
      using sim(1) by (auto simp: simulate_def bind_eq_Some_conv)
    have fit: "fit_list M 1 (sim_new 1) c" using straight_fits [OF assms(2)] by (simp add: fits_def)
    have "m_wasMoved st" "\<not> m_wasSet st" using g(4,5) st(2) by (auto simp: sim_finish_def split: if_split_asm)
    then have "m_unable sim" using loop_moved [OF st(1) _ _ _ fit, of 0] st(2) by auto
    then have "tracked M mul sim" using simulate_straight(2) [OF sim(1) assms(2)] by simp
    then have "\<forall>n \<in> set (m_commands sim). globals_kept M n \<and> n \<noteq> Glob SetOrSetVar i \<and> \<not> isCall n"
      using g(2,3) by (auto simp: tracked_def straight_def)
    then have "glb t i = glb s i" if "run M (m_commands sim) s (Norm t)" for s t
      using run_keeps_global [OF that] by blast
    then show "steady M op (m_commands sim)"
      unfolding steady_def op g(1) by (auto simp: run1_Glob norm_def app0_def dest: spush_inj)
  qed
qed

lemma update_straight:
  assumes "successfullyUpdate st prev op c = Some (Some c')" "\<forall>n \<in> set (op # c). straight M mul n"
  shows "\<forall>n \<in> set c'. straight M mul n"
proof -
  have new: "makeDROP n = Some d \<Longrightarrow> straight M mul d" "makeBLKSWAP 1 n = Some d \<Longrightarrow> straight M mul d"
      "makePUSH n = Some d \<Longrightarrow> straight M mul d" for n d
    using make_wf straight_Stack by metis+
  have si: "0 \<le> i" if "isPush op = Some i" for i
    using that assms(2) by (auto simp: isPush_def straight_def stack_wf_def split: node.split_asm stack_opcode.split_asm)
  note sims = simulate_straight(1) [where M = M and mul = mul]
  consider "upd_move op c = Some (Some c')" | "upd_pop op c = Some (Some c')" | "upd_ignore op c = Some (Some c')"
    | "upd_swap op c = Some (Some c')" | "upd_delete st op c = Some (Some c')" | "upd_roll op c = Some (Some c')"
    | "upd_gen op c = Some (Some c')" | "upd_front st prev op c = Some (Some c')" | "upd_drop st op c = Some (Some c')"
    using assms(1) by (auto simp: successfullyUpdate_def split: if_split_asm dest!: first_update_Some simp del: first_update.simps)
  then show ?thesis
  proof cases
    case 1
    then show ?thesis using assms(2) sims [of 1 1 c] by (auto simp: upd_move_def bind_eq_Some_conv Let_def split: if_split_asm)
  next
    case 2
    then show ?thesis using assms(2) new by (auto simp: upd_pop_def bind_eq_Some_conv split: if_split_asm option.split_asm)
  next
    case 3
    then have "c' = c" unfolding upd_ignore_def by (cases "swap_len op") (auto simp: bind_eq_Some_conv split: if_split_asm)
    then show ?thesis using assms(2) by simp
  next
    case 4
    then show ?thesis using assms(2) new sims [of 2 1 c] by (auto simp: upd_swap_def bind_eq_Some_conv split: if_split_asm)
  next
    case 5
    then show ?thesis
      using assms(2) new sims [of "i + 1" i c for i] by (fastforce simp: upd_delete_def bind_eq_Some_conv split: if_split_asm option.split_asm)
  next
    case 6
    then show ?thesis
      using assms(2) new si sims [of "i + 2" 1 c for i] by (fastforce simp: upd_roll_def bind_eq_Some_conv split: if_split_asm option.split_asm)
  next
    case 7
    then show ?thesis using assms(2) sims [of 1 1 c] by (auto simp: upd_gen_def bind_eq_Some_conv split: if_split_asm)
  next
    case 8
    then show ?thesis using assms(2) new sims [of 1 1 "op # c"] by (auto simp: upd_front_def bind_eq_Some_conv split: if_split_asm)
  next
    case 9
    then show ?thesis
      using assms(2) new sims [of 1 1 c] by (auto simp: upd_drop_def bind_eq_Some_conv split: if_split_asm option.split_asm)
  qed
qed

section \<open>The walk over straight-line code\<close>

lemma so_node_leaf:
  assumes "so_node k n st = Some (Some (st', n'))" "leaf n"
  shows "n' = n"
  using assms by (cases k; cases n) (auto simp: then_pass_Some lift_exc_def)

lemma so_loop_alike:
  "so_loop k done1 c st = Some (Some (st', c')) \<Longrightarrow> \<forall>n \<in> set c. straight M mul n \<Longrightarrow> alike M (done1 @ c) c'"
proof (induction k arbitrary: done1 c st)
  case (Suc k)
  show ?case
  proof (cases c)
    case Nil
    then show ?thesis using Suc.prems(1) by simp
  next
    case (Cons n c1)
    obtain u where u: "successfullyUpdate st (if done1 = [] then None else Some (last done1)) n c1 = Some u"
      "(case u of Some c2 \<Rightarrow> so_loop k done1 c2 (st\<lparr>m_didSome := True\<rparr>)
        | None \<Rightarrow> then_pass (so_node k n st) (\<lambda>(st1, n'). so_loop k (done1 @ [n']) c1 st1)) = Some (Some (st', c'))"
      using Suc.prems(1) unfolding Cons so_loop.simps then_pass_Some lift_exc_def by auto
    have str: "straight M mul n" "\<forall>m \<in> set c1. straight M mul m" using Suc.prems(2) Cons by auto
    show ?thesis
    proof (cases u)
      case None
      then obtain st1 n' where n': "so_node k n st = Some (Some (st1, n'))" "so_loop k (done1 @ [n']) c1 st1 = Some (Some (st', c'))"
        using u(2) by (auto simp: then_pass_Some)
      have "n' = n" using so_node_leaf [OF n'(1)] str(1) by (simp add: straight_def)
      then show ?thesis using Suc.IH [OF n'(2)] str(2) Cons by simp
    next
      case (Some c2)
      then have up: "successfullyUpdate st (if done1 = [] then None else Some (last done1)) n c1 = Some (Some c2)" using u(1) by simp
      have "alike M (n # c1) c2"
        using update_alike [OF up straight_fits [OF str(2)] _ _ straight_steady [OF str]] straight_fits [of "n # c1" M mul] str
        by (auto simp: straight_def)
      moreover have "alike M (done1 @ c2) c'"
        using Suc.IH [of done1 c2] u(2) Some update_straight [OF up] str by auto
      ultimately show ?thesis using Cons alike_append alike_trans by blast
    qed
  qed
qed simp

lemma so_loop_straight:
  "so_loop k done1 c st = Some (Some (st', c')) \<Longrightarrow> \<forall>n \<in> set (done1 @ c). straight M mul n \<Longrightarrow> \<forall>n \<in> set c'. straight M mul n"
proof (induction k arbitrary: done1 c st)
  case (Suc k)
  show ?case
  proof (cases c)
    case Nil
    then show ?thesis using Suc.prems by simp
  next
    case (Cons n c1)
    obtain u where u: "successfullyUpdate st (if done1 = [] then None else Some (last done1)) n c1 = Some u"
      "(case u of Some c2 \<Rightarrow> so_loop k done1 c2 (st\<lparr>m_didSome := True\<rparr>)
        | None \<Rightarrow> then_pass (so_node k n st) (\<lambda>(st1, n'). so_loop k (done1 @ [n']) c1 st1)) = Some (Some (st', c'))"
      using Suc.prems(1) unfolding Cons so_loop.simps then_pass_Some lift_exc_def by auto
    show ?thesis
    proof (cases u)
      case None
      then obtain st1 n' where n': "so_node k n st = Some (Some (st1, n'))" "so_loop k (done1 @ [n']) c1 st1 = Some (Some (st', c'))"
        using u(2) by (auto simp: then_pass_Some)
      have "n' = n" using so_node_leaf [OF n'(1)] Suc.prems(2) Cons by (simp add: straight_def)
      then show ?thesis using Suc.IH [OF n'(2)] Suc.prems(2) Cons by simp
    next
      case (Some c2)
      then have up: "successfullyUpdate st (if done1 = [] then None else Some (last done1)) n c1 = Some (Some c2)" using u(1) by simp
      have "\<forall>m \<in> set (done1 @ c2). straight M mul m" using update_straight [OF up, of M mul] Suc.prems(2) Cons by (simp add: ball_Un)
      then show ?thesis using Suc.IH [of done1 c2] u(2) Some by simp
    qed
  qed
qed simp

lemma so_block_alike:
  assumes "so_block k b st = Some (Some (st', b'))" "\<forall>n \<in> set (instructions b). straight M mul n"
  shows "alike M (instructions b) (instructions b')" "\<forall>n \<in> set (instructions b'). straight M mul n"
proof -
  obtain bt c where b: "b = CodeBlock bt c" by (cases b)
  obtain j c' where c': "so_loop j [] c st = Some (Some (st', c'))" "b' = CodeBlock bt c'"
    using assms(1) by (cases k) (auto simp: b then_pass_Some)
  show "alike M (instructions b) (instructions b')" using so_loop_alike [OF c'(1)] assms(2) b c'(2) by simp
  show "\<forall>n \<in> set (instructions b'). straight M mul n" using so_loop_straight [OF c'(1)] assms(2) b c'(2) by simp
qed

lemma so_rounds_alike:
  "so_rounds fuel i t b st = Some (Some (st', b')) \<Longrightarrow> \<forall>n \<in> set (instructions b). straight M mul n \<Longrightarrow>
   alike M (instructions b) (instructions b')"
proof (induction i arbitrary: b st)
  case (Suc i)
  obtain st1 st2 b2 where r: "so_block fuel b st1 = Some (Some (st2, b2))"
      "(if m_didSome st2 then so_rounds fuel i t b2 st2 else Some (Some (st2, b2))) = Some (Some (st', b'))"
    using Suc.prems(1) by (auto simp: then_pass_Some)
  note one = so_block_alike [OF r(1) Suc.prems(2)]
  show ?case
  proof (cases "m_didSome st2")
    case True
    then show ?thesis using Suc.IH [of b2 st2] r(2) one alike_trans by auto
  next
    case False
    then show ?thesis using r(2) one by simp
  qed
qed simp

section \<open>The depths of the scopes\<close>

definition kept :: "so \<Rightarrow> so \<Rightarrow> bool" where
  "kept st st' = (tl (scopes st') = tl (scopes st) \<and> length (scopes st') = length (scopes st) \<and>
     ((\<forall>x \<in> set (scopes st). 0 \<le> x) \<longrightarrow> (\<forall>x \<in> set (scopes st'). 0 \<le> x)))"

lemma kept_refl: "kept st st" "kept st (st\<lparr>m_didSome := b\<rparr>)"
  by (simp_all add: kept_def)

lemma kept_trans: "kept a b \<Longrightarrow> kept b c \<Longrightarrow> kept a c"
  by (simp add: kept_def)

lemma kept_delta: "delta d st = Some st' \<Longrightarrow> kept st st'"
  by (cases "scopes st") (auto simp: delta_def kept_def bind_eq_Some_conv solAssert_def split: if_split_asm)

lemma kept_scope:
  assumes "startScope st = Some a" "kept a b" "endScope b = Some st'"
  shows "kept st st'"
proof -
  obtain x r where x: "scopes st = x # r" "scopes a = x # x # r" using assms(1) by (cases "scopes st") (auto simp: startScope_def)
  then obtain y where "scopes b = y # x # r" using assms(2) by (cases "scopes b") (auto simp: kept_def)
  then show ?thesis using assms(2,3) x by (auto simp: endScope_def kept_def)
qed

lemma kept_step:
  assumes "\<And>b st st' b'. so_block k b st = Some (Some (st', b')) \<Longrightarrow> kept st st'"
    and "\<And>b g t st st' b'. so_scope k b g t st = Some (Some (st', b')) \<Longrightarrow> kept st st'"
    and "so_node (Suc k) n st = Some (Some (st', n'))"
  shows "kept st st'"
proof (cases n)
  case (SubProgram t r jm b p)
  obtain st1 st2 st3 st4 b' st5 where "delta (- t) st = Some st1" "startScope st1 = Some st2" "delta t st2 = Some st3"
      "so_block k b st3 = Some (Some (st4, b'))" "endScope st4 = Some st5" "delta r st5 = Some st'"
    using assms(3) unfolding SubProgram by (auto simp: then_pass_Some lift_exc_def check_def split: if_split_asm)
  then show ?thesis using kept_scope kept_delta kept_trans assms(1) by metis
next
  case (LogCircuit t b)
  obtain st1 st2 st3 st4 b' st5 where "delta (-2) st = Some st1" "startScope st1 = Some st2" "delta 1 st2 = Some st3"
      "so_block k b st3 = Some (Some (st4, b'))" "endScope st4 = Some st5" "delta 1 st5 = Some st'"
    using assms(3) unfolding LogCircuit by (auto simp: then_pass_Some lift_exc_def check_def split: if_split_asm)
  then show ?thesis using kept_scope kept_delta kept_trans assms(1) by metis
next
  case (TvmIfElse w jm t e r)
  obtain st1 st2 t' st3 e' where s: "delta (-1) st = Some st1" "so_scope k t 0 0 st1 = Some (Some (st2, t'))"
      "(case e of None \<Rightarrow> Some (Some (st2, None)) | Some e \<Rightarrow> then_pass (so_scope k e 0 0 st2) (\<lambda>(st3, e'). Some (Some (st3, Some e')))) = Some (Some (st3, e'))"
      "delta r st3 = Some st'"
    using assms(3) unfolding TvmIfElse by (auto simp: then_pass_Some lift_exc_def)
  then have "kept st2 st3" using assms(2) kept_refl by (cases e) (auto simp: then_pass_Some)
  then show ?thesis using s kept_delta kept_trans assms(2) by metis
next
  case (TvmRepeat bk b)
  obtain st1 b' where "delta (-1) st = Some st1" "so_scope k b 0 1 st1 = Some (Some (st', b'))"
    using assms(3) unfolding TvmRepeat by (auto simp: then_pass_Some lift_exc_def check_def split: if_split_asm)
  then show ?thesis using kept_delta kept_trans assms(2) by metis
next
  case (BlockNode b)
  then show ?thesis using assms(1,3) by (auto simp: then_pass_Some)
next
  case (TvmUntil bk b)
  then show ?thesis using assms(2,3) by (auto simp: then_pass_Some)
next
  case (While ag bk c b)
  obtain st1 c' b' where "so_scope k c 1 1 st = Some (Some (st1, c'))" "so_scope k b 0 1 st1 = Some (Some (st', b'))"
    using assms(3) unfolding While by (auto simp: then_pass_Some)
  then show ?thesis using kept_trans assms(2) by metis
qed (use assms(3) in \<open>auto simp: then_pass_Some lift_exc_def kept_refl intro: kept_delta\<close>)

lemma scopes_kept:
  "(\<forall>n st st' n'. so_node k n st = Some (Some (st', n')) \<longrightarrow> kept st st') \<and>
   (\<forall>b g t st st' b'. so_scope k b g t st = Some (Some (st', b')) \<longrightarrow> kept st st') \<and>
   (\<forall>b st st' b'. so_block k b st = Some (Some (st', b')) \<longrightarrow> kept st st') \<and>
   (\<forall>d c st st' c'. so_loop k d c st = Some (Some (st', c')) \<longrightarrow> kept st st')"
proof (induction k)
  case (Suc k)
  then have IH: "\<And>n st st' n'. so_node k n st = Some (Some (st', n')) \<Longrightarrow> kept st st'"
    "\<And>b g t st st' b'. so_scope k b g t st = Some (Some (st', b')) \<Longrightarrow> kept st st'"
    "\<And>b st st' b'. so_block k b st = Some (Some (st', b')) \<Longrightarrow> kept st st'"
    "\<And>d c st st' c'. so_loop k d c st = Some (Some (st', c')) \<Longrightarrow> kept st st'" by metis+
  have node: "kept st st'" if "so_node (Suc k) n st = Some (Some (st', n'))" for n st st' n'
    by (rule kept_step [OF IH(3) IH(2) that])
  have scope: "kept st st'" if sc: "so_scope (Suc k) b g t st = Some (Some (st', b'))" for b g t st st' b'
  proof -
    obtain a e where "startScope st = Some a" "so_block k b a = Some (Some (e, b'))" "endScope e = Some st'"
      using sc by (auto simp: then_pass_Some lift_exc_def check_def split: if_split_asm)
    then show ?thesis using IH(3) kept_scope by metis
  qed
  have block: "kept st st'" if "so_block (Suc k) b st = Some (Some (st', b'))" for b st st' b'
    using that IH(4) by (cases b) (auto simp: then_pass_Some)
  have loop: "kept st st'" if lp: "so_loop (Suc k) d c st = Some (Some (st', c'))" for d c st st' c'
  proof (cases c)
    case Nil
    then show ?thesis using lp kept_refl by simp
  next
    case (Cons n c1)
    obtain u where "(case u of Some c2 \<Rightarrow> so_loop k d c2 (st\<lparr>m_didSome := True\<rparr>)
        | None \<Rightarrow> then_pass (so_node k n st) (\<lambda>(st1, n'). so_loop k (d @ [n']) c1 st1)) = Some (Some (st', c'))"
      using lp unfolding Cons so_loop.simps then_pass_Some by auto
    then show ?thesis
      using IH(1,4) kept_trans kept_refl(2) [of st True] by (cases u) (auto simp: then_pass_Some, metis+)
  qed
  show ?case using node scope block loop by metis
qed simp

end
