(* ===== verification/TreePasses.thy ===== *)
theory TreePasses
  imports StackOptimizerSound
begin

text \<open>
  The passes of \<open>TvmAstVisitor.cpp\<close> that change what is executed: \<open>DeleterAfterRet\<close> and \<open>DeleterCallX\<close> keep
  the runs of a tree; \<open>LogCircuitExpander\<close> evaluates the second operand of \<open>&&\<close> and \<open>||\<close> at once when it is
  pure. \<open>SizeOptimizer.cpp\<close> moves long slices that occur often into cells of their own. At the end,
  \<open>TVMContractCompiler::optimizeCode\<close>, which runs all the passes.
\<close>

section \<open>DeleterAfterRet on a tree\<close>

text \<open>The nodes after which code is deleted do not go on to the next instruction.\<close>

fun stops_node :: "'w machine \<Rightarrow> node \<Rightarrow> bool" and stops_block :: "'w machine \<Rightarrow> code_block \<Rightarrow> bool"
and stops_list :: "'w machine \<Rightarrow> node list \<Rightarrow> bool" where
  "stops_node M (Opaque b t r p) = stops_block M b"
| "stops_node M (ReturnOrBreakOrCont t b) = stops_block M b"
| "stops_node M (BlockNode b) = False"
| "stops_node M (SubProgram t r jm b p) = stops_block M b"
| "stops_node M (LogCircuit t b) = stops_block M b"
| "stops_node M (TvmIfElse w jm t None r) = stops_block M t"
| "stops_node M (TvmIfElse w jm t (Some e) r) = (stops_block M t \<and> stops_block M e)"
| "stops_node M (TvmRepeat bk b) = stops_block M b"
| "stops_node M (TvmUntil bk b) = stops_block M b"
| "stops_node M (While ag bk c b) = (stops_block M c \<and> stops_block M b)"
| "stops_node M n = True"
| "stops_block M (CodeBlock t c) = stops_list M c"
| "stops_list M [] = True"
| "stops_list M (n # c) = (stops_node M n \<and> (leaves n \<longrightarrow> (\<forall>s t. \<not> run1 M n s (Norm t))) \<and> stops_list M c)"

lemma run_list_all2:
  "list_all2 (\<lambda>n n'. \<forall>s r. run1 M n' s r \<longleftrightarrow> run1 M n s r) c c' \<Longrightarrow> run M c' s r \<longleftrightarrow> run M c s r"
  by (induction arbitrary: s rule: list_all2_induct) (simp_all add: run_Cons_iff)

lemma deleter_runs:
  "f = deleterAfterRet \<Longrightarrow> visit_node f n = Some (Some n') \<Longrightarrow> stops_node M n \<Longrightarrow>
     leaves n' = leaves n \<and> (\<forall>s r. run1 M n' s r \<longleftrightarrow> run1 M n s r)"
  "f = deleterAfterRet \<Longrightarrow> visit_block f b = Some (Some b') \<Longrightarrow> stops_block M b \<Longrightarrow> same_runs M b b'"
  "f = deleterAfterRet \<Longrightarrow> visit_list f c = Some (Some c') \<Longrightarrow> stops_list M c \<Longrightarrow>
     list_all2 (\<lambda>n n'. \<forall>s r. run1 M n' s r \<longleftrightarrow> run1 M n s r) c c' \<and> (\<forall>n \<in> set c'. leaves n \<longrightarrow> (\<forall>s t. \<not> run1 M n s (Norm t)))"
proof (induction f n and f b and f c arbitrary: n' and b' and c' rule: visit_node_visit_block_visit_list.induct)
  case (12 f t c)
  then obtain c1 where c1: "visit_list f c = Some (Some c1)" "b' = CodeBlock t (deleteAfterRet False c1)"
    by (auto simp: then_pass_Some deleterAfterRet_def)
  then have c: "list_all2 (\<lambda>n n'. \<forall>s r. run1 M n' s r \<longleftrightarrow> run1 M n s r) c c1"
      "\<forall>n \<in> set c1. leaves n \<longrightarrow> (\<forall>s t. \<not> run1 M n s (Norm t))"
    using 12 by auto
  then show ?case
    using deleteAfterRet_runs [of c1 M] run_list_all2 [OF c(1)] by (simp add: same_runs_def c1(2))
next
  case (14 f n c)
  then obtain n1 c1 where v: "visit_node f n = Some (Some n1)" "visit_list f c = Some (Some c1)" "c' = n1 # c1"
    by (auto simp: then_pass_Some)
  then show ?case using 14 by auto
qed (auto simp: then_pass_Some same_node)

lemma deleter_sound:
  assumes "stops_block M b"
  obtains b' where "visit_block deleterAfterRet b = Some (Some b')" "same_runs M b b'" "ends_block b'"
  using visit_total(2) [OF refl, of b] deleter_runs(2) [OF refl _ assms] visit_ends(2) [OF refl] by blast

section \<open>DeleterCallX\<close>

lemma call_jump: "call_out (jump_out r) = call_out r"
  by (cases r) simp_all

lemma sub_as_body: "(\<exists>r'. run1 M (SubProgram t k jm b p) s r' \<and> call_out r' = q) \<longleftrightarrow> (\<exists>r'. run M (instructions b) s r' \<and> call_out r' = q)"
  unfolding run1_Sub by (cases jm; simp; metis call_jump call_out_idem)

lemma deleterCallX_body:
  "(\<exists>r'. run M (instructions (f_block (deleterCallX f))) s r' \<and> call_out r' = q) \<longleftrightarrow>
   (\<exists>r'. run M (instructions (f_block f)) s r' \<and> call_out r' = q)"
proof (cases "qtyWithoutLoc (instructions (f_block f)) = 1 \<and> unpack_call (instructions (f_block f)) \<noteq> None")
  case True
  then obtain d where d: "unpack_call (instructions (f_block f)) = Some d" by auto
  have "length (unloc (instructions (f_block f))) = 1" using True by (simp add: qtyWithoutLoc_def unloc_def)
  from unpack_single [OF this d] obtain t r jm b p where
    u: "unloc (instructions (f_block f)) = [SubProgram t r jm b p]" "unloc d = unloc (instructions b)" .
  have "instructions (f_block (deleterCallX f)) = d" using True d by (simp add: deleterCallX_def Let_def)
  then show ?thesis
    using sub_as_body [of M t r jm b p s q] run_unloc [of M d] run_unloc [of M "instructions b"] run_unloc [of M "instructions (f_block f)"] u
    by (simp add: run_single)
next
  case False
  then have "deleterCallX f = f" by (auto simp: deleterCallX_def Let_def split: option.splits)
  then show ?thesis by simp
qed

section \<open>LogCircuitExpander\<close>

text \<open>
  The state of the expander for one circuit: \<open>m_stackSize\<close> and \<open>m_newInst\<close>. \<open>isPureOperation\<close> returns whether the
  instruction is pure, with the new state.
\<close>

definition isPureOperation :: "node \<Rightarrow> int \<times> node list \<Rightarrow> (bool \<times> int \<times> node list) exc" where
  "isPureOperation op st =
     (let (sz, new) = st
      in case gen_info op of
           Some (t, r, True) \<Rightarrow> Some (True, sz - t + r, new @ [op])
         | _ \<Rightarrow>
             (case op of
                LogCircuit _ _ \<Rightarrow> Some (True, sz - 2 + 1, new @ [op])
              | Stack PUSH_S i _ _ \<Rightarrow>
                  do { p \<leftarrow> (if i + 1 < sz then makePUSH i else makePUSH (i + 1)); Some (True, sz + 1, new @ [p]) }
              | _ \<Rightarrow> Some (False, sz, new)))"

fun isLogCircuit :: "node \<Rightarrow> bool" where
  "isLogCircuit (LogCircuit _ _) = True"
| "isLogCircuit _ = False"

text \<open>The loop over the body after its first instruction.\<close>

fun pure_loop :: "node list \<Rightarrow> bool \<times> int \<times> node list \<Rightarrow> (bool \<times> int \<times> node list) exc" where
  "pure_loop [] st = Some st"
| "pure_loop (op # c) (isPure, st) = do {
     let isPure = (isPure \<and> \<not> (isLogCircuit op \<and> c \<noteq> []));
     (b, st) \<leftarrow> isPureOperation op st;
     pure_loop c (isPure \<and> b, st) }"

definition circuit_pure :: "node list \<Rightarrow> (bool \<times> int \<times> node list) exc" where
  "circuit_pure inst =
     (case inst of
        [] \<Rightarrow> Some (True, 1, [])
      | d # c \<Rightarrow> do { _ \<leftarrow> solAssert (isDrop d = Some 1); pure_loop c (True, 1, []) })"

definition log_name :: "log_type \<Rightarrow> string" where
  "log_name t = (case t of LogAND \<Rightarrow> ''AND'' | LogOR \<Rightarrow> ''OR'')"

text \<open>\<open>None\<close>: the circuit stays. \<open>Some c\<close>: it and the \<open>DUP\<close> before it become \<open>c\<close>.\<close>

definition expand_circuit :: "log_type \<Rightarrow> node list \<Rightarrow> node list option exc" where
  "expand_circuit t inst = do {
     (isPure, sz, new) \<leftarrow> circuit_pure inst;
     if \<not> isPure then Some None
     else do {
       _ \<leftarrow> solAssert (sz = 2 \<and> new \<noteq> []);
       a \<leftarrow> gen (log_name t);
       (case last new of
          LogCircuit t' b \<Rightarrow>
            if t' \<noteq> t then Some None
            else do { _ \<leftarrow> solAssert (2 \<le> length new); d \<leftarrow> makePUSH 0; Some (Some (butlast (butlast new) @ [a, d, last new])) }
        | _ \<Rightarrow> Some (Some (new @ [a]))) } }"

fun expand_list :: "node list \<Rightarrow> node list \<Rightarrow> node list exc" where
  "expand_list block [] = Some block"
| "expand_list block (LogCircuit t b # c) = do {
     e \<leftarrow> expand_circuit t (instructions b);
     case e of
       None \<Rightarrow> expand_list (block @ [LogCircuit t b]) c
     | Some new \<Rightarrow> do { _ \<leftarrow> solAssert (block \<noteq> []); expand_list (butlast block @ new) c } }"
| "expand_list block (n # c) = expand_list (block @ [n]) c"

definition logCircuitExpander :: "code_block \<Rightarrow> code_block exc option" where
  "logCircuitExpander b = Some (map_option (CodeBlock (btype b)) (expand_list [] (instructions b)))"

text \<open>Instructions of the second operand that stay above the first one.\<close>

fun in_frame :: "'w machine \<Rightarrow> int \<Rightarrow> node list \<Rightarrow> bool" where
  "in_frame M sz [] = True"
| "in_frame M sz (op # c) =
     (case gen_info op of
        Some (t, r, True) \<Rightarrow> framed M t r op \<and> t < sz \<and> in_frame M (sz - t + r) c
      | _ \<Rightarrow> (case op of Stack PUSH_S i _ _ \<Rightarrow> 0 \<le> i \<and> in_frame M (sz + 1) c | _ \<Rightarrow> False))"

lemma push_beside:
  assumes "(if i + 1 < int (p + 1) then makePUSH i else makePUSH (i + 1)) = Some n" "0 \<le> i"
  shows "shifts M [x] p (Suc p) [n] [Stack PUSH_S i j k]"
proof -
  have old: "stk_is (Stack PUSH_S i j k) (spushs (nat i))" using assms(2) by (intro stk_isI) (auto simp: stack_ok_def stack_fun_def)
  show ?thesis
  proof (cases "i + 1 < int (p + 1)")
    case True
    then have "stk_is n (spushs (nat i))" using assms makePUSH_view [of i n] by auto
    then show ?thesis using True assms(2) by (intro shifts_stk [OF _ old]) (auto simp: ins_push(1))
  next
    case False
    then obtain d where "i + 1 = int d" "stk_is n (spushs d)" using assms makePUSH_view [of "i + 1" n] by auto
    moreover have "d = nat i + 1" using calculation(1) assms(2) by linarith
    ultimately have "stk_is n (spushs (nat i + 1))" by simp
    then show ?thesis using False assms(2) by (intro shifts_stk [OF _ old]) (use ins_push(2) [of p "[x]" "nat i + 1"] in auto)
  qed
qed

lemma pure_step:
  assumes "isPureOperation op (int (p + 1), new) = Some (b, sz, new')" "in_frame M (int (p + 1)) (op # c)"
  obtains q n where "b" "sz = int (q + 1)" "new' = new @ [n]" "\<And>x. shifts M [x] p q [n] [op]" "in_frame M (int (q + 1)) c" "\<not> isLogCircuit n"
proof (cases "\<exists>t r. gen_info op = Some (t, r, True)")
  case True
  then obtain t r where g: "gen_info op = Some (t, r, True)" by blast
  then have f: "framed M t r op" "t < int (p + 1)" "in_frame M (int (p + 1) - t + r) c" using assms(2) by auto
  define q where "q = nat (int p - t + r)"
  have q: "int q = int p - t + r" using f(1,2) by (auto simp: q_def framed_def)
  have sz: "int (p + 1) - t + r = int (q + 1)" using q by simp
  have "\<not> isLogCircuit op" using g by (cases op) auto
  note this [simp]
  show thesis
    by (rule that [of q op]) (use assms(1) g f(3) [unfolded sz] sz shifts_framed [OF f(1) _ q] f(2) in \<open>auto simp: isPureOperation_def\<close>)
next
  case False
  then obtain i j k where op: "op = Stack PUSH_S i j k" "0 \<le> i" "in_frame M (int (p + 1) + 1) c"
    using assms(2) by (auto split: option.split_asm prod.split_asm bool.split_asm node.split_asm stack_opcode.split_asm)
  obtain n where n: "(if i + 1 < int (p + 1) then makePUSH i else makePUSH (i + 1)) = Some n" "b" "sz = int (p + 1) + 1" "new' = new @ [n]"
    using assms(1) op(1) by (auto simp: isPureOperation_def bind_eq_Some_conv)
  show thesis
    by (rule that [of "Suc p" n])
      (use n op push_beside [OF n(1) op(2)] in \<open>auto simp: algebra_simps makePUSH_def split: if_split_asm\<close>)
qed

lemma frame_not_log: "in_frame M sz (op # c) \<Longrightarrow> \<not> isLogCircuit op"
  by (cases op) auto

lemma pure_shifts:
  "pure_loop (c @ d) (True, int (p + 1), new) = Some res \<Longrightarrow> in_frame M (int (p + 1)) c \<Longrightarrow>
   \<exists>q new'. pure_loop d (True, int (q + 1), new @ new') = Some res \<and> (\<forall>x. shifts M [x] p q new' c) \<and> (\<forall>n \<in> set new'. \<not> isLogCircuit n)"
proof (induction c arbitrary: p new)
  case Nil
  then show ?case by (intro exI [of _ p] exI [of _ "[]"]) simp
next
  case (Cons op c)
  have nl: "\<not> isLogCircuit op" using frame_not_log Cons.prems(2) by blast
  obtain b sz new1 where o: "isPureOperation op (int (p + 1), new) = Some (b, sz, new1)" "pure_loop (c @ d) (b, sz, new1) = Some res"
    using Cons.prems(1) nl by (auto simp: bind_eq_Some_conv simp del: of_nat_add)
  obtain q n where q: "b" "sz = int (q + 1)" "new1 = new @ [n]" "\<And>x. shifts M [x] p q [n] [op]" "in_frame M (int (q + 1)) c" "\<not> isLogCircuit n"
    by (rule pure_step [OF o(1) Cons.prems(2)]) blast
  obtain q' new' where r: "pure_loop d (True, int (q' + 1), new1 @ new') = Some res" "\<forall>x. shifts M [x] q q' new' c" "\<forall>n \<in> set new'. \<not> isLogCircuit n"
    using Cons.IH [of q new1] o(2) q by auto
  then show ?case
    using q(3,4,6) shifts_append [of M _ p q "[n]" "[op]" q' new' c] by (intro exI [of _ q'] exI [of _ "n # new'"]) auto
qed

text \<open>
  The second operand must not fault, whatever the first one is, and must yield an integer.
\<close>

definition yields_int :: "'w machine \<Rightarrow> node list \<Rightarrow> bool" where
  "yields_int M c = (\<forall>s. \<exists>i. int257 i \<and> (\<forall>r. run M c s r \<longleftrightarrow> r = Norm (set_stk s (spush (VInt i) (stk s)))))"

definition log_val :: "log_type \<Rightarrow> val \<Rightarrow> int \<Rightarrow> val" where
  "log_val t x i = (if cond (t = LogOR) x = Some True then VInt i else x)"

lemma log_gen: "gen (log_name t) = Some (GenOpcode (log_name t) [] [] 2 1 True)"
  by (cases t) (simp_all add: log_name_def gen_simps)

lemma run_log_op:
  assumes "tvm M" "is_bool x" "int257 i"
  shows "run M (GenOpcode (log_name t) [] [] 2 1 True # c) (set_stk s (spush (VInt i) (spush x u))) r \<longleftrightarrow>
    run M c (set_stk s (spush (log_val t x i) u)) r"
proof -
  have m: "m_gen M (log_name t) [] = ari2 (if t = LogAND then Bit_Operations.and else Bit_Operations.or)"
    using tvm.gen_no_arg(13,14) [OF assms(1)] by (cases t) (simp_all add: log_name_def)
  have v: "ari2 (if t = LogAND then Bit_Operations.and else Bit_Operations.or) (set_stk s (spush (VInt i) (spush x u))) =
      Some (set_stk s (spush (log_val t x i) u))" for s :: "'a st"
  proof -
    have "sdrop 2 (spush (VInt i) (spush x u)) = u" by (rule ext) (simp add: sdrop_def spush_def)
    then show ?thesis
      using assms(2,3) by (cases t) (auto simp: ari2_def app2_def i2_def i1_def ri_def is_bool_def log_val_def cond_def spush_def int257_def)
  qed
  have "gen_typed (log_name t) s" for s :: "'a st" by (cases t) (simp_all add: gen_typed_def log_name_def)
  then show ?thesis by (auto simp: run_Cons_iff run1_GenOpcode norm_def m v is_norm_def)
qed

text \<open>The circuit with its \<open>DUP\<close>.\<close>

definition goes_on :: "'w machine \<Rightarrow> node list \<Rightarrow> 'w outcome \<Rightarrow> 'w outcome \<Rightarrow> bool" where
  "goes_on M c r1 r = ((\<exists>t. r1 = Norm t \<and> run M c t r) \<or> r1 = r \<and> \<not> is_norm r)"

lemma run_goes_on: "run M (a @ c) s r \<longleftrightarrow> (\<exists>r1. run M a s r1 \<and> goes_on M c r1 r)"
  by (auto simp: run_append goes_on_def)

lemma run_dup_log:
  "run M (Stack PUSH_S 0 j k # LogCircuit t b # c) (set_stk s (spush x u)) r \<longleftrightarrow> is_bool x \<and>
     (cond (t = LogOR) x = Some False \<and> run M c (set_stk s (spush x u)) r \<or>
      cond (t = LogOR) x = Some True \<and> (\<exists>r1. called M (instructions b) (set_stk s (spush x u)) r1 \<and> goes_on M c r1 r))"
proof -
  have dup: "stk_is (Stack PUSH_S 0 j k) (spushs 0)" by (intro stk_isI) (auto simp: stack_ok_def stack_fun_def)
  have p: "pop1 (set_stk s (spush x (spush x u))) = set_stk s (spush x u)" by (simp add: pop1_def sdrop_def spush_def fun_eq_iff)
  have top: "spush x v 0 = x" for v by (simp add: spush_def)
  have "run M (LogCircuit t b # c) s' r \<longleftrightarrow> (\<exists>r1. run1 M (LogCircuit t b) s' r1 \<and> goes_on M c r1 r)" for s'
    by (auto simp: run_Cons_iff goes_on_def)
  then have "run M (Stack PUSH_S 0 j k # LogCircuit t b # c) (set_stk s (spush x u)) r \<longleftrightarrow>
      (\<exists>r1. run1 M (LogCircuit t b) (set_stk s (spush x (spush x u))) r1 \<and> goes_on M c r1 r)"
    unfolding run_stk_is [OF dup] by (simp add: spushs_def top)
  then show ?thesis
    unfolding run1_called by (auto simp: p top goes_on_def is_norm_def)
qed

lemma run_expanded:
  assumes "tvm M" "\<And>x. shifts M [x] 0 1 new ops" "yields_int M ops" "is_bool x"
  obtains i where "\<And>r. run M ops (set_stk s u) r \<longleftrightarrow> r = Norm (set_stk s (spush (VInt i) u))"
    "\<And>c r. run M (new @ GenOpcode (log_name t) [] [] 2 1 True # c) (set_stk s (spush x u)) r \<longleftrightarrow>
       run M c (set_stk s (spush (log_val t x i) u)) r"
proof -
  obtain i where i: "int257 i" "\<And>r. run M ops (set_stk s u) r \<longleftrightarrow> r = Norm (set_stk s (spush (VInt i) u))"
    using assms(3) unfolding yields_int_def by (metis set_stk_simps(1,4))
  have st: "set_stk s (spush x u) = shift_st 0 [x] (set_stk s u)" by (simp add: spush_ins)
  have in1: "ins 1 [x] (spush (VInt i) u) = spush (VInt i) (spush x u)"
    using ins_spush [of 0 "[x]" "VInt i" u] by (simp add: spush_ins)
  show thesis
  proof (rule that [OF i(2)])
    fix c r
    show "run M (new @ GenOpcode (log_name t) [] [] 2 1 True # c) (set_stk s (spush x u)) r \<longleftrightarrow>
       run M c (set_stk s (spush (log_val t x i) u)) r"
    proof -
      have "run M (new @ GenOpcode (log_name t) [] [] 2 1 True # c) (shift_st 0 [x] (set_stk s u)) r \<longleftrightarrow>
          run M (GenOpcode (log_name t) [] [] 2 1 True # c) (shift_st 1 [x] (set_stk s (spush (VInt i) u))) r"
        unfolding run_shifted [OF assms(2)] i(2) by (metis is_norm_def outcome.inject(1))
      also have "\<dots> \<longleftrightarrow> run M c (set_stk s (spush (log_val t x i) u)) r"
        unfolding shift_set in1 by (rule run_log_op [OF assms(1,4) i(1)])
      finally show ?thesis unfolding st .
    qed
  qed
qed

lemma circuit_runs:
  assumes "tvm M" "\<And>x. shifts M [x] 0 1 new ops" "yields_int M ops"
    and "run M (Stack PUSH_S 0 j k # LogCircuit t (CodeBlock bt (Stack DROP 1 j' k' # ops)) # c) s r"
  shows "run M (new @ GenOpcode (log_name t) [] [] 2 1 True # c) s r"
proof -
  obtain x u s0 where s: "s = set_stk s0 (spush x u)"
    by (rule that [of s "stk s 0" "sdrop 1 (stk s)"]) (simp add: spush_def sdrop_def fun_eq_iff)
  have drop: "stk_is (Stack DROP 1 j' k') (sdrop 1)" by (intro stk_isI) (auto simp: stack_ok_def stack_fun_def)
  have gone: "sdrop (Suc 0) (spush x u) = u" by (simp add: sdrop_def spush_def fun_eq_iff)
  note old = assms(4) [unfolded s run_dup_log]
  obtain i where i: "\<And>r. run M ops (set_stk s0 u) r \<longleftrightarrow> r = Norm (set_stk s0 (spush (VInt i) u))"
    "\<And>c r. run M (new @ GenOpcode (log_name t) [] [] 2 1 True # c) (set_stk s0 (spush x u)) r \<longleftrightarrow>
       run M c (set_stk s0 (spush (log_val t x i) u)) r"
    by (rule run_expanded [OF assms(1-3)]) (use old in auto)
  have body: "called M (Stack DROP 1 j' k' # ops) (set_stk s0 (spush x u)) r1 \<longleftrightarrow> r1 = Norm (set_stk s0 (spush (VInt i) u))" for r1
    unfolding called_def run_stk_is [OF drop] by (simp add: gone i(1))
  show ?thesis
  proof (cases "cond (t = LogOR) x = Some True")
    case True
    then have "goes_on M c (Norm (set_stk s0 (spush (VInt i) u))) r" using old by (simp add: body)
    then show ?thesis unfolding s i(2) using True by (auto simp: log_val_def goes_on_def is_norm_def)
  next
    case False
    then show ?thesis using old unfolding s i(2) by (simp add: log_val_def)
  qed
qed

text \<open>With another circuit of the same kind at the end of the operand.\<close>

lemma call_out_called: "called M c s r \<Longrightarrow> call_out r = r"
  by (auto simp: called_def)

lemma circuit_tail_runs:
  assumes "tvm M" "\<And>x. shifts M [x] 0 1 new ops" "yields_int M ops"
    and "run M (Stack PUSH_S 0 j k # LogCircuit t (CodeBlock bt (Stack DROP 1 j' k' # ops @ [Stack PUSH_S 0 j1 k1, LogCircuit t b])) # c) s r"
  shows "run M (new @ GenOpcode (log_name t) [] [] 2 1 True # Stack PUSH_S 0 j2 k2 # LogCircuit t b # c) s r"
proof -
  obtain x u s0 where s: "s = set_stk s0 (spush x u)"
    by (rule that [of s "stk s 0" "sdrop 1 (stk s)"]) (simp add: spush_def sdrop_def fun_eq_iff)
  have drop: "stk_is (Stack DROP 1 j' k') (sdrop 1)" by (intro stk_isI) (auto simp: stack_ok_def stack_fun_def)
  have gone: "sdrop (Suc 0) (spush x u) = u" by (simp add: sdrop_def spush_def fun_eq_iff)
  note old = assms(4) [unfolded s run_dup_log code_block.sel]
  obtain i where i: "\<And>r. run M ops (set_stk s0 u) r \<longleftrightarrow> r = Norm (set_stk s0 (spush (VInt i) u))"
    "\<And>c r. run M (new @ GenOpcode (log_name t) [] [] 2 1 True # c) (set_stk s0 (spush x u)) r \<longleftrightarrow>
       run M c (set_stk s0 (spush (log_val t x i) u)) r"
    by (rule run_expanded [OF assms(1-3)]) (use old in auto)
  let ?v = "set_stk s0 (spush (VInt i) u)"
  show ?thesis
  proof (cases "cond (t = LogOR) x = Some True")
    case False
    then show ?thesis using old unfolding s i(2) run_dup_log by (auto simp: log_val_def)
  next
    case True
    then obtain r1 where r1: "called M (Stack DROP 1 j' k' # ops @ [Stack PUSH_S 0 j1 k1, LogCircuit t b]) (set_stk s0 (spush x u)) r1"
      "goes_on M c r1 r" using old by auto
    have rest: "run M (ops @ d) (set_stk s0 u) r0 \<longleftrightarrow> run M d ?v r0" for d r0
      by (auto simp: run_append i(1) is_norm_def)
    obtain r0 where r0: "run M [Stack PUSH_S 0 j1 k1, LogCircuit t b] ?v r0" "r1 = call_out r0"
      using r1(1) unfolding called_def run_stk_is [OF drop] by (auto simp: gone rest)
    have "call_out r0 = r0"
      using r0(1) unfolding run_dup_log by (auto simp: goes_on_def dest: call_out_called)
    then have "run M ([Stack PUSH_S 0 j2 k2, LogCircuit t b] @ c) ?v r"
      unfolding run_goes_on using r0 r1(2) unfolding run_dup_log by auto
    then show ?thesis unfolding s i(2) using True by (simp add: log_val_def)
  qed
qed

text \<open>What \<open>expand_circuit\<close> writes may replace the circuit and the \<open>DUP\<close> before it.\<close>

lemma expand_runs:
  assumes "tvm M" "expand_circuit t (Stack DROP 1 j' k' # ops) = Some (Some new)" "in_frame M 1 ops" "yields_int M ops"
    and "run M (Stack PUSH_S 0 j k # LogCircuit t (CodeBlock bt (Stack DROP 1 j' k' # ops)) # c) s r"
  shows "run M (new @ c) s r"
proof -
  obtain sz nw where e: "pure_loop ops (True, 1, []) = Some (True, sz, nw)" "sz = 2" "nw \<noteq> []"
      "(case last nw of LogCircuit t' b \<Rightarrow>
            if t' \<noteq> t then Some None
            else do { _ \<leftarrow> solAssert (2 \<le> length nw); d \<leftarrow> makePUSH 0; Some (Some (butlast (butlast nw) @ [GenOpcode (log_name t) [] [] 2 1 True, d, last nw])) }
        | _ \<Rightarrow> Some (Some (nw @ [GenOpcode (log_name t) [] [] 2 1 True]))) = Some (Some new)"
    using assms(2) by (auto simp: expand_circuit_def circuit_pure_def bind_eq_Some_conv solAssert_def log_gen split: if_split_asm)
  obtain q where q: "sz = int (q + 1)" "\<And>x. shifts M [x] 0 q nw ops" "\<forall>n \<in> set nw. \<not> isLogCircuit n"
    using pure_shifts [of ops "[]" 0 "[]" "(True, sz, nw)" M] e(1) assms(3) by auto
  then have "\<not> isLogCircuit (last nw)" using e(3) by simp
  then have "new = nw @ [GenOpcode (log_name t) [] [] 2 1 True]" using e(4) by (cases "last nw") auto
  moreover have "q = 1" using q(1) e(2) by simp
  ultimately show ?thesis using circuit_runs [OF assms(1) _ assms(4,5), of nw] q(2) by simp
qed

lemma expand_tail_runs:
  assumes "tvm M" "expand_circuit t (Stack DROP 1 j' k' # ops @ [Stack PUSH_S 0 j1 k1, LogCircuit t b]) = Some (Some new)"
    and "in_frame M 1 ops" "yields_int M ops"
    and "run M (Stack PUSH_S 0 j k # LogCircuit t (CodeBlock bt (Stack DROP 1 j' k' # ops @ [Stack PUSH_S 0 j1 k1, LogCircuit t b])) # c) s r"
  shows "run M (new @ c) s r"
proof -
  let ?tail = "[Stack PUSH_S 0 j1 k1, LogCircuit t b]"
  obtain sz nw where e: "pure_loop (ops @ ?tail) (True, 1, []) = Some (True, sz, nw)" "sz = 2"
      "(case last nw of LogCircuit t' b \<Rightarrow>
            if t' \<noteq> t then Some None
            else do { _ \<leftarrow> solAssert (2 \<le> length nw); d \<leftarrow> makePUSH 0; Some (Some (butlast (butlast nw) @ [GenOpcode (log_name t) [] [] 2 1 True, d, last nw])) }
        | _ \<Rightarrow> Some (Some (nw @ [GenOpcode (log_name t) [] [] 2 1 True]))) = Some (Some new)"
    using assms(2) by (auto simp: expand_circuit_def circuit_pure_def bind_eq_Some_conv solAssert_def log_gen split: if_split_asm)
  obtain q nw1 where q: "pure_loop ?tail (True, int (q + 1), nw1) = Some (True, sz, nw)" "\<And>x. shifts M [x] 0 q nw1 ops"
    using pure_shifts [of ops ?tail 0 "[]" "(True, sz, nw)" M] e(1) assms(3) by auto
  obtain d where d: "nw = nw1 @ [d, LogCircuit t b]" "sz = int (q + 1)"
    using q(1) by (auto simp: isPureOperation_def bind_eq_Some_conv)
  then have "q = 1" using e(2) by simp
  have "new = nw1 @ [GenOpcode (log_name t) [] [] 2 1 True, Stack PUSH_S 0 (-1) (-1), LogCircuit t b]"
    using e(3) d(1) by (auto simp: bind_eq_Some_conv solAssert_def makePUSH_def butlast_append split: if_split_asm)
  then show ?thesis using circuit_tail_runs [OF assms(1) _ assms(4,5), of nw1] q(2) \<open>q = 1\<close> by simp
qed

section \<open>SizeOptimizer\<close>

text \<open>The slices of a tree in the order of the walk. \<open>visit\<close> returns \<open>false\<close>, so children of cells are not visited.\<close>

fun slices_node :: "node \<Rightarrow> push_cell list" and slices_block :: "code_block \<Rightarrow> push_cell list"
and slices_list :: "node list \<Rightarrow> push_cell list" where
  "slices_node (PushCellOrSlice c) = (if pc_type c = PUSHSLICE then [c] else [])"
| "slices_node (Opaque b t r p) = slices_block b"
| "slices_node (ReturnOrBreakOrCont t b) = slices_block b"
| "slices_node (BlockNode b) = slices_block b"
| "slices_node (SubProgram t r jm b p) = slices_block b"
| "slices_node (LogCircuit t b) = slices_block b"
| "slices_node (TvmIfElse w jm t None r) = slices_block t"
| "slices_node (TvmIfElse w jm t (Some e) r) = slices_block t @ slices_block e"
| "slices_node (TvmRepeat bk b) = slices_block b"
| "slices_node (TvmUntil bk b) = slices_block b"
| "slices_node (While ag bk c b) = slices_block c @ slices_block b"
| "slices_node n = []"
| "slices_block (CodeBlock t c) = slices_list c"
| "slices_list [] = []"
| "slices_list (n # c) = slices_node n @ slices_list c"

text \<open>\<open>updToRef\<close> on the nodes that are to be changed.\<close>

definition updToRef :: "push_cell \<Rightarrow> push_cell" where
  "updToRef c = PushCell PUSHREFSLICE (pc_blob c) (pc_child c)"

fun ref_node :: "push_cell list \<Rightarrow> node \<Rightarrow> node" and ref_block :: "push_cell list \<Rightarrow> code_block \<Rightarrow> code_block"
and ref_list :: "push_cell list \<Rightarrow> node list \<Rightarrow> node list" where
  "ref_node S (PushCellOrSlice c) = PushCellOrSlice (if c \<in> set S then updToRef c else c)"
| "ref_node S (Opaque b t r p) = Opaque (ref_block S b) t r p"
| "ref_node S (ReturnOrBreakOrCont t b) = ReturnOrBreakOrCont t (ref_block S b)"
| "ref_node S (BlockNode b) = BlockNode (ref_block S b)"
| "ref_node S (SubProgram t r jm b p) = SubProgram t r jm (ref_block S b) p"
| "ref_node S (LogCircuit t b) = LogCircuit t (ref_block S b)"
| "ref_node S (TvmIfElse w jm t None r) = TvmIfElse w jm (ref_block S t) None r"
| "ref_node S (TvmIfElse w jm t (Some e) r) = TvmIfElse w jm (ref_block S t) (Some (ref_block S e)) r"
| "ref_node S (TvmRepeat bk b) = TvmRepeat bk (ref_block S b)"
| "ref_node S (TvmUntil bk b) = TvmUntil bk (ref_block S b)"
| "ref_node S (While ag bk c b) = While ag bk (ref_block S c) (ref_block S b)"
| "ref_node S n = n"
| "ref_block S (CodeBlock t c) = CodeBlock t (ref_list S c)"
| "ref_list S [] = []"
| "ref_list S (n # c) = ref_node S n # ref_list S c"

text \<open>
  \<open>upd\<close>: the groups of equal slices for which a reference is worth it. The products with \<open>1.7\<close> are exact in the
  comparison, because both sizes are integers.
\<close>

definition worth_ref :: "int \<Rightarrow> int \<Rightarrow> bool" where
  "worth_ref qty bitSize =
     (let oldSize = (12 + bitSize) * qty; newSize = 8 * qty + bitSize
      in oldSize \<ge> 500 \<and> 10 * oldSize \<ge> 17 * newSize)"

fun ref_groups :: "push_cell list \<Rightarrow> push_cell list \<Rightarrow> push_cell list exc" where
  "ref_groups S [] = Some []"
| "ref_groups S (c # cs) = do {
     bits \<leftarrow> sliceToBitString (pc_blob c);
     rs \<leftarrow> ref_groups S cs;
     Some (if worth_ref (int (count_list S c)) (int (length bits)) then c # rs else rs) }"

definition contract_slices :: "contract \<Rightarrow> push_cell list" where
  "contract_slices c = concat (map (\<lambda>f. slices_block (f_block f)) (contract_functions c))"

definition size_optimize :: "contract \<Rightarrow> contract exc" where
  "size_optimize c = do {
     let S = contract_slices c;
     rs \<leftarrow> ref_groups S (remdups S);
     Some (c\<lparr>contract_functions := map (\<lambda>f. f\<lparr>f_block := ref_block rs (f_block f)\<rparr>) (contract_functions c)\<rparr>) }"

text \<open>A slice in a cell of its own is the same value.\<close>

definition plain_slices :: "push_cell list \<Rightarrow> bool" where
  "plain_slices S = (\<forall>c \<in> set S. pc_type c = PUSHSLICE \<and> doc_cell c \<noteq> None)"

lemma ref_cell:
  assumes "tvm M" "pc_type c = PUSHSLICE" "doc_cell c \<noteq> None"
  shows "run1 M (PushCellOrSlice (updToRef c)) s r \<longleftrightarrow> run1 M (PushCellOrSlice c) s r"
proof -
  obtain v where v: "doc_cell c = Some v" using assms(3) by blast
  then have "doc_cell (updToRef c) = Some v" using assms(2) by (cases c) (auto simp: doc_cell_def updToRef_def split: if_split_asm)
  then show ?thesis using v tvm.cell_doc [OF assms(1)] by (simp add: run1_PushCell)
qed

fun no_conts_node :: "node \<Rightarrow> bool" and no_conts :: "code_block \<Rightarrow> bool" and no_conts_list :: "node list \<Rightarrow> bool" where
  "no_conts_node (Opaque b t r p) = no_conts b"
| "no_conts_node (ReturnOrBreakOrCont t b) = no_conts b"
| "no_conts_node (BlockNode b) = False"
| "no_conts_node (SubProgram t r jm b p) = no_conts b"
| "no_conts_node (LogCircuit t b) = no_conts b"
| "no_conts_node (TvmIfElse w jm t None r) = no_conts t"
| "no_conts_node (TvmIfElse w jm t (Some e) r) = (no_conts t \<and> no_conts e)"
| "no_conts_node (TvmRepeat bk b) = no_conts b"
| "no_conts_node (TvmUntil bk b) = no_conts b"
| "no_conts_node (While ag bk c b) = (no_conts c \<and> no_conts b)"
| "no_conts_node n = True"
| "no_conts (CodeBlock t c) = no_conts_list c"
| "no_conts_list [] = True"
| "no_conts_list (n # c) = (no_conts_node n \<and> no_conts_list c)"

lemma same_runs_CodeBlock: "same_runs M (CodeBlock t c) (CodeBlock t' c') \<longleftrightarrow> (\<forall>s r. run M c' s r \<longleftrightarrow> run M c s r)"
  by (simp add: same_runs_def)

lemma ref_runs:
  "tvm M \<Longrightarrow> plain_slices S \<Longrightarrow> no_conts_node n \<Longrightarrow> \<forall>s r. run1 M (ref_node S n) s r \<longleftrightarrow> run1 M n s r"
  "tvm M \<Longrightarrow> plain_slices S \<Longrightarrow> no_conts b \<Longrightarrow> same_runs M b (ref_block S b)"
  "tvm M \<Longrightarrow> plain_slices S \<Longrightarrow> no_conts_list c \<Longrightarrow> \<forall>s r. run M (ref_list S c) s r \<longleftrightarrow> run M c s r"
proof (induction S n and S b and S c rule: ref_node_ref_block_ref_list.induct)
  case (1 S c)
  then show ?case by (auto simp: plain_slices_def ref_cell)
qed (auto simp: same_node run_Cons_iff same_runs_CodeBlock)

lemma ref_groups_Some: "ref_groups S cs = Some rs \<Longrightarrow>
    set rs = {c \<in> set cs. \<exists>bits. sliceToBitString (pc_blob c) = Some bits \<and> worth_ref (int (count_list S c)) (int (length bits))}"
  by (induction cs arbitrary: rs) (auto simp: bind_eq_Some_conv split: if_split_asm)

text \<open>What is moved gets smaller.\<close>

lemma worth_smaller: "worth_ref qty bits \<Longrightarrow> 0 \<le> bits \<Longrightarrow> 0 \<le> qty \<Longrightarrow> 8 * qty + bits < (12 + bits) * qty"
  by (auto simp: worth_ref_def Let_def)

section \<open>The whole optimiser\<close>

definition visit_bodies :: "(code_block \<Rightarrow> code_block exc option) \<Rightarrow> contract \<Rightarrow> contract exc option" where
  "visit_bodies f c = visit_contract (visit_function f) c"

definition optimizeCode :: "nat \<Rightarrow> squasher \<Rightarrow> contract \<Rightarrow> contract exc option" where
  "optimizeCode fuel T c =
     (let c1 = c\<lparr>contract_functions := map deleterCallX (contract_functions c)\<rparr>
      in then_pass (visit_bodies logCircuitExpander c1) (\<lambda>c2.
         then_pass (so_contract fuel c2) (\<lambda>c3.
         then_pass (visit_bodies (endVisit T False False) c3) (\<lambda>c4.
         then_pass (so_contract fuel c4) (\<lambda>c5.
         then_pass (visit_bodies (endVisit T False False) c5) (\<lambda>c6.
         then_pass (visit_bodies (endVisit T True False) c6) (\<lambda>c7.
         then_pass (visit_bodies (endVisit T True True) c7) (\<lambda>c8.
         Some (size_optimize (c8\<lparr>contract_functions := map (\<lambda>f. f\<lparr>f_block := loc_block (f_block f)\<rparr>) (contract_functions c8)\<rparr>))))))))))"

text \<open>No pass adds, removes, renames or reorders functions.\<close>

definition signature :: "tvm_function \<Rightarrow> int \<times> int \<times> string \<times> function_type" where
  "signature f = (f_take f, f_ret f, f_name f, f_type f)"

definition keeps_interface :: "contract \<Rightarrow> contract \<Rightarrow> bool" where
  "keeps_interface c c' = (pragmas c' = pragmas c \<and> map signature (contract_functions c') = map signature (contract_functions c))"

lemma interface_trans: "keeps_interface a b \<Longrightarrow> keeps_interface b c \<Longrightarrow> keeps_interface a c"
  by (simp add: keeps_interface_def)

lemma keeps_map: "(\<And>f. signature (g f) = signature f) \<Longrightarrow> keeps_interface c (c\<lparr>contract_functions := map g (contract_functions c)\<rparr>)"
  by (simp add: keeps_interface_def)

lemma signature_block [simp]: "signature (f\<lparr>f_block := b\<rparr>) = signature f"
  by (simp add: signature_def)

lemma visit_functions_signature:
  "visit_functions (visit_function g) fs = Some (Some fs') \<Longrightarrow> map signature fs' = map signature fs"
  by (induction fs arbitrary: fs') (auto simp: then_pass_Some visit_function_def)

lemma keeps_visit: "visit_bodies g c = Some (Some c') \<Longrightarrow> keeps_interface c c'"
  by (auto simp: visit_bodies_def visit_contract_def then_pass_Some keeps_interface_def dest: visit_functions_signature)

lemma so_functions_signature:
  "so_functions fuel fs st = Some (Some (st', fs')) \<Longrightarrow> map signature fs' = map signature fs"
  by (induction fs arbitrary: fs' st) (auto simp: then_pass_Some so_function_def split: if_split_asm)

lemma keeps_so: "so_contract fuel c = Some (Some c') \<Longrightarrow> keeps_interface c c'"
  by (auto simp: so_contract_def then_pass_Some keeps_interface_def dest: so_functions_signature)

lemma keeps_size: "size_optimize c = Some c' \<Longrightarrow> keeps_interface c c'"
  by (auto simp: size_optimize_def Let_def bind_eq_Some_conv intro!: keeps_map)

lemma keeps_optimize:
  assumes "optimizeCode fuel T c = Some (Some c')"
  shows "keeps_interface c c'"
proof -
  let ?c1 = "c\<lparr>contract_functions := map deleterCallX (contract_functions c)\<rparr>"
  let ?sq = "\<lambda>c. c\<lparr>contract_functions := map (\<lambda>f. f\<lparr>f_block := loc_block (f_block f)\<rparr>) (contract_functions c)\<rparr>"
  obtain c2 c3 c4 c5 c6 c7 c8 where p: "visit_bodies logCircuitExpander ?c1 = Some (Some c2)" "so_contract fuel c2 = Some (Some c3)"
      "visit_bodies (endVisit T False False) c3 = Some (Some c4)" "so_contract fuel c4 = Some (Some c5)"
      "visit_bodies (endVisit T False False) c5 = Some (Some c6)" "visit_bodies (endVisit T True False) c6 = Some (Some c7)"
      "visit_bodies (endVisit T True True) c7 = Some (Some c8)" "size_optimize (?sq c8) = Some c'"
    using assms by (auto simp: optimizeCode_def Let_def then_pass_Some)
  have "signature (deleterCallX f) = signature f" for f by (auto simp: deleterCallX_def Let_def split: option.split)
  then have "keeps_interface c ?c1" by (rule keeps_map)
  moreover have "keeps_interface c8 (?sq c8)" by (rule keeps_map) simp
  ultimately show ?thesis
    using keeps_visit [OF p(1)] keeps_so [OF p(2)] keeps_visit [OF p(3)] keeps_so [OF p(4)] keeps_visit [OF p(5)]
      keeps_visit [OF p(6)] keeps_visit [OF p(7)] keeps_size [OF p(8)]
    unfolding keeps_interface_def by metis
qed

end
