(* ===== verification/PassesCorrect.thy ===== *)
theory PassesCorrect
  imports TreePasses
begin

text \<open>
  The theorems about the passes over the tree and the stack optimiser, each with an example at which its
  hypotheses hold.
\<close>

section \<open>Instructions of the examples\<close>

abbreviation newc :: node where "newc \<equiv> GenOpcode ''NEWC'' [] [] 0 1 True"
abbreviation pushint :: "string \<Rightarrow> node" where "pushint a \<equiv> GenOpcode ''PUSHINT'' a [] 0 1 True"
abbreviation op :: "string \<Rightarrow> string \<Rightarrow> int \<Rightarrow> node" where "op opc a t \<equiv> GenOpcode opc a [] t 1 False"
abbreviation stk1 :: "stack_opcode \<Rightarrow> int \<Rightarrow> node" where "stk1 p i \<equiv> Stack p i (-1) (-1)"
abbreviation slice :: "string \<Rightarrow> push_cell" where "slice b \<equiv> PushCell PUSHSLICE b None"

section \<open>The passes over the tree\<close>


abbreviation main_of :: "node list \<Rightarrow> contract" where
  "main_of c \<equiv> \<lparr>pragmas = [], contract_functions =
     [\<lparr>f_take = 0, f_ret = 0, f_name = ''main'', f_type = PrivateFunction, f_block = CodeBlock PUSHCONT c\<rparr>]\<rparr>"


text \<open>
  C28: \<open>LocSquasher\<close> changes only line marks. A well-formed block runs after it as before, and no two line marks
  stand next to each other.
\<close>

theorem loc_squasher_sound:
  assumes "wf_block M mul b"
  shows "same_runs M b (loc_block b) \<and> \<not> adjacent_locs (instructions (loc_block b))"
  using loc_runs(2) [OF assms] squashLocs_tidy adjacent_map by (cases b) simp

theorem loc_squasher_sound_witness:
  "instructions (loc_block (CodeBlock PUSHCONT [Loc ''a.sol'' 1, Loc ''a.sol'' 2, stk1 DROP 1, Loc ''a.sol'' 2, stk1 DROP 2])) =
     [Loc ''a.sol'' 2, stk1 DROP 1, stk1 DROP 2] \<and>
   same_runs ref_machine (CodeBlock PUSHCONT [Loc ''a.sol'' 1, Loc ''a.sol'' 2, stk1 DROP 1, Loc ''a.sol'' 2, stk1 DROP 2])
     (loc_block (CodeBlock PUSHCONT [Loc ''a.sol'' 1, Loc ''a.sol'' 2, stk1 DROP 1, Loc ''a.sol'' 2, stk1 DROP 2]))"
proof -
  let ?b = "CodeBlock PUSHCONT [Loc ''a.sol'' 1, Loc ''a.sol'' 2, stk1 DROP 1, Loc ''a.sol'' 2, stk1 DROP 2]"
  have "wf_block ref_machine False ?b" by (simp add: stack_wf_def)
  moreover have "instructions (loc_block ?b) = [Loc ''a.sol'' 2, stk1 DROP 1, stk1 DROP 2]" by code_simp
  ultimately show ?thesis using loc_squasher_sound [of ref_machine False ?b] by blast
qed



text \<open>
  \<open>DeleterCallX\<close> is sound. A function whose only instruction calls or jumps to a block ends, with the
  instructions of that block as its body, in the same outcomes, where \<open>RET\<close> and falling off the end are the same.
\<close>

lemma deleter_callx_sound:
  "(\<exists>r'. run M (instructions (f_block (deleterCallX f))) s r' \<and> call_out r' = r) \<longleftrightarrow>
   (\<exists>r'. run M (instructions (f_block f)) s r' \<and> call_out r' = r)"
  by (rule deleterCallX_body)





section \<open>The simulator\<close>





text \<open>
  A value that is overwritten before it is used. When the simulator of one value reports that the value is
  set, the code behaves the same whatever the value is; this is why \<open>POP\<close> may become \<open>DROP\<close>.
\<close>

lemma overwritten_value_ignored:
  assumes "simulate (int (p + 1)) 1 c = Some st" "m_wasSet st" "fits M c"
  shows "run M c (set_stk s (ins p [x] (stk s))) r \<longleftrightarrow> run M c (set_stk s (ins p [y] (stk s))) r"
  using simulated_set [OF assms refl] by (simp add: ignores_def shift_st_def)

section \<open>The stack optimiser\<close>









text \<open>
  C39: a missing test in the simulator. The body of a return is simulated without asking whether it overwrites the
  value. Then the \<open>POP\<close> is dropped from it, the optimiser accepts the result, and the new code leaves a value
  on the stack that the original code does not leave.
\<close>

theorem return_overwrite_unsound:
  "successfullyUpdate \<lparr>m_didSome = False, scopes = [0]\<rparr> None (pushint ''9'')
     [pushint ''5'', ReturnOrBreakOrCont 0 (CodeBlock PUSHCONT [pushint ''1'', stk1 POP_S 2, stk1 DROP 2])] =
   Some (Some [pushint ''5'', ReturnOrBreakOrCont 0 (CodeBlock PUSHCONT [pushint ''1'', stk1 DROP 1])]) \<and>
   \<not> alike ref_machine
     [pushint ''9'', pushint ''5'', ReturnOrBreakOrCont 0 (CodeBlock PUSHCONT [pushint ''1'', stk1 POP_S 2, stk1 DROP 2])]
     [pushint ''5'', ReturnOrBreakOrCont 0 (CodeBlock PUSHCONT [pushint ''1'', stk1 DROP 1])]"
proof -
  let ?c = "[pushint ''5'', ReturnOrBreakOrCont 0 (CodeBlock PUSHCONT [pushint ''1'', stk1 POP_S 2, stk1 DROP 2])]"
  let ?c' = "[pushint ''5'', ReturnOrBreakOrCont 0 (CodeBlock PUSHCONT [pushint ''1'', stk1 DROP 1])]"
  let ?s = "\<lparr>stk = \<lambda>_. VNull, glb = \<lambda>_. VNull, wld = ()\<rparr>"
  have u: "successfullyUpdate \<lparr>m_didSome = False, scopes = [0]\<rparr> None (pushint ''9'') ?c = Some (Some ?c')" by code_simp
  have pi: "run ref_machine (pushint a # c) s r \<longleftrightarrow> run ref_machine c (set_stk s (spush (VInt i) (stk s))) r"
    if "bigint_of a = Some i" for a i c s r
    by (auto simp: run_Cons_iff run1_GenOpcode norm_def gen_typed_def app0_def is_norm_def ref.gen_PUSHINT_big [OF that])
  have n: "bigint_of ''9'' = Some 9" "bigint_of ''5'' = Some 5" "bigint_of ''1'' = Some 1" by code_simp+
  have k: "stk_is (stk1 POP_S 2) (spop 2)" "stk_is (stk1 DROP 2) (sdrop 2)" "stk_is (stk1 DROP 1) (sdrop 1)"
    by (intro stk_isI; auto simp: stack_ok_def stack_fun_def)+
  have rb: "run ref_machine [ReturnOrBreakOrCont t b] s r \<longleftrightarrow> run ref_machine (instructions b) s r" for t b s r
    by (simp add: run_single run1_ROBC)
  note runs = pi [OF n(1)] pi [OF n(2)] pi [OF n(3)] run_stk_is [OF k(1)] run_stk_is [OF k(2)] run_stk_is [OF k(3)] rb
  have "run ref_machine (pushint ''9'' # ?c) ?s (Norm ?s)"
    unfolding runs code_block.sel by (simp add: set_stk_def closed_forms)
  moreover have "\<not> run ref_machine ?c' ?s (Norm ?s)"
  proof
    assume "run ref_machine ?c' ?s (Norm ?s)"
    then have "sdrop 1 (spush (VInt 1) (spush (VInt 5) (\<lambda>_. VNull))) 0 = VNull"
      unfolding runs code_block.sel by (auto simp: set_stk_def)
    then show False by (simp add: sdrop_def spush_def)
  qed
  ultimately show ?thesis using u unfolding alike_def by blast
qed

section \<open>Sizes, and the whole optimiser\<close>

lemma slices_types:
  "\<forall>d \<in> set (slices_node n). pc_type d = PUSHSLICE" "\<forall>d \<in> set (slices_block b). pc_type d = PUSHSLICE"
  "\<forall>d \<in> set (slices_list c). pc_type d = PUSHSLICE"
  by (induction n and b and c rule: slices_node_slices_block_slices_list.induct) auto

text \<open>
  C31: \<open>SizeOptimizer\<close> is sound and saves space. It changes exactly the slices that are long and frequent enough, the
  functions run as before, and each group it moves takes fewer bits than before: the reference of each
  occurrence and one copy instead of a copy in every occurrence.
\<close>

theorem size_optimizer_sound:
  assumes "tvm M" "size_optimize c = Some c'"
    and "\<forall>f \<in> set (contract_functions c). no_conts (f_block f) \<and> (\<forall>d \<in> set (slices_block (f_block f)). doc_cell d \<noteq> None)"
  shows "list_all2 (\<lambda>f f'. signature f' = signature f \<and> same_runs M (f_block f) (f_block f')) (contract_functions c) (contract_functions c') \<and>
    (\<exists>rs. contract_functions c' = map (\<lambda>f. f\<lparr>f_block := ref_block rs (f_block f)\<rparr>) (contract_functions c) \<and>
      (\<forall>d \<in> set rs. \<exists>bits. sliceToBitString (pc_blob d) = Some bits \<and>
        8 * int (count_list (contract_slices c) d) + int (length bits) < (12 + int (length bits)) * int (count_list (contract_slices c) d)))"
proof -
  let ?S = "contract_slices c"
  obtain rs where rs: "ref_groups ?S (remdups ?S) = Some rs"
      "c' = c\<lparr>contract_functions := map (\<lambda>f. f\<lparr>f_block := ref_block rs (f_block f)\<rparr>) (contract_functions c)\<rparr>"
    using assms(2) by (auto simp: size_optimize_def Let_def bind_eq_Some_conv)
  have "plain_slices rs"
    using ref_groups_Some [OF rs(1)] assms(3) slices_types by (fastforce simp: plain_slices_def contract_slices_def)
  then have "list_all2 (\<lambda>f f'. signature f' = signature f \<and> same_runs M (f_block f) (f_block f')) (contract_functions c) (contract_functions c')"
    using ref_runs(2) [OF assms(1)] assms(3) by (simp add: rs(2) list_all2_map2 list_all2_same)
  moreover have "\<forall>d \<in> set rs. \<exists>bits. sliceToBitString (pc_blob d) = Some bits \<and>
        8 * int (count_list ?S d) + int (length bits) < (12 + int (length bits)) * int (count_list ?S d)"
    using ref_groups_Some [OF rs(1)] worth_smaller by fastforce
  ultimately show ?thesis using rs(2) by auto
qed

abbreviation long_slice :: push_cell where "long_slice \<equiv> slice (CHR ''x'' # replicate 60 CHR ''a'')"

lemma main_of_runs:
  assumes "list_all2 (\<lambda>f f'. signature f' = signature f \<and> same_runs M (f_block f) (f_block f'))
    (contract_functions (main_of xs)) (contract_functions (main_of ys))"
  shows "same_runs M (CodeBlock PUSHCONT xs) (CodeBlock PUSHCONT ys)"
  using assms by simp

theorem size_optimizer_sound_witness:
  "size_optimize (main_of [PushCellOrSlice long_slice, PushCellOrSlice long_slice, PushCellOrSlice long_slice]) =
     Some (main_of [PushCellOrSlice (updToRef long_slice), PushCellOrSlice (updToRef long_slice), PushCellOrSlice (updToRef long_slice)]) \<and>
   same_runs ref_machine (CodeBlock PUSHCONT [PushCellOrSlice long_slice, PushCellOrSlice long_slice, PushCellOrSlice long_slice])
     (CodeBlock PUSHCONT [PushCellOrSlice (updToRef long_slice), PushCellOrSlice (updToRef long_slice), PushCellOrSlice (updToRef long_slice)])"
proof -
  let ?c = "main_of [PushCellOrSlice long_slice, PushCellOrSlice long_slice, PushCellOrSlice long_slice]"
  have run: "size_optimize ?c =
      Some (main_of [PushCellOrSlice (updToRef long_slice), PushCellOrSlice (updToRef long_slice), PushCellOrSlice (updToRef long_slice)])"
    by code_simp
  have "\<forall>f \<in> set (contract_functions ?c). no_conts (f_block f) \<and> (\<forall>e \<in> set (slices_block (f_block f)). doc_cell e \<noteq> None)"
    by code_simp
  from size_optimizer_sound [OF ref.tvm_axioms run this, THEN conjunct1] have "same_runs ref_machine
      (CodeBlock PUSHCONT [PushCellOrSlice long_slice, PushCellOrSlice long_slice, PushCellOrSlice long_slice])
      (CodeBlock PUSHCONT [PushCellOrSlice (updToRef long_slice), PushCellOrSlice (updToRef long_slice), PushCellOrSlice (updToRef long_slice)])"
    by (rule main_of_runs)
  with run show ?thesis by blast
qed



end
