(* ===== verification/Printer.thy ===== *)
theory Printer
  imports Texts
begin

text \<open>
  \<open>Printer\<close> (\<open>TvmAstVisitor.cpp\<close>): the assembler text of a contract. A visit function gives the lines it writes,
  each with its number of tabs (\<open>m_tab\<close>), or no result where an assertion fails or a conversion throws. Then the meaning of
  the lines that stand for integers and stack instructions, as the instruction set documents them, and the
  nesting of the braces.
\<close>

section \<open>Integers\<close>

text \<open>The static maps \<open>power2\<close>, \<open>power2Dec\<close> and \<open>power2Neg\<close>, from a number to the exponent.\<close>

definition print_power2 :: "int \<rightharpoonup> nat" where
  "print_power2 = map_of (map (\<lambda>p. (2 ^ p, p)) [7..<257])"

definition print_power2Dec :: "int \<rightharpoonup> nat" where
  "print_power2Dec = map_of (map (\<lambda>p. (2 ^ p - 1, p)) [8..<257])"

definition print_power2Neg :: "int \<rightharpoonup> nat" where
  "print_power2Neg = map_of (map (\<lambda>p. (- (2 ^ p), p)) [8..<257])"

definition printPushInt :: "string \<Rightarrow> string \<Rightarrow> string exc" where
  "printPushInt str comment =
     (let text = ''PUSHINT '' @ str @ (if comment \<noteq> [] then CHR '' '' # comment else [])
      in case str of
           [] \<Rightarrow> None
         | c # _ \<Rightarrow>
             if c = CHR ''$'' then Some text
             else do {
               val \<leftarrow> bigint_of str;
               Some (case print_power2 val of
                   Some p \<Rightarrow> ''PUSHPOW2 '' @ toString (int p)
                 | None \<Rightarrow> (case print_power2Dec val of
                     Some p \<Rightarrow> ''PUSHPOW2DEC '' @ toString (int p)
                   | None \<Rightarrow> (case print_power2Neg val of
                       Some p \<Rightarrow> ''PUSHNEGPOW2 '' @ toString (int p)
                     | None \<Rightarrow> text))) })"

definition print_int :: "int \<Rightarrow> string exc" where
  "print_int i = printPushInt (toString i) []"

section \<open>Stack instructions\<close>

definition print_SS :: "int \<Rightarrow> int \<Rightarrow> int \<Rightarrow> string" where
  "print_SS i j k =
     '' S'' @ toString i @
     (if j \<noteq> -1 then '', S'' @ toString j @ (if k \<noteq> -1 then '', S'' @ toString k else []) else [])"

definition print_indexes :: "int \<Rightarrow> int \<Rightarrow> int \<Rightarrow> string exc" where
  "print_indexes i j k = do {
     _ \<leftarrow> solAssert (i \<noteq> -1);
     _ \<leftarrow> solAssert (j \<noteq> -1 \<longrightarrow> k = -1);
     Some (CHR '' '' # toString i @ (if j \<noteq> -1 then '', '' @ toString j else [])) }"

text \<open>The lambda \<open>drop\<close>, which captures \<open>i\<close>, \<open>j\<close> and \<open>k\<close> of the instruction.\<close>

definition print_drop :: "int \<Rightarrow> int \<Rightarrow> int \<Rightarrow> int \<Rightarrow> string list exc" where
  "print_drop n i j k =
     (if n = 1 then Some [''DROP'']
      else if n = 2 then Some [''DROP2'']
      else if n \<le> 15 then do { x \<leftarrow> print_indexes i j k; Some [''BLKDROP'' @ x] }
      else do { x \<leftarrow> print_int n; Some [x, ''DROPX''] })"

fun print_chunks :: "nat \<Rightarrow> nat list" where
  "print_chunks rest = (if rest = 0 then [] else min 15 rest # print_chunks (rest - 15))"

declare print_chunks.simps [simp del]

definition print_blkpush :: "int \<Rightarrow> int \<Rightarrow> string list" where
  "print_blkpush i j =
     (case map (\<lambda>n. ''BLKPUSH '' @ toString (int n) @ '', '' @ toString j) (print_chunks (nat i)) of
        [] \<Rightarrow> [[]] | ls \<Rightarrow> ls)"

definition print_two :: "int \<Rightarrow> int \<Rightarrow> string list \<Rightarrow> string list exc" where
  "print_two i j ls = do { x \<leftarrow> print_int i; y \<leftarrow> print_int j; Some (x # y # ls) }"

definition print_blkswap :: "int \<Rightarrow> int \<Rightarrow> int \<Rightarrow> string list exc" where
  "print_blkswap bottom up k =
     (if bottom = 1 \<and> up = 1 then Some [''SWAP'']
      else if bottom = 1 \<and> up = 2 then Some [''ROT'']
      else if bottom = 2 \<and> up = 1 then Some [''ROTREV'']
      else if bottom = 2 \<and> up = 2 then Some [''SWAP2'']
      else if 1 \<le> bottom \<and> bottom \<le> 16 \<and> 1 \<le> up \<and> up \<le> 16 then
        (if bottom = 1 then Some [''ROLL '' @ toString up]
         else if up = 1 then Some [''ROLLREV '' @ toString bottom]
         else do { x \<leftarrow> print_indexes bottom up k; Some [''BLKSWAP'' @ x] })
      else if bottom = 1 then do { x \<leftarrow> print_int up; Some [x, ''ROLLX''] }
      else if up = 1 then do { x \<leftarrow> print_int bottom; Some [x, ''ROLLREVX''] }
      else print_two bottom up [''BLKSWX''])"

definition print_reverse :: "int \<Rightarrow> int \<Rightarrow> int \<Rightarrow> string list exc" where
  "print_reverse i j k = do {
     _ \<leftarrow> solAssert (2 \<le> i);
     if i = 2 \<and> j = 0 then Some [''SWAP'']
     else if i = 3 \<and> j = 0 then Some [''XCHG S2'']
     else if 2 \<le> i \<and> i \<le> 17 \<and> 0 \<le> j \<and> j \<le> 15 then do { x \<leftarrow> print_indexes i j k; Some [''REVERSE'' @ x] }
     else print_two i j [''REVX''] }"

definition print_stack :: "stack_opcode \<Rightarrow> int \<Rightarrow> int \<Rightarrow> int \<Rightarrow> string list exc" where
  "print_stack p i j k =
     (case p of
        DROP \<Rightarrow> print_drop i i j k
      | PUSH_S \<Rightarrow> do {
          _ \<leftarrow> solAssert (j = -1);
          Some [if i = 0 then ''DUP'' else if i = 1 then ''OVER'' else ''PUSH S'' @ toString i] }
      | XCHG \<Rightarrow>
          Some [if i = 0 then (if j = 1 then ''SWAP'' else ''XCHG S'' @ toString j)
                else ''XCHG S'' @ toString i @ '', S'' @ toString j]
      | BLKDROP2 \<Rightarrow>
          if i > 15 \<or> j > 15 then do { ls \<leftarrow> print_two i j [''BLKSWX'']; ds \<leftarrow> print_drop i i j k; Some (ls @ ds) }
          else do {
            _ \<leftarrow> solAssert (i \<ge> 2 \<and> j \<ge> 1 \<or> i \<ge> 1 \<and> j \<ge> 2);
            x \<leftarrow> print_indexes i j k;
            Some [''BLKDROP2'' @ x] }
      | PUSH2_S \<Rightarrow> Some [if i = 1 \<and> j = 0 then ''DUP2'' else if i = 3 \<and> j = 2 then ''OVER2'' else ''PUSH2'' @ print_SS i j k]
      | POP_S \<Rightarrow> Some [if i = 1 then ''NIP'' else ''POP'' @ print_SS i j k]
      | BLKSWAP \<Rightarrow> print_blkswap i j k
      | REVERSE \<Rightarrow> print_reverse i j k
      | BLKPUSH \<Rightarrow>
          if i = 2 \<and> j = 1 then Some [''DUP2'']
          else if i = 2 \<and> j = 3 then Some [''OVER2'']
          else do { _ \<leftarrow> solAssert (i > 15 \<longrightarrow> j = 0); Some (print_blkpush i j) }
      | PUSH3_S \<Rightarrow> Some [''PUSH3'' @ print_SS i j k]
      | TUCK \<Rightarrow> Some [''TUCK'']
      | PUXC \<Rightarrow> Some [''PUXC S'' @ toString i @ '', S'' @ toString j])"

section \<open>The other instructions\<close>

definition print_index :: "int \<Rightarrow> string list exc" where
  "print_index index =
     (if index = 0 then Some [''FIRST'']
      else if index = 1 then Some [''SECOND'']
      else if index = 2 then Some [''THIRD'']
      else if index \<le> 15 then Some [''INDEX '' @ toString index]
      else do { x \<leftarrow> print_int index; Some [x, ''INDEXVAR''] })"

definition print_gen :: "string \<Rightarrow> string \<Rightarrow> string \<Rightarrow> string list exc" where
  "print_gen opc arg comment =
     (let full = joinArg opc arg comment
      in case map_of [(''BITNOT'', ''NOT''), (''TUPLE 1'', ''SINGLE''), (''TUPLE 2'', ''PAIR''), (''TUPLE 3'', ''TRIPLE''),
             (''UNTUPLE 1'', ''UNSINGLE''), (''UNTUPLE 2'', ''UNPAIR''), (''UNTUPLE 3'', ''UNTRIPLE'')] full of
           Some t \<Rightarrow> Some [t]
         | None \<Rightarrow>
             if opc \<in> {''INDEX_EXCEP'', ''INDEX_NOEXCEP''} then do { index \<leftarrow> lexical_cast_int arg; print_index index }
             else if opc = ''PUSHINT'' then do { x \<leftarrow> printPushInt arg comment; Some [x] }
             else Some [full])"

definition print_globvar :: "string \<Rightarrow> int \<Rightarrow> string list exc" where
  "print_globvar name index =
     (if 1 \<le> index \<and> index \<le> 31 then Some [name @ CHR '' '' # toString index]
      else do { x \<leftarrow> print_int index; Some [x, name @ ''VAR''] })"

definition print_glob :: "glob_opcode \<Rightarrow> int \<Rightarrow> string list exc" where
  "print_glob p index =
     (case p of
        GetOrGetVar \<Rightarrow> print_globvar ''GETGLOB'' index
      | SetOrSetVar \<Rightarrow> print_globvar ''SETGLOB'' index
      | POPROOT \<Rightarrow> Some [''POPROOT''] | PUSHROOT \<Rightarrow> Some [''PUSHROOT'']
      | POP_C3 \<Rightarrow> Some [''POP C3''] | PUSH_C7 \<Rightarrow> Some [''PUSH C7'']
      | PUSH_C3 \<Rightarrow> Some [''PUSH C3''] | POP_C7 \<Rightarrow> Some [''POP C7''])"

type_synonym line = "nat \<times> string"

definition print_lines :: "nat \<Rightarrow> string list exc \<Rightarrow> line list exc" where
  "print_lines m = map_option (map (Pair m))"

fun print_cell :: "nat \<Rightarrow> push_cell \<Rightarrow> line list" where
  "print_cell m (PushCell t blob child) =
     (case t of
        PUSHREF_COMPUTE \<Rightarrow> [(m, ''PUSHREF''), (m, ''.compute $'' @ blob @ ''$'')]
      | PUSHREFSLICE_COMPUTE \<Rightarrow> [(m, ''PUSHREFSLICE''), (m, ''.compute $'' @ blob @ ''$'')]
      | PUSHSLICE \<Rightarrow> [(m, ''PUSHSLICE '' @ blob)]
      | _ \<Rightarrow>
          (m, case t of PUSHREF \<Rightarrow> ''PUSHREF {'' | PUSHREFSLICE \<Rightarrow> ''PUSHREFSLICE {'' | _ \<Rightarrow> ''.cell {'') #
          (if blob \<noteq> [] then [(Suc m, ''.blob '' @ blob)] else []) @
          (case child of Some c \<Rightarrow> print_cell (Suc m) c | None \<Rightarrow> []) @
          [(m, ''}'')])"

definition print_if :: "bool \<Rightarrow> bool \<Rightarrow> string" where
  "print_if withNot withJmp = ''IF'' @ (if withNot then ''NOT'' else []) @ (if withJmp then ''JMP'' else [])"

definition print_brk :: "string \<Rightarrow> bool \<Rightarrow> string" where
  "print_brk name withBreakOrReturn = name @ (if withBreakOrReturn then ''BRK'' else [])"

definition print_return :: "bool \<Rightarrow> bool \<Rightarrow> bool \<Rightarrow> string" where
  "print_return withIf withNot withAlt =
     (if withIf then ''IF'' else []) @ (if withNot then ''NOT'' else []) @ ''RET'' @ (if withAlt then ''ALT'' else [])"

definition print_exception :: "bool \<Rightarrow> bool \<Rightarrow> bool \<Rightarrow> bool \<Rightarrow> string \<Rightarrow> string" where
  "print_exception a y i n arg = exc_opcode a y i n @ (if arg \<noteq> [] then CHR '' '' # arg else [])"

definition print_type :: "block_type \<Rightarrow> string" where
  "print_type t = (case t of PUSHCONT \<Rightarrow> ''PUSHCONT'' | PUSHREFCONT \<Rightarrow> ''PUSHREFCONT'' | BlockNone \<Rightarrow> [])"

section \<open>Trees\<close>

fun print_node :: "nat \<Rightarrow> node \<Rightarrow> line list exc"
and print_block :: "nat \<Rightarrow> code_block \<Rightarrow> line list exc"
and print_list :: "nat \<Rightarrow> node list \<Rightarrow> line list exc" where
  "print_node m (AsymGen opc) = Some [(m, opc)]"
| "print_node m DeclRetFlag = Some [(m, ''FALSE ; decl return flag'')]"
| "print_node m (Opaque b t r p) = print_block m b"
| "print_node m (HardCode code t r p) = Some (map (Pair m) code)"
| "print_node m (Loc file line) = Some [(m, ''.loc '' @ file @ '', '' @ toString line)]"
| "print_node m (TvmReturn i n a) = Some [(m, print_return i n a)]"
| "print_node m (ReturnOrBreakOrCont t b) = do {
     ls \<leftarrow> print_block m b; Some ((m, ''; start return'') # ls @ [(m, ''; end return'')]) }"
| "print_node m (TvmException a y i n arg) = Some [(m, print_exception a y i n arg)]"
| "print_node m (GenOpcode opc arg comment t r p) = print_lines m (print_gen opc arg comment)"
| "print_node m (PushCellOrSlice c) = Some (print_cell m c)"
| "print_node m (Glob p i) = print_lines m (print_glob p i)"
| "print_node m (Stack p i j k) = print_lines m (print_stack p i j k)"
| "print_node m (BlockNode b) = print_block m b"
| "print_node m (SubProgram t r isJmp (CodeBlock bt c) p) =
     (case bt of
        BlockNone \<Rightarrow> None
      | PUSHCONT \<Rightarrow> do { ls \<leftarrow> print_block m (CodeBlock bt c); Some (ls @ [(m, if isJmp then ''JMPX'' else ''CALLX'')]) }
      | PUSHREFCONT \<Rightarrow> do {
          ls \<leftarrow> print_list (Suc m) c;
          Some ((m, if isJmp then ''JMPREF {'' else ''CALLREF {'') # ls @ [(m, ''}'')]) })"
| "print_node m (LogCircuit t b) = do {
     ls \<leftarrow> print_block (Suc m) b;
     Some ((m, ''PUSHCONT {'') # ls @ [(m, ''}''), (m, case t of LogAND \<Rightarrow> ''IF'' | LogOR \<Rightarrow> ''IFNOT'')]) }"
| "print_node m (TvmIfElse w jm (CodeBlock bt c) None r) =
     (case bt of
        BlockNone \<Rightarrow> None
      | PUSHCONT \<Rightarrow> do { ls \<leftarrow> print_block m (CodeBlock bt c); Some (ls @ [(m, print_if w jm)]) }
      | PUSHREFCONT \<Rightarrow> do {
          ls \<leftarrow> print_list (Suc m) c;
          Some ((m, print_if w jm @ ''REF {'') # ls @ [(m, ''}'')]) })"
| "print_node m (TvmIfElse w jm (CodeBlock bt c) (Some (CodeBlock bf d)) r) =
     (if bt = PUSHREFCONT \<and> bf = PUSHREFCONT then do {
        ls \<leftarrow> print_list (Suc m) c;
        ks \<leftarrow> print_list (Suc m) d;
        Some ([(0, ''IFREFELSEREF''), (0, ''{'')] @ ls @ [(0, ''}''), (0, ''{'')] @ ks @ [(0, ''}'')]) }
      else if bt = PUSHREFCONT then do {
        ks \<leftarrow> print_block m (CodeBlock bf d);
        ls \<leftarrow> print_list (Suc m) c;
        Some (ks @ (0, ''IFREFELSE {'') # ls @ [(0, ''}'')]) }
      else if bf = PUSHREFCONT then do {
        ls \<leftarrow> print_block m (CodeBlock bt c);
        ks \<leftarrow> print_list (Suc m) d;
        Some (ls @ (0, ''IFELSEREF {'') # ks @ [(0, ''}'')]) }
      else do {
        ls \<leftarrow> print_block m (CodeBlock bt c);
        ks \<leftarrow> print_block m (CodeBlock bf d);
        _ \<leftarrow> solAssert (\<not> w);
        Some (ls @ ks @ [(m, ''IFELSE'')]) })"
| "print_node m (TvmRepeat bk b) = do { ls \<leftarrow> print_block m b; Some (ls @ [(m, print_brk ''REPEAT'' bk)]) }"
| "print_node m (TvmUntil bk b) = do { ls \<leftarrow> print_block m b; Some (ls @ [(m, print_brk ''UNTIL'' bk)]) }"
| "print_node m (While again bk c b) = do {
     ls \<leftarrow> (if again then Some [] else print_block m c);
     ks \<leftarrow> print_block m b;
     Some (ls @ ks @ [(m, print_brk (if again then ''AGAIN'' else ''WHILE'') bk)]) }"
| "print_block m (CodeBlock bt c) =
     (if bt = BlockNone then print_list m c
      else do { ls \<leftarrow> print_list (Suc m) c; Some ((m, print_type bt @ '' {'') # ls @ [(m, ''}'')]) })"
| "print_list m [] = Some []"
| "print_list m (n # c) = do { ls \<leftarrow> print_node m n; ks \<leftarrow> print_list m c; Some (ls @ ks) }"

section \<open>Functions and contracts\<close>

definition print_alias :: "string \<Rightarrow> string \<Rightarrow> string \<Rightarrow> line list exc" where
  "print_alias name required num = do {
     _ \<leftarrow> solAssert (name = required);
     Some [(0, ''.internal-alias :'' @ required @ '', '' @ num), (0, ''.internal :'' @ required)] }"

definition print_head :: "tvm_function \<Rightarrow> line list exc" where
  "print_head f =
     (case f_type f of
        PrivateFunction \<Rightarrow>
          Some [(0, ''.globl'' @ CHR 0x09 # f_name f), (0, ''.type'' @ CHR 0x09 # f_name f @ '', @function'')]
      | Macro \<Rightarrow> Some [(0, ''.macro '' @ f_name f)]
      | MacroGetter \<Rightarrow> Some [(0, ''.macro '' @ f_name f)]
      | MainInternal \<Rightarrow> print_alias (f_name f) ''main_internal'' ''0''
      | MainExternal \<Rightarrow> print_alias (f_name f) ''main_external'' ''-1''
      | OnCodeUpgrade \<Rightarrow> print_alias (f_name f) ''onCodeUpgrade'' ''2''
      | OnTickTock \<Rightarrow> print_alias (f_name f) ''onTickTock'' ''-2'')"

definition print_function :: "tvm_function \<Rightarrow> line list exc" where
  "print_function f = do { hs \<leftarrow> print_head f; ls \<leftarrow> print_block 0 (f_block f); Some (hs @ ls @ [(0, [])]) }"

fun print_functions :: "tvm_function list \<Rightarrow> line list exc" where
  "print_functions [] = Some []"
| "print_functions (f # fs) = do { ls \<leftarrow> print_function f; ks \<leftarrow> print_functions fs; Some (ls @ ks) }"

definition print_contract :: "contract \<Rightarrow> line list exc" where
  "print_contract c = do {
     ls \<leftarrow> print_functions (contract_functions c);
     Some (concat (map (\<lambda>pragma. [(0, pragma), (0, [])]) (pragmas c)) @ ls) }"

text \<open>\<open>tabs\<close>, the text and \<open>std::endl\<close> of every line: what stands in the stream at the end.\<close>

definition print_text :: "line list \<Rightarrow> string" where
  "print_text ls = concat (map (\<lambda>(m, l). replicate m (CHR 0x09) @ l @ [CHR 0x0A]) ls)"

section \<open>What the lines mean\<close>

text \<open>
  The documented meaning of a line of the assembler that stands for an integer or a stack instruction. A line is
  a name and operands, separated by commas, registers with a leading \<open>S\<close>; the operands have to be in the range of the
  encoding. There is no result where the instruction set has no such line.
\<close>

definition asm_int :: "string \<Rightarrow> int option" where
  "asm_int l = do {
     n \<leftarrow> bigint_of (word2 l);
     f \<leftarrow> map_of [(''PUSHINT'', \<lambda>n. Some n), (''PUSHPOW2'', \<lambda>n. if 1 \<le> n \<and> n \<le> 256 then Some (2 ^ nat n) else None),
        (''PUSHPOW2DEC'', \<lambda>n. if 1 \<le> n \<and> n \<le> 256 then Some (2 ^ nat n - 1) else None),
        (''PUSHNEGPOW2'', \<lambda>n. if 1 \<le> n \<and> n \<le> 256 then Some (- (2 ^ nat n)) else None)] (word1 l);
     f n }"

fun asm_fields :: "string \<Rightarrow> string list" where
  "asm_fields [] = [[]]"
| "asm_fields (c # s) =
     (if c = CHR '','' then [] # asm_fields s
      else if c = CHR '' '' \<or> c = CHR ''S'' then asm_fields s
      else (c # hd (asm_fields s)) # tl (asm_fields s))"

fun asm_numbers :: "string list \<Rightarrow> int list option" where
  "asm_numbers [] = Some []"
| "asm_numbers (f # fs) = do { n \<leftarrow> bigint_of f; ns \<leftarrow> asm_numbers fs; Some (n # ns) }"

definition asm_operands :: "string \<Rightarrow> int list option" where
  "asm_operands l = (if after_word1 l = [] then Some [] else asm_numbers (asm_fields (after_word1 l)))"

definition asm_x :: "(nat \<Rightarrow> stack \<Rightarrow> stack) \<Rightarrow> stack \<Rightarrow> stack option" where
  "asm_x f s = (case s 0 of VInt n \<Rightarrow> if 0 \<le> n then Some (f (nat n) (sdrop 1 s)) else None | _ \<Rightarrow> None)"

definition asm_xx :: "(nat \<Rightarrow> nat \<Rightarrow> stack \<Rightarrow> stack) \<Rightarrow> stack \<Rightarrow> stack option" where
  "asm_xx f s =
     (case (s 1, s 0) of
        (VInt m, VInt n) \<Rightarrow> if 0 \<le> m \<and> 0 \<le> n then Some (f (nat m) (nat n) (sdrop 2 s)) else None | _ \<Rightarrow> None)"

definition asm0 :: "(string \<times> (stack \<Rightarrow> stack option)) list" where
  "asm0 =
     [(''DROP'', \<lambda>s. Some (sdrop 1 s)), (''DROP2'', \<lambda>s. Some (sdrop 2 s)), (''DUP'', \<lambda>s. Some (spushs 0 s)),
      (''OVER'', \<lambda>s. Some (spushs 1 s)), (''SWAP'', \<lambda>s. Some (sxchg 0 1 s)), (''NIP'', \<lambda>s. Some (spop 1 s)),
      (''ROT'', \<lambda>s. Some (sblkswap 1 2 s)), (''ROTREV'', \<lambda>s. Some (sblkswap 2 1 s)), (''SWAP2'', \<lambda>s. Some (sblkswap 2 2 s)),
      (''DUP2'', \<lambda>s. Some (spush (s 0) (spush (s 1) s))), (''OVER2'', \<lambda>s. Some (spush (s 2) (spush (s 3) s))),
      (''TUCK'', \<lambda>s. Some (spushs 1 (sxchg 0 1 s))), (''DROPX'', asm_x sdrop), (''ROLLX'', asm_x (sblkswap 1)),
      (''ROLLREVX'', asm_x (\<lambda>n. sblkswap n 1)), (''BLKSWX'', asm_xx sblkswap), (''REVX'', asm_xx sreverse)]"

definition asm1 :: "(string \<times> int \<times> int \<times> (nat \<Rightarrow> stack \<Rightarrow> stack)) list" where
  "asm1 =
     [(''BLKDROP'', 0, 15, sdrop), (''PUSH'', 0, 255, spushs), (''POP'', 0, 255, spop), (''XCHG'', 0, 255, sxchg 0),
      (''ROLL'', 1, 16, sblkswap 1), (''ROLLREV'', 1, 16, \<lambda>n. sblkswap n 1)]"

definition asm2 :: "(string \<times> (int \<Rightarrow> int \<Rightarrow> bool) \<times> (nat \<Rightarrow> int \<Rightarrow> stack \<Rightarrow> stack)) list" where
  "asm2 =
     [(''BLKDROP2'', \<lambda>i j. 0 \<le> i \<and> i \<le> 15 \<and> 0 \<le> j \<and> j \<le> 15, \<lambda>i j. sblkdrop2 i (nat j)),
      (''PUSH2'', \<lambda>i j. 0 \<le> i \<and> i \<le> 15 \<and> 0 \<le> j \<and> j \<le> 15, \<lambda>i j s. spush (s (nat j)) (spush (s i) s)),
      (''XCHG'', \<lambda>i j. 1 \<le> i \<and> i < j \<and> j \<le> 15, \<lambda>i j. sxchg i (nat j)),
      (''BLKSWAP'', \<lambda>i j. 1 \<le> i \<and> i \<le> 16 \<and> 1 \<le> j \<and> j \<le> 16, \<lambda>i j. sblkswap i (nat j)),
      (''REVERSE'', \<lambda>i j. 2 \<le> i \<and> i \<le> 17 \<and> 0 \<le> j \<and> j \<le> 15, \<lambda>i j. sreverse i (nat j)),
      (''BLKPUSH'', \<lambda>i j. 1 \<le> i \<and> i \<le> 15 \<and> 0 \<le> j \<and> j \<le> 15, \<lambda>i j. sblkpush i (nat j)),
      (''PUXC'', \<lambda>i j. 0 \<le> i \<and> i \<le> 15 \<and> -1 \<le> j \<and> j \<le> 14, \<lambda>i j s. sxchg 0 (nat (j + 1)) (sxchg 0 1 (spushs i s)))]"

definition asm_op :: "string \<Rightarrow> int list \<Rightarrow> stack \<Rightarrow> stack option" where
  "asm_op opc a s =
     (case a of
        [] \<Rightarrow> do { f \<leftarrow> map_of asm0 opc; f s }
      | [i] \<Rightarrow> do { (lo, hi, f) \<leftarrow> map_of asm1 opc; if lo \<le> i \<and> i \<le> hi then Some (f (nat i) s) else None }
      | [i, j] \<Rightarrow> do { (ok, f) \<leftarrow> map_of asm2 opc; if ok i j then Some (f (nat i) j s) else None }
      | [i, j, k] \<Rightarrow>
          if opc = ''PUSH3'' \<and> 0 \<le> i \<and> i \<le> 15 \<and> 0 \<le> j \<and> j \<le> 15 \<and> 0 \<le> k \<and> k \<le> 15
          then Some (spush (s (nat k)) (spush (s (nat j)) (spush (s (nat i)) s))) else None
      | _ \<Rightarrow> None)"

definition asm_line :: "string \<Rightarrow> stack \<Rightarrow> stack option" where
  "asm_line l s =
     (case asm_int l of
        Some v \<Rightarrow> if int257 v then Some (spush (VInt v) s) else None
      | None \<Rightarrow> do { a \<leftarrow> asm_operands l; asm_op (word1 l) a s })"

fun asm_lines :: "string list \<Rightarrow> stack \<Rightarrow> stack option" where
  "asm_lines [] s = Some s"
| "asm_lines (l # ls) s = do { t \<leftarrow> asm_line l s; asm_lines ls t }"

section \<open>Reading printed lines\<close>

lemma fields_nonempty: "asm_fields s \<noteq> []"
  by (induction s) auto

lemma fields_word:
  "\<forall>c \<in> set a. c \<noteq> CHR '','' \<and> c \<noteq> CHR '' '' \<and> c \<noteq> CHR ''S'' \<Longrightarrow>
   asm_fields (a @ s) = (a @ hd (asm_fields s)) # tl (asm_fields s)"
  using fields_nonempty by (induction a) (auto simp: hd_Cons_tl)

lemma fields_toString: "asm_fields (toString v @ s) = (toString v @ hd (asm_fields s)) # tl (asm_fields s)"
  by (rule fields_word) (auto dest!: digit_of_toString simp: isdigit_def)

lemma fields_number: "asm_fields (toString v) = [toString v]"
  using fields_toString [of v "[]"] by simp

lemma operands_sep: "plain w \<Longrightarrow> w \<noteq> [] \<Longrightarrow> asm_operands (w @ CHR '' '' # t) = asm_numbers (asm_fields t)"
  by (simp add: asm_operands_def after_word1_def dropWhile_space_word dropWhile_word_sep)

lemma operands_plain: "plain w \<Longrightarrow> asm_operands w = Some []"
  by (simp add: asm_operands_def after_word1_def)

lemmas printed_operands = fields_toString fields_number

abbreviation push_names :: "string set" where
  "push_names \<equiv> {''PUSHINT'', ''PUSHPOW2'', ''PUSHPOW2DEC'', ''PUSHNEGPOW2''}"

lemma asm_line_word: "plain w \<Longrightarrow> asm_line w s = asm_op w [] s"
  by (simp add: asm_line_def asm_int_def word2_plain word1_plain bigint_of_def operands_plain)

lemma asm_line_ops:
  assumes "plain w" "w \<noteq> []" "w \<notin> push_names" "asm_numbers (asm_fields t) = Some a"
  shows "asm_line (w @ CHR '' '' # t) s = asm_op w a s"
  using assms by (auto simp: asm_line_def asm_int_def word1_sep operands_sep split: option.splits)

lemma number_char: "read_nat radix s = Some n \<Longrightarrow> c \<in> set s \<Longrightarrow> isdigit c"
  using nondigit_None [of c s radix 0] by (auto simp: read_nat_def split: if_splits)

lemma number_text:
  assumes "bigint_of s = Some v"
  shows "s \<noteq> []" "\<forall>c \<in> set s. isdigit c \<or> c = CHR ''-''"
proof -
  show "s \<noteq> []" using assms by (auto simp: bigint_of_def)
  have nat_text: "\<forall>c \<in> set t. isdigit c" if n: "bigint_of_nat_text t = Some n" for t n
  proof (cases t)
    case (Cons a u)
    show ?thesis
    proof (cases "a = CHR ''0'' \<and> u \<noteq> []")
      case True
      then have "read_nat 8 u = Some n" using n Cons by (cases u) (auto simp: bigint_of_nat_text_def)
      then show ?thesis using number_char [of 8 u n] True Cons by (auto simp: isdigit_def)
    next
      case False
      then have "read_nat 10 t = Some n" using n Cons by (cases u) (auto simp: bigint_of_nat_text_def)
      then show ?thesis using number_char [of 10 t n] by blast
    qed
  qed simp
  show "\<forall>c \<in> set s. isdigit c \<or> c = CHR ''-''"
  proof (cases s)
    case (Cons c t)
    then show ?thesis using assms nat_text [of t] nat_text [of s] by (auto simp: bigint_of_def split: if_splits)
  qed simp
qed

lemma digit_plain: "isdigit c \<or> c = CHR ''-'' \<Longrightarrow> \<not> is_space c \<and> c \<noteq> CHR '';'' \<and> c \<noteq> CHR ''$''"
  by (auto simp: isdigit_def is_space_def)

lemma number_plain:
  assumes "bigint_of s = Some v"
  shows "plain s" "CHR ''$'' \<notin> set s"
  using number_text(2) [OF assms] digit_plain unfolding plain_def list_all_iff by blast+

lemma table_entry: "map_of (map (\<lambda>p. (f p, p)) [m..<n]) v = Some p \<Longrightarrow> v = f p \<and> m \<le> p \<and> p < n"
  by (auto dest!: map_of_SomeD)

lemma print_tables:
  "print_power2 v = Some p \<Longrightarrow> v = 2 ^ p \<and> 7 \<le> p \<and> p \<le> 256"
  "print_power2Dec v = Some p \<Longrightarrow> v = 2 ^ p - 1 \<and> 8 \<le> p \<and> p \<le> 256"
  "print_power2Neg v = Some p \<Longrightarrow> v = - (2 ^ p) \<and> 8 \<le> p \<and> p \<le> 256"
  unfolding print_power2_def print_power2Dec_def print_power2Neg_def by (drule table_entry; simp)+

lemma asm_int_sep:
  assumes "plain w" "w \<noteq> []" "plain t"
  shows "word1 (w @ CHR '' '' # t @ c) = w" "c = [] \<or> (\<exists>d. c = CHR '' '' # d) \<Longrightarrow> t \<noteq> [] \<Longrightarrow> word2 (w @ CHR '' '' # t @ c) = t"
  using assms word1_sep [OF assms(1,2)]
  by (auto simp: word2_def after_word1_def dropWhile_space_word dropWhile_word_sep word1_def takeWhile_word_sep)

lemma asm_int_pow:
  assumes "1 \<le> p" "p \<le> 256"
  shows "asm_int (''PUSHPOW2 '' @ toString (int p)) = Some (2 ^ p)"
    "asm_int (''PUSHPOW2DEC '' @ toString (int p)) = Some (2 ^ p - 1)"
    "asm_int (''PUSHNEGPOW2 '' @ toString (int p)) = Some (- (2 ^ p))"
  using assms asm_int_sep [of "''PUSHPOW2''" "toString (int p)" "[]"] asm_int_sep [of "''PUSHPOW2DEC''" "toString (int p)" "[]"]
    asm_int_sep [of "''PUSHNEGPOW2''" "toString (int p)" "[]"]
  by (simp_all add: asm_int_def plain_lit)

lemma print_value:
  assumes "bigint_of str = Some v"
  shows "\<exists>l. printPushInt str comment = Some l \<and> asm_int l = Some v"
proof -
  note t = number_text(1) [OF assms] number_plain [OF assms]
  let ?text = "''PUSHINT '' @ str @ (if comment \<noteq> [] then CHR '' '' # comment else [])"
  have "asm_int ?text = Some v"
    using asm_int_sep [of "''PUSHINT''" str "if comment \<noteq> [] then CHR '' '' # comment else []"] t assms
    by (simp add: asm_int_def plain_lit)
  moreover have "hd str \<noteq> CHR ''$''" using t by (cases str) auto
  ultimately show ?thesis
    using t(1) assms by (auto simp: printPushInt_def Let_def neq_Nil_conv asm_int_pow [simplified] dest!: print_tables split: option.split)
qed

section \<open>Printed stack instructions\<close>

lemma print_int_line:
  assumes "int_fits i"
  obtains l where "print_int i = Some l" "\<And>s. asm_line l s = Some (spush (VInt i) s)"
proof -
  obtain l where l: "print_int i = Some l" "asm_int l = Some i"
    using print_value [of "toString i" i "[]"] by (auto simp: print_int_def)
  have "int257 i" using assms by (simp add: int_fits_def int257_def)
  then show ?thesis using that [of l] l by (simp add: asm_line_def)
qed

lemma x_forms:
  "0 \<le> n \<Longrightarrow> asm_x f (spush (VInt n) s) = Some (f (nat n) s)"
  "0 \<le> m \<Longrightarrow> 0 \<le> n \<Longrightarrow> asm_xx g (spush (VInt n) (spush (VInt m) s)) = Some (g (nat m) (nat n) s)"
proof -
  have "sdrop 1 (spush v s) = s" "sdrop 2 (spush u (spush v s)) = s" for u v by (simp_all add: fun_eq_iff sdrop_def spush_def)
  then show "0 \<le> n \<Longrightarrow> asm_x f (spush (VInt n) s) = Some (f (nat n) s)"
    "0 \<le> m \<Longrightarrow> 0 \<le> n \<Longrightarrow> asm_xx g (spush (VInt n) (spush (VInt m) s)) = Some (g (nat m) (nat n) s)"
    by (simp_all add: asm_x_def asm_xx_def spush_def)
qed

lemmas asm_tables = asm_op_def asm0_def asm1_def asm2_def

text \<open>Printed lines that mean a function on stacks.\<close>

definition means :: "string list exc \<Rightarrow> (stack \<Rightarrow> stack) \<Rightarrow> bool" where
  "means x f \<longleftrightarrow> (\<exists>ls. x = Some ls \<and> (\<forall>s. asm_lines ls s = Some (f s)))"

lemma means_word: "plain w \<Longrightarrow> (\<And>s. asm_op w [] s = Some (f s)) \<Longrightarrow> means (Some [w]) f"
  by (simp add: means_def asm_line_word)

lemma means_ops:
  "plain w \<Longrightarrow> w \<noteq> [] \<Longrightarrow> w \<notin> push_names \<Longrightarrow> asm_numbers (asm_fields t) = Some a \<Longrightarrow>
   (\<And>s. asm_op w a s = Some (f s)) \<Longrightarrow> means (Some [w @ CHR '' '' # t]) f"
  using asm_line_ops [of w t a] by (simp add: means_def)

lemma lines_append: "asm_lines (ls @ ks) s = do { t \<leftarrow> asm_lines ls s; asm_lines ks t }"
  by (induction ls arbitrary: s) (simp_all split: bind_splits)

lemma means_append:
  assumes "means x f" "means y g"
  shows "means (do { ls \<leftarrow> x; ks \<leftarrow> y; Some (ls @ ks) }) (\<lambda>s. g (f s))"
  using assms by (auto simp: means_def lines_append)

lemma means_x:
  assumes "int_fits n" "0 \<le> n" "plain w" "\<And>s. asm_op w [] s = asm_x f s"
  shows "means (do { x \<leftarrow> print_int n; Some [x, w] }) (f (nat n))"
proof -
  obtain l where "print_int n = Some l" "\<And>s. asm_line l s = Some (spush (VInt n) s)" by (rule print_int_line [OF assms(1)]) blast
  then show ?thesis using assms(2-) by (simp add: means_def asm_line_word x_forms)
qed

lemma means_xx:
  assumes "int_fits m" "int_fits n" "0 \<le> m" "0 \<le> n" "plain w" "\<And>s. asm_op w [] s = asm_xx f s"
  shows "means (print_two m n [w]) (f (nat m) (nat n))"
proof -
  obtain k where "print_int m = Some k" "\<And>s. asm_line k s = Some (spush (VInt m) s)" by (rule print_int_line [OF assms(1)]) blast
  moreover obtain l where "print_int n = Some l" "\<And>s. asm_line l s = Some (spush (VInt n) s)" by (rule print_int_line [OF assms(2)]) blast
  ultimately show ?thesis using assms(3-) by (simp add: means_def print_two_def asm_line_word x_forms)
qed

lemma means_drop:
  assumes "1 \<le> n" "int_fits n" "n \<le> 2 \<or> 15 < n \<or> i = n \<and> j = -1"
  shows "means (print_drop n i j k) (sdrop (nat n))"
proof -
  consider "n = 1" | "n = 2" | "2 < n" "n \<le> 15" "i = n" "j = -1" | "15 < n" using assms by linarith
  then show ?thesis
  proof cases
    case 3
    then have "means (Some [''BLKDROP'' @ CHR '' '' # toString n]) (sdrop (nat n))"
      by (intro means_ops [where a = "[n]"]) (simp_all add: plain_lit printed_operands asm_tables)
    then show ?thesis using 3 by (simp add: print_drop_def print_indexes_def solAssert_def)
  next
    case 4
    then have "means (do { x \<leftarrow> print_int n; Some [x, ''DROPX''] }) (sdrop (nat n))"
      by (intro means_x [OF assms(2)]) (simp_all add: plain_lit asm_tables)
    then show ?thesis using 4 by (simp add: print_drop_def)
  qed (simp_all add: print_drop_def means_word plain_lit asm_tables)
qed

lemma means_blkswap:
  assumes "1 \<le> i" "1 \<le> j" "int_fits i" "int_fits j"
  shows "means (print_blkswap i j (-1)) (sblkswap (nat i) (nat j))"
proof -
  have swap: "sxchg 0 (Suc 0) s = sblkswap (Suc 0) (Suc 0) s" for s by (auto simp: fun_eq_iff sxchg_def sblkswap_def)
  consider "i \<le> 2" "j \<le> 2" | "i = 1" "2 < j" "j \<le> 16" | "j = 1" "2 < i" "i \<le> 16"
    | "2 \<le> i" "2 \<le> j" "i \<le> 16" "j \<le> 16" "\<not> (i = 2 \<and> j = 2)" | "i = 1" "16 < j" | "j = 1" "16 < i" | "2 \<le> i" "2 \<le> j" "16 < i \<or> 16 < j"
    using assms by linarith
  then show ?thesis
  proof cases
    case 1
    then have "(i = 1 \<or> i = 2) \<and> (j = 1 \<or> j = 2)" using assms by linarith
    then show ?thesis
      by (elim conjE disjE) (simp_all add: print_blkswap_def means_word plain_lit asm_tables swap numeral_2_eq_2)
  next
    case 2
    then have "means (Some [''ROLL'' @ CHR '' '' # toString j]) (sblkswap (nat i) (nat j))"
      by (intro means_ops [where a = "[j]"]) (simp_all add: plain_lit printed_operands asm_tables)
    then show ?thesis using 2 by (simp add: print_blkswap_def)
  next
    case 3
    then have "means (Some [''ROLLREV'' @ CHR '' '' # toString i]) (sblkswap (nat i) (nat j))"
      by (intro means_ops [where a = "[i]"]) (simp_all add: plain_lit printed_operands asm_tables)
    then show ?thesis using 3 by (simp add: print_blkswap_def)
  next
    case 4
    then have "means (Some [''BLKSWAP'' @ CHR '' '' # toString i @ CHR '','' # CHR '' '' # toString j]) (sblkswap (nat i) (nat j))"
      by (intro means_ops [where a = "[i, j]"]) (simp_all add: plain_lit printed_operands asm_tables)
    then show ?thesis using 4 by (auto simp: print_blkswap_def print_indexes_def solAssert_def)
  next
    case 5
    then have "means (do { x \<leftarrow> print_int j; Some [x, ''ROLLX''] }) (sblkswap 1 (nat j))"
      by (intro means_x [OF assms(4)]) (simp_all add: plain_lit asm_tables)
    then show ?thesis using 5 by (simp add: print_blkswap_def)
  next
    case 6
    then have "means (do { x \<leftarrow> print_int i; Some [x, ''ROLLREVX''] }) (sblkswap (nat i) 1)"
      by (intro means_x [OF assms(3), where f = "\<lambda>n. sblkswap n 1"]) (simp_all add: plain_lit asm_tables)
    then show ?thesis using 6 by (simp add: print_blkswap_def)
  next
    case 7
    then have "means (print_two i j [''BLKSWX'']) (sblkswap (nat i) (nat j))"
      by (intro means_xx assms) (simp_all add: plain_lit asm_tables)
    then show ?thesis using 7 by (auto simp: print_blkswap_def)
  qed
qed

lemma means_reverse:
  assumes "2 \<le> i" "0 \<le> j" "int_fits i" "int_fits j"
  shows "means (print_reverse i j (-1)) (sreverse (nat i) (nat j))"
proof -
  have rev: "sxchg 0 (Suc 0) s = sreverse 2 0 s" "sxchg 0 2 s = sreverse 3 0 s" for s
    by (auto simp: fun_eq_iff sxchg_def sreverse_def numeral_eq_Suc less_Suc_eq)
  consider "i = 2" "j = 0" | "i = 3" "j = 0" | "\<not> (i \<le> 3 \<and> j = 0)" "i \<le> 17" "j \<le> 15" | "17 < i \<or> 15 < j" using assms by linarith
  then show ?thesis
  proof cases
    case 1
    then show ?thesis by (simp add: print_reverse_def solAssert_def means_word plain_lit asm_tables rev)
  next
    case 2
    have "asm_numbers (asm_fields ''S2'') = Some [2]" by code_simp
    then have "means (Some [''XCHG'' @ CHR '' '' # ''S2'']) (sreverse 3 0)"
      by (intro means_ops [where a = "[2]"]) (simp_all add: plain_lit asm_tables rev)
    then show ?thesis using 2 by (simp add: print_reverse_def solAssert_def)
  next
    case 3
    then have "means (Some [''REVERSE'' @ CHR '' '' # toString i @ CHR '','' # CHR '' '' # toString j]) (sreverse (nat i) (nat j))"
      using assms by (intro means_ops [where a = "[i, j]"]) (simp_all add: plain_lit printed_operands asm_tables)
    then show ?thesis using 3 assms by (auto simp: print_reverse_def print_indexes_def solAssert_def)
  next
    case 4
    then have "means (print_two i j [''REVX'']) (sreverse (nat i) (nat j))"
      using assms by (intro means_xx) (simp_all add: plain_lit asm_tables)
    then show ?thesis using 4 assms by (auto simp: print_reverse_def solAssert_def)
  qed
qed

lemma sblkpush_add: "sblkpush (m + n) j s = sblkpush n j (sblkpush m j s)"
  by (induction m j s rule: sblkpush.induct) simp_all

lemma chunk_lines:
  assumes "0 \<le> j" "j \<le> 15"
  shows "asm_lines (map (\<lambda>n. ''BLKPUSH '' @ toString (int n) @ '', '' @ toString j) (print_chunks n)) s = Some (sblkpush n (nat j) s)"
proof (induction n arbitrary: s rule: print_chunks.induct)
  case (1 n)
  show ?case
  proof (cases "n = 0")
    case False
    let ?m = "min 15 n"
    have "asm_line (''BLKPUSH'' @ CHR '' '' # toString (int ?m) @ CHR '','' # CHR '' '' # toString j) s =
        asm_op ''BLKPUSH'' [int ?m, j] s"
      by (rule asm_line_ops) (simp_all add: plain_lit printed_operands)
    also have "\<dots> = Some (sblkpush ?m (nat j) s)" using assms False by (simp add: asm_tables)
    finally have "asm_line (''BLKPUSH '' @ toString (int ?m) @ '', '' @ toString j) s = Some (sblkpush ?m (nat j) s)" by simp
    moreover have "sblkpush (n - 15) (nat j) (sblkpush ?m (nat j) s) = sblkpush n (nat j) s"
      using sblkpush_add [of ?m "n - 15" "nat j" s] by (simp add: min_def split: if_split_asm)
    ultimately show ?thesis using 1 [OF False] False by (subst print_chunks.simps) simp
  qed (simp add: print_chunks.simps)
qed

lemma means_blkpush:
  assumes "1 \<le> i" "0 \<le> j" "j \<le> 15"
  shows "means (Some (print_blkpush i j)) (sblkpush (nat i) (nat j))"
proof -
  have "print_chunks (nat i) \<noteq> []" using assms(1) by (subst print_chunks.simps) simp
  then have "print_blkpush i j = map (\<lambda>n. ''BLKPUSH '' @ toString (int n) @ '', '' @ toString j) (print_chunks (nat i))"
    by (auto simp: print_blkpush_def split: list.split)
  then show ?thesis using chunk_lines [OF assms(2,3), of "nat i"] unfolding means_def by simp
qed

text \<open>
  The operands for which the printed text is right: in the range of C++ integers and, where the printer has no
  longer form, in the range of the encoding; the operands that the instruction does not have are \<open>-1\<close>.
  \<open>BLKDROP2\<close> of 3 to 15 values below more than 15 is missing: it is printed wrongly.
\<close>

definition printable :: "stack_opcode \<Rightarrow> int \<Rightarrow> int \<Rightarrow> int \<Rightarrow> bool" where
  "printable p i j k =
     (int_fits i \<and> int_fits j \<and>
      (case p of
         DROP \<Rightarrow> 1 \<le> i \<and> j = -1
       | PUSH_S \<Rightarrow> 0 \<le> i \<and> i \<le> 255 \<and> j = -1
       | POP_S \<Rightarrow> 1 \<le> i \<and> i \<le> 255 \<and> j = -1
       | XCHG \<Rightarrow> i = 0 \<and> 1 \<le> j \<and> j \<le> 255 \<or> 1 \<le> i \<and> i < j \<and> j \<le> 15
       | BLKDROP2 \<Rightarrow> 1 \<le> i \<and> 1 \<le> j \<and> k = -1 \<and> \<not> (i = 1 \<and> j = 1) \<and> \<not> (3 \<le> i \<and> i \<le> 15 \<and> 15 < j)
       | PUSH2_S \<Rightarrow> 0 \<le> i \<and> i \<le> 15 \<and> 0 \<le> j \<and> j \<le> 15 \<and> k = -1
       | PUSH3_S \<Rightarrow> 0 \<le> i \<and> i \<le> 15 \<and> 0 \<le> j \<and> j \<le> 15 \<and> 0 \<le> k \<and> k \<le> 15
       | BLKSWAP \<Rightarrow> 1 \<le> i \<and> 1 \<le> j \<and> k = -1
       | REVERSE \<Rightarrow> 2 \<le> i \<and> 0 \<le> j \<and> k = -1
       | BLKPUSH \<Rightarrow> 1 \<le> i \<and> 0 \<le> j \<and> j \<le> 15 \<and> (15 < i \<longrightarrow> j = 0)
       | TUCK \<Rightarrow> True
       | PUXC \<Rightarrow> 0 \<le> i \<and> i \<le> 15 \<and> -1 \<le> j \<and> j \<le> 14))"

lemma means_push: "0 \<le> i \<Longrightarrow> i \<le> 255 \<Longrightarrow> means (print_stack PUSH_S i (-1) k) (spushs (nat i))"
  using means_ops [of "''PUSH''" "CHR ''S'' # toString i" "[i]" "spushs (nat i)"]
    means_word [of "''DUP''" "spushs 0"] means_word [of "''OVER''" "spushs 1"]
  by (auto simp: print_stack_def solAssert_def plain_lit printed_operands asm_tables)

lemma means_pop: "1 \<le> i \<Longrightarrow> i \<le> 255 \<Longrightarrow> means (print_stack POP_S i (-1) k) (spop (nat i))"
  using means_ops [of "''POP''" "CHR ''S'' # toString i" "[i]" "spop (nat i)"] means_word [of "''NIP''" "spop 1"]
  by (auto simp: print_stack_def print_SS_def plain_lit printed_operands asm_tables)

lemma means_xchg:
  assumes "i = 0 \<and> 1 \<le> j \<and> j \<le> 255 \<or> 1 \<le> i \<and> i < j \<and> j \<le> 15"
  shows "means (print_stack XCHG i j k) (sxchg (nat i) (nat j))"
proof -
  have "means (Some [''XCHG'' @ CHR '' '' # CHR ''S'' # toString j]) (sxchg 0 (nat j))" if "1 \<le> j" "j \<le> 255"
    using that by (intro means_ops [where a = "[j]"]) (simp_all add: plain_lit printed_operands asm_tables)
  moreover have "means (Some [''XCHG'' @ CHR '' '' # CHR ''S'' # toString i @ CHR '','' # CHR '' '' # CHR ''S'' # toString j])
      (sxchg (nat i) (nat j))" if "1 \<le> i" "i < j" "j \<le> 15"
    using that by (intro means_ops [where a = "[i, j]"]) (simp_all add: plain_lit printed_operands asm_tables)
  moreover have "means (Some [''SWAP'']) (sxchg 0 1)" by (intro means_word) (simp_all add: plain_lit asm_tables)
  ultimately show ?thesis using assms by (auto simp: print_stack_def)
qed

lemma blkdrop2_swap: "sdrop i (sblkswap i j s) = sblkdrop2 i j s"
  by (auto simp: fun_eq_iff sdrop_def sblkswap_def sblkdrop2_def)

lemma means_blkdrop2:
  assumes "1 \<le> i" "1 \<le> j" "int_fits i" "int_fits j" "\<not> (i = 1 \<and> j = 1)" "\<not> (3 \<le> i \<and> i \<le> 15 \<and> 15 < j)"
  shows "means (print_stack BLKDROP2 i j (-1)) (sblkdrop2 (nat i) (nat j))"
proof (cases "15 < i \<or> 15 < j")
  case True
  have "means (print_two i j [''BLKSWX'']) (sblkswap (nat i) (nat j))"
    by (intro means_xx) (use assms in \<open>simp_all add: plain_lit asm_tables\<close>)
  moreover have "means (print_drop i i j (-1)) (sdrop (nat i))"
    by (rule means_drop) (use assms True in linarith)+
  ultimately have "means (do { ls \<leftarrow> print_two i j [''BLKSWX'']; ds \<leftarrow> print_drop i i j (-1); Some (ls @ ds) })
      (\<lambda>s. sdrop (nat i) (sblkswap (nat i) (nat j) s))" by (rule means_append)
  then show ?thesis using True by (simp add: print_stack_def blkdrop2_swap)
next
  case False
  have "means (Some [''BLKDROP2'' @ CHR '' '' # toString i @ CHR '','' # CHR '' '' # toString j]) (sblkdrop2 (nat i) (nat j))"
    using assms False by (intro means_ops [where a = "[i, j]"]) (simp_all add: plain_lit printed_operands asm_tables)
  moreover have "i \<ge> 2 \<and> j \<ge> 1 \<or> i \<ge> 1 \<and> j \<ge> 2" using assms by linarith
  ultimately show ?thesis using False assms(1,2) by (simp add: print_stack_def print_indexes_def solAssert_def)
qed

lemma means_push2:
  assumes "0 \<le> i" "i \<le> 15" "0 \<le> j" "j \<le> 15"
  shows "means (print_stack PUSH2_S i j (-1)) (\<lambda>s. spush (s (nat j)) (spush (s (nat i)) s))"
proof -
  have "means (Some [''PUSH2'' @ CHR '' '' # CHR ''S'' # toString i @ CHR '','' # CHR '' '' # CHR ''S'' # toString j])
      (\<lambda>s. spush (s (nat j)) (spush (s (nat i)) s))"
    using assms by (intro means_ops [where a = "[i, j]"]) (simp_all add: plain_lit printed_operands asm_tables)
  moreover have "means (Some [''DUP2'']) (\<lambda>s. spush (s 0) (spush (s 1) s))" "means (Some [''OVER2'']) (\<lambda>s. spush (s 2) (spush (s 3) s))"
    by (intro means_word; simp add: plain_lit asm_tables)+
  ultimately show ?thesis using assms by (auto simp: print_stack_def print_SS_def)
qed

lemma means_blkpush_all:
  assumes "1 \<le> i" "0 \<le> j" "j \<le> 15" "15 < i \<longrightarrow> j = 0"
  shows "means (print_stack BLKPUSH i j k) (sblkpush (nat i) (nat j))"
proof -
  have "means (Some [''DUP2'']) (sblkpush 2 1)" "means (Some [''OVER2'']) (sblkpush 2 3)"
    by (intro means_word; simp add: plain_lit asm_tables numeral_2_eq_2 spushs_def; simp add: spush_def numeral_2_eq_2)+
  then show ?thesis using means_blkpush [OF assms(1-3)] assms(4) by (auto simp: print_stack_def solAssert_def)
qed

lemma means_push3:
  assumes "0 \<le> i" "i \<le> 15" "0 \<le> j" "j \<le> 15" "0 \<le> k" "k \<le> 15"
  shows "means (print_stack PUSH3_S i j k) (\<lambda>s. spush (s (nat k)) (spush (s (nat j)) (spush (s (nat i)) s)))"
proof -
  have "means (Some [''PUSH3'' @ CHR '' '' # CHR ''S'' # toString i @ CHR '','' # CHR '' '' # CHR ''S'' # toString j @
      CHR '','' # CHR '' '' # CHR ''S'' # toString k]) (\<lambda>s. spush (s (nat k)) (spush (s (nat j)) (spush (s (nat i)) s)))"
    using assms by (intro means_ops [where a = "[i, j, k]"]) (simp_all add: plain_lit printed_operands asm_tables)
  then show ?thesis using assms by (simp add: print_stack_def print_SS_def)
qed

lemma means_puxc:
  assumes "0 \<le> i" "i \<le> 15" "-1 \<le> j" "j \<le> 14"
  shows "means (print_stack PUXC i j k) (\<lambda>s. sxchg 0 (nat (j + 1)) (sxchg 0 1 (spushs (nat i) s)))"
proof -
  have "means (Some [''PUXC'' @ CHR '' '' # CHR ''S'' # toString i @ CHR '','' # CHR '' '' # CHR ''S'' # toString j])
      (\<lambda>s. sxchg 0 (nat (j + 1)) (sxchg 0 1 (spushs (nat i) s)))"
    using assms by (intro means_ops [where a = "[i, j]"]) (simp_all add: plain_lit printed_operands asm_tables)
  then show ?thesis by (simp add: print_stack_def)
qed

section \<open>Nesting of the braces\<close>

text \<open>A line that ends in a brace opens a block, a single brace closes one.\<close>

definition opens :: "string \<Rightarrow> bool" where
  "opens l = (l \<noteq> [] \<and> last l = CHR ''{'')"

definition line_ok :: "string \<Rightarrow> bool" where
  "line_ok l = (\<not> opens l \<and> l \<noteq> ''}'')"

fun nests :: "nat \<Rightarrow> string list \<Rightarrow> bool" where
  "nests d [] = (d = 0)"
| "nests d (l # ls) =
     (if opens l then nests (Suc d) ls else if l = ''}'' then 0 < d \<and> nests (d - 1) ls else nests d ls)"

definition neutral :: "line list \<Rightarrow> bool" where
  "neutral ls \<longleftrightarrow> (\<forall>d ks. nests d (map snd ls @ ks) = nests d ks)"

lemma neutral_nests: "neutral ls \<Longrightarrow> nests 0 (map snd ls)"
  using spec [of "\<lambda>ks. nests 0 (map snd ls @ ks) = nests 0 ks" "[]"] by (simp add: neutral_def)

lemma neutral_Nil [simp]: "neutral []"
  by (simp add: neutral_def)

lemma neutral_append [intro]: "neutral a \<Longrightarrow> neutral b \<Longrightarrow> neutral (a @ b)"
  by (simp add: neutral_def)

lemma neutral_line: "line_ok l \<Longrightarrow> neutral ls \<Longrightarrow> neutral ((m, l) # ls)"
  by (auto simp: neutral_def line_ok_def)

lemma neutral_block: "opens l \<Longrightarrow> neutral a \<Longrightarrow> neutral b \<Longrightarrow> neutral ((m, l) # a @ (m', ''}'') # b)"
proof -
  have "\<not> opens ''}''" by (simp add: opens_def)
  then show "opens l \<Longrightarrow> neutral a \<Longrightarrow> neutral b \<Longrightarrow> neutral ((m, l) # a @ (m', ''}'') # b)" by (simp add: neutral_def)
qed

lemma neutral_lines: "list_all line_ok ls \<Longrightarrow> neutral (map (Pair m) ls)"
  by (induction ls) (simp_all add: neutral_line)

text \<open>The texts that a tree takes over from the source do not look like braces.\<close>

fun cell_texts :: "push_cell \<Rightarrow> bool" where
  "cell_texts (PushCell t blob child) = ((blob \<noteq> [] \<longrightarrow> last blob \<noteq> CHR ''{'') \<and> (case child of Some c \<Rightarrow> cell_texts c | None \<Rightarrow> True))"

fun texts_node :: "node \<Rightarrow> bool" and texts_block :: "code_block \<Rightarrow> bool" and texts_list :: "node list \<Rightarrow> bool" where
  "texts_node (AsymGen opc) = line_ok opc"
| "texts_node (HardCode code t r p) = list_all line_ok code"
| "texts_node (GenOpcode opc arg comment t r p) = line_ok (joinArg opc arg comment)"
| "texts_node (TvmException a y i n arg) = line_ok (print_exception a y i n arg)"
| "texts_node (PushCellOrSlice c) = cell_texts c"
| "texts_node (Opaque b t r p) = texts_block b"
| "texts_node (ReturnOrBreakOrCont t b) = texts_block b"
| "texts_node (BlockNode b) = texts_block b"
| "texts_node (SubProgram t r jm b p) = texts_block b"
| "texts_node (LogCircuit t b) = texts_block b"
| "texts_node (TvmIfElse w jm t None r) = texts_block t"
| "texts_node (TvmIfElse w jm t (Some f) r) = (texts_block t \<and> texts_block f)"
| "texts_node (TvmRepeat bk b) = texts_block b"
| "texts_node (TvmUntil bk b) = texts_block b"
| "texts_node (While again bk c b) = (texts_block c \<and> texts_block b)"
| "texts_node _ = True"
| "texts_block (CodeBlock bt c) = texts_list c"
| "texts_list [] = True"
| "texts_list (n # c) = (texts_node n \<and> texts_list c)"

lemma last_toString [simp]: "last (toString v) \<noteq> CHR ''{''"
proof -
  have "last (toString v) \<in> set (toString v)" by simp
  then show ?thesis using digit_of_toString [of "last (toString v)" v] by (auto simp: isdigit_def)
qed

lemmas line_text = line_ok_def opens_def

lemma push_int_line:
  assumes "printPushInt str comment = Some l" "line_ok (joinArg ''PUSHINT'' str comment)"
  shows "line_ok l"
  using assms by (auto simp: printPushInt_def Let_def bind_eq_Some_conv joinArg_def line_text split: list.splits if_splits option.splits)

lemma print_int_ok: "print_int i = Some l \<Longrightarrow> line_ok l"
  using push_int_line [of "toString i" "[]" l] by (simp add: print_int_def joinArg_def line_text)

lemma stack_lines_ok:
  assumes "print_stack p i j k = Some ls"
  shows "list_all line_ok ls"
proof -
  have drop: "list_all line_ok ks" if "print_drop n a b c = Some ks" for n a b c ks
    using that print_int_ok by (auto simp: print_drop_def print_indexes_def bind_eq_Some_conv line_text split: if_split_asm)
  have two: "list_all line_ok ks" if "print_two a b ws = Some ks" "list_all line_ok ws" for a b ws ks
    using that print_int_ok by (auto simp: print_two_def bind_eq_Some_conv)
  have push: "list_all line_ok (print_blkpush i j)"
    by (auto simp: print_blkpush_def list_all_iff line_text split: list.split)
  show ?thesis
  proof (cases p)
    case BLKDROP2
    then show ?thesis
      using assms two [of i j "[''BLKSWX'']"] drop by (auto simp: print_stack_def print_indexes_def bind_eq_Some_conv line_text split: if_split_asm)
  next
    case BLKSWAP
    then show ?thesis
      using assms two [of i j "[''BLKSWX'']"] print_int_ok
      by (auto simp: print_stack_def print_blkswap_def print_indexes_def bind_eq_Some_conv line_text split: if_split_asm)
  next
    case REVERSE
    then show ?thesis
      using assms two [of i j "[''REVX'']"]
      by (auto simp: print_stack_def print_reverse_def print_indexes_def bind_eq_Some_conv line_text split: if_split_asm)
  qed (use assms drop push in \<open>auto simp: print_stack_def print_SS_def bind_eq_Some_conv line_text split: if_split_asm\<close>)
qed

lemma glob_lines_ok: "print_glob p i = Some ls \<Longrightarrow> list_all line_ok ls"
  using print_int_ok by (cases p) (auto simp: print_glob_def print_globvar_def bind_eq_Some_conv line_text split: if_split_asm)

lemma gen_lines_ok:
  assumes "print_gen opc arg comment = Some ls" "line_ok (joinArg opc arg comment)"
  shows "list_all line_ok ls"
proof -
  have idx: "list_all line_ok ks" if "print_index i = Some ks" for i ks
    using that print_int_ok by (auto simp: print_index_def bind_eq_Some_conv line_text split: if_split_asm)
  show ?thesis
    using assms idx push_int_line
    by (auto simp: print_gen_def Let_def bind_eq_Some_conv split: if_split_asm option.split_asm) (simp_all add: line_text)
qed

lemma cell_neutral: "cell_texts c \<Longrightarrow> neutral (print_cell m c)"
proof (induction m c rule: print_cell.induct)
  case (1 m t blob child)
  show ?case
  proof (cases "t \<in> {PUSHREF, PUSHREFSLICE, CELL}")
    case True
    then have child: "neutral (case child of Some c \<Rightarrow> print_cell (Suc m) c | None \<Rightarrow> [])"
      using "1.IH" "1.prems" by (cases child) auto
    have "neutral ((if blob \<noteq> [] then [(Suc m, ''.blob '' @ blob)] else []) @ (case child of Some c \<Rightarrow> print_cell (Suc m) c | None \<Rightarrow> []))"
      using "1.prems" by (intro neutral_append child) (auto intro!: neutral_line simp: line_text)
    from neutral_block [OF _ this neutral_Nil] show ?thesis using True by (auto simp: opens_def)
  next
    case False
    then show ?thesis using "1.prems" by (cases t) (simp_all add: neutral_line line_text)
  qed
qed

lemma print_neutral:
  "print_node m n = Some ls \<Longrightarrow> texts_node n \<Longrightarrow> neutral ls"
  "print_block m b = Some ls \<Longrightarrow> texts_block b \<Longrightarrow> neutral ls"
  "print_list m c = Some ls \<Longrightarrow> texts_list c \<Longrightarrow> neutral ls"
proof (induction m n and m b and m c arbitrary: ls and ls and ls rule: print_node_print_block_print_list.induct)
  case (9 m opc arg comment t r p)
  then show ?case using gen_lines_ok neutral_lines by (auto simp: print_lines_def)
next
  case (11 m p i)
  then show ?case using glob_lines_ok neutral_lines by (auto simp: print_lines_def)
next
  case (12 m p i j k)
  then show ?case using stack_lines_ok neutral_lines by (auto simp: print_lines_def)
next
  case (14 m t r isJmp bt c p)
  then show ?case
    by (cases bt; cases isJmp) (auto simp: bind_eq_Some_conv neutral_def opens_def simp del: print_block.simps)
next
  case (16 m w jm bt c r)
  then show ?case
    by (cases bt) (auto simp: bind_eq_Some_conv neutral_def opens_def print_if_def simp del: print_block.simps)
next
  case (17 m w jm bt c bf d r)
  then show ?case
    by (cases "bt = PUSHREFCONT"; cases "bf = PUSHREFCONT")
      (auto simp: bind_eq_Some_conv neutral_def opens_def simp del: print_block.simps split: if_split_asm)
next
  case (10 m c)
  then show ?case using cell_neutral by auto
next
  case (4 m code t r p)
  then show ?case using neutral_lines by auto
qed (auto simp: bind_eq_Some_conv neutral_def line_text print_brk_def print_return_def print_type_def
    split: if_split_asm block_type.splits log_type.splits)

lemma function_neutral:
  assumes "print_function f = Some ls" "texts_block (f_block f)" "line_ok (CHR ''.'' # f_name f)"
  shows "neutral ls"
proof -
  obtain hs bs where hs: "print_head f = Some hs" and bs: "print_block 0 (f_block f) = Some bs" "ls = hs @ bs @ [(0, [])]"
    using assms(1) by (auto simp: print_function_def bind_eq_Some_conv)
  have "neutral hs"
    using hs assms(3)
    by (cases "f_type f") (auto simp: print_head_def print_alias_def bind_eq_Some_conv line_text intro!: neutral_line split: if_split_asm)
  moreover have "neutral [(0, [])]" by (simp add: neutral_line line_text)
  ultimately show ?thesis using print_neutral(2) [OF bs(1) assms(2)] bs(2) by auto
qed

lemma functions_neutral:
  "print_functions fs = Some ls \<Longrightarrow> \<forall>f \<in> set fs. texts_block (f_block f) \<and> line_ok (CHR ''.'' # f_name f) \<Longrightarrow> neutral ls"
  by (induction fs arbitrary: ls) (auto simp: bind_eq_Some_conv intro!: neutral_append dest: function_neutral)

lemma pragmas_neutral: "list_all line_ok ps \<Longrightarrow> neutral (concat (map (\<lambda>pragma. [(0, pragma), (0, [])]) ps))"
  by (induction ps) (auto intro!: neutral_line simp: line_text)




text \<open>
  C34: stack instructions are printed by meaning. For every stack instruction with printable operands the printer
  writes lines, and the lines together do with every stack what the instruction does; long blocks take their
  lengths from the stack, and \<open>BLKPUSH\<close> of more than 15 values takes several lines.
\<close>

theorem printed_stack_sound:
  assumes "printable p i j k"
  shows "\<exists>ls. print_stack p i j k = Some ls \<and> (\<forall>s. asm_lines ls s = Some (stack_fun p (nat i) (nat j) (nat k) (nat (j + 1)) s))"
proof -
  have "means (print_stack p i j k) (stack_fun p (nat i) (nat j) (nat k) (nat (j + 1)))"
  proof (cases p)
    case DROP
    then show ?thesis using assms means_drop [of i i j k] by (simp add: printable_def print_stack_def stack_fun_def [abs_def])
  next
    case TUCK
    then show ?thesis using means_word [of "''TUCK''" "\<lambda>s. spushs 1 (sxchg 0 1 s)"]
      by (simp add: print_stack_def stack_fun_def [abs_def] plain_lit asm_tables)
  qed (use assms means_push means_pop means_xchg means_blkdrop2 means_push2 means_push3 means_blkpush_all means_puxc
      means_blkswap means_reverse in \<open>auto simp: printable_def stack_fun_def [abs_def] print_stack_def [of BLKSWAP] print_stack_def [of REVERSE]\<close>)
  then show ?thesis by (simp add: means_def)
qed

theorem printed_stack_sound_witness:
  "\<exists>ls. print_stack BLKPUSH 17 0 (-1) = Some ls \<and> ls = [''BLKPUSH 15, 0'', ''BLKPUSH 2, 0''] \<and>
     (\<forall>s. asm_lines ls s = Some (sblkpush 17 0 s))"
proof -
  have "printable BLKPUSH 17 0 (-1)" "print_stack BLKPUSH 17 0 (-1) = Some [''BLKPUSH 15, 0'', ''BLKPUSH 2, 0'']" by code_simp+
  with printed_stack_sound [of BLKPUSH 17 0 "-1"] show ?thesis by (auto simp: stack_fun_def)
qed

text \<open>
  C40: long \<open>BLKDROP2\<close> is printed wrongly. With 3 to 15 values to drop below more than 15, the last line is \<open>BLKDROP\<close>
  with both operands of the instruction, and \<open>BLKDROP\<close> takes one: no stack can run the lines.
\<close>

theorem long_drop_misprinted:
  assumes "3 \<le> i" "i \<le> 15" "15 < j" "int_fits j"
  shows "\<exists>x y. print_stack BLKDROP2 i j (-1) =
      Some [x, y, ''BLKSWX'', ''BLKDROP '' @ toString i @ '', '' @ toString j] \<and>
    (\<forall>s. asm_lines [x, y, ''BLKSWX'', ''BLKDROP '' @ toString i @ '', '' @ toString j] s = None)"
proof -
  have fit: "int_fits i" using assms by (simp add: int_fits_def)
  obtain x where x: "print_int i = Some x" by (rule print_int_line [OF fit]) blast
  obtain y where y: "print_int j = Some y" by (rule print_int_line [OF assms(4)]) blast
  let ?l = "''BLKDROP '' @ toString i @ '', '' @ toString j"
  have p: "print_stack BLKDROP2 i j (-1) = Some [x, y, ''BLKSWX'', ?l]"
    using assms x y by (simp add: print_stack_def print_two_def print_drop_def print_indexes_def solAssert_def)
  have "asm_line ?l s = None" for s
    using asm_line_ops [of "''BLKDROP''" "toString i @ CHR '','' # CHR '' '' # toString j" "[i, j]" s]
    by (simp add: plain_lit printed_operands asm_tables)
  then have "asm_lines [?l] s = None" for s by simp
  then have "asm_lines ([x, y, ''BLKSWX''] @ [?l]) s = None" for s
    unfolding lines_append by (cases "asm_lines [x, y, ''BLKSWX''] s") (simp_all del: asm_lines.simps)
  then show ?thesis using p by simp
qed

theorem long_drop_misprinted_witness:
  "\<exists>x y. print_stack BLKDROP2 3 16 (-1) = Some [x, y, ''BLKSWX'', ''BLKDROP 3, 16''] \<and>
     (\<forall>s. asm_lines [x, y, ''BLKSWX'', ''BLKDROP 3, 16''] s = None)"
proof -
  have "int_fits 16" "toString 3 = ''3''" "toString 16 = ''16''" by code_simp+
  then show ?thesis using long_drop_misprinted [of 3 16] by simp
qed

text \<open>
  C35: the braces of a printed contract match. When the texts of a contract that come from elsewhere do not look
  like braces, every block that the printed text opens is closed in order, over all functions.
\<close>

theorem printed_blocks_nest:
  assumes "print_contract c = Some ls" "list_all line_ok (pragmas c)"
    and "\<forall>f \<in> set (contract_functions c). texts_block (f_block f) \<and> line_ok (CHR ''.'' # f_name f)"
  shows "nests 0 (map snd ls)"
proof -
  obtain ks where "print_functions (contract_functions c) = Some ks" "ls = concat (map (\<lambda>pragma. [(0, pragma), (0, [])]) (pragmas c)) @ ks"
    using assms(1) by (auto simp: print_contract_def bind_eq_Some_conv)
  then show ?thesis using pragmas_neutral [OF assms(2)] functions_neutral assms(3) neutral_nests by blast
qed

theorem printed_blocks_nest_witness:
  "nests 0 [''.macro f'', ''PUSHCONT {'', ''IFREF {'', ''DROP2'', ''}'', ''}'', []]"
proof -
  let ?c = "\<lparr>pragmas = [], contract_functions = [\<lparr>f_take = 1, f_ret = 0, f_name = ''f'', f_type = Macro, f_block =
    CodeBlock PUSHCONT [TvmIfElse False False (CodeBlock PUSHREFCONT [Stack DROP 2 (-1) (-1)]) None 0]\<rparr>]\<rparr>"
  have "print_contract ?c = Some [(0, ''.macro f''), (0, ''PUSHCONT {''), (1, ''IFREF {''), (2, ''DROP2''), (1, ''}''), (0, ''}''), (0, [])]"
    by code_simp
  moreover have "list_all line_ok (pragmas ?c)"
    "\<forall>f \<in> set (contract_functions ?c). texts_block (f_block f) \<and> line_ok (CHR ''.'' # f_name f)" by code_simp+
  ultimately have "nests 0 (map snd [(0 :: nat, ''.macro f''), (0, ''PUSHCONT {''), (1, ''IFREF {''), (2, ''DROP2''), (1, ''}''), (0, ''}''), (0, [])])"
    by (rule printed_blocks_nest)
  then show ?thesis by simp
qed

end
