(* ===== verification/Spec2Isabelle.thy ===== *)
theory Spec2Isabelle
  imports PassesCorrect Printer
begin

text \<open>
  The optimiser and the printer of the TVM back end of the Solidity compiler,
  \<open>src/compiler/libsolidity/codegen\<close>.

  \<^bold>\<open>The program.\<close> The back end translates an annotated Solidity contract into a tree of instructions for the
  TON virtual machine (\<open>TvmAst.hpp\<close>), optimises the tree (\<open>TVMContractCompiler::optimizeCode\<close>), and prints it as
  text for the assembler (\<open>Printer\<close>). The code generator makes the tree with the functions of \<open>TvmAst.cpp\<close>, above all \<open>gen\<close>,
  which knows for every opcode how many values it takes and returns and whether it is pure. \<open>optimizeCode\<close> runs, in this order:
  \<open>DeleterCallX\<close>, \<open>LogCircuitExpander\<close>, \<open>StackOptimizer\<close>, \<open>PeepholeOptimizer\<close>, \<open>StackOptimizer\<close>, three times
  \<open>PeepholeOptimizer\<close> (the last time in the mode that rewrites constant slices), \<open>LocSquasher\<close> and \<open>SizeOptimizer\<close>.
  The peephole optimiser asks \<open>StackOpcodeSquasher\<close> for short sequences of stack permutations, the stack optimiser asks
  \<open>Simulator\<close> whether code uses a value of the stack, and both read and write texts of numbers and slices with \<open>StrUtils\<close>.

  \<^bold>\<open>The theories.\<close>
  \<^item> \<open>Prelude\<close>: exceptions as \<open>option\<close> (\<open>exc\<close>, \<open>solAssert\<close>), decimal texts, words of a text, the fact collections.
  \<^item> \<open>StrUtils\<close>, \<open>Texts\<close>: bit strings, slices in hexadecimal notation and amounts (\<open>TVMCommons.cpp\<close>, constants of
    \<open>TVMConstants.hpp\<close>), with their round trips.
  \<^item> \<open>TvmAst\<close>, \<open>TvmMake\<close>, \<open>NodeEq\<close>: the node classes as the datatypes \<open>node\<close> and \<open>code_block\<close>, \<open>operator==\<close>, \<open>gen\<close> with the
    table of opcodes, the \<open>make\<close> functions with their assertions and the \<open>is\<close> recognisers (\<open>TvmAst.hpp\<close>, \<open>TvmAst.cpp\<close>).
  \<^item> \<open>TvmSem\<close>, \<open>TvmRun\<close>, \<open>Refine\<close>, \<open>RuleLib\<close>, \<open>StackView\<close>: the meaning of trees and when one list of instructions may replace another.
  \<^item> \<open>Peephole\<close>, \<open>Peephole1\<close>, \<open>Peephole2\<close>, \<open>Peephole3\<close>, \<open>PeepholeInf\<close>, \<open>PeepholeDriver\<close>: \<open>PeepholeOptimizer.cpp\<close>, one definition
    for each rule (named \<open>r1_\<close>, \<open>r2_\<close>, \<open>inf_\<close> and so on), tried in the order of the source; \<open>updateLinesAndIndex\<close>, the loop
    \<open>optimize\<close> and \<open>endVisit\<close>. Their proofs are in \<open>Peephole1Sound\<close>, \<open>Peephole2Stack\<close>, \<open>Peephole2Sound\<close>, \<open>Peephole2Const\<close>,
    \<open>Peephole2Build\<close>, \<open>Peephole2Cond\<close>, \<open>Peephole3Sound\<close>, \<open>Peephole4Sound\<close>, \<open>PeepholeInfSound\<close>, \<open>PeepholeInfStore\<close>,
    \<open>DriverLoop\<close> and \<open>DriverPasses\<close>.
  \<^item> \<open>Squasher\<close>: \<open>StackOpcodeSquasher.cpp\<close>, the breadth-first search over permutations of nine values and its tables.
  \<^item> \<open>Tree\<close>, \<open>Passes\<close>, \<open>TreePasses\<close>: \<open>accept\<close> on trees, functions and contracts; \<open>LocSquasher\<close>, \<open>DeleterAfterRet\<close>,
    \<open>DeleterCallX\<close>, \<open>LogCircuitExpander\<close> (\<open>TvmAstVisitor.cpp\<close>), \<open>SizeOptimizer.cpp\<close>, and \<open>optimizeCode\<close>.
  \<^item> \<open>Simulator\<close>, \<open>StackOptimizer\<close>: \<open>TVMSimulator.cpp\<close> and \<open>StackOptimizer.cpp\<close> with their state as the records \<open>sim\<close> and \<open>so\<close>;
    proofs in \<open>Shift\<close>, \<open>SimulatorSound\<close> and \<open>StackOptimizerSound\<close>.
  \<^item> \<open>Printer\<close>: the visit functions of \<open>Printer\<close> (\<open>TvmAstVisitor.cpp\<close>) as lists of lines with tabs, and their theorems.
  \<^item> \<open>PassesCorrect\<close>: the theorems on the tree passes, the simulator and the stack optimiser. This theory holds those on the
    peephole optimiser, the squasher and the texts.

  \<^bold>\<open>How the code is modelled.\<close> A function that can leave by an exception, a failed \<open>solAssert\<close>, \<open>solUnimplemented\<close>,
  \<open>std::bad_cast\<close> and the like, has type \<open>'a exc\<close>, with \<open>None\<close> for the exception. Results of rules are \<open>result option exc\<close>:
  an exception, no rewrite, or the number of commands to remove and the new ones. Nodes are values; the passes that
  change nodes in place are functions from trees to trees. Indices and sizes are integers, as in the source, since \<open>-1\<close> and negative
  differences occur; texts are character lists. Line marks (\<open>Loc\<close>) stay in the lists and are skipped where the source
  skips them. The loops of the peephole driver are partial functions in the option monad: there \<open>None\<close> is a loop that never ends and
  \<open>Some None\<close> an exception. The walk of the stack optimiser has fuel, one unit for each call and for each
  instruction or update of a block; \<open>None\<close> is fuel that ran out and \<open>Some None\<close> a failed assertion, and the theorems hold for whatever
  fuel is enough. The tables of the squasher are an argument \<open>T\<close> of the rules, with \<open>tables_ok\<close>, which the tables that \<open>init\<close> builds
  satisfy. The size test in floating point of \<open>SizeOptimizer\<close> is the integer test with the same bound.

  \<^bold>\<open>The machine\<close> is not part of the repository. It is a record of functions, \<open>machine\<close>, and the locale \<open>tvm\<close> assumes of it only
  what the documentation says of the instructions that the rules mention; \<open>ref_machine\<close>, which does that and nothing else,
  interprets the locale and serves the examples. \<open>run M c s r\<close> relates code, state and outcome: falling off the end,
  \<open>RET\<close>, \<open>RETALT\<close> or an exception. The stack is an infinite sequence, since code of the compiler never reaches below the frame of
  its caller; a primitive that faults has no outcome. \<open>refines\<close> says that every visible outcome stays: the
  exception 63 of \<open>optional.get()\<close>, which the rules replace by a fault of the machine, is not visible. \<open>refines_tail\<close> is the same at the
  end of a continuation, where \<open>RET\<close> may become falling off the end. A new program may thus have outcomes where the old
  one faults, as when a range check is folded away. \<open>wfn\<close>, \<open>wf_list\<close> and \<open>wf_block\<close> describe the trees that the code generator makes: operands of
  stack instructions in range, signatures of instructions true for the machine, arguments of documented instructions readable, and
  \<open>MUL\<close> or \<open>RSHIFT\<close> without argument absent, since the rule on the two is wrong.

  \<^bold>\<open>The interfaces\<close> are locales: \<open>tvm\<close> (the machine), \<open>sound_pass\<close> (rules that may replace code keep the loop's invariant and
  its assertions), \<open>decreasing_pass\<close> (rules that decrease a weight let the loop end), \<open>peephole\<close> (a machine and the tables of the squasher),
  \<open>outcome_filter\<close> (replacing a body inside a node). They are interpreted on \<open>ref_machine\<close>, on \<open>unsquash\<close>, \<open>squashPush\<close>, the slice pass and
  \<open>optimizeAt\<close>, and on all and on the visible outcomes.

  \<^bold>\<open>What is shown.\<close>
  \<^item> Peephole optimiser: each of its rules is sound, the driver replaces exactly the matched window, keeps its own assertions, and the
    optimised block, function and contract may replace the original. The passes \<open>unsquash\<close> and \<open>squashPush\<close> and the slice mode end on
    every input. That the loop with all rules ends is not proved: no measure is known that all rules decrease.
  \<^item> Squasher: the search ends, its tables are right and complete for three steps, and \<open>recover\<close> gives a shortest sequence.
  \<^item> Simulator and stack optimiser: the commands of a successful simulation do without a segment of the stack what the code does with
    it; every rewrite of \<open>successfullyUpdate\<close> keeps all runs; all rounds on a straight-line function keep all runs; the scopes stay balanced.
    The hypotheses \<open>fit_list\<close> and \<open>fits\<close> say that instructions touch the stack as they declare and that bodies end at the depth their node
    declares; \<open>straight\<close> adds that only \<open>SETGLOB\<close> and calls change globals.
  \<^item> Tree passes: line marks, dead code, logical circuits and references to equal slices, each with the condition under which
    runs are kept; \<open>placed_block\<close> says that a return stands last in its block, \<open>stops_block\<close> that returns and throws do not go on.
    \<open>optimizeCode\<close> as a whole keeps the interface of the contract.
  \<^item> Printer: printed integers denote their values, printed stack instructions do what the instruction does, the braces match.
    \<open>asm_line\<close> is the documented reading of such lines.
  \<^item> Texts: round trips of slices, integers and amounts.
  \<^item> Where the code is wrong: \<open>MUL\<close> and \<open>RSHIFT\<close>, \<open>STIXR\<close>, slices of more than 256 bits, a return that overwrites a value, and the
    text of a long \<open>BLKDROP2\<close>, each with a proof.

  \<^bold>\<open>Not modelled.\<close> The code generator (\<open>TVMExpressionCompiler\<close>, \<open>TVMFunctionCompiler\<close>, \<open>TVMFunctionCall\<close>, \<open>TVMPusher\<close>,
  \<open>TVMStructCompiler\<close>, \<open>DictOperations\<close>, \<open>TVMContractCompiler\<close> except \<open>optimizeCode\<close>), the ABI (\<open>TVMABI\<close>) and the checks of the back end
  (\<open>TVMTypeChecker\<close>, \<open>TVMAnalyzer\<close>, \<open>TVMInlineFunctionChecker\<close>) work on the annotated Solidity tree with its types, which would have to be modelled
  first; the same holds for the parts of \<open>TVMCommons.cpp\<close> that read that tree. The front end (parser, analysis, types) is taken over from
  the Ethereum compiler. The assembler and the linker are other programs. The hash of a state in the squasher is a
  matter of speed only: the tables are keyed by the state itself.
\<close>

section \<open>The optimiser on a block\<close>



text \<open>
  C2: the slice pass is correct on a block. In the mode that rewrites constant slices, with the
  slices of the block at most 256 bits long, the result of \<open>endVisit\<close> may replace the block as in C1.
\<close>

theorem slice_block_sound:
  assumes "tvm M" "endVisit T u True b = Some (Some b')" "wf_block M mul b" "short_block b"
  shows "block_ok M mul b b'"
proof (rule endVisit_ok [where ok = short_node, OF _ assms(2,3)])
  fix l l'
  assume "block_passes T u True l = Some (Some l')" "wf_list M mul l" "list_all short_node l"
  then show "keeps M short_node mul l l'"
    by (rule block_passes_keeps [OF tvm.unsquash_short_pass [OF assms(1)] tvm.slice_pass [OF assms(1)]
          tvm.squash_short_pass [OF assms(1)]])
qed (use assms(4) in \<open>auto simp: short_block_iff list_all_iff\<close>)

theorem slice_block_sound_witness:
  "endVisit start_tables True True
     (CodeBlock PUSHCONT [PushCellOrSlice (slice ''x05''), op ''STSLICER'' [] 2]) =
     Some (Some (CodeBlock PUSHCONT [pushint ''5'', op ''STUR'' ''8'' 2])) \<and>
   block_ok ref_machine False
     (CodeBlock PUSHCONT [PushCellOrSlice (slice ''x05''), op ''STSLICER'' [] 2])
     (CodeBlock PUSHCONT [pushint ''5'', op ''STUR'' ''8'' 2])"
proof -
  let ?c = "slice ''x05''"
  let ?b = "CodeBlock PUSHCONT [PushCellOrSlice ?c, op ''STSLICER'' [] 2]"
  have run: "endVisit start_tables True True ?b =
      Some (Some (CodeBlock PUSHCONT [pushint ''5'', op ''STUR'' ''8'' 2]))"
    by code_simp
  have "doc_cell ?c = Some (VSlice ''00000101'' [])" by code_simp
  then have "wf_block ref_machine False ?b" by (simp add: ref.wfn_cell wfn_new del: wfn.simps(12))
  moreover have "short_block ?b" by code_simp
  ultimately show ?thesis using run slice_block_sound [OF ref.tvm_axioms run] by blast
qed


text \<open>
  C4: the passes before and after the rules end. \<open>optimize\<close> with \<open>unsquash\<close> and with \<open>squashPush\<close> returns
  on every list of instructions.
\<close>

theorem squash_passes_terminate:
  "(\<exists>y. optimize (unsquash u) l = Some y) \<and> (\<exists>y. optimize squashPush l = Some y)"
  using unsquash_ends.optimize_ends squash_ends.optimize_ends by blast



section \<open>The rules\<close>

text \<open>
  C11: the rules that look at any number of commands are sound. At a command of a well-formed list,
  a result of \<open>optimizeAtInf\<close> removes at least one and at most all of the commands from there on, the new
  code may replace them, and it is well formed.
\<close>

theorem optimizeAtInf_sound:
  assumes "tvm M" "tables_ok T" "optimizeAtInf T l i = Some (Some res)" "wf_list M mul l" "at_cmd l i"
  shows "sound_tail M mul (commandsFrom l i) res"
  using tvm.optimizeAtInf_sound_at [OF assms(1,3-5,2)] .

theorem optimizeAtInf_sound_witness:
  "optimizeAtInf start_tables [stk1 DROP 1, Loc ''a.sol'' 1, stk1 DROP 2] 0 = Some (Some (Result 2 [stk1 DROP 3])) \<and>
   sound_tail ref_machine False (commandsFrom [stk1 DROP 1, Loc ''a.sol'' 1, stk1 DROP 2] 0) (Result 2 [stk1 DROP 3])"
proof -
  let ?l = "[stk1 DROP 1, Loc ''a.sol'' 1, stk1 DROP 2]"
  have run: "optimizeAtInf start_tables ?l 0 = Some (Some (Result 2 [stk1 DROP 3]))" by code_simp
  have "wf_list ref_machine False ?l" "at_cmd ?l 0" by (simp_all add: stack_wf_def at_cmd_def valid_def isLoc_def)
  from run optimizeAtInf_sound [OF ref.tvm_axioms start_tables_ok run this] show ?thesis by blast
qed

text \<open>
  C12: \<open>optimizeAt1\<close> is sound. The result of a rule on one well-formed command removes that command, keeps
  every visible outcome of running it, and is well formed again.
\<close>

theorem optimizeAt1_sound:
  assumes "tvm M" "optimizeAt1 c u = Some (Some res)" "wfn M mul c"
  shows "sound M mul [c] res"
  using tvm.optimizeAt1_sound_at [OF assms] .

theorem optimizeAt1_sound_witness:
  "optimizeAt1 (TvmIfElse False False (CodeBlock PUSHCONT []) None 0) True = Some (Some (Result 1 [stk1 DROP 1])) \<and>
   sound ref_machine False [TvmIfElse False False (CodeBlock PUSHCONT []) None 0] (Result 1 [stk1 DROP 1])"
proof -
  let ?c = "TvmIfElse False False (CodeBlock PUSHCONT []) None 0"
  have run: "optimizeAt1 ?c True = Some (Some (Result 1 [stk1 DROP 1]))" by code_simp
  have "wfn ref_machine False ?c" by simp
  from run optimizeAt1_sound [OF ref.tvm_axioms run this] show ?thesis by blast
qed







text \<open>C16: \<open>optimizeAt5\<close> is sound, the rules on five consecutive commands.\<close>

theorem optimizeAt5_sound:
  assumes "tvm M" "optimizeAt5 c1 c2 c3 c4 c5 = Some (Some res)"
    and "wfn M mul c1" "wfn M mul c2" "wfn M mul c3" "wfn M mul c4" "wfn M mul c5"
  shows "sound M mul [c1, c2, c3, c4, c5] res"
  using tvm.optimizeAt5_sound_at [OF assms] .

theorem optimizeAt5_sound_witness:
  "optimizeAt5 (pushint ''1'') (PushCellOrSlice (slice ''xa'')) newc (op ''STSLICE'' [] 2) (op ''STU'' ''8'' 2) =
     Some (Some (Result 5 [PushCellOrSlice (slice ''xa01''), newc, op ''STSLICE'' [] 2])) \<and>
   sound ref_machine False [pushint ''1'', PushCellOrSlice (slice ''xa''), newc, op ''STSLICE'' [] 2, op ''STU'' ''8'' 2]
     (Result 5 [PushCellOrSlice (slice ''xa01''), newc, op ''STSLICE'' [] 2])"
proof -
  have run: "optimizeAt5 (pushint ''1'') (PushCellOrSlice (slice ''xa'')) newc (op ''STSLICE'' [] 2) (op ''STU'' ''8'' 2) =
      Some (Some (Result 5 [PushCellOrSlice (slice ''xa01''), newc, op ''STSLICE'' [] 2]))" by code_simp
  have t: "toString 1 = ''1''" "toString (int 8) = ''8''" "int_fits (int 8)" by code_simp+
  have c: "doc_cell (slice ''xa'') = Some (VSlice ''1010'' [])" by code_simp
  have wf: "wfn ref_machine False (pushint ''1'')" "wfn ref_machine False (op ''STU'' ''8'' 2)"
    using ref.wfn_push(5) [of False 1] wfn_new(28) [OF t(3)] unfolding t by blast+
  have "wfn ref_machine False newc" "wfn ref_machine False (op ''STSLICE'' [] 2)" by (simp_all add: ref.wfn_push wfn_new)
  from run optimizeAt5_sound [OF ref.tvm_axioms run wf(1) ref.wfn_cell [OF c] this wf(2)] show ?thesis by blast
qed

text \<open>\<open>optimizeAt6\<close> is sound, the rule on six consecutive commands.\<close>

lemma optimizeAt6_sound:
  assumes "tvm M" "optimizeAt6 c1 c2 c3 c4 c5 c6 = Some (Some res)"
    and "wfn M mul c1" "wfn M mul c2" "wfn M mul c3" "wfn M mul c4" "wfn M mul c5" "wfn M mul c6"
  shows "sound M mul [c1, c2, c3, c4, c5, c6] res"
  using tvm.optimizeAt6_sound_at [OF assms] .

text \<open>
  C17: \<open>squashPush\<close> is sound. At a command of a well-formed list, the compact pushes it writes may replace
  the commands it removes, and are well formed.
\<close>

theorem squashPush_sound:
  assumes "tvm M" "squashPush l i = Some (Some res)" "wf_list M mul l" "at_cmd l i"
  shows "sound_tail M mul (commandsFrom l i) res"
  using tvm.squashPush_sound_at [OF assms] .

theorem squashPush_sound_witness:
  "squashPush [stk1 PUSH_S 2, stk1 PUSH_S 0, stk1 PUSH_S 4] 0 = Some (Some (Result 3 [Stack PUSH3_S 2 2 2])) \<and>
   sound_tail ref_machine False (commandsFrom [stk1 PUSH_S 2, stk1 PUSH_S 0, stk1 PUSH_S 4] 0) (Result 3 [Stack PUSH3_S 2 2 2])"
proof -
  let ?l = "[stk1 PUSH_S 2, stk1 PUSH_S 0, stk1 PUSH_S 4]"
  have run: "squashPush ?l 0 = Some (Some (Result 3 [Stack PUSH3_S 2 2 2]))" by code_simp
  have "wf_list ref_machine False ?l" "at_cmd ?l 0" by (simp_all add: stack_wf_def at_cmd_def valid_def isLoc_def)
  from run squashPush_sound [OF ref.tvm_axioms run this] show ?thesis by blast
qed

text \<open>
  C18: \<open>unsquash\<close> is sound. Splitting a double push and unpacking opaque code and the code of a return,
  break or continue changes nothing.
\<close>

theorem unsquash_sound:
  assumes "tvm M" "unsquash u l i = Some (Some res)" "wf_list M mul l" "at_cmd l i"
  shows "sound_tail M mul (commandsFrom l i) res"
  using tvm.unsquash_sound_at [OF assms] .

theorem unsquash_sound_witness:
  "unsquash True [ReturnOrBreakOrCont 0 (CodeBlock BlockNone [stk1 DROP 1, TvmReturn False False False])] 0 =
     Some (Some (Result 1 [stk1 DROP 1, TvmReturn False False False])) \<and>
   sound_tail ref_machine False
     (commandsFrom [ReturnOrBreakOrCont 0 (CodeBlock BlockNone [stk1 DROP 1, TvmReturn False False False])] 0)
     (Result 1 [stk1 DROP 1, TvmReturn False False False])"
proof -
  let ?l = "[ReturnOrBreakOrCont 0 (CodeBlock BlockNone [stk1 DROP 1, TvmReturn False False False])]"
  have run: "unsquash True ?l 0 = Some (Some (Result 1 [stk1 DROP 1, TvmReturn False False False]))" by code_simp
  have "wf_list ref_machine False ?l" "at_cmd ?l 0" by (simp_all add: stack_wf_def at_cmd_def valid_def isLoc_def)
  from run unsquash_sound [OF ref.tvm_axioms run this] show ?thesis by blast
qed

section \<open>The driver\<close>

text \<open>
  C19: what \<open>updateLinesAndIndex\<close> writes. With a result that removes \<open>n\<close> of the commands from position
  \<open>i\<close> on, no assertion fails, and the commands of the new list are those before \<open>i\<close>, the new ones, and those after the
  \<open>n\<close> removed ones; only line marks are dropped or moved besides.
\<close>

theorem update_window:
  assumes "at_cmd l i" "removeQty res = int n" "1 \<le> n" "n \<le> length (commandsFrom l i)"
  shows "\<exists>l'. updateLinesAndIndex l i res = Some l' \<and>
    unloc l' = unloc (take (nat i) l) @ unloc (commands res) @ drop n (commandsFrom l i)"
  using update_view [OF assms] by blast

theorem update_window_witness:
  "updateLinesAndIndex [stk1 DROP 1, Loc ''a'' 1, stk1 DROP 2, newc] 0 (Result 2 [stk1 DROP 3]) =
     Some [stk1 DROP 3, Loc ''a'' 1, newc] \<and>
   (\<exists>l'. updateLinesAndIndex [stk1 DROP 1, Loc ''a'' 1, stk1 DROP 2, newc] 0 (Result 2 [stk1 DROP 3]) = Some l' \<and>
      unloc l' = unloc (take (nat 0) [stk1 DROP 1, Loc ''a'' 1, stk1 DROP 2, newc]) @ unloc [stk1 DROP 3] @
        drop 2 (commandsFrom [stk1 DROP 1, Loc ''a'' 1, stk1 DROP 2, newc] 0))"
proof -
  let ?l = "[stk1 DROP 1, Loc ''a'' 1, stk1 DROP 2, newc]"
  have "at_cmd ?l 0" by (simp add: at_cmd_def valid_def isLoc_def)
  moreover have "2 \<le> length (commandsFrom ?l 0)" by code_simp
  ultimately have "\<exists>l'. updateLinesAndIndex ?l 0 (Result 2 [stk1 DROP 3]) = Some l' \<and>
      unloc l' = unloc (take (nat 0) ?l) @ unloc [stk1 DROP 3] @ drop 2 (commandsFrom ?l 0)"
    using update_window [of ?l 0 "Result 2 [stk1 DROP 3]" 2] by simp
  moreover have "updateLinesAndIndex ?l 0 (Result 2 [stk1 DROP 3]) = Some [stk1 DROP 3, Loc ''a'' 1, newc]" by code_simp
  ultimately show ?thesis by blast
qed

text \<open>
  Where the loop goes on after a change. From the position of a command it goes back by ten commands,
  or to the first command if there are fewer, and stands on a command again.
\<close>

lemma restart_position:
  assumes "at_cmd l i"
  shows "at_cmd l (restart l i) \<and> restart l i \<le> i \<and>
    length (unloc (take (nat i) l)) =
      length (unloc (take (nat (restart l i)) l)) + min 10 (length (unloc (take (nat i) l)))"
  using restart_back [OF assms] by blast

section \<open>The squasher of stack permutations\<close>

text \<open>
  C20: the tables of the squasher are built. The breadth-first search of \<open>StackOpcodeSquasher::init\<close> comes to
  its end; every permutation in the tables has a predecessor one step nearer and the instruction that leads from there,
  and every permutation that three instructions reach is in them.
\<close>

theorem squasher_tables: "\<exists>T. squash_init = Some T \<and> tables_ok T \<and> complete3 T"
  by (rule squash_init_total)

lemma stk_run_all: "list_all2 stk_is c fs \<Longrightarrow> stk_run c t = Some (comp_all fs t)"
proof (induction c fs arbitrary: t rule: list_all2_induct)
  case (Cons n c f fs)
  then have "stk_run ([n] @ c) t = Some (comp_all (f # fs) t)"
    by (subst stk_run_append) (auto simp: stk_is_def)
  then show ?case by simp
qed simp

lemma made_run: "set es \<subseteq> set edges \<Longrightarrow> stk_run es t = Some (permuted (made es) t)"
  using made_effect [of es] stk_run_all by force

text \<open>
  C21: the squasher is right and finds a shortest sequence. For up to three instructions of the search,
  \<open>recover\<close> of the permutation they make returns instructions with the same effect on every stack, no more of them than
  there were and no fewer than any other way to make it.
\<close>

theorem squasher_shortest:
  assumes "squash_init = Some T" "set es \<subseteq> set edges" "length es \<le> 3"
  shows "\<exists>c. recover T (made es) = Some c \<and> set c \<subseteq> set edges \<and> (\<forall>t. stk_run c t = stk_run es t) \<and>
    int (length c) = steps T (made es) \<and> (\<forall>fs. set fs \<subseteq> set edges \<longrightarrow> made fs = made es \<longrightarrow> length c \<le> length fs)"
proof -
  have T: "tables_ok T" "complete3 T" using squash_init_total unfolding assms(1) by simp_all
  note least = steps_least [OF T]
  have s: "steps T (made es) \<noteq> -1" using least [OF assms(2,3)] by simp
  obtain c where c: "recover T (made es) = Some c" "int (length c) = steps T (made es)" "set c \<subseteq> set edges" "made c = made es"
    by (rule recover_ok [OF T(1) s])
  have "stk_run c t = stk_run es t" for t using made_run [OF c(3)] made_run [OF assms(2)] c(4) by simp
  moreover have "length c \<le> length fs" if "set fs \<subseteq> set edges" "made fs = made es" for fs
  proof (cases "length fs \<le> 3")
    case True
    then show ?thesis using least [OF that(1)] that(2) c(2) by simp
  next
    case False
    then show ?thesis using least [OF assms(2,3)] c(2) assms(3) by simp
  qed
  ultimately show ?thesis using c by blast
qed

theorem squasher_shortest_witness:
  "\<exists>T c. squash_init = Some T \<and> recover T (made [Stack XCHG 0 1 (-1), Stack XCHG 0 2 (-1)]) = Some c \<and> length c \<le> 2 \<and>
     (\<forall>t. stk_run c t = stk_run [Stack XCHG 0 1 (-1), Stack XCHG 0 2 (-1)] t)"
proof -
  let ?es = "[Stack XCHG 0 1 (-1), Stack XCHG 0 2 (-1)]"
  obtain T where T: "squash_init = Some T" using squash_init_total by blast
  have e: "set ?es \<subseteq> set edges" by code_simp
  from squasher_shortest [OF T this] obtain c where c: "recover T (made ?es) = Some c" "\<forall>t. stk_run c t = stk_run ?es t"
    "\<forall>fs. set fs \<subseteq> set edges \<longrightarrow> made fs = made ?es \<longrightarrow> length c \<le> length fs" by auto
  from c(3) e have "length c \<le> length ?es" by blast
  then show ?thesis using T c(1,2) by (intro exI [of _ T] exI [of _ c]) simp
qed

text \<open>
  C22: the abstract stack follows the machine. When \<open>StackState::apply\<close> accepts a well-formed stack
  instruction, running the instruction on the stack that the state describes gives the stack that the new state
  describes.
\<close>

theorem stack_state_simulates:
  assumes "apply_state n xs = (True, ys)" "stk_wfn n" "length xs = maxStackDepth"
  shows "stk_run [n] (permuted xs t) = Some (permuted ys t) \<and> length ys = maxStackDepth"
proof -
  obtain f where "stk_is n f" "\<And>t. f (permuted xs t) = permuted ys t"
    using apply_state_effect(1) [OF assms] by blast
  then show ?thesis using apply_state_effect(2) [OF assms] by (simp add: stk_is_def)
qed

theorem stack_state_simulates_witness:
  "apply_state (Stack BLKSWAP 2 1 (-1)) startState = (True, [1, 2, 0, 3, 4, 5, 6, 7, 8]) \<and>
   stk_run [Stack BLKSWAP 2 1 (-1)] (permuted startState (\<lambda>k. VInt (int k))) =
     Some (permuted [1, 2, 0, 3, 4, 5, 6, 7, 8] (\<lambda>k. VInt (int k)))"
proof -
  have run: "apply_state (Stack BLKSWAP 2 1 (-1)) startState = (True, [1, 2, 0, 3, 4, 5, 6, 7, 8])" by code_simp
  have "stk_wfn (Stack BLKSWAP 2 1 (-1))" by code_simp
  from run stack_state_simulates [OF run this length_start] show ?thesis by blast
qed

section \<open>Positions, equality and jumps\<close>

text \<open>
  What \<open>nextCommandLine\<close> finds. From a command of the list it returns \<open>-1\<close> when only line marks follow;
  otherwise a later position that holds a command, and the commands from there on are those after the present one.
\<close>

lemma next_command:
  assumes "at_cmd l i"
  shows "(nextCommandLine l i = -1 \<and> commandsFrom l i = [l ! nat i]) \<or>
    (at_cmd l (nextCommandLine l i) \<and> i < nextCommandLine l i \<and>
     commandsFrom l i = l ! nat i # commandsFrom l (nextCommandLine l i))"
  using next_step(3,4) [OF assms] commandsFrom_at [OF assms] by fastforce

text \<open>
  C23: equal nodes run alike. When \<open>operator==\<close> accepts two well-formed blocks, which the optimiser takes as
  leave to merge the branches of a conditional, their instructions have the same outcomes from every state.
\<close>

theorem equal_blocks_run_alike:
  assumes "tvm M" "block_eq b b'" "wf_block M mul b" "wf_block M mul b'"
  shows "run M (instructions b) s r \<longleftrightarrow> run M (instructions b') s r"
  using tvm.node_eq_run(2) [OF assms] .

theorem equal_blocks_run_alike_witness:
  "block_eq (CodeBlock PUSHCONT [pushint ''-1'']) (CodeBlock PUSHCONT [GenOpcode ''TRUE'' [] [] 0 1 True]) \<and>
   (\<forall>s r. run ref_machine [pushint ''-1''] s r \<longleftrightarrow> run ref_machine [GenOpcode ''TRUE'' [] [] 0 1 True] s r)"
proof -
  let ?t = "GenOpcode ''TRUE'' [] [] 0 1 True"
  have e: "block_eq (CodeBlock PUSHCONT [pushint ''-1'']) (CodeBlock PUSHCONT [?t])" by code_simp
  have "wfn ref_machine False (pushint ''-1'')" "wfn ref_machine False ?t"
    using ref.wfn_push(5) [of False "-1"] ref.wfn_push by (simp_all add: toString_m1 del: toString_lits)
  then have "wf_block ref_machine False (CodeBlock PUSHCONT [pushint ''-1''])"
    "wf_block ref_machine False (CodeBlock PUSHCONT [?t])" by simp_all
  from e equal_blocks_run_alike [OF ref.tvm_axioms e this] show ?thesis by simp
qed

text \<open>
  C24: what \<open>hasRetOrJmp\<close> promises. A well-formed block in which it finds nothing never leaves the
  continuation it stands in by \<open>RET\<close>.
\<close>

theorem no_ret_or_jmp:
  assumes "\<not> blockHasRetOrJmp b" "wf_block M mul b" "run M (instructions b) s r"
  shows "\<not> is_ret r"
  by (rule no_ret(2) [OF assms])

theorem no_ret_or_jmp_witness:
  "\<not> blockHasRetOrJmp (CodeBlock PUSHCONT [stk1 DROP 1]) \<and>
   run ref_machine [stk1 DROP 1] \<lparr>stk = (\<lambda>_. VNull), glb = (\<lambda>_. VNull), wld = ()\<rparr>
     (Norm \<lparr>stk = (\<lambda>_. VNull), glb = (\<lambda>_. VNull), wld = ()\<rparr>) \<and>
   \<not> is_ret (Norm \<lparr>stk = (\<lambda>_. VNull), glb = (\<lambda>_. VNull), wld = ()\<rparr>)"
proof -
  let ?b = "CodeBlock PUSHCONT [stk1 DROP 1]" and ?s = "\<lparr>stk = (\<lambda>_. VNull), glb = (\<lambda>_. VNull), wld = ()\<rparr>"
  have b: "\<not> blockHasRetOrJmp ?b" by code_simp
  have w: "wf_block ref_machine False ?b" by (simp add: stack_wf_def)
  have r: "run ref_machine (instructions ?b) ?s (Norm ?s)"
    by (simp add: run_Cons_iff run1_Stack stack_exec_def stack_ok_def stack_fun_def sdrop_def norm_def set_stk_def)
  from b r no_ret_or_jmp [OF b w r] show ?thesis by simp
qed

section \<open>Numbers, bits and slices\<close>

text \<open>
  C25: the hexadecimal slice notation is lossless. For every text of bits, \<open>binaryStringToSlice\<close>
  succeeds, and \<open>toBitString\<close> of the slice written with the leading \<open>x\<close> gives the bits back.
\<close>

theorem slice_notation_roundtrip:
  assumes "bitstring s"
  shows "\<exists>h. binaryStringToSlice s = Some h \<and> sliceToBitString (CHR ''x'' # h) = Some s"
  using slice_roundtrip_aux [OF assms] by (auto simp: sliceToBitString_def)

theorem slice_notation_roundtrip_witness:
  "bitstring ''10110'' \<and>
   (\<exists>h. binaryStringToSlice ''10110'' = Some h \<and> sliceToBitString (CHR ''x'' # h) = Some ''10110'')"
proof -
  have "bitstring ''10110''" by simp
  from this slice_notation_roundtrip [OF this] show ?thesis by blast
qed

text \<open>
  C26: bits and integers. \<open>toBitString\<close> of an integer that fits \<open>n\<close> bits, or is the negative of one, has
  length \<open>n\<close>, and \<open>toBigint\<close> reads it as the integer modulo \<open>2 ^ n\<close>; in the other direction no bit is lost.
\<close>

theorem integer_bits_roundtrip:
  assumes "- (2 ^ n) \<le> v" "v < 2 ^ n" "bitstring s"
  shows "length (toBitString v n) = n \<and> toBigint (toBitString v n) = v mod 2 ^ n \<and>
    toBitString (toBigint s) (length s) = s"
  using toBigint_toBitString [OF assms(1)] toBitString_toBigint [OF assms(3)] by simp

theorem integer_bits_roundtrip_witness:
  "toBitString (-3) 4 = ''1101'' \<and> toBigint (toBitString (-3) 4) = (-3) mod 2 ^ 4 \<and>
   toBitString (toBigint ''0101'') (length ''0101'') = ''0101''"
proof -
  have "toBitString (-3) 4 = ''1101''" by code_simp
  then show ?thesis using integer_bits_roundtrip [of 4 "-3" "''0101''"] by simp
qed

text \<open>
  Joining slices. \<open>unitSlices\<close> of two slices whose bits fit a cell together is a slice with the bits of
  the first and then those of the second; when they do not fit, there is no result, and no exception either.
\<close>

lemma unit_slices:
  assumes "sliceToBitString a = Some x" "sliceToBitString b = Some y"
  shows "if length x + length y \<le> CellBitLength
    then \<exists>h. unitSlices a b = Some (Some h) \<and> sliceToBitString h = Some (x @ y)
    else unitSlices a b = Some None"
proof -
  have "bitstring x" "bitstring y" using assms bitstring_slice by blast+
  then show ?thesis
    using unit_total [of x y] assms by (auto simp: unitSlices_def unitBitStringToHex_def)
qed

text \<open>
  \<open>toBinString\<close> writes a nonnegative integer in binary without leading zeros, and \<open>toBigint\<close> reads it
  back; a negative one raises an exception.
\<close>

lemma bin_string:
  "if 0 \<le> v then \<exists>s. toBinString v = Some s \<and> toBigint s = v \<and> (s = [] \<or> hd s = CHR ''1'')
   else toBinString v = None"
proof (cases "0 < v")
  case True
  then have "bin_digits v \<noteq> []" by (simp add: bin_digits.simps [of v])
  then show ?thesis
    using True toBinString_head [OF True] toBigint_bin_digits [of v] by (simp add: toBinString_def hd_rev)
qed (auto simp: toBinString_def toBigint_def)

text \<open>
  C27: the encoding of amounts. An amount below \<open>2 ^ 119\<close> becomes four bits with a number \<open>k\<close> and then the
  amount in \<open>k\<close> bytes, as few as hold it; for a larger one the assertion fails.
\<close>

theorem amount_encoding:
  assumes "0 \<le> v"
  shows "if v < 2 ^ 119
    then \<exists>p b. tonsToBinaryString v = Some (p @ b) \<and> length p = 4 \<and> int (length b) = 8 * toBigint p \<and>
      toBigint b = v \<and> (\<forall>m. v < 2 ^ (8 * m) \<longrightarrow> toBigint p \<le> int m)
    else tonsToBinaryString v = None"
proof (cases "v < 2 ^ 119")
  case True
  obtain k b where k: "tonsToBinaryString v = Some (rev (low_bits (int k) 4) @ b)" "k < 16" "length b = 8 * k"
    "toBigint b = v" "k = (length (bin_digits v) + 7) div 8" by (rule tons_encode [OF assms True])
  have p: "toBigint (rev (low_bits (int k) 4)) = int k" using k(2) toBigint_low_bits [of "int k" 4] by simp
  have "k \<le> m" if "v < 2 ^ (8 * m)" for m
    using that length_bin_digits [OF assms, of "8 * m"] k(5) by linarith
  then have "\<forall>m. v < 2 ^ (8 * m) \<longrightarrow> toBigint (rev (low_bits (int k) 4)) \<le> int m" using p by simp
  moreover have "int (length b) = 8 * toBigint (rev (low_bits (int k) 4))" using p k(3) by simp
  ultimately show ?thesis using k(1,4) unfolding if_P [OF True]
    by (intro exI [of _ "rev (low_bits (int k) 4)"] exI [of _ b] conjI) simp_all
qed (use tons_too_big [of v] in simp)

theorem amount_encoding_witness:
  "tonsToBinaryString 300 = Some (''0010'' @ ''0000000100101100'') \<and>
   (\<exists>p b. tonsToBinaryString 300 = Some (p @ b) \<and> length p = 4 \<and> int (length b) = 8 * toBigint p \<and> toBigint b = 300)"
proof -
  have "tonsToBinaryString 300 = Some (''0010'' @ ''0000000100101100'')" by code_simp
  moreover have "\<exists>p b. tonsToBinaryString 300 = Some (p @ b) \<and> length p = 4 \<and> int (length b) = 8 * toBigint p \<and> toBigint b = 300"
    using amount_encoding [of 300] by fastforce
  ultimately show ?thesis by blast
qed

section \<open>What the rules do not keep\<close>

text \<open>
  C36: a rule that changes the meaning. \<open>MUL\<close> and \<open>RSHIFT\<close> without an argument become \<open>MULRSHIFT\<close>, because the
  test for an empty argument compares with one blank. The two programs differ: from 64, 2, 3 (on top) the
  first shifts 64 by 6 bits, the second shifts 128 by 3. This is why well-formed code has \<open>MUL\<close> or that \<open>RSHIFT\<close> but not both.
\<close>

theorem mul_rshift_unsound:
  "optimizeAt2 (op ''MUL'' [] 2) (op ''RSHIFT'' [] 2) = Some (Some (Result 2 [GenOpcode ''MULRSHIFT'' [] [] 3 1 False])) \<and>
   \<not> refines ref_machine [op ''MUL'' [] 2, op ''RSHIFT'' [] 2] [GenOpcode ''MULRSHIFT'' [] [] 3 1 False]"
proof
  let ?t = "spush (VInt 3) (spush (VInt 2) (spush (VInt 64) (\<lambda>_. VNull)))"
  let ?s = "\<lambda>t. \<lparr>stk = t, glb = (\<lambda>_. VNull), wld = ()\<rparr>"
  show "optimizeAt2 (op ''MUL'' [] 2) (op ''RSHIFT'' [] 2) =
      Some (Some (Result 2 [GenOpcode ''MULRSHIFT'' [] [] 3 1 False]))" by code_simp
  have m: "run ref_machine [op ''MUL'' [] 2, op ''RSHIFT'' [] 2] (?s ?t) (Norm (?s (spush (VInt 1) (\<lambda>_. VNull))))"
    by (simp add: run_Cons_iff run1_GenOpcode ref.gen_sem gen_typed_def prim_defs stack_calc norm_def set_stk_def
        int257_def rshift_def shift_arg_def opt_arg_def)
  have "spush (VInt 1) t \<noteq> spush (VInt 16) t'" for t t' by (auto dest: fun_cong [of _ _ 0] simp: spush_def)
  then have r: "\<not> run ref_machine [GenOpcode ''MULRSHIFT'' [] [] 3 1 False] (?s ?t) (Norm (?s (spush (VInt 1) (\<lambda>_. VNull))))"
    by (simp add: run_Cons_iff run1_GenOpcode ref_machine_def doc_lookup gen_typed_def prim_defs stack_calc norm_def set_stk_def
        int257_def rshift_def shift_arg_def opt_arg_def)
  show "\<not> refines ref_machine [op ''MUL'' [] 2, op ''RSHIFT'' [] 2] [GenOpcode ''MULRSHIFT'' [] [] 3 1 False]"
    using refinesD [OF _ visible_simps(1) m] r by blast
qed

text \<open>
  C37: a rule that raises. When the optimiser meets \<open>NEWC\<close>, a command that pushes one value, and \<open>STIXR\<close>,
  whatever its argument, it asks for the instruction \<open>STIX\<close>, which the table of opcodes does not have, and the compiler stops with an exception.
\<close>

theorem stixr_raises:
  assumes "isSimpleCommand c"
  shows "optimizeAt3 newc c (op ''STIXR'' a 3) = None"
proof -
  have "r3_newc_rev newc c (op ''STIXR'' a 3) = None"
    using assms gen_STIX [of a] by (simp add: r3_newc_rev_def starts_with_def ends_with_def)
  then show ?thesis by (simp add: optimizeAt3_def rules3_def orelse_def)
qed

theorem stixr_raises_witness: "optimizeAt3 newc (pushint ''7'') (op ''STIXR'' [] 3) = None"
  by (rule stixr_raises) simp

text \<open>
  C38: the slice pass on long slices. A slice of 300 bits with leading zeros becomes \<open>PUSHINT 5\<close> and
  \<open>STUR 300\<close>, and no machine stores an integer of more than 256 bits: where the original stores the slice, the new code faults.
  This is why C2 asks for slices of at most 256 bits.
\<close>

theorem long_slice_unsound:
  "optimizeSlice (PushCellOrSlice (slice (''x'' @ replicate 74 (CHR ''0'') @ ''5''))) (Some (op ''STSLICER'' [] 2)) =
     Some (Some (Result 2 [pushint ''5'', op ''STUR'' ''300'' 2])) \<and>
   \<not> refines ref_machine [PushCellOrSlice (slice (''x'' @ replicate 74 (CHR ''0'') @ ''5'')), op ''STSLICER'' [] 2]
       [pushint ''5'', op ''STUR'' ''300'' 2]"
proof
  let ?c = "slice (''x'' @ replicate 74 (CHR ''0'') @ ''5'')" and ?b = "replicate 297 (CHR ''0'') @ ''101''"
  let ?s = "\<lparr>stk = spush (VBuilder [] []) (\<lambda>_. VNull), glb = (\<lambda>_. VNull), wld = ()\<rparr>"
  let ?r = "Norm (set_stk ?s (spush (VBuilder ?b []) (\<lambda>_. VNull)))"
  show "optimizeSlice (PushCellOrSlice ?c) (Some (op ''STSLICER'' [] 2)) =
      Some (Some (Result 2 [pushint ''5'', op ''STUR'' ''300'' 2]))" by code_simp
  have d: "doc_cell ?c = Some (VSlice ?b [])" by code_simp
  have t: "strToInt ''300'' = Some 300" by code_simp
  have "run ref_machine [PushCellOrSlice ?c, op ''STSLICER'' [] 2] ?s ?r"
    using ref.cell_doc [OF d] by (simp add: run_Cons_iff run1_GenOpcode run1_PushCell ref.gen_sem gen_typed_def prim_defs
        stack_calc norm_def st_slice_def st_bits_def mk_builder_def)
  moreover have "\<not> run ref_machine [pushint ''5'', op ''STUR'' ''300'' 2] ?s ?r"
    by (simp add: run_Cons_iff run1_GenOpcode ref_machine_def doc_lookup nat_arg_def nonneg_arg_def t norm_def gen_typed_def
        prim_defs st_u_def split: val.splits)
  ultimately show "\<not> refines ref_machine [PushCellOrSlice ?c, op ''STSLICER'' [] 2] [pushint ''5'', op ''STUR'' ''300'' 2]"
    using refinesD visible_simps(1) by blast
qed

end
